(* ===== verification/Prelude.thy ===== *)
theory Prelude
  imports Main "HOL-Library.Word" "HOL-Library.AList"
begin

text \<open>
  Shared material of the ScarletCoin development: bytes, exceptions as values and the
  sequencing of fallible calls, little-endian and big-endian integers, and the association
  lists that stand for SQLite tables and Python dictionaries.

  A Python exception is a value of \<open>exn\<close>, one constructor per exception class the code raises
  or catches; the message is kept as a short string without the interpolated values. A call
  that may raise has type \<open>'a result\<close>, with \<open>Inl\<close> for the exception. \<open>Nonterminating\<close> is not an
  exception of the source: it is the value of a loop that ran out of the fuel the model gives
  it, and the theorems that claim a result show that it does not arise.
\<close>

type_synonym byte = "8 word"
type_synonym bytes = "byte list"

datatype exn =
    SerializationError string
  | TransactionError string
  | BlockError string
  | ScriptError string
  | AuxPoWError string
  | InvalidKeyError string
  | InvalidSignatureError string
  | ValueError string
  | StructError
  | OverflowError
  | ZeroDivisionError
  | IndexError
  | KeyError
  | ValidationError string
  | PrematureBlockError string
  | MissingInputError string
  | MempoolError string
  | ConnectError bytes string
  | StorageError string
  | Base58Error string
  | Bip32Error string
  | MnemonicError string
  | InsufficientFundsError string
  | ProtocolError string
  | RuntimeError string
  | PeerDisconnected string
  | RpcClientError string
  | WalletError string
  | AssertionError
  | Nonterminating

type_synonym 'a result = "exn + 'a"

text \<open>The class hierarchy, as far as the \<^verbatim>\<open>except\<close> clauses of the source look at it.\<close>

fun is_ValueError :: "exn \<Rightarrow> bool" where
  "is_ValueError (SerializationError _) = True"
| "is_ValueError (TransactionError _) = True"
| "is_ValueError (BlockError _) = True"
| "is_ValueError (ScriptError _) = True"
| "is_ValueError (AuxPoWError _) = True"
| "is_ValueError (InvalidKeyError _) = True"
| "is_ValueError (InvalidSignatureError _) = True"
| "is_ValueError (ValueError _) = True"
| "is_ValueError (Base58Error _) = True"
| "is_ValueError (Bip32Error _) = True"
| "is_ValueError (MnemonicError _) = True"
| "is_ValueError (InsufficientFundsError _) = True"
| "is_ValueError _ = False"

fun is_ValidationError :: "exn \<Rightarrow> bool" where
  "is_ValidationError (ValidationError _) = True"
| "is_ValidationError (PrematureBlockError _) = True"
| "is_ValidationError (MissingInputError _) = True"
| "is_ValidationError (MempoolError _) = True"
| "is_ValidationError (ConnectError _ _) = True"
| "is_ValidationError _ = False"

fun exn_message :: "exn \<Rightarrow> string" where
  "exn_message (SerializationError m) = m"
| "exn_message (TransactionError m) = m"
| "exn_message (BlockError m) = m"
| "exn_message (ScriptError m) = m"
| "exn_message (AuxPoWError m) = m"
| "exn_message (InvalidKeyError m) = m"
| "exn_message (InvalidSignatureError m) = m"
| "exn_message (ValueError m) = m"
| "exn_message (ValidationError m) = m"
| "exn_message (PrematureBlockError m) = m"
| "exn_message (MissingInputError m) = m"
| "exn_message (MempoolError m) = m"
| "exn_message (ConnectError _ m) = m"
| "exn_message (StorageError m) = m"
| "exn_message (Base58Error m) = m"
| "exn_message (Bip32Error m) = m"
| "exn_message (MnemonicError m) = m"
| "exn_message (InsufficientFundsError m) = m"
| "exn_message (ProtocolError m) = m"
| "exn_message (RuntimeError m) = m"
| "exn_message (PeerDisconnected m) = m"
| "exn_message (RpcClientError m) = m"
| "exn_message (WalletError m) = m"
| "exn_message _ = []"

named_theorems result_simps \<open>inversion of sequenced fallible calls\<close>
named_theorems codec_simps \<open>what a reader accepts, and what a writer emits\<close>
named_theorems eval_simps \<open>unfolding rules used to evaluate closed terms\<close>

subsection \<open>Sequencing\<close>

definition bnd :: "'e + 'a \<Rightarrow> ('a \<Rightarrow> 'e + 'b) \<Rightarrow> 'e + 'b" where
  "bnd m f = (case m of Inl e \<Rightarrow> Inl e | Inr x \<Rightarrow> f x)"

definition ensure :: "bool \<Rightarrow> 'e \<Rightarrow> 'e + unit" where
  "ensure b e = (if b then Inr () else Inl e)"

fun mapR :: "('a \<Rightarrow> 'e + 'b) \<Rightarrow> 'a list \<Rightarrow> 'e + 'b list" where
  "mapR f [] = Inr []"
| "mapR f (x # xs) = bnd (f x) (\<lambda>y. bnd (mapR f xs) (\<lambda>ys. Inr (y # ys)))"

fun foldR :: "('a \<Rightarrow> 's \<Rightarrow> 'e + 's) \<Rightarrow> 'a list \<Rightarrow> 's \<Rightarrow> 'e + 's" where
  "foldR f [] s = Inr s"
| "foldR f (x # xs) s = bnd (f x s) (foldR f xs)"

lemma bnd_simps [simp]:
  "bnd (Inl e) f = Inl e"
  "bnd (Inr x) f = f x"
  by (simp_all add: bnd_def)

lemma bnd_eq_Inr [result_simps]:
  "bnd m f = Inr y \<longleftrightarrow> (\<exists>x. m = Inr x \<and> f x = Inr y)"
  by (cases m) auto

lemma bnd_eq_Inl [result_simps]:
  "bnd m f = Inl e \<longleftrightarrow> m = Inl e \<or> (\<exists>x. m = Inr x \<and> f x = Inl e)"
  by (cases m) auto

text \<open>A guard that raises, and a lookup that raises when it finds nothing.\<close>

lemma guard_eq_Inr [result_simps]: "(if b then Inl e else m) = Inr y \<longleftrightarrow> \<not> b \<and> m = Inr y"
  by auto

lemma lookup_eq_Inr [result_simps]:
  "(case m of None \<Rightarrow> Inl e | Some x \<Rightarrow> f x) = Inr y \<longleftrightarrow> (\<exists>x. m = Some x \<and> f x = Inr y)"
  by (cases m) auto

lemma bnd_assoc: "bnd (bnd m f) g = bnd m (\<lambda>x. bnd (f x) g)"
  by (cases m) auto

lemma ensure_simps [simp]:
  "ensure True e = Inr ()"
  "ensure False e = Inl e"
  by (simp_all add: ensure_def)

lemma ensure_eq_Inr [simp]: "ensure b e = Inr u \<longleftrightarrow> b"
  by (auto simp: ensure_def)

lemma ensure_eq_Inl [simp]: "ensure b e = Inl e' \<longleftrightarrow> \<not> b \<and> e' = e"
  by (auto simp: ensure_def)

lemma foldR_append: "foldR f (xs @ ys) s = bnd (foldR f xs s) (foldR f ys)"
  by (induction xs arbitrary: s) (auto simp: bnd_def split: sum.split)

lemma foldR_invariant:
  assumes "foldR f xs s = Inr s'" and "P s"
    and "\<And>x s s'. x \<in> set xs \<Longrightarrow> P s \<Longrightarrow> f x s = Inr s' \<Longrightarrow> P s'"
  shows "P s'"
  using assms by (induction xs arbitrary: s) (auto simp: result_simps)

lemma mapR_length: "mapR f xs = Inr ys \<Longrightarrow> length ys = length xs"
  by (induction xs arbitrary: ys) (auto simp: result_simps)

lemma mapR_all: "mapR f xs = Inr ys \<longleftrightarrow> list_all2 (\<lambda>x y. f x = Inr y) xs ys"
  by (induction xs arbitrary: ys) (auto simp: result_simps list_all2_Cons1)

subsection \<open>Integers as bytes\<close>

text \<open>
  \<open>int.from_bytes\<close> and \<open>int.to_bytes\<close>; \<open>to_le n\<close> keeps the low \<open>n\<close> bytes, and the callers that
  raise on a value that does not fit check it first, as \<open>struct.pack\<close> does.
\<close>

fun from_le :: "bytes \<Rightarrow> int" where
  "from_le [] = 0"
| "from_le (b # bs) = uint b + 256 * from_le bs"

fun to_le :: "nat \<Rightarrow> int \<Rightarrow> bytes" where
  "to_le 0 v = []"
| "to_le (Suc n) v = word_of_int (v mod 256) # to_le n (v div 256)"

definition from_be :: "bytes \<Rightarrow> int" where
  "from_be bs = from_le (rev bs)"

definition to_be :: "nat \<Rightarrow> int \<Rightarrow> bytes" where
  "to_be n v = rev (to_le n v)"

definition fits :: "nat \<Rightarrow> int \<Rightarrow> bool" where
  "fits n v \<longleftrightarrow> 0 \<le> v \<and> v < 256 ^ n"

lemma length_to_le [simp]: "length (to_le n v) = n"
  by (induction n arbitrary: v) auto

lemma to_le_eq_Nil [simp]: "to_le n v = [] \<longleftrightarrow> n = 0"
  by (cases n) auto

lemma length_to_be [simp]: "length (to_be n v) = n"
  by (simp add: to_be_def)

lemma to_le_numeral [eval_simps]:
  "to_le (numeral k) v = word_of_int (v mod 256) # to_le (pred_numeral k) (v div 256)"
  "to_le (Suc n) v = word_of_int (v mod 256) # to_le n (v div 256)"
  by (simp_all add: numeral_eq_Suc)

lemma uint_byte_bounds: "0 \<le> uint (b :: byte)" "uint (b :: byte) < 256"
  using uint_lt2p [of b] by simp_all

lemma from_le_nonneg [simp]: "0 \<le> from_le bs"
  by (induction bs) (auto simp: uint_byte_bounds)

lemma from_le_less: "from_le bs < 256 ^ length bs"
proof (induction bs)
  case Nil
  then show ?case by simp
next
  case (Cons b bs)
  then have "256 * (from_le bs + 1) \<le> 256 * 256 ^ length bs"
    by simp
  moreover have "uint b < 256"
    by (rule uint_byte_bounds)
  ultimately show ?case by simp
qed

lemma fits_from_le [simp]: "fits (length bs) (from_le bs)"
  by (simp add: fits_def from_le_less)

lemma from_le_to_le: "from_le (to_le n v) = v mod 256 ^ n"
proof (induction n arbitrary: v)
  case 0
  then show ?case by simp
next
  case (Suc n)
  have "uint (word_of_int (v mod 256) :: byte) = v mod 256"
    by (simp add: uint_word_of_int)
  then show ?case
    using Suc by (simp add: zmod_zmult2_eq)
qed

lemma from_le_to_le_fits [simp]: "fits n v \<Longrightarrow> from_le (to_le n v) = v"
  by (simp add: from_le_to_le fits_def)

lemma to_le_from_le [simp]: "to_le (length bs) (from_le bs) = bs"
proof (induction bs)
  case Nil
  then show ?case by simp
next
  case (Cons b bs)
  have "(uint b + 256 * from_le bs) mod 256 = uint b"
    using uint_byte_bounds [of b] by simp
  moreover have "(uint b + 256 * from_le bs) div 256 = from_le bs"
    using uint_byte_bounds [of b] by simp
  ultimately show ?case
    using Cons by simp
qed

lemma to_le_from_le': "length bs = n \<Longrightarrow> to_le n (from_le bs) = bs"
  using to_le_from_le by blast

lemma to_le_inject: "fits n v \<Longrightarrow> fits n w \<Longrightarrow> to_le n v = to_le n w \<longleftrightarrow> v = w"
  by (metis from_le_to_le_fits)

declare to_le.simps(2) [simp del]

lemma to_le_add: "to_le (n + m) v = to_le n v @ to_le m (v div 256 ^ n)"
proof (induction n arbitrary: v)
  case 0
  then show ?case by simp
next
  case (Suc n)
  have "v div 256 div 256 ^ n = v div 256 ^ Suc n"
    by (simp add: zdiv_zmult2_eq)
  then show ?case
    using Suc by (simp add: to_le.simps(2))
qed

lemma to_le_zero: "to_le n 0 = replicate n 0"
  by (induction n) (simp_all add: to_le.simps(2))

lemma to_le_fits_Suc: "fits n v \<Longrightarrow> to_le (Suc n) v = to_le n v @ [0]"
  using to_le_add [of n 1 v] by (simp add: fits_def to_le_zero)

lemma from_le_append: "from_le (xs @ ys) = from_le xs + 256 ^ length xs * from_le ys"
  by (induction xs) (auto simp: algebra_simps)

subsection \<open>Tables\<close>

text \<open>
  A SQLite table with a primary key, or a Python dictionary, is an association list.
  \<open>AList.update\<close> is \<open>INSERT OR REPLACE\<close>, \<open>AList.delete\<close> is \<open>DELETE\<close>, \<open>map_of\<close> is the lookup. The
  invariant of every table is that its keys are distinct.
\<close>

abbreviation keys_distinct :: "('k \<times> 'v) list \<Rightarrow> bool" where
  "keys_distinct t \<equiv> distinct (map fst t)"

text \<open>The sum of a column.\<close>

definition table_sum :: "('v \<Rightarrow> int) \<Rightarrow> ('k \<times> 'v) list \<Rightarrow> int" where
  "table_sum f t = sum_list (map (f \<circ> snd) t)"

lemma table_sum_simps [simp]:
  "table_sum f [] = 0"
  "table_sum f (kv # t) = f (snd kv) + table_sum f t"
  by (simp_all add: table_sum_def)

lemma map_of_update [simp]:
  "map_of (AList.update k v t) k' = (if k' = k then Some v else map_of t k')"
  by (simp add: update_conv')

lemma map_of_delete [simp]:
  "map_of (AList.delete k t) k' = (if k' = k then None else map_of t k')"
  by (simp add: delete_conv')

lemma keys_distinct_update [simp]: "keys_distinct t \<Longrightarrow> keys_distinct (AList.update k v t)"
  by (rule distinct_update)

lemma keys_distinct_delete [simp]: "keys_distinct t \<Longrightarrow> keys_distinct (AList.delete k t)"
  by (rule distinct_delete)

lemma map_of_rev_distinct: "keys_distinct t \<Longrightarrow> map_of (rev t) = map_of t"
  by (subst map_of_inject_set) (simp_all flip: rev_map)

lemma delete_fresh: "map_of t k = None \<Longrightarrow> AList.delete k t = t"
  by (simp add: delete_id map_of_eq_None_iff)

lemma table_sum_delete:
  assumes "keys_distinct t"
  shows "table_sum f (AList.delete k t) =
    table_sum f t - (case map_of t k of None \<Rightarrow> 0 | Some v \<Rightarrow> f v)"
  using assms
proof (induction t)
  case Nil
  then show ?case by simp
next
  case (Cons kv t)
  then have "map_of t (fst kv) = None"
    by (simp add: map_of_eq_None_iff)
  with Cons show ?case
    by (auto simp: delete_fresh split: option.splits)
qed

lemma table_sum_update:
  assumes "keys_distinct t"
  shows "table_sum f (AList.update k v t) =
    table_sum f t + f v - (case map_of t k of None \<Rightarrow> 0 | Some w \<Rightarrow> f w)"
  using assms
proof (induction t)
  case Nil
  then show ?case by simp
next
  case (Cons kv t)
  then show ?case
    by (cases kv) (auto split: option.splits)
qed

lemma table_sum_nonneg:
  "(\<And>k v. (k, v) \<in> set t \<Longrightarrow> 0 \<le> f v) \<Longrightarrow> 0 \<le> table_sum f t"
proof (induction t)
  case Nil
  then show ?case by simp
next
  case (Cons kv t)
  have "0 \<le> table_sum f t"
    using Cons.prems by (intro Cons.IH) auto
  moreover have "0 \<le> f (snd kv)"
    using Cons.prems [of "fst kv" "snd kv"] by simp
  ultimately show ?case by simp
qed

lemma table_sum_mono:
  assumes "keys_distinct t" and "keys_distinct u"
    and "map_of t \<subseteq>\<^sub>m map_of u" and "\<And>k v. (k, v) \<in> set u \<Longrightarrow> 0 \<le> f v"
  shows "table_sum f t \<le> table_sum f u"
  using assms
proof (induction t arbitrary: u)
  case Nil
  then show ?case by (simp add: table_sum_nonneg)
next
  case (Cons kv t)
  obtain k v where kv: "kv = (k, v)" by (cases kv)
  have fresh: "map_of t k = None"
    using Cons.prems(1) kv by (simp add: map_of_eq_None_iff)
  have at_k: "map_of u k = Some v"
    using Cons.prems(3) kv by (auto simp: map_le_def dom_def)
  have "table_sum f t \<le> table_sum f (AList.delete k u)"
  proof (rule Cons.IH)
    show "map_of t \<subseteq>\<^sub>m map_of (AList.delete k u)"
      using Cons.prems(3) kv fresh by (auto simp: map_le_def dom_def split: if_splits)
    show "0 \<le> f v'" if "(k', v') \<in> set (AList.delete k u)" for k' v'
      using that Cons.prems(4) [of k' v'] by (auto simp: AList.delete_eq)
  qed (use Cons.prems in simp_all)
  then show ?case
    using at_k Cons.prems(2) kv by (simp add: table_sum_delete)
qed

end
