(* ===== verification/Hashing.thy ===== *)
theory Hashing
  imports Prelude
begin

text \<open>
  \<^verbatim>\<open>crypto/hashing.py\<close> and the verifying half of \<^verbatim>\<open>crypto/keys.py\<close>.

  The code gets its primitives from outside the repository: SHA-256 from the standard library's
  \<^verbatim>\<open>hashlib\<close>, point decoding and ECDSA from the \<^verbatim>\<open>cryptography\<close> package. They are the fields of the
  record \<open>crypto\<close>, an argument of every definition that hashes or verifies, so that the theorems
  hold for any choice of them; the only law any theorem asks for is that a digest has 32 bytes,
  the locale \<open>digest32\<close>. The constant \<open>sha256_impl\<close> is SHA-256 itself (FIPS 180-4, on 32-bit
  words), and it satisfies the law.
\<close>

unbundle bit_operations_syntax

section \<open>Primitives\<close>

record crypto =
  sha256_fn :: "bytes \<Rightarrow> bytes"
  on_curve :: "bytes \<Rightarrow> bool"
  ecdsa_verify :: "bytes \<Rightarrow> int \<Rightarrow> int \<Rightarrow> bytes \<Rightarrow> bool"

definition PUBKEY_HASH_LENGTH :: nat where
  "PUBKEY_HASH_LENGTH = 20"

definition sha256 :: "crypto \<Rightarrow> bytes \<Rightarrow> bytes" where
  "sha256 c data = sha256_fn c data"

definition hash256 :: "crypto \<Rightarrow> bytes \<Rightarrow> bytes" where
  "hash256 c data = sha256_fn c (sha256_fn c data)"

definition hash160 :: "crypto \<Rightarrow> bytes \<Rightarrow> bytes" where
  "hash160 c data = take PUBKEY_HASH_LENGTH (hash256 c data)"

section \<open>Public keys and signatures\<close>

definition CURVE_ORDER :: int where
  "CURVE_ORDER = 0xFFFFFFFFFFFFFFFFFFFFFFFFFFFFFFFEBAAEDCE6AF48A03BBFD25E8CD0364141"

definition HALF_ORDER :: int where
  "HALF_ORDER = CURVE_ORDER div 2"

definition PUBLIC_KEY_LENGTH :: nat where
  "PUBLIC_KEY_LENGTH = 33"

definition SIGNATURE_LENGTH :: nat where
  "SIGNATURE_LENGTH = 64"

record public_key =
  pk_data :: bytes

definition public_key_from_bytes :: "crypto \<Rightarrow> bytes \<Rightarrow> public_key result" where
  "public_key_from_bytes c data =
     (if length data \<noteq> PUBLIC_KEY_LENGTH \<or> hd data \<notin> {0x02, 0x03}
      then Inl (InvalidKeyError ''public key must be 33 bytes in compressed SEC1 form'')
      else if \<not> on_curve c data
      then Inl (InvalidKeyError ''public key is not a valid curve point'')
      else Inr \<lparr>pk_data = data\<rparr>)"

definition public_key_hash160 :: "crypto \<Rightarrow> public_key \<Rightarrow> bytes" where
  "public_key_hash160 c k = hash160 c (pk_data k)"

definition public_key_verify :: "crypto \<Rightarrow> public_key \<Rightarrow> bytes \<Rightarrow> bytes \<Rightarrow> bool result" where
  "public_key_verify c k digest signature =
     (if length digest \<noteq> 32 then Inl (ValueError ''expected a 32-byte digest'')
      else if length signature \<noteq> SIGNATURE_LENGTH
      then Inl (InvalidSignatureError ''signature must be 64 bytes'')
      else
        let r = from_be (take 32 signature); s = from_be (drop 32 signature)
        in if \<not> (1 \<le> r \<and> r < CURVE_ORDER \<and> 1 \<le> s \<and> s \<le> HALF_ORDER) then Inr False
           else Inr (ecdsa_verify c (pk_data k) r s digest))"

section \<open>The law of a digest\<close>

locale digest32 =
  fixes H :: "bytes \<Rightarrow> bytes"
  assumes length_H: "length (H d) = 32"
begin

lemma length_HH: "length (H (H d)) = 32"
  by (rule length_H)

end

text \<open>
  The interface the chain is verified against: the primitives with 32-byte digests. It is a
  predicate on the record, because the record is an argument of the model's definitions.
\<close>

definition crypto_ok :: "crypto \<Rightarrow> bool" where
  "crypto_ok c \<longleftrightarrow> digest32 (sha256_fn c)"

lemma length_hash256 [simp]: "crypto_ok c \<Longrightarrow> length (hash256 c d) = 32"
  by (simp add: crypto_ok_def hash256_def digest32.length_HH)

lemma length_hash160 [simp]: "crypto_ok c \<Longrightarrow> length (hash160 c d) = 20"
  by (simp add: hash160_def PUBKEY_HASH_LENGTH_def)

section \<open>SHA-256\<close>

type_synonym w32 = "32 word"

text \<open>
  The constants are the first 32 bits of the fractional parts of the cube roots of the first 64
  primes and of the square roots of the first eight: \<open>root_bits\<close> finds an integer root bit by bit.
\<close>

fun root_bits :: "nat \<Rightarrow> int \<Rightarrow> nat \<Rightarrow> int \<Rightarrow> int" where
  "root_bits k n 0 r = r"
| "root_bits k n (Suc b) r = root_bits k n b (if (r + 2 ^ b) ^ k \<le> n then r + 2 ^ b else r)"

definition sha_primes :: "int list" where
  "sha_primes = filter (\<lambda>p. list_all (\<lambda>d. p mod d \<noteq> 0) [2..p - 1]) [2..311]"

definition sha_frac :: "nat \<Rightarrow> int \<Rightarrow> w32" where
  "sha_frac k p = word_of_int (root_bits k (p * 2 ^ (32 * k)) 37 0)"

definition sha_K :: "w32 list" where
  "sha_K = map (sha_frac 3) sha_primes"

definition sha_H0 :: "w32 list" where
  "sha_H0 = map (sha_frac 2) [2, 3, 5, 7, 11, 13, 17, 19]"

definition sha_rotr :: "nat \<Rightarrow> w32 \<Rightarrow> w32" where
  "sha_rotr n x = drop_bit n x OR push_bit (32 - n) x"

definition sha_ssig0 :: "w32 \<Rightarrow> w32" where
  "sha_ssig0 x = sha_rotr 7 x XOR sha_rotr 18 x XOR drop_bit 3 x"

definition sha_ssig1 :: "w32 \<Rightarrow> w32" where
  "sha_ssig1 x = sha_rotr 17 x XOR sha_rotr 19 x XOR drop_bit 10 x"

definition sha_bsig0 :: "w32 \<Rightarrow> w32" where
  "sha_bsig0 x = sha_rotr 2 x XOR sha_rotr 13 x XOR sha_rotr 22 x"

definition sha_bsig1 :: "w32 \<Rightarrow> w32" where
  "sha_bsig1 x = sha_rotr 6 x XOR sha_rotr 11 x XOR sha_rotr 25 x"

definition sha_ch :: "w32 \<Rightarrow> w32 \<Rightarrow> w32 \<Rightarrow> w32" where
  "sha_ch x y z = (x AND y) XOR (NOT x AND z)"

definition sha_maj :: "w32 \<Rightarrow> w32 \<Rightarrow> w32 \<Rightarrow> w32" where
  "sha_maj x y z = (x AND y) XOR (x AND z) XOR (y AND z)"

fun sha_schedule :: "nat \<Rightarrow> w32 list \<Rightarrow> w32 list" where
  "sha_schedule 0 w = w"
| "sha_schedule (Suc n) w = sha_schedule n
     (w @ [sha_ssig1 (w ! (length w - 2)) + w ! (length w - 7) +
           sha_ssig0 (w ! (length w - 15)) + w ! (length w - 16)])"

fun sha_round :: "w32 \<times> w32 \<Rightarrow> w32 list \<Rightarrow> w32 list" where
  "sha_round (k, w) [a, b, c, d, e, f, g, h] =
     (let t1 = h + sha_bsig1 e + sha_ch e f g + k + w; t2 = sha_bsig0 a + sha_maj a b c
      in [t1 + t2, a, b, c, d + t1, e, f, g])"
| "sha_round _ s = s"

fun sha_words :: "bytes \<Rightarrow> w32 list" where
  "sha_words (a # b # c # d # r) =
     (push_bit 24 (ucast a) OR push_bit 16 (ucast b) OR push_bit 8 (ucast c) OR ucast d) # sha_words r"
| "sha_words _ = []"

definition sha_compress :: "w32 list \<Rightarrow> bytes \<Rightarrow> w32 list" where
  "sha_compress hs block =
     map2 (+) hs (fold sha_round (zip sha_K (sha_schedule 48 (sha_words block))) hs)"

definition sha_pad :: "bytes \<Rightarrow> bytes" where
  "sha_pad m =
     m @ [0x80] @ replicate ((119 - length m mod 64) mod 64) 0 @ to_be 8 (int (8 * length m))"

fun sha_blocks :: "nat \<Rightarrow> w32 list \<Rightarrow> bytes \<Rightarrow> w32 list" where
  "sha_blocks 0 hs m = hs"
| "sha_blocks (Suc n) hs m = sha_blocks n (sha_compress hs (take 64 m)) (drop 64 m)"

definition sha_word_bytes :: "w32 \<Rightarrow> bytes" where
  "sha_word_bytes w = [ucast (drop_bit 24 w), ucast (drop_bit 16 w), ucast (drop_bit 8 w), ucast w]"

definition sha256_impl :: "bytes \<Rightarrow> bytes" where
  "sha256_impl m =
     (let p = sha_pad m in concat (map sha_word_bytes (sha_blocks (length p div 64) sha_H0 p)))"

lemma length_sha_round: "length (sha_round kw s) = length s"
  by (induction kw s rule: sha_round.induct) (auto simp: Let_def)

lemma length_sha_rounds: "length (fold sha_round kws s) = length s"
  by (induction kws arbitrary: s) (auto simp: length_sha_round)

lemma length_sha_compress: "length (sha_compress hs b) = length hs"
  by (simp add: sha_compress_def length_sha_rounds)

lemma length_sha_blocks: "length (sha_blocks n hs m) = length hs"
  by (induction n arbitrary: hs m) (auto simp: length_sha_compress)

text \<open>Padding fills the message up to whole 64-byte blocks.\<close>

lemma sha_pad_blocks: "64 dvd length (sha_pad m)"
proof -
  define r where "r = length m mod 64"
  have "length (sha_pad m) = length m + (9 + (119 - r) mod 64)"
    by (simp add: sha_pad_def r_def)
  then have "length (sha_pad m) mod 64 = (r + 9 + (119 - r) mod 64) mod 64"
    unfolding r_def by (simp only: mod_add_left_eq add.assoc)
  moreover have "(r + 9 + (119 - r) mod 64) mod 64 = 0"
  proof -
    have "r < 64" by (simp add: r_def)
    then have "(r + 9 + (119 - r)) mod 64 = 0" by simp
    then show ?thesis by (simp add: mod_simps)
  qed
  ultimately show ?thesis by (simp add: dvd_eq_mod_eq_0)
qed

lemma length_sha_word_bytes: "length (sha_word_bytes w) = 4"
  by (simp add: sha_word_bytes_def)

lemma length_concat_word_bytes: "length (concat (map sha_word_bytes ws)) = 4 * length ws"
  by (induction ws) (auto simp: length_sha_word_bytes)

interpretation sha: digest32 sha256_impl
  by unfold_locales
    (simp add: sha256_impl_def Let_def length_concat_word_bytes length_sha_blocks sha_H0_def)

text \<open>
  A small digest that evaluates quickly, for the closed witness theorems: a polynomial in the
  input bytes modulo a prime, spread over 32 bytes.
\<close>

definition demo_digest :: "bytes \<Rightarrow> bytes" where
  "demo_digest d = to_le 32 (foldl (\<lambda>a b. (a * 257 + uint b + 1) mod 16777213) 1 d)"

lemma from_le_demo_digest: "from_le (demo_digest d) < 16777213"
proof -
  let ?f = "foldl (\<lambda>a b. (a * 257 + uint b + 1) mod 16777213) (1 :: int)"
  have "0 \<le> ?f d \<and> ?f d < 16777213"
    by (induction d rule: rev_induct) auto
  then show ?thesis
    by (simp add: demo_digest_def fits_def)
qed

interpretation demo: digest32 demo_digest
  by unfold_locales (simp add: demo_digest_def)

definition demo_crypto :: crypto where
  "demo_crypto = \<lparr>sha256_fn = demo_digest, on_curve = (\<lambda>_. True),
     ecdsa_verify = (\<lambda>k r s d. r = from_le (take 1 k) \<and> s = 1)\<rparr>"

lemma from_le_demo_hash: "from_le (hash256 demo_crypto d) < 16777213"
  by (simp add: hash256_def demo_crypto_def from_le_demo_digest)

lemma demo_crypto_ok [simp]: "crypto_ok demo_crypto"
  by (simp add: crypto_ok_def demo_crypto_def demo.digest32_axioms)

end
