(* ===== verification/Script.thy ===== *)
theory Script
  imports Hashing "HOL-Library.Sublist"
begin

text \<open>
  \<^verbatim>\<open>core/script.py\<close>: the redeem scripts of P2SH outputs.

  \<open>decode_loop\<close> is the \<^verbatim>\<open>while offset < len(script)\<close> loop on the unread part of the script. The
  evaluation stack is kept top first, so \<^verbatim>\<open>list(arguments)\<close> is \<open>rev arguments\<close> and \<^verbatim>\<open>stack[-1]\<close> is the
  head. One operation gives an exception, or \<open>None\<close> for a \<^verbatim>\<open>return False\<close> inside the loop, or the new
  stack.
\<close>

section \<open>Constants\<close>

definition MAX_SCRIPT_SIZE :: nat where "MAX_SCRIPT_SIZE = 520"
definition MAX_PUBKEYS :: nat where "MAX_PUBKEYS = 15"
definition MAX_STACK_ITEMS :: nat where "MAX_STACK_ITEMS = 20"
definition MAX_SCRIPT_OPS :: nat where "MAX_SCRIPT_OPS = 200"

definition OP_PUSHBYTES_MAX :: nat where "OP_PUSHBYTES_MAX = 0x4B"
definition OP_PUSHDATA1 :: nat where "OP_PUSHDATA1 = 0x4C"
definition OP_PUSHDATA2 :: nat where "OP_PUSHDATA2 = 0x4D"
definition OP_1 :: nat where "OP_1 = 0x51"
definition OP_16 :: nat where "OP_16 = 0x60"
definition OP_DUP :: nat where "OP_DUP = 0x76"
definition OP_EQUAL :: nat where "OP_EQUAL = 0x87"
definition OP_EQUALVERIFY :: nat where "OP_EQUALVERIFY = 0x88"
definition OP_HASH160 :: nat where "OP_HASH160 = 0xA9"
definition OP_CHECKSIG :: nat where "OP_CHECKSIG = 0xAC"
definition OP_CHECKMULTISIG :: nat where "OP_CHECKMULTISIG = 0xAE"

lemmas opcodes = OP_PUSHBYTES_MAX_def OP_PUSHDATA1_def OP_PUSHDATA2_def OP_1_def OP_16_def
  OP_DUP_def OP_EQUAL_def OP_EQUALVERIFY_def OP_HASH160_def OP_CHECKSIG_def OP_CHECKMULTISIG_def

lemmas script_limits = MAX_SCRIPT_SIZE_def MAX_PUBKEYS_def MAX_STACK_ITEMS_def MAX_SCRIPT_OPS_def

section \<open>Building scripts\<close>

definition push_data :: "bytes \<Rightarrow> bytes result" where
  "push_data data =
     (let n = length data in
      if n \<le> OP_PUSHBYTES_MAX then Inr ([of_nat n] @ data)
      else if n \<le> 0xFF then Inr ([of_nat OP_PUSHDATA1, of_nat n] @ data)
      else if n \<le> 0xFFFF then Inr ([of_nat OP_PUSHDATA2] @ to_le 2 (int n) @ data)
      else Inl (ScriptError ''data push is too large''))"

definition push_small_int :: "int \<Rightarrow> bytes result" where
  "push_small_int v =
     (if \<not> (1 \<le> v \<and> v \<le> 16) then Inl (ScriptError ''multisig threshold is out of range 1..16'')
      else Inr [word_of_int (int OP_1 - 1 + v)])"

definition p2pkh_redeem :: "bytes \<Rightarrow> bytes result" where
  "p2pkh_redeem pubkey_hash =
     (if length pubkey_hash \<noteq> 20 then Inl (ScriptError ''a public-key hash must be 20 bytes'')
      else bnd (push_data pubkey_hash) (\<lambda>p.
        Inr ([of_nat OP_DUP, of_nat OP_HASH160] @ p @ [of_nat OP_EQUALVERIFY, of_nat OP_CHECKSIG])))"

definition multisig_redeem :: "bytes list \<Rightarrow> int \<Rightarrow> bytes result" where
  "multisig_redeem pubkeys threshold =
     (if pubkeys = [] \<or> length pubkeys > MAX_PUBKEYS
      then Inl (ScriptError ''multisig needs 1..15 public keys'')
      else if \<not> (1 \<le> threshold \<and> threshold \<le> int (length pubkeys))
      then Inl (ScriptError ''threshold does not fit the public keys'')
      else if list_ex (\<lambda>key. length key \<noteq> 33 \<or> hd key \<notin> {0x02, 0x03}) pubkeys
      then Inl (ScriptError ''multisig public keys must be 33-byte compressed keys'')
      else
        bnd (push_small_int threshold) (\<lambda>m.
        bnd (mapR push_data pubkeys) (\<lambda>ks.
        bnd (push_small_int (int (length pubkeys))) (\<lambda>n.
        Inr (m @ concat ks @ n @ [of_nat OP_CHECKMULTISIG])))))"

section \<open>Parsing scripts\<close>

fun decode_loop :: "bytes \<Rightarrow> (nat \<times> bytes) list result" where
  "decode_loop [] = Inr []"
| "decode_loop (b # s) =
     (let opcode = unat b in
      if opcode \<le> OP_PUSHBYTES_MAX then
        (if opcode > length s then Inl (ScriptError ''script ends in the middle of a data push'')
         else bnd (decode_loop (drop opcode s)) (\<lambda>ops. Inr ((opcode, take opcode s) # ops)))
      else if opcode = OP_PUSHDATA1 then
        (if 1 > length s then Inl (ScriptError ''script ends after OP_PUSHDATA1'')
         else
           let n = unat (hd s); s' = drop 1 s in
           if n > length s' then Inl (ScriptError ''script ends in the middle of a data push'')
           else bnd (decode_loop (drop n s')) (\<lambda>ops. Inr ((opcode, take n s') # ops)))
      else if opcode = OP_PUSHDATA2 then
        (if 2 > length s then Inl (ScriptError ''script ends after OP_PUSHDATA2'')
         else
           let n = nat (from_le (take 2 s)); s' = drop 2 s in
           if n > length s' then Inl (ScriptError ''script ends in the middle of a data push'')
           else bnd (decode_loop (drop n s')) (\<lambda>ops. Inr ((opcode, take n s') # ops)))
      else if opcode \<in> {OP_DUP, OP_EQUAL, OP_EQUALVERIFY, OP_HASH160, OP_CHECKSIG, OP_CHECKMULTISIG}
              \<or> OP_1 \<le> opcode \<and> opcode \<le> OP_16
      then bnd (decode_loop s) (\<lambda>ops. Inr ((opcode, []) # ops))
      else Inl (ScriptError ''unknown script opcode''))"

definition decode_ops :: "bytes \<Rightarrow> (nat \<times> bytes) list result" where
  "decode_ops script =
     (if length script > MAX_SCRIPT_SIZE then Inl (ScriptError ''script is over the size limit'')
      else decode_loop script)"

section \<open>Evaluation\<close>

type_synonym stack = "bytes list"

fun pop_item :: "stack \<Rightarrow> (bytes \<times> stack) result" where
  "pop_item [] = Inl (ScriptError ''script tried to pop an empty stack'')"
| "pop_item (x # st) = Inr (x, st)"

fun pop_items :: "nat \<Rightarrow> stack \<Rightarrow> (bytes list \<times> stack) result" where
  "pop_items 0 st = Inr ([], st)"
| "pop_items (Suc n) st = bnd (pop_item st) (\<lambda>(x, st). bnd (pop_items n st) (\<lambda>(xs, st). Inr (x # xs, st)))"

definition small_int :: "bytes \<Rightarrow> nat option" where
  "small_int item =
     (if length item \<noteq> 1 \<or> \<not> (1 \<le> unat (hd item) \<and> unat (hd item) \<le> 16) then None
      else Some (unat (hd item)))"

text \<open>Both exceptions the two calls can raise are caught (\<open>signature_exceptions\<close> below).\<close>

definition verify_signature :: "crypto \<Rightarrow> bytes \<Rightarrow> bytes \<Rightarrow> bytes \<Rightarrow> bool" where
  "verify_signature c pubkey signature digest =
     (case public_key_from_bytes c pubkey of
        Inl _ \<Rightarrow> False
      | Inr key \<Rightarrow> (case public_key_verify c key digest signature of Inl _ \<Rightarrow> False | Inr b \<Rightarrow> b))"

text \<open>
  The loop over the signatures. The keys are those from \<^verbatim>\<open>key_index\<close> on, so the inner \<^verbatim>\<open>while\<close> drops the
  keys that do not verify; \<open>None\<close> is the \<^verbatim>\<open>return False\<close> when the keys run out, and the result is
  \<^verbatim>\<open>matched\<close>.
\<close>

fun match_signatures :: "crypto \<Rightarrow> bytes \<Rightarrow> bytes list \<Rightarrow> bytes list \<Rightarrow> nat \<Rightarrow> nat option" where
  "match_signatures c digest [] keys matched = Some matched"
| "match_signatures c digest (sg # sgs) keys matched =
     (case dropWhile (\<lambda>k. \<not> verify_signature c k sg digest) keys of
        [] \<Rightarrow> None
      | _ # keys' \<Rightarrow> match_signatures c digest sgs keys' (matched + 1))"

definition check_multisig :: "crypto \<Rightarrow> bytes \<Rightarrow> stack \<Rightarrow> stack option result" where
  "check_multisig c digest st =
     bnd (pop_item st) (\<lambda>(x, st).
     case small_int x of None \<Rightarrow> Inr None | Some key_count \<Rightarrow>
     if key_count > MAX_PUBKEYS then Inr None else
     bnd (pop_items key_count st) (\<lambda>(pubkeys, st).
     bnd (pop_item st) (\<lambda>(y, st).
     case small_int y of None \<Rightarrow> Inr None | Some threshold \<Rightarrow>
     if threshold > key_count then Inr None else
     bnd (pop_items threshold st) (\<lambda>(signatures, st).
     case match_signatures c digest (rev signatures) (rev pubkeys) 0 of
       None \<Rightarrow> Inr None
     | Some matched \<Rightarrow> if matched \<noteq> threshold then Inr None else Inr (Some ([1] # st))))))"

definition script_op :: "crypto \<Rightarrow> bytes \<Rightarrow> nat \<times> bytes \<Rightarrow> stack \<Rightarrow> stack option result" where
  "script_op c digest op st =
     (let opcode = fst op in
      if opcode \<le> OP_PUSHBYTES_MAX \<or> opcode \<in> {OP_PUSHDATA1, OP_PUSHDATA2} then Inr (Some (snd op # st))
      else if OP_1 \<le> opcode \<and> opcode \<le> OP_16 then Inr (Some ([of_nat (opcode - OP_1 + 1)] # st))
      else if opcode = OP_DUP then (case st of [] \<Rightarrow> Inl IndexError | x # _ \<Rightarrow> Inr (Some (x # st)))
      else if opcode = OP_EQUAL then
        bnd (pop_item st) (\<lambda>(a, st). bnd (pop_item st) (\<lambda>(b, st).
          Inr (Some ((if a = b then [1] else [0]) # st))))
      else if opcode = OP_EQUALVERIFY then
        bnd (pop_item st) (\<lambda>(a, st). bnd (pop_item st) (\<lambda>(b, st).
          Inr (if a \<noteq> b then None else Some st)))
      else if opcode = OP_HASH160 then
        bnd (pop_item st) (\<lambda>(x, st). Inr (Some (take 20 (hash256 c x) # st)))
      else if opcode = OP_CHECKSIG then
        bnd (pop_item st) (\<lambda>(pubkey, st). bnd (pop_item st) (\<lambda>(signature, st).
          Inr (if \<not> verify_signature c pubkey signature digest then None else Some ([1] # st))))
      else if opcode = OP_CHECKMULTISIG then check_multisig c digest st
      else Inr None)"

text \<open>The \<^verbatim>\<open>for\<close> loop; the first argument is the value of \<^verbatim>\<open>index\<close> at the next operation.\<close>

fun run_ops :: "crypto \<Rightarrow> bytes \<Rightarrow> nat \<Rightarrow> (nat \<times> bytes) list \<Rightarrow> stack \<Rightarrow> stack option result" where
  "run_ops c digest i [] st = Inr (Some st)"
| "run_ops c digest i (op # ops) st =
     (if i > MAX_SCRIPT_OPS then Inr None
      else bnd (script_op c digest op st) (\<lambda>r.
        case r of
          None \<Rightarrow> Inr None
        | Some st' \<Rightarrow> if length st' > MAX_STACK_ITEMS then Inr None
                     else run_ops c digest (i + 1) ops st'))"

definition evaluate_script :: "crypto \<Rightarrow> bytes \<Rightarrow> bytes list \<Rightarrow> bytes \<Rightarrow> bool result" where
  "evaluate_script c script arguments digest =
     (case bnd (decode_ops script) (\<lambda>ops. run_ops c digest 1 ops (rev arguments)) of
        Inl (ScriptError _) \<Rightarrow> Inr False
      | Inl e \<Rightarrow> Inl e
      | Inr None \<Rightarrow> Inr False
      | Inr (Some []) \<Rightarrow> Inr False
      | Inr (Some (item # _)) \<Rightarrow> Inr (list_ex (\<lambda>byte. byte \<noteq> 0) item))"

section \<open>Lemmas\<close>

lemma signature_exceptions:
  "public_key_from_bytes c k = Inl e \<Longrightarrow> \<exists>m. e = InvalidKeyError m"
  "public_key_verify c key d sg = Inl e \<Longrightarrow> is_ValueError e"
  by (auto simp: public_key_from_bytes_def public_key_verify_def Let_def split: if_splits)

lemma pop_item_eq:
  "pop_item st = (if st = [] then Inl (ScriptError ''script tried to pop an empty stack'')
     else Inr (hd st, tl st))"
  by (cases st) auto

lemma pop_items_eq:
  "pop_items n st = (if n \<le> length st then Inr (take n st, drop n st)
     else Inl (ScriptError ''script tried to pop an empty stack''))"
proof (induction n arbitrary: st)
  case (Suc n)
  then show ?case by (cases st) auto
qed simp

text \<open>Matching greedily from the left finds a matching whenever there is one.\<close>

lemma subseq_skip_prefix:
  "subseq (x # xs) (as @ bs) \<Longrightarrow> x \<notin> set as \<Longrightarrow> subseq (x # xs) bs"
  by (induction as) (auto simp: subseq_Cons2_iff)

definition signed_in_order :: "crypto \<Rightarrow> bytes \<Rightarrow> bytes list \<Rightarrow> bytes list \<Rightarrow> bool" where
  "signed_in_order c digest sgs keys \<longleftrightarrow>
     (\<exists>ks. subseq ks keys \<and> list_all2 (\<lambda>sg k. verify_signature c k sg digest) sgs ks)"

lemma signed_in_order_Cons:
  "signed_in_order c d (sg # sgs) keys \<longleftrightarrow>
     (case dropWhile (\<lambda>k. \<not> verify_signature c k sg d) keys of
        [] \<Rightarrow> False | _ # keys' \<Rightarrow> signed_in_order c d sgs keys')"
proof (cases "dropWhile (\<lambda>k. \<not> verify_signature c k sg d) keys")
  case Nil
  then have "\<not> verify_signature c k sg d" if "k \<in> set keys" for k
    using that by (simp add: dropWhile_eq_Nil_conv)
  moreover have "k \<in> set keys" if "subseq (k # ks) keys" for k ks
    using that by (metis list.set_intros(1) set_nths_subset subseq_conv_nths subsetD)
  ultimately show ?thesis
    unfolding Nil by (auto simp: signed_in_order_def list_all2_Cons1)
next
  case (Cons k0 keys')
  define as where "as = takeWhile (\<lambda>k. \<not> verify_signature c k sg d) keys"
  have keys: "keys = as @ k0 # keys'"
    by (metis Cons as_def takeWhile_dropWhile_id)
  have k0: "verify_signature c k0 sg d"
    using hd_dropWhile [of "\<lambda>k. \<not> verify_signature c k sg d" keys] Cons by simp
  have as: "\<not> verify_signature c k sg d" if "k \<in> set as" for k
    using that unfolding as_def by (auto dest: set_takeWhileD)
  show ?thesis
  proof
    assume "signed_in_order c d (sg # sgs) keys"
    then obtain k ks where sub: "subseq (k # ks) keys" and k: "verify_signature c k sg d"
      and all: "list_all2 (\<lambda>sg k. verify_signature c k sg d) sgs ks"
      by (auto simp: signed_in_order_def list_all2_Cons1)
    have "k \<notin> set as"
      using k as by blast
    then have "subseq (k # ks) (k0 # keys')"
      using subseq_skip_prefix [of k ks as "k0 # keys'"] sub by (simp add: keys)
    then have "subseq ks keys'"
      by (cases "k = k0") (auto dest: subseq_Cons')
    then show "case dropWhile (\<lambda>k. \<not> verify_signature c k sg d) keys of
        [] \<Rightarrow> False | _ # keys' \<Rightarrow> signed_in_order c d sgs keys'"
      using all Cons by (auto simp: signed_in_order_def)
  next
    assume "case dropWhile (\<lambda>k. \<not> verify_signature c k sg d) keys of
        [] \<Rightarrow> False | _ # keys' \<Rightarrow> signed_in_order c d sgs keys'"
    then obtain ks where "subseq ks keys'"
      and "list_all2 (\<lambda>sg k. verify_signature c k sg d) sgs ks"
      using Cons by (auto simp: signed_in_order_def)
    then have "subseq (k0 # ks) keys"
      "list_all2 (\<lambda>sg k. verify_signature c k sg d) (sg # sgs) (k0 # ks)"
      using k0 by (simp_all add: keys list_emb_append2)
    then show "signed_in_order c d (sg # sgs) keys"
      unfolding signed_in_order_def by blast
  qed
qed

lemma match_signatures_eq:
  "match_signatures c d sgs keys m =
     (if signed_in_order c d sgs keys then Some (m + length sgs) else None)"
proof (induction sgs arbitrary: keys m)
  case Nil
  then show ?case by (simp add: signed_in_order_def)
next
  case (Cons sg sgs)
  then show ?case
    by (cases "dropWhile (\<lambda>k. \<not> verify_signature c k sg d) keys")
      (simp_all only: match_signatures.simps signed_in_order_Cons list.case if_False length_Cons
        add_Suc_right add_Suc One_nat_def add_0_right)
qed

lemma check_multisig_eq:
  assumes "small_int x = Some n" and "n \<le> MAX_PUBKEYS" and "length keys = n"
    and "small_int y = Some m" and "m \<le> n"
  shows "check_multisig c d (x # rev keys @ y # rev args) =
    (if length args < m then Inl (ScriptError ''script tried to pop an empty stack'')
     else if signed_in_order c d (drop (length args - m) args) keys
     then Inr (Some ([1] # drop m (rev args))) else Inr None)"
  using assms by (auto simp: check_multisig_def pop_items_eq match_signatures_eq take_rev)

text \<open>A push is decoded to the data pushed, under one of three opcodes.\<close>

definition push_opcode :: "bytes \<Rightarrow> nat" where
  "push_opcode d = (if length d \<le> OP_PUSHBYTES_MAX then length d
     else if length d \<le> 0xFF then OP_PUSHDATA1 else OP_PUSHDATA2)"

lemma unat_of_nat_byte: "n < 256 \<Longrightarrow> unat (of_nat n :: byte) = n"
  by (simp add: unat_of_nat)

lemma decode_push:
  assumes "push_data d = Inr p"
  shows "decode_loop (p @ s) = bnd (decode_loop s) (\<lambda>ops. Inr ((push_opcode d, d) # ops))"
proof (cases "length d \<le> 0xFF")
  case True
  then show ?thesis
    using assms
    by (auto simp: push_data_def push_opcode_def Let_def unat_of_nat_byte opcodes split: if_splits)
next
  case False
  then have p: "p = of_nat OP_PUSHDATA2 # to_le 2 (int (length d)) @ d" and "length d \<le> 0xFFFF"
    using assms by (auto simp: push_data_def Let_def opcodes split: if_splits)
  then have len: "from_le (to_le 2 (int (length d))) = int (length d)"
    by (simp add: fits_def)
  then show ?thesis
    using False by (simp add: p push_opcode_def Let_def unat_of_nat_byte opcodes)
qed

lemma decode_pushes:
  assumes "mapR push_data ds = Inr ps"
  shows "decode_loop (concat ps @ s) =
    bnd (decode_loop s) (\<lambda>ops. Inr (map (\<lambda>d. (push_opcode d, d)) ds @ ops))"
  using assms
proof (induction ds arbitrary: ps)
  case Nil
  then show ?case by (cases "decode_loop s") simp_all
next
  case (Cons d ds)
  then show ?case
    by (auto simp: result_simps decode_push bnd_assoc)
qed

lemma script_op_push: "script_op c digest (push_opcode d, d) st = Inr (Some (d # st))"
  by (simp add: script_op_def push_opcode_def Let_def)

lemma run_pushes:
  assumes "i + length ds \<le> MAX_SCRIPT_OPS + 1" and "length st \<le> MAX_STACK_ITEMS"
  shows "run_ops c digest i (map (\<lambda>d. (push_opcode d, d)) ds @ ops) st =
    (if length st + length ds \<le> MAX_STACK_ITEMS
     then run_ops c digest (i + length ds) ops (rev ds @ st) else Inr None)"
  using assms
proof (induction ds arbitrary: i st)
  case Nil
  then show ?case by simp
next
  case (Cons d ds)
  then show ?case using Cons.IH [of "Suc i" "d # st"] by (simp add: script_op_push)
qed

text \<open>The operations of a small-integer push.\<close>

definition small_opcode :: "nat \<Rightarrow> nat" where
  "small_opcode n = OP_1 - 1 + n"

lemma push_small_int_eq:
  "1 \<le> n \<Longrightarrow> n \<le> 16 \<Longrightarrow> push_small_int (int n) = Inr [of_nat (small_opcode n)]"
  by (simp add: push_small_int_def small_opcode_def OP_1_def)

lemma decode_small:
  "1 \<le> n \<Longrightarrow> n \<le> 16 \<Longrightarrow> decode_loop (of_nat (small_opcode n) # s) =
     bnd (decode_loop s) (\<lambda>ops. Inr ((small_opcode n, []) # ops))"
proof -
  assume n: "1 \<le> n" "n \<le> 16"
  then have op: "unat (of_nat (small_opcode n) :: byte) = small_opcode n"
    by (intro unat_of_nat_byte) (simp add: small_opcode_def OP_1_def)
  from n show ?thesis
    unfolding decode_loop.simps op by (auto simp: Let_def small_opcode_def opcodes)
qed

lemma script_op_small:
  "1 \<le> n \<Longrightarrow> n \<le> 16 \<Longrightarrow> script_op c digest (small_opcode n, d) st = Inr (Some ([of_nat n] # st))"
  by (simp add: script_op_def Let_def small_opcode_def opcodes)

lemma small_int_of_nat: "1 \<le> n \<Longrightarrow> n \<le> 16 \<Longrightarrow> small_int [of_nat n] = Some n"
  by (simp add: small_int_def unat_of_nat_byte)

text \<open>The shape of a multisig redeem script, as it is decoded.\<close>

lemma multisig_redeem_decode:
  assumes "multisig_redeem keys m = Inr script"
  shows "1 \<le> m" "nat m \<le> length keys" "length keys \<le> MAX_PUBKEYS" "keys \<noteq> []"
    and "decode_ops script = Inr ((small_opcode (nat m), []) # map (\<lambda>k. (push_opcode k, k)) keys @
           [(small_opcode (length keys), []), (OP_CHECKMULTISIG, [])])"
proof -
  obtain a ks b where a: "push_small_int m = Inr a" and ks: "mapR push_data keys = Inr ks"
    and b: "push_small_int (int (length keys)) = Inr b"
    and script: "script = a @ concat ks @ b @ [of_nat OP_CHECKMULTISIG]"
    and len: "\<forall>k \<in> set keys. length k = 33"
    and bounds: "1 \<le> m" "nat m \<le> length keys" "length keys \<le> MAX_PUBKEYS" "keys \<noteq> []"
    using assms by (auto simp: multisig_redeem_def bnd_eq_Inr list_ex_iff split: if_splits)
  show "1 \<le> m" "nat m \<le> length keys" "length keys \<le> MAX_PUBKEYS" "keys \<noteq> []"
    using bounds by simp_all
  have m: "1 \<le> nat m" "nat m \<le> 16" "m = int (nat m)" and n: "1 \<le> length keys" "length keys \<le> 16"
    using bounds by (auto simp: MAX_PUBKEYS_def Suc_le_eq)
  have ab: "a = [of_nat (small_opcode (nat m))]" "b = [of_nat (small_opcode (length keys))]"
    using a b push_small_int_eq [OF m(1,2)] push_small_int_eq [OF n] m(3) by auto
  have "length (concat ks) = 34 * length keys"
    using ks len
    by (induction keys arbitrary: ks) (auto simp: bnd_eq_Inr push_data_def Let_def opcodes)
  then have "length script \<le> MAX_SCRIPT_SIZE"
    using bounds(3) by (simp add: script ab script_limits)
  moreover have "decode_loop [of_nat OP_CHECKMULTISIG] = Inr [(OP_CHECKMULTISIG, [])]"
    by (simp add: Let_def opcodes)
  ultimately show "decode_ops script = Inr ((small_opcode (nat m), []) #
      map (\<lambda>k. (push_opcode k, k)) keys @ [(small_opcode (length keys), []), (OP_CHECKMULTISIG, [])])"
    by (simp add: decode_ops_def script ab decode_small [OF m(1,2)] decode_small [OF n]
        decode_pushes [OF ks] del: decode_loop.simps)
qed

lemma multisig_run:
  assumes "1 \<le> m" "m \<le> length keys" "length keys \<le> MAX_PUBKEYS"
  shows "run_ops c digest (Suc 0) ((small_opcode m, []) # map (\<lambda>k. (push_opcode k, k)) keys @
      [(small_opcode (length keys), []), (OP_CHECKMULTISIG, [])]) (rev args) =
    (if length args + length keys + 2 > MAX_STACK_ITEMS then Inr None
     else if length args < m then Inl (ScriptError ''script tried to pop an empty stack'')
     else if signed_in_order c digest (drop (length args - m) args) keys
     then Inr (Some ([1] # drop m (rev args))) else Inr None)"
proof -
  have m: "1 \<le> m" "m \<le> 16" and n: "1 \<le> length keys" "length keys \<le> 16"
    using assms by (auto simp: MAX_PUBKEYS_def)
  have op: "script_op c digest (OP_CHECKMULTISIG, []) st = check_multisig c digest st" for st
    by (simp add: script_op_def Let_def opcodes)
  have multisig: "check_multisig c digest ([of_nat (length keys)] # rev keys @ [of_nat m] # rev args) =
    (if length args < m then Inl (ScriptError ''script tried to pop an empty stack'')
     else if signed_in_order c digest (drop (length args - m) args) keys
     then Inr (Some ([1] # drop m (rev args))) else Inr None)"
    by (rule check_multisig_eq) (use assms in \<open>simp_all add: small_int_of_nat [OF m]
      small_int_of_nat [OF n]\<close>)
  have limit: "1 + 1 + length keys \<le> MAX_SCRIPT_OPS + 1"
    "Suc (Suc (Suc (length keys))) \<le> MAX_SCRIPT_OPS" "Suc (Suc (length keys)) \<le> MAX_SCRIPT_OPS"
    using n by (simp_all add: script_limits)
  show ?thesis
  proof (cases "length args + length keys + 2 > MAX_STACK_ITEMS")
    case True
    then show ?thesis
      using limit by (auto simp: run_pushes script_op_small [OF m] script_op_small [OF n] script_limits)
  next
    case False
    then have "Suc (length args - m) \<le> MAX_STACK_ITEMS"
      by linarith
    then show ?thesis
      using False limit
      by (simp add: run_pushes script_op_small [OF m] script_op_small [OF n] op multisig)
  qed
qed

text \<open>The exceptions of one operation, and of the loop.\<close>

lemma check_multisig_exn: "check_multisig c d st = Inl e \<Longrightarrow> \<exists>m. e = ScriptError m"
  by (auto simp: check_multisig_def pop_item_eq pop_items_eq bnd_eq_Inl split: if_splits option.splits)

lemma script_op_exn:
  "script_op c d op st = Inl e \<Longrightarrow> e = IndexError \<and> fst op = OP_DUP \<and> st = [] \<or> (\<exists>m. e = ScriptError m)"
  by (auto simp: script_op_def Let_def pop_item_eq bnd_eq_Inl dest: check_multisig_exn
      split: if_splits list.splits)

lemma script_op_dup: "script_op c d (OP_DUP, x) [] = Inl IndexError"
  by (simp add: script_op_def Let_def opcodes)

lemma run_ops_exn:
  "run_ops c d i ops st = Inl e \<Longrightarrow> e = IndexError \<or> (\<exists>m. e = ScriptError m)"
  by (induction ops arbitrary: i st)
    (auto simp: bnd_eq_Inl dest: script_op_exn split: if_splits option.splits)

lemma run_ops_append:
  "run_ops c d i (ops1 @ ops2) st =
     bnd (run_ops c d i ops1 st) (\<lambda>r. case r of None \<Rightarrow> Inr None
       | Some st' \<Rightarrow> run_ops c d (i + length ops1) ops2 st')"
  by (induction ops1 arbitrary: i st) (auto simp: bnd_def split: sum.split option.split)

lemma run_ops_IndexError:
  "run_ops c d i ops st = Inl IndexError \<longleftrightarrow>
     (\<exists>ops1 x ops2. ops = ops1 @ (OP_DUP, x) # ops2 \<and> i + length ops1 \<le> MAX_SCRIPT_OPS \<and>
        run_ops c d i ops1 st = Inr (Some []))"
proof
  assume "run_ops c d i ops st = Inl IndexError"
  then show "\<exists>ops1 x ops2. ops = ops1 @ (OP_DUP, x) # ops2 \<and> i + length ops1 \<le> MAX_SCRIPT_OPS \<and>
      run_ops c d i ops1 st = Inr (Some [])"
  proof (induction ops arbitrary: i st)
    case Nil
    then show ?case by simp
  next
    case (Cons op ops)
    from Cons.prems have i: "\<not> i > MAX_SCRIPT_OPS" by (auto split: if_splits)
    show ?case
    proof (cases "script_op c d op st")
      case (Inl e)
      then have "e = IndexError" using Cons.prems i by simp
      then have "fst op = OP_DUP \<and> st = []"
        using script_op_exn [OF Inl] by auto
      then have "op # ops = [] @ (OP_DUP, snd op) # ops \<and> i + length ([] :: (nat \<times> bytes) list) \<le> MAX_SCRIPT_OPS \<and>
          run_ops c d i [] st = Inr (Some [])"
        using i by (cases op) simp
      then show ?thesis by blast
    next
      case (Inr r)
      then obtain st' where st': "r = Some st'" "\<not> length st' > MAX_STACK_ITEMS"
        "run_ops c d (i + 1) ops st' = Inl IndexError"
        using Cons.prems i by (auto split: option.splits if_splits)
      from Cons.IH [OF st'(3)] obtain ops1 x ops2 where
        "ops = ops1 @ (OP_DUP, x) # ops2" "i + 1 + length ops1 \<le> MAX_SCRIPT_OPS"
        "run_ops c d (i + 1) ops1 st' = Inr (Some [])" by blast
      then have "op # ops = (op # ops1) @ (OP_DUP, x) # ops2 \<and> i + length (op # ops1) \<le> MAX_SCRIPT_OPS \<and>
          run_ops c d i (op # ops1) st = Inr (Some [])"
        using Inr st' i by simp
      then show ?thesis by blast
    qed
  qed
next
  assume "\<exists>ops1 x ops2. ops = ops1 @ (OP_DUP, x) # ops2 \<and> i + length ops1 \<le> MAX_SCRIPT_OPS \<and>
      run_ops c d i ops1 st = Inr (Some [])"
  then show "run_ops c d i ops st = Inl IndexError"
    by (auto simp: run_ops_append script_op_dup)
qed

lemma decode_loop_exn: "decode_loop s = Inl e \<Longrightarrow> \<exists>m. e = ScriptError m"
  by (induction s rule: decode_loop.induct) (auto simp: Let_def bnd_eq_Inl split: if_splits)

lemma decode_ops_exn: "decode_ops s = Inl e \<Longrightarrow> \<exists>m. e = ScriptError m"
  by (auto simp: decode_ops_def dest: decode_loop_exn split: if_splits)

section \<open>Properties\<close>

text \<open>
  C33. An m-of-n multisig script does what it says. Spending the script that \<open>multisig_redeem\<close> builds
  succeeds exactly when the last m arguments are signatures by m of the keys, in the order of the
  keys (some subsequence of the keys verifies them one by one), and the arguments, the keys and
  the two counts fit the evaluation stack. The last condition is not part of \<open>multisig_redeem\<close>:
  with more than 18 keys and required signatures together, no argument list spends the script.
\<close>
theorem multisig_spends:
  assumes "multisig_redeem keys m = Inr script"
  shows "evaluate_script c script args digest =
    Inr (length args + length keys + 2 \<le> MAX_STACK_ITEMS \<and> nat m \<le> length args \<and>
         signed_in_order c digest (drop (length args - nat m) args) keys)"
proof -
  note shape = multisig_redeem_decode [OF assms]
  have "1 \<le> nat m" using shape(1) by simp
  with shape show ?thesis
    by (simp add: evaluate_script_def multisig_run del: run_ops.simps)
qed

text \<open>
  Spending the script of \<open>p2pkh_redeem\<close> with a signature and a public key succeeds exactly when
  the key hashes to the committed hash and the signature verifies under it.
\<close>
theorem p2pkh_redeem_spends:
  assumes "p2pkh_redeem h = Inr script"
  shows "evaluate_script c script [sg, pk] digest =
    Inr (hash160 c pk = h \<and> verify_signature c pk sg digest)"
proof -
  obtain p where h: "length h = 20" and p: "push_data h = Inr p"
    and script: "script = [of_nat OP_DUP, of_nat OP_HASH160] @ p @ [of_nat OP_EQUALVERIFY, of_nat OP_CHECKSIG]"
    using assms by (auto simp: p2pkh_redeem_def bnd_eq_Inr split: if_splits)
  have "length script \<le> MAX_SCRIPT_SIZE"
    using h p by (auto simp: script push_data_def opcodes script_limits)
  moreover have "decode_loop [of_nat OP_EQUALVERIFY, of_nat OP_CHECKSIG] =
      Inr [(OP_EQUALVERIFY, []), (OP_CHECKSIG, [])]"
    by (simp add: Let_def opcodes)
  moreover have "decode_loop (of_nat OP_DUP # of_nat OP_HASH160 # s) =
      bnd (decode_loop s) (\<lambda>ops. Inr ((OP_DUP, []) # (OP_HASH160, []) # ops))" for s
    by (simp add: Let_def opcodes bnd_assoc)
  ultimately have "decode_ops script =
      Inr [(OP_DUP, []), (OP_HASH160, []), (20, h), (OP_EQUALVERIFY, []), (OP_CHECKSIG, [])]"
    using h by (simp add: decode_ops_def script decode_push [OF p] push_opcode_def opcodes
        del: decode_loop.simps)
  then show ?thesis
    by (simp add: evaluate_script_def script_op_def Let_def opcodes script_limits hash160_def
        PUBKEY_HASH_LENGTH_def eq_commute)
qed

text \<open>
  C34. The only exception that leaves \<open>evaluate_script\<close> is the \<^verbatim>\<open>IndexError\<close> of \<open>OP_DUP\<close> on an empty stack,
  and it leaves it exactly when the script reaches an \<open>OP_DUP\<close> within the operation limit with
  nothing on the stack. Every other failure is the answer \<open>False\<close>.
\<close>
theorem evaluate_script_raises:
  "evaluate_script c script args digest = Inl e \<longleftrightarrow>
     e = IndexError \<and>
     (\<exists>ops1 x ops2. decode_ops script = Inr (ops1 @ (OP_DUP, x) # ops2) \<and>
        length ops1 < MAX_SCRIPT_OPS \<and> run_ops c digest 1 ops1 (rev args) = Inr (Some []))"
proof -
  have "evaluate_script c script args digest = Inl e \<longleftrightarrow>
      e = IndexError \<and> (\<exists>ops. decode_ops script = Inr ops \<and>
        run_ops c digest 1 ops (rev args) = Inl IndexError)"
  proof (cases "decode_ops script")
    case (Inl e')
    then show ?thesis
      using decode_ops_exn [OF Inl] by (auto simp: evaluate_script_def)
  next
    case (Inr ops)
    then show ?thesis
      by (auto simp: evaluate_script_def dest: run_ops_exn
          split: sum.splits option.splits list.splits exn.splits)
  qed
  then show ?thesis
    by (auto simp: run_ops_IndexError Suc_le_eq)
qed

text \<open>
  Pushed data comes back: a script that is a sequence of data pushes, within the size limit,
  decodes to exactly those data, in order.
\<close>
theorem decode_push_roundtrip:
  assumes "mapR push_data ds = Inr ps" and "length (concat ps) \<le> MAX_SCRIPT_SIZE"
  shows "\<exists>ops. decode_ops (concat ps) = Inr ops \<and> map snd ops = ds"
  using assms decode_pushes [OF assms(1), of "[]"]
  by (simp add: decode_ops_def comp_def)

section \<open>Witnesses\<close>

text \<open>Under \<open>demo_crypto\<close> the signature \<open>demo_sig r\<close> verifies under the keys whose first byte is \<open>r\<close>.\<close>

definition demo_key :: "byte \<Rightarrow> bytes" where
  "demo_key b = b # replicate 32 9"

definition demo_sig :: "byte \<Rightarrow> bytes" where
  "demo_sig b = replicate 31 0 @ [b] @ replicate 31 0 @ [1]"

lemma demo_verify:
  "verify_signature demo_crypto (demo_key 3) (demo_sig 3) (replicate 32 0)"
  by code_simp

theorem multisig_spends_witness:
  "\<exists>script. multisig_redeem [demo_key 2, demo_key 3] 1 = Inr script \<and>
     evaluate_script demo_crypto script [demo_sig 3] (replicate 32 0) = Inr True"
proof -
  have "\<exists>script. multisig_redeem [demo_key 2, demo_key 3] 1 = Inr script"
    by (simp add: multisig_redeem_def push_small_int_def push_data_def demo_key_def script_limits opcodes)
  then obtain script where script: "multisig_redeem [demo_key 2, demo_key 3] 1 = Inr script" ..
  have "signed_in_order demo_crypto (replicate 32 0) [demo_sig 3] [demo_key 2, demo_key 3]"
    unfolding signed_in_order_def using demo_verify by (intro exI [of _ "[demo_key 3]"]) simp
  then show ?thesis
    using script multisig_spends [OF script, of demo_crypto "[demo_sig 3]" "replicate 32 0"]
    by (simp add: script_limits)
qed

theorem p2pkh_redeem_spends_witness:
  "\<exists>script. p2pkh_redeem (hash160 demo_crypto (demo_key 3)) = Inr script \<and>
     evaluate_script demo_crypto script [demo_sig 3, demo_key 3] (replicate 32 0) = Inr True"
proof -
  have "\<exists>script. p2pkh_redeem (hash160 demo_crypto (demo_key 3)) = Inr script"
    by (simp add: p2pkh_redeem_def push_data_def script_limits opcodes)
  then show ?thesis
    using p2pkh_redeem_spends [of "hash160 demo_crypto (demo_key 3)"] demo_verify by auto
qed

theorem decode_push_roundtrip_witness:
  "\<exists>ops. decode_ops (3 # [1, 2, 3] @ 0x4C # 80 # replicate 80 7) = Inr ops \<and>
     map snd ops = [[1, 2, 3], replicate 80 7]"
  using decode_push_roundtrip [of "[[1, 2, 3], replicate 80 7]" "[3 # [1, 2, 3], 0x4C # 80 # replicate 80 7]"]
  by (simp add: push_data_def opcodes script_limits)

end
