(* ===== verification/Pow.thy ===== *)
theory Pow
  imports Prelude
begin

text \<open>
  \<^verbatim>\<open>core/pow.py\<close>: compact targets, work and the two retargeting formulas. Python's integers are
  unbounded, so targets are \<open>int\<close>, \<^verbatim>\<open>//\<close> is \<open>div\<close> (both round down) and the shifts and masks are the
  bit operations on \<open>int\<close>. Not modelled: \<^verbatim>\<open>difficulty\<close>, a floating-point ratio for display.
\<close>

unbundle bit_operations_syntax

definition MAX_TARGET_LIMIT :: int where
  "MAX_TARGET_LIMIT = 2 ^ 256 - 1"

definition bits_to_target :: "int \<Rightarrow> int result" where
  "bits_to_target bits =
     (if \<not> (0 \<le> bits \<and> bits \<le> 0xFFFFFFFF) then Inl (ValueError ''compact target out of range'')
      else
        let exponent = drop_bit 24 bits; mantissa = bits AND 0x007FFFFF in
        if bits AND 0x00800000 \<noteq> 0 then Inl (ValueError ''negative compact target'')
        else if mantissa = 0 then Inr 0
        else
          bnd (if exponent \<le> 3 then Inr (drop_bit (8 * nat (3 - exponent)) mantissa)
               else if exponent > 32 then Inl (ValueError ''compact target overflows 256 bits'')
               else Inr (push_bit (8 * nat (exponent - 3)) mantissa))
            (\<lambda>target. if target > MAX_TARGET_LIMIT
                      then Inl (ValueError ''compact target overflows 256 bits'')
                      else Inr target))"

text \<open>\<^verbatim>\<open>int.bit_length\<close> of a non-negative integer.\<close>

function bit_length :: "int \<Rightarrow> nat" where
  "bit_length v = (if v \<le> 0 then 0 else Suc (bit_length (v div 2)))"
  by auto
termination
  by (relation "measure nat") auto

declare bit_length.simps [simp del]

definition target_to_bits :: "int \<Rightarrow> int result" where
  "target_to_bits target =
     (if target < 0 then Inl (ValueError ''target must not be negative'')
      else if target = 0 then Inr 0
      else
        let raw = to_be ((bit_length target + 7) div 8) target;
            raw = (if hd raw AND 0x80 \<noteq> 0 then 0 # raw else raw);
            exponent = int (length raw);
            mantissa = from_be (take 3 raw @ replicate (3 - length raw) 0)
        in Inr (push_bit 24 exponent OR mantissa))"

definition hash_to_int :: "bytes \<Rightarrow> int result" where
  "hash_to_int block_hash =
     (if length block_hash \<noteq> 32 then Inl (ValueError ''block hash must be 32 bytes'')
      else Inr (from_le block_hash))"

definition check_proof_of_work :: "bytes \<Rightarrow> int \<Rightarrow> int \<Rightarrow> bool result" where
  "check_proof_of_work block_hash bits pow_limit =
     (case bits_to_target bits of
        Inl e \<Rightarrow> if is_ValueError e then Inr False else Inl e
      | Inr target \<Rightarrow>
          if target = 0 \<or> target > pow_limit then Inr False
          else bnd (hash_to_int block_hash) (\<lambda>h. Inr (h \<le> target)))"

definition block_work :: "int \<Rightarrow> int result" where
  "block_work bits = bnd (bits_to_target bits) (\<lambda>target.
     if target \<le> 0 then Inr 0 else Inr (2 ^ 256 div (target + 1)))"

definition next_bits :: "int \<Rightarrow> int \<Rightarrow> int \<Rightarrow> int \<Rightarrow> int \<Rightarrow> int result" where
  "next_bits current_bits actual_timespan target_timespan pow_limit max_adjustment_factor =
     (if target_timespan \<le> 0 then Inl (ValueError ''target timespan must be positive'')
      else if max_adjustment_factor = 0 then Inl ZeroDivisionError
      else
        let low = target_timespan div max_adjustment_factor;
            high = target_timespan * max_adjustment_factor;
            clamped = min (max actual_timespan low) high
        in bnd (bits_to_target current_bits) (\<lambda>t.
             target_to_bits (min (t * clamped div target_timespan) pow_limit)))"

definition bits_from_work :: "int \<Rightarrow> int \<Rightarrow> int \<Rightarrow> int \<Rightarrow> int \<Rightarrow> int \<Rightarrow> int result" where
  "bits_from_work work elapsed target_spacing pow_limit parent_bits max_adjustment_factor =
     (if work \<le> 0 \<or> elapsed \<le> 0 then Inr parent_bits
      else if work * target_spacing = 0 then Inl ZeroDivisionError
      else
        let target = (MAX_TARGET_LIMIT + 1) * elapsed div (work * target_spacing);
            target = min target pow_limit
        in bnd (bits_to_target parent_bits) (\<lambda>parent_target.
             if max_adjustment_factor = 0 then Inl ZeroDivisionError
             else target_to_bits (max target (parent_target div max_adjustment_factor))))"

section \<open>Compact targets in closed form\<close>

lemma mask_23: "bits AND 0x007FFFFF = bits mod 2 ^ 23" for bits :: int
  using take_bit_eq_mask [of 23 bits] by (simp add: mask_eq_exp_minus_1 take_bit_eq_mod)

lemma sign_bit: "bits AND 0x00800000 \<noteq> 0 \<longleftrightarrow> odd (bits div 2 ^ 23)" for bits :: int
  using bit_iff_and_push_bit_not_eq_0 [of bits 23] by (simp add: bit_iff_odd push_bit_eq_mult)

text \<open>
  \<open>compact_value e m\<close> is the target with exponent byte \<open>e\<close> and mantissa \<open>m\<close>; it is what
  \<open>bits_to_target\<close> computes.
\<close>

definition compact_value :: "nat \<Rightarrow> int \<Rightarrow> int" where
  "compact_value e m = (if e \<le> 3 then m div 256 ^ (3 - e) else m * 256 ^ (e - 3))"

lemma power_256: "(2 :: int) ^ (8 * n) = 256 ^ n"
  by (simp add: power_mult)

lemma compact_value_le:
  assumes "0 \<le> m" "m < 2 ^ 23" "e \<le> 32"
  shows "0 \<le> compact_value e m" "compact_value e m \<le> MAX_TARGET_LIMIT"
proof -
  show "0 \<le> compact_value e m"
    using assms by (simp add: compact_value_def pos_imp_zdiv_nonneg_iff)
  show "compact_value e m \<le> MAX_TARGET_LIMIT"
  proof (cases "e \<le> 3")
    case True
    then have "compact_value e m \<le> m"
      using assms zdiv_mono2 [of m 1 "256 ^ (3 - e)"] by (simp add: compact_value_def)
    then show ?thesis
      using assms by (simp add: MAX_TARGET_LIMIT_def)
  next
    case False
    have "m * 256 ^ (e - 3) \<le> 2 ^ 23 * 256 ^ (29 :: nat)"
      using assms False by (intro mult_mono power_increasing) auto
    then show ?thesis
      using False by (simp add: compact_value_def MAX_TARGET_LIMIT_def)
  qed
qed

lemma bits_to_target_compact:
  assumes "0 \<le> m" "m < 2 ^ 23" "e \<le> 32"
  shows "bits_to_target (int e * 2 ^ 24 + m) = Inr (compact_value e m)"
proof -
  let ?b = "int e * 2 ^ 24 + m"
  have "m div 2 ^ 24 = 0"
    using assms by simp
  then have e: "drop_bit 24 ?b = int e"
    using assms by (simp add: drop_bit_eq_div)
  have split: "?b = m + (2 * int e) * 2 ^ 23"
    by simp
  have m: "?b AND 0x007FFFFF = m"
    using assms unfolding mask_23 split mod_mult_self1 by simp
  have "?b div 2 ^ 23 = 2 * int e"
    using assms unfolding split by (subst div_mult_self1) simp_all
  then have s: "\<not> ?b AND 0x00800000 \<noteq> 0"
    unfolding sign_bit by simp
  have r: "0 \<le> ?b \<and> ?b \<le> 0xFFFFFFFF"
    using assms by simp
  have "compact_value e 0 = 0"
    by (simp add: compact_value_def)
  then show ?thesis
    using r s compact_value_le [OF assms] assms(3) unfolding bits_to_target_def e m
    by (auto simp: Let_def compact_value_def drop_bit_eq_div push_bit_eq_mult power_256
        nat_diff_distrib not_le)
qed

lemma compact_parts:
  assumes "0 \<le> bits" "\<not> odd (bits div 2 ^ 23)"
  shows "bits = int (nat (bits div 2 ^ 24)) * 2 ^ 24 + bits mod 2 ^ 23"
proof -
  have shifted: "x * 2 ^ 24 = (2 * x) * 2 ^ 23" for x :: int
    by simp
  have "bits div 2 ^ 24 = bits div 2 ^ 23 div 2"
    using zdiv_zmult2_eq [of 2 bits "2 ^ 23"] by simp
  then have "2 * (bits div 2 ^ 24) = bits div 2 ^ 23"
    using assms(2) by simp
  moreover have "bits = (bits div 2 ^ 23) * 2 ^ 23 + bits mod 2 ^ 23"
    by (rule div_mult_mod_eq [symmetric])
  moreover have "int (nat (bits div 2 ^ 24)) = bits div 2 ^ 24"
    using assms(1) by (simp add: pos_imp_zdiv_nonneg_iff)
  ultimately show ?thesis
    unfolding shifted by (simp only:)
qed

lemma bits_to_target_value:
  assumes "bits_to_target bits = Inr t" "t \<noteq> 0"
  obtains e m where "0 \<le> m" "m < 2 ^ 23" "e \<le> 32" "bits = int e * 2 ^ 24 + m" "t = compact_value e m"
proof -
  let ?e = "nat (bits div 2 ^ 24)" and ?m = "bits mod 2 ^ 23"
  have b: "0 \<le> bits" "\<not> odd (bits div 2 ^ 23)" "?m \<noteq> 0"
    using assms by (auto simp: bits_to_target_def mask_23 sign_bit Let_def split: if_splits)
  have e: "?e \<le> 32"
    using assms by (auto simp: bits_to_target_def mask_23 drop_bit_eq_div Let_def bnd_eq_Inr
        split: if_splits)
  note eq = compact_parts [OF b(1,2)]
  have "t = compact_value ?e ?m"
    using bits_to_target_compact [of ?m ?e] assms(1) e eq [symmetric] by simp
  then show ?thesis
    using that [of ?m ?e] e eq by simp
qed

lemma compact_value_lt: "0 \<le> m \<Longrightarrow> m < 2 ^ 23 \<Longrightarrow> e \<le> 32 \<Longrightarrow> compact_value e m < 2 ^ 255"
proof (cases "e \<le> 3")
  case True
  assume "0 \<le> m" "m < 2 ^ 23"
  moreover have "m div 256 ^ (3 - e) \<le> m"
    using zdiv_mono2 [of m 1 "256 ^ (3 - e)"] \<open>0 \<le> m\<close> by simp
  ultimately show ?thesis
    using True by (simp add: compact_value_def)
next
  case False
  assume m: "0 \<le> m" "m < 2 ^ 23" and e: "e \<le> 32"
  have "m * 256 ^ (e - 3) \<le> (2 ^ 23 - 1) * 256 ^ (29 :: nat)"
    using m e False by (intro mult_mono power_increasing) auto
  then show ?thesis
    using False by (simp add: compact_value_def)
qed

lemma bits_to_target_bounds: "bits_to_target bits = Inr t \<Longrightarrow> 0 \<le> t \<and> t < 2 ^ 255"
proof (cases "t = 0")
  case False
  assume "bits_to_target bits = Inr t"
  then obtain e m where "0 \<le> m" "m < 2 ^ 23" "e \<le> 32" "t = compact_value e m"
    using False by (rule bits_to_target_value)
  then show ?thesis
    using compact_value_lt compact_value_le(1) by blast
qed simp

section \<open>Compressing a target\<close>

lemma bit_length_bounds:
  "0 < v \<Longrightarrow> 1 \<le> bit_length v \<and> 2 ^ (bit_length v - 1) \<le> v \<and> v < 2 ^ bit_length v"
proof (induction v rule: bit_length.induct)
  case (1 v)
  show ?case
  proof (cases "v = 1")
    case True
    then show ?thesis by (simp add: bit_length.simps)
  next
    case False
    with 1 have IH: "1 \<le> bit_length (v div 2)" "2 ^ (bit_length (v div 2) - 1) \<le> v div 2"
      "v div 2 < 2 ^ bit_length (v div 2)" by auto
    have s: "bit_length v = Suc (bit_length (v div 2))"
      using 1(2) by (subst bit_length.simps) simp
    obtain k where k: "bit_length (v div 2) = Suc k"
      using IH(1) by (cases "bit_length (v div 2)") auto
    define q :: int where "q = 2 ^ k"
    have "q \<le> v div 2" "v div 2 < 2 * q"
      using IH by (simp_all add: k q_def)
    then have "2 * q \<le> v \<and> v < 4 * q"
      by presburger
    then show ?thesis
      by (simp add: s k q_def)
  qed
qed

lemma div_less_mult: "t < n * d \<Longrightarrow> 0 < d \<Longrightarrow> t div d < n" for t n d :: int
proof (rule ccontr)
  assume t: "t < n * d" and d: "0 < d" and "\<not> t div d < n"
  then have "n * d \<le> (t div d) * d" by (simp add: mult_right_mono)
  also have "\<dots> \<le> t" using d by (metis add_increasing2 div_mult_mod_eq order_refl pos_mod_sign)
  finally show False using t by simp
qed

definition compact_length :: "int \<Rightarrow> nat" where
  "compact_length t = bit_length t div 8 + 1"

definition compact_mantissa :: "int \<Rightarrow> int" where
  "compact_mantissa t =
     (let L = compact_length t in if L \<le> 3 then t * 256 ^ (3 - L) else t div 256 ^ (L - 3))"

lemma compact_length_bounds:
  assumes "0 < t"
  shows "t < 2 ^ (8 * compact_length t - 1)"
    and "1 < compact_length t \<Longrightarrow> 2 ^ (8 * (compact_length t - 1) - 1) \<le> t"
proof -
  let ?b = "bit_length t"
  have b: "1 \<le> ?b" "2 ^ (?b - 1) \<le> t" "t < 2 ^ ?b"
    using bit_length_bounds [OF assms] by auto
  have "?b \<le> 8 * compact_length t - 1"
    unfolding compact_length_def by presburger
  then have "(2 :: int) ^ ?b \<le> 2 ^ (8 * compact_length t - 1)"
    by (intro power_increasing) auto
  with b(3) show "t < 2 ^ (8 * compact_length t - 1)" by (rule less_le_trans)
  have "8 * (compact_length t - 1) - 1 \<le> ?b - 1"
    unfolding compact_length_def by presburger
  then have "(2 :: int) ^ (8 * (compact_length t - 1) - 1) \<le> 2 ^ (?b - 1)"
    by (intro power_increasing) auto
  then show "2 ^ (8 * (compact_length t - 1) - 1) \<le> t"
    using b(2) by (rule order_trans)
qed

lemma compact_mantissa_bounds:
  assumes "0 < t"
  shows "0 \<le> compact_mantissa t" "compact_mantissa t < 2 ^ 23"
proof -
  let ?L = "compact_length t"
  show "0 \<le> compact_mantissa t"
    using assms by (simp add: compact_mantissa_def Let_def pos_imp_zdiv_nonneg_iff)
  show "compact_mantissa t < 2 ^ 23"
  proof (cases "?L \<le> 3")
    case True
    have "1 \<le> ?L" by (simp add: compact_length_def)
    with True have "?L = 1 \<or> ?L = 2 \<or> ?L = 3" by auto
    then show ?thesis
      using compact_length_bounds(1) [OF assms] by (auto simp: compact_mantissa_def Let_def)
  next
    case False
    then have "8 * ?L - 1 = 23 + 8 * (?L - 3)" by simp
    then have "(2 :: int) ^ (8 * ?L - 1) = 2 ^ 23 * 256 ^ (?L - 3)"
      by (simp only: power_add power_256)
    then have "t < 2 ^ 23 * 256 ^ (?L - 3)"
      using compact_length_bounds(1) [OF assms] by simp
    then have "t div 256 ^ (?L - 3) < 2 ^ 23"
      by (rule div_less_mult) simp
    then show ?thesis
      using False by (simp add: compact_mantissa_def Let_def)
  qed
qed

lemma byte_high_bit: "(b :: byte) AND 0x80 \<noteq> 0 \<longleftrightarrow> 128 \<le> uint b"
proof -
  have "b AND 0x80 \<noteq> 0 \<longleftrightarrow> bit b 7"
    using bit_iff_and_push_bit_not_eq_0 [of b 7] by (simp add: push_bit_eq_mult)
  also have "\<dots> \<longleftrightarrow> bit (uint b) 7"
    by (simp add: bit_uint_iff)
  also have "\<dots> \<longleftrightarrow> odd (uint b div 128)"
    by (simp add: bit_iff_odd)
  also have "\<dots> \<longleftrightarrow> 128 \<le> uint b"
    using uint_byte_bounds [of b] by presburger
  finally show ?thesis .
qed

text \<open>The byte string with its sign byte is the target in \<open>compact_length\<close> bytes.\<close>

lemma compact_raw:
  assumes t: "0 < t"
  defines "n \<equiv> (bit_length t + 7) div 8"
  shows "(if hd (to_be n t) AND 0x80 \<noteq> 0 then 0 # to_be n t else to_be n t) = to_be (compact_length t) t"
proof -
  let ?b = "bit_length t"
  have b: "1 \<le> ?b" "2 ^ (?b - 1) \<le> t" "t < 2 ^ ?b"
    using bit_length_bounds [OF t] by auto
  then obtain k where k: "n = k + 1"
    unfolding n_def by (cases "(?b + 7) div 8") auto
  then have "(?b + 7) div 8 = k + 1"
    unfolding n_def .
  then have range: "8 * k < ?b" "?b \<le> 8 * k + 8"
    using div_mult_mod_eq [of "?b + 7" 8] mod_less_divisor [of 8 "?b + 7"] by linarith+
  define x where "x = t div 256 ^ k"
  have "(2 :: int) ^ ?b \<le> 2 ^ (8 * n)"
    using range k by (intro power_increasing) auto
  then have t_fits: "fits n t"
    using t b(3) by (simp add: fits_def power_256)
  then have x: "0 \<le> x" "x < 256"
    using t by (auto simp: x_def fits_def k pos_imp_zdiv_nonneg_iff intro!: div_less_mult)
  have "to_be n t = word_of_int x # rev (to_le k t)"
    using to_le_add [of k 1 t] x by (simp add: to_be_def k x_def [symmetric] to_le.simps(2))
  moreover have "uint (word_of_int x :: byte) = x"
    using x by (simp add: uint_word_of_int)
  ultimately have high: "hd (to_be n t) AND 0x80 \<noteq> 0 \<longleftrightarrow> 128 \<le> x"
    by (simp add: byte_high_bit)
  have pow: "(2 :: int) ^ (8 * n - 1) = 128 * 256 ^ k"
    using power_add [of "2 :: int" 7 "8 * k"] by (simp add: k power_256 add.commute)
  show ?thesis
  proof (cases "?b = 8 * n")
    case True
    then have "128 * 256 ^ k \<le> t" using b(2) pow by simp
    then have "128 * 256 ^ k div 256 ^ k \<le> x"
      unfolding x_def by (rule zdiv_mono1) simp
    moreover have "compact_length t = Suc n" using True by (simp add: compact_length_def)
    ultimately show ?thesis
      using high to_le_fits_Suc [OF t_fits] by (simp add: to_be_def)
  next
    case False
    then have "?b \<le> 8 * n - 1" using range k by simp
    then have "(2 :: int) ^ ?b \<le> 2 ^ (8 * n - 1)" by (intro power_increasing) auto
    then have "t < 128 * 256 ^ k" unfolding pow by (rule less_le_trans [OF b(3)])
    then have "x < 128" unfolding x_def by (rule div_less_mult) simp
    moreover have "?b div 8 = k"
      using False range k by (intro div_nat_eqI) simp_all
    then have "compact_length t = n"
      by (simp add: compact_length_def k)
    ultimately show ?thesis
      using high by simp
  qed
qed

lemma compact_mantissa_raw:
  assumes "0 < t"
  defines "L \<equiv> compact_length t"
  shows "from_be (take 3 (to_be L t) @ replicate (3 - L) 0) = compact_mantissa t"
proof (cases "L \<le> 3")
  case True
  have "(2 :: int) ^ (8 * L - 1) \<le> 2 ^ (8 * L)"
    by (intro power_increasing) auto
  then have "fits L t"
    using compact_length_bounds(1) [OF assms(1)] assms(1) by (simp add: fits_def L_def power_256)
  moreover have "from_le (replicate n 0) = 0" for n
    by (induction n) auto
  ultimately show ?thesis
    using True by (simp add: from_be_def to_be_def from_le_append compact_mantissa_def Let_def
        L_def [symmetric])
next
  case False
  let ?y = "t div 256 ^ (L - 3)"
  have "L = (L - 3) + 3" using False by simp
  then have "to_le L t = to_le (L - 3) t @ to_le 3 ?y"
    using to_le_add [of "L - 3" 3 t] by simp
  moreover have "fits 3 ?y"
    using compact_mantissa_bounds [OF assms(1)] False
    by (simp add: compact_mantissa_def Let_def L_def fits_def)
  ultimately show ?thesis
    using False by (simp add: from_be_def to_be_def compact_mantissa_def Let_def L_def)
qed

lemma push_bit_or: "0 \<le> m \<Longrightarrow> m < 2 ^ n \<Longrightarrow> push_bit n e OR m = e * 2 ^ n + m" for e m :: int
proof -
  assume "0 \<le> m" "m < 2 ^ n"
  then have "take_bit n m = m" by (simp add: take_bit_int_eq_self)
  then have "push_bit n e AND m = 0"
    by (metis (no_types, lifting) bit_and_iff bit_push_bit_iff bit_take_bit_iff bit_eqI bit_0_eq
        bot_apply bot_bool_def not_le)
  then have "push_bit n e + m = push_bit n e OR m"
    by (rule disjunctive_add_eq_or)
  then show ?thesis by (simp add: push_bit_eq_mult)
qed

lemma target_to_bits_closed:
  assumes "0 < t"
  shows "target_to_bits t = Inr (int (compact_length t) * 2 ^ 24 + compact_mantissa t)"
proof -
  have m: "0 \<le> compact_mantissa t" "compact_mantissa t < 2 ^ 24"
    using compact_mantissa_bounds [OF assms] by simp_all
  show ?thesis
    unfolding target_to_bits_def Let_def compact_raw [OF assms] length_to_be
      compact_mantissa_raw [OF assms] push_bit_or [OF m]
    using assms by simp
qed

lemma compact_length_unique:
  assumes t: "0 < t" "t < 2 ^ (8 * L - 1)" and L: "1 < L \<Longrightarrow> 2 ^ (8 * (L - 1) - 1) \<le> t" "1 \<le> L"
  shows "compact_length t = L"
proof (rule ccontr)
  let ?K = "compact_length t"
  have K: "1 \<le> ?K" "t < 2 ^ (8 * ?K - 1)" "1 < ?K \<Longrightarrow> 2 ^ (8 * (?K - 1) - 1) \<le> t"
    using compact_length_bounds [OF t(1)] by (simp_all add: compact_length_def)
  have contra: False if "M < N" "t < 2 ^ (8 * M - 1)" "2 ^ (8 * (N - 1) - 1) \<le> t" for M N :: nat
  proof -
    have "8 * M - 1 \<le> 8 * (N - 1) - 1"
      using that(1) by (intro diff_le_mono mult_le_mono2) simp
    then have "(2 :: int) ^ (8 * M - 1) \<le> 2 ^ (8 * (N - 1) - 1)"
      by (intro power_increasing) auto
    then have "t < 2 ^ (8 * (N - 1) - 1)"
      by (rule less_le_trans [OF that(2)])
    with that(3) show False by simp
  qed
  assume "?K \<noteq> L"
  then consider "?K < L" | "L < ?K" by linarith
  then show False
    using contra [of ?K L] contra [of L ?K] K t(2) L by cases auto
qed

lemma compact_length_le_32:
  assumes "0 < t" "t < 2 ^ 255"
  shows "compact_length t \<le> 32"
proof (rule ccontr)
  assume "\<not> compact_length t \<le> 32"
  then have "2 ^ (8 * (compact_length t - 1) - 1) \<le> t" "255 \<le> 8 * (compact_length t - 1) - 1"
    using compact_length_bounds(2) [OF assms(1)] by auto
  moreover have "(2 :: int) ^ 255 \<le> 2 ^ (8 * (compact_length t - 1) - 1)"
    using calculation(2) by (rule power_increasing) simp
  ultimately show False
    using assms(2) by linarith
qed

text \<open>The target a compact form stands for: all but the three leading bytes are cleared.\<close>

definition compact_target :: "int \<Rightarrow> int" where
  "compact_target t =
     (let d = 256 ^ (compact_length t - 3) in if t \<le> 0 then 0 else (t div d) * d)"

lemma compact_value_target:
  assumes "0 < t"
  shows "compact_value (compact_length t) (compact_mantissa t) = compact_target t"
  using assms by (simp add: compact_value_def compact_mantissa_def compact_target_def Let_def)

lemma compact_target_bounds:
  assumes "0 < t"
  shows "0 < compact_target t" "compact_target t \<le> t" "(t - compact_target t) * 2 ^ 15 \<le> compact_target t"
    and "compact_length (compact_target t) = compact_length t"
proof -
  let ?L = "compact_length t" and ?c = "compact_target t"
  let ?d = "256 ^ (?L - 3) :: int"
  have d: "0 < ?d" by simp
  have c: "?c = (t div ?d) * ?d" using assms by (simp add: compact_target_def Let_def)
  have rest: "t - ?c = t mod ?d" "t mod ?d < ?d" "0 \<le> t mod ?d"
    by (simp_all add: c minus_div_mult_eq_mod)
  then show le: "?c \<le> t" by linarith
  have big: "?L \<le> 3 \<and> ?c = t \<or> 2 ^ (8 * (?L - 1) - 1) \<le> ?c \<and> 2 ^ 15 * ?d \<le> ?c \<and> 3 < ?L"
  proof (cases "?L \<le> 3")
    case True
    then show ?thesis by (simp add: c)
  next
    case False
    then have "8 * (?L - 1) - 1 = 15 + 8 * (?L - 3)" by simp
    then have pow: "(2 :: int) ^ (8 * (?L - 1) - 1) = 2 ^ 15 * ?d"
      by (simp only: power_add power_256)
    then have "2 ^ 15 * ?d \<le> t"
      using compact_length_bounds(2) [OF assms] False by simp
    then have "2 ^ 15 * ?d div ?d \<le> t div ?d"
      by (rule zdiv_mono1) simp
    then have "2 ^ 15 * ?d \<le> ?c" by (simp add: c)
    with pow False show ?thesis by simp
  qed
  moreover have "0 < 2 ^ 15 * ?d" by simp
  ultimately show pos: "0 < ?c" using assms by linarith
  show "(t - ?c) * 2 ^ 15 \<le> ?c"
    using big
  proof
    assume "?L \<le> 3 \<and> ?c = t"
    then show ?thesis using assms by simp
  next
    assume large: "2 ^ (8 * (?L - 1) - 1) \<le> ?c \<and> 2 ^ 15 * ?d \<le> ?c \<and> 3 < ?L"
    have "(t - ?c) * 2 ^ 15 \<le> ?d * 2 ^ 15"
      unfolding rest(1) by (intro mult_right_mono less_imp_le [OF rest(2)]) simp
    also have "\<dots> \<le> ?c" using large by (simp only: mult.commute [of ?d])
    finally show ?thesis .
  qed
  show "compact_length ?c = ?L"
  proof (rule compact_length_unique)
    show "0 < ?c" by (rule pos)
    show "?c < 2 ^ (8 * ?L - 1)" using le compact_length_bounds(1) [OF assms] by (rule le_less_trans)
    show "2 ^ (8 * (?L - 1) - 1) \<le> ?c" if "1 < ?L"
      using big compact_length_bounds(2) [OF assms that] by auto
  qed (simp add: compact_length_def)
qed

lemma compact_target_le: "0 \<le> t \<Longrightarrow> compact_target t \<le> t \<and> t * 2 ^ 15 \<le> compact_target t * (2 ^ 15 + 1)"
  using compact_target_bounds(2,3) [of t] by (cases "t = 0") (simp_all add: compact_target_def algebra_simps)

lemma compact_decodes:
  assumes "0 \<le> t" "t < 2 ^ 255"
  shows "\<exists>b. target_to_bits t = Inr b \<and> bits_to_target b = Inr (compact_target t)"
proof (cases "t = 0")
  case True
  then show ?thesis by (simp add: target_to_bits_def bits_to_target_def Let_def compact_target_def)
next
  case False
  then have t: "0 < t" using assms by simp
  then show ?thesis
    using bits_to_target_compact [OF compact_mantissa_bounds [OF t] compact_length_le_32 [OF t assms(2)]]
    by (simp add: target_to_bits_closed compact_value_target)
qed

lemma compact_target_idem: "0 < t \<Longrightarrow> target_to_bits (compact_target t) = target_to_bits t"
  using compact_target_bounds [of t]
  by (simp add: target_to_bits_closed compact_mantissa_def Let_def compact_target_def)

section \<open>Work\<close>

lemma check_proof_of_work_iff:
  "check_proof_of_work h bits limit = Inr True \<longleftrightarrow>
     (\<exists>t. bits_to_target bits = Inr t \<and> 0 < t \<and> t \<le> limit \<and> length h = 32 \<and> from_le h \<le> t)"
  by (auto simp: check_proof_of_work_def hash_to_int_def bnd_eq_Inr dest: bits_to_target_bounds
      split: sum.splits if_splits)

lemma block_work_total: "bits_to_target bits = Inr t \<Longrightarrow> \<exists>w. block_work bits = Inr w \<and> 0 \<le> w"
  by (auto simp: block_work_def pos_imp_zdiv_nonneg_iff)

lemma block_work_pos:
  assumes "bits_to_target bits = Inr t" "0 < t" "block_work bits = Inr w"
  shows "2 \<le> w"
proof -
  have "t + 1 \<le> 2 ^ 255"
    using bits_to_target_bounds [OF assms(1)] by simp
  then have "2 ^ 256 div 2 ^ 255 \<le> 2 ^ 256 div (t + 1)"
    using assms(2) by (intro zdiv_mono2) auto
  then show ?thesis
    using assms by (simp add: block_work_def)
qed

section \<open>Properties\<close>

text \<open>
  Compact targets keep the leading bytes. Every target below \<open>2 ^ 255\<close> has a compact form; the
  compact form decodes to a target that is never easier than the original and smaller by at most
  one part in 32768; and compressing the decoded target gives the same compact form again.
\<close>
theorem compact_roundtrip:
  assumes "0 < t" "t < 2 ^ 255"
  shows "\<exists>b t'. target_to_bits t = Inr b \<and> bits_to_target b = Inr t' \<and>
    0 < t' \<and> t' \<le> t \<and> (t - t') * 2 ^ 15 \<le> t' \<and> target_to_bits t' = Inr b"
  using compact_decodes [of t] compact_target_bounds [of t] compact_target_idem [of t] assms by auto

lemma next_bits_valid:
  assumes "bits_to_target cur = Inr t" "0 < span" "1 \<le> f" "0 < limit" "limit < 2 ^ 255"
  shows "\<exists>b t'. next_bits cur actual span limit f = Inr b \<and> bits_to_target b = Inr t' \<and>
    t' \<le> limit \<and> t' \<le> t * f \<and>
    min (t * (span div f) div span) limit * 2 ^ 15 \<le> t' * (2 ^ 15 + 1)"
proof -
  define c where "c = min (max actual (span div f)) (span * f)"
  define x where "x = min (t * c div span) limit"
  have t: "0 \<le> t" using bits_to_target_bounds [OF assms(1)] by simp
  have "span div f \<le> span"
    using assms(2,3) zdiv_mono2 [of span 1 f] by simp
  also have "span \<le> span * f"
    using assms(2,3) by (simp add: mult_le_cancel_left1)
  finally have c: "span div f \<le> c" "c \<le> span * f" "0 \<le> c"
    using assms(2,3) by (auto simp: c_def pos_imp_zdiv_nonneg_iff le_max_iff_disj)
  have "t * c div span \<le> t * f * span div span"
    using c t assms(2) by (intro zdiv_mono1) (auto simp: mult.assoc mult.commute [of f] mult_left_mono)
  then have up: "t * c div span \<le> t * f" using assms(2) by simp
  have low: "t * (span div f) div span \<le> t * c div span"
    using c t assms(2) by (intro zdiv_mono1) (auto simp: mult_left_mono)
  have x: "0 \<le> x" "x < 2 ^ 255"
    using t c(3) assms by (auto simp: x_def pos_imp_zdiv_nonneg_iff)
  obtain b where b: "target_to_bits x = Inr b" "bits_to_target b = Inr (compact_target x)"
    using compact_decodes [OF x] by blast
  have "next_bits cur actual span limit f = Inr b"
    using assms b by (simp add: next_bits_def x_def c_def)
  moreover have "compact_target x \<le> x" "x * 2 ^ 15 \<le> compact_target x * (2 ^ 15 + 1)"
    using compact_target_le [OF x(1)] by simp_all
  moreover have "min (t * (span div f) div span) limit * 2 ^ 15 \<le> x * 2 ^ 15"
    using low by (intro mult_right_mono) (auto simp: x_def)
  ultimately show ?thesis
    using b(2) up by (intro exI [of _ b] exI [of _ "compact_target x"]) (auto simp: x_def)
qed

text \<open>
  A periodic retarget always produces a valid compact target, never easier than the limit and
  never easier than the allowed factor times the old target; and it is at least as easy as the
  old target divided by the factor (up to the rounding of the compact form), or as the limit.
\<close>
theorem next_bits_bounds:
  assumes "bits_to_target cur = Inr t" "0 < span" "1 \<le> f" "0 < limit" "limit < 2 ^ 255"
  shows "\<exists>b t'. next_bits cur actual span limit f = Inr b \<and> bits_to_target b = Inr t' \<and>
    t' \<le> limit \<and> t' \<le> t * f \<and>
    min (t * (span div f) div span) limit * 2 ^ 15 \<le> t' * (2 ^ 15 + 1)"
  using assms by (rule next_bits_valid)

lemma bits_from_work_valid:
  assumes "bits_to_target parent = Inr p" "p \<le> limit" "0 < limit" "limit < 2 ^ 255"
    and "0 < spacing" "1 \<le> f"
  shows "\<exists>b t'. bits_from_work work elapsed spacing limit parent f = Inr b \<and>
    bits_to_target b = Inr t' \<and> t' \<le> limit \<and> (p div f) * 2 ^ 15 \<le> t' * (2 ^ 15 + 1)"
proof (cases "work \<le> 0 \<or> elapsed \<le> 0")
  case True
  have p: "0 \<le> p" using bits_to_target_bounds [OF assms(1)] by simp
  have "p div f \<le> p" using p assms(6) zdiv_mono2 [of p 1 f] by simp
  then show ?thesis using True assms(1,2) p by (auto simp: bits_from_work_def)
next
  case False
  define x where "x = max (min ((MAX_TARGET_LIMIT + 1) * elapsed div (work * spacing)) limit) (p div f)"
  have p: "0 \<le> p" using bits_to_target_bounds [OF assms(1)] by simp
  have "0 \<le> p div f" "p div f \<le> p"
    using p assms(6) zdiv_mono2 [of p 1 f] by (auto simp: pos_imp_zdiv_nonneg_iff)
  then have x: "0 \<le> x" "x \<le> limit" "p div f \<le> x"
    using assms(2,3) by (auto simp: x_def)
  then have "x < 2 ^ 255" using assms(4) by simp
  then obtain b where b: "target_to_bits x = Inr b" "bits_to_target b = Inr (compact_target x)"
    using compact_decodes [OF x(1)] by blast
  have "bits_from_work work elapsed spacing limit parent f = Inr b"
    using False assms b by (simp add: bits_from_work_def x_def)
  then show ?thesis
    using b(2) compact_target_le [OF x(1)] x by auto
qed

text \<open>
  A per-block retarget always produces a valid compact target; it is never easier than the
  limit, and never harder than the parent's target divided by the factor, up to the rounding of
  the compact form, whatever work and time are claimed.
\<close>
theorem bits_from_work_bounds:
  assumes "bits_to_target parent = Inr p" "p \<le> limit" "0 < limit" "limit < 2 ^ 255"
    and "0 < spacing" "1 \<le> f"
  shows "\<exists>b t'. bits_from_work work elapsed spacing limit parent f = Inr b \<and>
    bits_to_target b = Inr t' \<and> t' \<le> limit \<and> (p div f) * 2 ^ 15 \<le> t' * (2 ^ 15 + 1)"
  using assms by (rule bits_from_work_valid)

section \<open>Witnesses\<close>

theorem compact_roundtrip_witness:
  "\<exists>b t'. target_to_bits 0x123456789A = Inr b \<and> bits_to_target b = Inr t' \<and>
    0 < t' \<and> t' \<le> 0x123456789A \<and> (0x123456789A - t') * 2 ^ 15 \<le> t' \<and> target_to_bits t' = Inr b"
  by (rule compact_roundtrip) simp_all

lemma demo_target: "bits_to_target 0x1d00ffff = Inr (0xffff * 2 ^ 208)"
  using bits_to_target_compact [of "0xffff" 29] by (simp add: compact_value_def)

theorem next_bits_bounds_witness:
  "\<exists>b t'. next_bits 0x1d00ffff 100 600 (2 ^ 224) 4 = Inr b \<and> bits_to_target b = Inr t' \<and>
    t' \<le> 2 ^ 224 \<and> t' \<le> (0xffff * 2 ^ 208) * 4 \<and>
    min ((0xffff * 2 ^ 208) * (600 div 4) div 600) (2 ^ 224) * 2 ^ 15 \<le> t' * (2 ^ 15 + 1)"
  by (rule next_bits_bounds [OF demo_target]) simp_all

theorem bits_from_work_bounds_witness:
  "\<exists>b t'. bits_from_work 1000 60 60 (2 ^ 224) 0x1d00ffff 4 = Inr b \<and> bits_to_target b = Inr t' \<and>
    t' \<le> 2 ^ 224 \<and> ((0xffff * 2 ^ 208) div 4) * 2 ^ 15 \<le> t' * (2 ^ 15 + 1)"
  by (rule bits_from_work_bounds [OF demo_target]) simp_all

end
