(* ===== verification/Serialize.thy ===== *)
theory Serialize
  imports Prelude
begin

text \<open>
  \<^verbatim>\<open>core/serialize.py\<close>: the \<open>Writer\<close> and \<open>Reader\<close> primitives of the consensus encoding.

  A \<open>Writer\<close> is the bytes written so far; a method takes it and returns the longer one, or the
  exception. A \<open>Reader\<close> is the part of the stream not yet consumed (\<^verbatim>\<open>_data[_offset:]\<close>), so
  \<open>remaining\<close> is its length.

  The locale \<open>codec\<close> is the contract between a writer and its reader: reading what was written
  gives the value back and leaves the rest of the stream alone, and every accepted stream is
  the encoding of the value it was read as, so there is only one encoding of each value. It is
  interpreted on the fixed-width integers, the compact-size integers, the length-prefixed
  strings and the 32-byte hashes.
\<close>

section \<open>Operations\<close>

type_synonym writer = bytes
type_synonym reader = bytes

definition pack :: "nat \<Rightarrow> int \<Rightarrow> bytes result" where
  "pack n v = (if fits n v then Inr (to_le n v) else Inl StructError)"

definition w_raw :: "bytes \<Rightarrow> writer \<Rightarrow> writer result" where
  "w_raw data w = Inr (w @ data)"

definition w_uint8 :: "int \<Rightarrow> writer \<Rightarrow> writer result" where
  "w_uint8 v w = bnd (pack 1 v) (\<lambda>b. Inr (w @ b))"

definition w_uint16 :: "int \<Rightarrow> writer \<Rightarrow> writer result" where
  "w_uint16 v w = bnd (pack 2 v) (\<lambda>b. Inr (w @ b))"

definition w_uint32 :: "int \<Rightarrow> writer \<Rightarrow> writer result" where
  "w_uint32 v w = bnd (pack 4 v) (\<lambda>b. Inr (w @ b))"

definition w_uint64 :: "int \<Rightarrow> writer \<Rightarrow> writer result" where
  "w_uint64 v w = bnd (pack 8 v) (\<lambda>b. Inr (w @ b))"

text \<open>The format \<^verbatim>\<open>"<i"\<close>: four bytes, two's complement.\<close>

definition w_int32 :: "int \<Rightarrow> writer \<Rightarrow> writer result" where
  "w_int32 v w =
     (if - (2 ^ 31) \<le> v \<and> v < 2 ^ 31 then Inr (w @ to_le 4 (v mod 2 ^ 32)) else Inl StructError)"

definition w_varint :: "int \<Rightarrow> writer \<Rightarrow> writer result" where
  "w_varint v w =
     (if v < 0 \<or> v > 0xFFFFFFFFFFFFFFFF then Inl (SerializationError ''varint out of range'')
      else if v < 0xFD then bnd (pack 1 v) (\<lambda>b. Inr (w @ b))
      else if v \<le> 0xFFFF then bnd (pack 2 v) (\<lambda>b. Inr (w @ [0xFD] @ b))
      else if v \<le> 0xFFFFFFFF then bnd (pack 4 v) (\<lambda>b. Inr (w @ [0xFE] @ b))
      else bnd (pack 8 v) (\<lambda>b. Inr (w @ [0xFF] @ b)))"

definition w_varbytes :: "bytes \<Rightarrow> writer \<Rightarrow> writer result" where
  "w_varbytes data w = bnd (w_varint (int (length data)) w) (\<lambda>w. Inr (w @ data))"

definition w_hash32 :: "bytes \<Rightarrow> writer \<Rightarrow> writer result" where
  "w_hash32 digest w =
     (if length digest \<noteq> 32 then Inl (SerializationError ''expected a 32-byte hash'')
      else Inr (w @ digest))"

definition remaining :: "reader \<Rightarrow> int" where
  "remaining s = int (length s)"

definition r_raw :: "int \<Rightarrow> reader \<Rightarrow> (bytes \<times> reader) result" where
  "r_raw n s =
     (if n < 0 then Inl (SerializationError ''negative read length'')
      else if remaining s < n then Inl (SerializationError ''truncated stream'')
      else Inr (take (nat n) s, drop (nat n) s))"

definition r_uint8 :: "reader \<Rightarrow> (int \<times> reader) result" where
  "r_uint8 s = bnd (r_raw 1 s) (\<lambda>(b, s). Inr (from_le b, s))"

definition r_uint16 :: "reader \<Rightarrow> (int \<times> reader) result" where
  "r_uint16 s = bnd (r_raw 2 s) (\<lambda>(b, s). Inr (from_le b, s))"

definition r_uint32 :: "reader \<Rightarrow> (int \<times> reader) result" where
  "r_uint32 s = bnd (r_raw 4 s) (\<lambda>(b, s). Inr (from_le b, s))"

definition r_uint64 :: "reader \<Rightarrow> (int \<times> reader) result" where
  "r_uint64 s = bnd (r_raw 8 s) (\<lambda>(b, s). Inr (from_le b, s))"

definition r_int32 :: "reader \<Rightarrow> (int \<times> reader) result" where
  "r_int32 s = bnd (r_raw 4 s) (\<lambda>(b, s).
     Inr (if from_le b < 2 ^ 31 then from_le b else from_le b - 2 ^ 32, s))"

definition r_varint :: "reader \<Rightarrow> (int \<times> reader) result" where
  "r_varint s = bnd (r_uint8 s) (\<lambda>(prefix, s).
     if prefix < 0xFD then Inr (prefix, s)
     else bnd (if prefix = 0xFD then bnd (r_uint16 s) (\<lambda>(v, s). Inr (v, 0xFD, s))
               else if prefix = 0xFE then bnd (r_uint32 s) (\<lambda>(v, s). Inr (v, 0x10000, s))
               else bnd (r_uint64 s) (\<lambda>(v, s). Inr (v, 0x100000000, s)))
       (\<lambda>(v, minimum, s).
          if v < minimum then Inl (SerializationError ''non-canonical varint encoding'')
          else Inr (v, s)))"

definition r_varbytes :: "int option \<Rightarrow> reader \<Rightarrow> (bytes \<times> reader) result" where
  "r_varbytes max_length s = bnd (r_varint s) (\<lambda>(n, s).
     if (case max_length of None \<Rightarrow> False | Some m \<Rightarrow> n > m)
     then Inl (SerializationError ''byte string too long'')
     else r_raw n s)"

definition r_hash32 :: "reader \<Rightarrow> (bytes \<times> reader) result" where
  "r_hash32 s = r_raw 32 s"

definition expect_end :: "reader \<Rightarrow> unit result" where
  "expect_end s =
     (if remaining s \<noteq> 0 then Inl (SerializationError ''trailing bytes after object'') else Inr ())"

text \<open>\<^verbatim>\<open>tuple(read(reader) for _ in range(n))\<close>.\<close>

fun r_times :: "nat \<Rightarrow> (reader \<Rightarrow> ('a \<times> reader) result) \<Rightarrow> reader \<Rightarrow> ('a list \<times> reader) result" where
  "r_times 0 p s = Inr ([], s)"
| "r_times (Suc n) p s =
     bnd (p s) (\<lambda>(x, s). bnd (r_times n p s) (\<lambda>(xs, s). Inr (x # xs, s)))"

section \<open>The contract between writing and reading\<close>

text \<open>The bytes of a compact-size integer, as the writer lays them out.\<close>

definition varint_bytes :: "int \<Rightarrow> bytes" where
  "varint_bytes v =
     (if v < 0xFD then to_le 1 v
      else if v \<le> 0xFFFF then 0xFD # to_le 2 v
      else if v \<le> 0xFFFFFFFF then 0xFE # to_le 4 v
      else 0xFF # to_le 8 v)"

definition varbytes_bytes :: "bytes \<Rightarrow> bytes" where
  "varbytes_bytes d = varint_bytes (int (length d)) @ d"

locale codec =
  fixes enc :: "'a \<Rightarrow> bytes"
    and dec :: "reader \<Rightarrow> ('a \<times> reader) result"
    and ok :: "'a \<Rightarrow> bool"
  assumes dec_enc: "ok x \<Longrightarrow> dec (enc x @ s) = Inr (x, s)"
    and enc_dec: "dec s = Inr (x, s') \<Longrightarrow> ok x \<and> s = enc x @ s'"
begin

lemma dec_iff: "dec s = Inr (x, s') \<longleftrightarrow> ok x \<and> s = enc x @ s'"
  using dec_enc enc_dec by blast

text \<open>The encodings are uniquely readable from the front of any stream.\<close>

lemma enc_unique:
  assumes "ok x" and "ok y" and "enc x @ s = enc y @ t"
  shows "x = y \<and> s = t"
proof -
  have "Inr (x, s) = dec (enc y @ t)"
    using dec_enc [OF assms(1)] assms(3) by metis
  then show ?thesis
    using dec_enc [OF assms(2)] by simp
qed

lemma times_enc:
  "list_all ok xs \<Longrightarrow> r_times (length xs) dec (concat (map enc xs) @ s) = Inr (xs, s)"
  by (induction xs) (simp_all add: dec_enc)

lemma times_dec:
  "r_times n dec s = Inr (xs, s') \<Longrightarrow>
     list_all ok xs \<and> length xs = n \<and> s = concat (map enc xs) @ s'"
proof (induction n arbitrary: s xs)
  case 0
  then show ?case by simp
next
  case (Suc n)
  then obtain x s1 ys where x: "dec s = Inr (x, s1)"
    and ys: "r_times n dec s1 = Inr (ys, s')" and xs: "xs = x # ys"
    by (auto simp: result_simps)
  show ?case
    using enc_dec [OF x] Suc.IH [OF ys] xs by simp
qed

lemma times_iff:
  "r_times n dec s = Inr (xs, s') \<longleftrightarrow>
     list_all ok xs \<and> length xs = n \<and> s = concat (map enc xs) @ s'"
  using times_enc times_dec by blast

text \<open>A list behind its compact-size count is uniquely readable as well.\<close>

lemma list_unique:
  assumes "list_all ok xs" and "list_all ok ys" and "length xs = length ys"
    and "concat (map enc xs) @ s = concat (map enc ys) @ t"
  shows "xs = ys \<and> s = t"
proof -
  have "Inr (xs, s) = r_times (length ys) dec (concat (map enc ys) @ t)"
    using times_enc [OF assms(1), of s] assms(3,4) by simp
  then show ?thesis
    using times_enc [OF assms(2), of t] by simp
qed

end

text \<open>Writing a sequence of items one after the other.\<close>

lemma foldR_writer:
  assumes "\<And>x w w'. f x w = Inr w' \<longleftrightarrow> ok x \<and> w' = w @ enc x"
  shows "foldR f xs w = Inr w' \<longleftrightarrow> list_all ok xs \<and> w' = w @ concat (map enc xs)"
proof (induction xs arbitrary: w)
  case Nil
  then show ?case by auto
next
  case (Cons x xs)
  then show ?case by (auto simp: result_simps assms)
qed

section \<open>Fixed-width integers\<close>

lemma r_raw_iff [codec_simps]:
  "r_raw n s = Inr (d, s') \<longleftrightarrow> 0 \<le> n \<and> length d = nat n \<and> s = d @ s'"
  by (auto simp: r_raw_def remaining_def append_eq_conv_conj split: if_splits)

lemma r_uint_codec:
  assumes "\<And>s. r s = bnd (r_raw (int n) s) (\<lambda>(b, s). Inr (from_le b, s))"
  shows "codec (to_le n) r (fits n)"
proof
  fix v s
  assume "fits n v"
  moreover have "r_raw (int n) (to_le n v @ s) = Inr (to_le n v, s)"
    by (simp add: r_raw_iff)
  ultimately show "r (to_le n v @ s) = Inr (v, s)"
    by (simp add: assms)
next
  fix s v s'
  assume "r s = Inr (v, s')"
  then obtain b where b: "r_raw (int n) s = Inr (b, s')" and v: "v = from_le b"
    by (auto simp: assms result_simps)
  from b have "length b = n" and "s = b @ s'"
    by (simp_all add: r_raw_iff)
  then show "fits n v \<and> s = to_le n v @ s'"
    using v fits_from_le [of b] by (simp add: to_le_from_le')
qed

interpretation u8: codec "to_le (Suc 0)" r_uint8 "fits (Suc 0)"
  by (rule r_uint_codec) (simp add: r_uint8_def)

interpretation u16: codec "to_le 2" r_uint16 "fits 2"
  by (rule r_uint_codec) (simp add: r_uint16_def)

interpretation u32: codec "to_le 4" r_uint32 "fits 4"
  by (rule r_uint_codec) (simp add: r_uint32_def)

interpretation u64: codec "to_le 8" r_uint64 "fits 8"
  by (rule r_uint_codec) (simp add: r_uint64_def)

interpretation h32: codec "\<lambda>d. d" r_hash32 "\<lambda>d. length d = 32"
  by unfold_locales (auto simp: r_hash32_def r_raw_iff)

lemmas uint_iffs [codec_simps] = u8.dec_iff u16.dec_iff u32.dec_iff u64.dec_iff h32.dec_iff

lemma w_uint_iffs [codec_simps]:
  "w_uint8 v w = Inr w' \<longleftrightarrow> fits 1 v \<and> w' = w @ to_le 1 v"
  "w_uint16 v w = Inr w' \<longleftrightarrow> fits 2 v \<and> w' = w @ to_le 2 v"
  "w_uint32 v w = Inr w' \<longleftrightarrow> fits 4 v \<and> w' = w @ to_le 4 v"
  "w_uint64 v w = Inr w' \<longleftrightarrow> fits 8 v \<and> w' = w @ to_le 8 v"
  by (auto simp: w_uint8_def w_uint16_def w_uint32_def w_uint64_def pack_def)

lemma w_raw_iff [codec_simps]: "w_raw d w = Inr w' \<longleftrightarrow> w' = w @ d"
  by (auto simp: w_raw_def)

lemma w_hash32_iff [codec_simps]: "w_hash32 d w = Inr w' \<longleftrightarrow> length d = 32 \<and> w' = w @ d"
  by (auto simp: w_hash32_def)

lemma expect_end_iff [codec_simps]: "expect_end s = Inr u \<longleftrightarrow> s = []"
  by (simp add: expect_end_def remaining_def)

section \<open>Compact-size integers and strings\<close>

lemma byte_prefix [simp]: "from_le [0xFD] = 0xFD" "from_le [0xFE] = 0xFE" "from_le [0xFF] = 0xFF"
  by simp_all

lemma w_varint_iff [codec_simps]: "w_varint v w = Inr w' \<longleftrightarrow> fits 8 v \<and> w' = w @ varint_bytes v"
  by (auto simp: w_varint_def pack_def fits_def varint_bytes_def)

lemma to_le_1_prefix:
  "to_le (Suc 0) 0xFD = [0xFD]" "to_le (Suc 0) 0xFE = [0xFE]" "to_le (Suc 0) 0xFF = [0xFF]"
  by (simp_all add: to_le.simps)

lemma r_uint8_prefix:
  "r_uint8 (0xFD # s) = Inr (0xFD, s)"
  "r_uint8 (0xFE # s) = Inr (0xFE, s)"
  "r_uint8 (0xFF # s) = Inr (0xFF, s)"
  using u8.dec_enc [of "0xFD" s] u8.dec_enc [of "0xFE" s] u8.dec_enc [of "0xFF" s]
  by (simp_all add: to_le_1_prefix fits_def)

lemma r_varint_bytes: "fits 8 v \<Longrightarrow> r_varint (varint_bytes v @ s) = Inr (v, s)"
  using u8.dec_enc [of v s] u16.dec_enc [of v s] u32.dec_enc [of v s] u64.dec_enc [of v s]
  by (auto simp: varint_bytes_def r_varint_def r_uint8_prefix fits_def)

lemma r_varint_cases:
  assumes "r_varint s = Inr (v, s')"
  obtains (short) "fits 1 v" "v < 0xFD" "s = to_le 1 v @ s'"
    | (u16) "fits 2 v" "0xFD \<le> v" "s = 0xFD # to_le 2 v @ s'"
    | (u32) "fits 4 v" "0x10000 \<le> v" "s = 0xFE # to_le 4 v @ s'"
    | (u64) "fits 8 v" "0x100000000 \<le> v" "s = 0xFF # to_le 8 v @ s'"
proof -
  obtain p s1 where p: "fits (Suc 0) p" and s: "s = to_le (Suc 0) p @ s1"
    and cases: "p < 0xFD \<and> v = p \<and> s' = s1
      \<or> p = 0xFD \<and> r_uint16 s1 = Inr (v, s') \<and> 0xFD \<le> v
      \<or> p = 0xFE \<and> r_uint32 s1 = Inr (v, s') \<and> 0x10000 \<le> v
      \<or> p \<noteq> 0xFD \<and> p \<noteq> 0xFE \<and> \<not> p < 0xFD \<and> r_uint64 s1 = Inr (v, s') \<and> 0x100000000 \<le> v"
    using assms by (auto simp: r_varint_def result_simps u8.dec_iff split: if_splits)
  from cases show thesis
  proof (elim disjE conjE)
    assume "p \<noteq> 0xFD" "p \<noteq> 0xFE" "\<not> p < 0xFD" and v: "r_uint64 s1 = Inr (v, s')" "0x100000000 \<le> v"
    then have "p = 0xFF"
      using p by (simp add: fits_def)
    with s v show thesis
      by (intro u64) (simp_all add: u64.dec_iff to_le_1_prefix)
  qed (use s p in \<open>simp_all add: short u16 u32 u16.dec_iff u32.dec_iff to_le_1_prefix\<close>)
qed

lemma r_varint_canonical:
  assumes "r_varint s = Inr (v, s')"
  shows "fits 8 v \<and> s = varint_bytes v @ s'"
  using assms by (cases rule: r_varint_cases) (auto simp: fits_def varint_bytes_def)

interpretation vint: codec varint_bytes r_varint "fits 8"
  by unfold_locales (auto simp: r_varint_bytes dest: r_varint_canonical)

lemmas r_varint_iff [codec_simps] = vint.dec_iff

lemma w_varbytes_iff [codec_simps]:
  "w_varbytes d w = Inr w' \<longleftrightarrow> fits 8 (int (length d)) \<and> w' = w @ varbytes_bytes d"
  by (auto simp: w_varbytes_def result_simps w_varint_iff varbytes_bytes_def)

lemma r_varbytes_iff:
  "r_varbytes m s = Inr (d, s') \<longleftrightarrow>
     fits 8 (int (length d)) \<and> (case m of None \<Rightarrow> True | Some k \<Rightarrow> int (length d) \<le> k) \<and>
     s = varbytes_bytes d @ s'"
proof
  assume "r_varbytes m s = Inr (d, s')"
  then obtain n s1 where "r_varint s = Inr (n, s1)" and "r_raw n s1 = Inr (d, s')"
    and m: "\<not> (case m of None \<Rightarrow> False | Some k \<Rightarrow> n > k)"
    by (auto simp: r_varbytes_def result_simps split: if_splits)
  then have "fits 8 n" "s = varint_bytes n @ d @ s'" "n = int (length d)"
    by (auto simp: vint.dec_iff r_raw_iff)
  with m show "fits 8 (int (length d)) \<and> (case m of None \<Rightarrow> True | Some k \<Rightarrow> int (length d) \<le> k) \<and>
      s = varbytes_bytes d @ s'"
    by (auto simp: varbytes_bytes_def split: option.splits)
next
  assume *: "fits 8 (int (length d)) \<and> (case m of None \<Rightarrow> True | Some k \<Rightarrow> int (length d) \<le> k) \<and>
      s = varbytes_bytes d @ s'"
  have "r_raw (int (length d)) (d @ s') = Inr (d, s')"
    by (simp add: r_raw_iff)
  then show "r_varbytes m s = Inr (d, s')"
    using * by (simp add: r_varbytes_def varbytes_bytes_def vint.dec_enc split: option.splits)
qed

interpretation vbytes: codec varbytes_bytes "r_varbytes None" "\<lambda>d. fits 8 (int (length d))"
  by unfold_locales (simp_all add: r_varbytes_iff)

lemma length_varint_bytes_pos [simp]: "varint_bytes v \<noteq> []"
  by (simp add: varint_bytes_def)

section \<open>Properties\<close>

text \<open>
  Compact-size integers have exactly one encoding: the reader accepts a stream as the value
  \<open>v\<close> exactly when the writer emits, for \<open>v\<close>, the bytes the reader consumed. Over-long encodings
  are rejected and nothing past the integer is consumed.
\<close>
theorem varint_canonical:
  "r_varint s = Inr (v, s') \<longleftrightarrow> (\<exists>b. w_varint v [] = Inr b \<and> s = b @ s')"
  by (simp add: vint.dec_iff w_varint_iff)

end
