(* ===== verification/Transaction.thy ===== *)
theory Transaction
  imports Serialize Hashing
begin

text \<open>
  \<^verbatim>\<open>core/transaction.py\<close>: outpoints, inputs, outputs and transactions, their structural checks,
  their encoding, their ids and the digests their signatures commit to.

  A frozen dataclass is a record, and its \<^verbatim>\<open>__post_init__\<close> is the \<open>mk_\<close> function that builds it or
  raises. \<open>wf_outpoint\<close>, \<open>wf_txinput\<close>, \<open>wf_txoutput\<close> and \<open>wf_transaction\<close> say what those checks
  guarantee of every object the program can hold. The writers raise on values out of range, which
  a well-formed object never has, so the id and the size of a transaction are those of the bytes
  written (\<open>written\<close>).
\<close>

section \<open>Constants\<close>

definition SIGHASH_TAG :: bytes where
  "SIGHASH_TAG = map (of_char :: char \<Rightarrow> byte) ''ScarletCoin/sighash/2''"

definition OUTPUT_P2PKH :: int where "OUTPUT_P2PKH = 0"
definition OUTPUT_P2SH :: int where "OUTPUT_P2SH = 1"
definition SEQUENCE_FINAL :: int where "SEQUENCE_FINAL = 0xFFFFFFFF"
definition MAX_MONEY :: int where "MAX_MONEY = 21000000 * 100000000"
definition MAX_COINBASE_DATA :: int where "MAX_COINBASE_DATA = 100"
definition MAX_WITNESS_ITEMS :: int where "MAX_WITNESS_ITEMS = 100"
definition MAX_WITNESS_ITEM_SIZE :: int where "MAX_WITNESS_ITEM_SIZE = 520"
definition NULL_HASH :: bytes where "NULL_HASH = replicate 32 0"
definition NULL_INDEX :: int where "NULL_INDEX = 0xFFFFFFFF"

lemmas tx_constants = OUTPUT_P2PKH_def OUTPUT_P2SH_def SEQUENCE_FINAL_def MAX_MONEY_def
  MAX_COINBASE_DATA_def MAX_WITNESS_ITEMS_def MAX_WITNESS_ITEM_SIZE_def NULL_HASH_def NULL_INDEX_def
  PUBKEY_HASH_LENGTH_def

section \<open>Data\<close>

record outpoint =
  op_txid :: bytes
  op_index :: int

definition mk_outpoint :: "bytes \<Rightarrow> int \<Rightarrow> outpoint result" where
  "mk_outpoint txid index =
     (if length txid \<noteq> 32 then Inl (TransactionError ''outpoint txid must be 32 bytes'')
      else if \<not> (0 \<le> index \<and> index \<le> 0xFFFFFFFF)
      then Inl (TransactionError ''outpoint index out of range'')
      else Inr \<lparr>op_txid = txid, op_index = index\<rparr>)"

definition is_null :: "outpoint \<Rightarrow> bool" where
  "is_null op \<longleftrightarrow> op_txid op = NULL_HASH \<and> op_index op = NULL_INDEX"

definition COINBASE_OUTPOINT :: outpoint where
  "COINBASE_OUTPOINT = \<lparr>op_txid = NULL_HASH, op_index = NULL_INDEX\<rparr>"

record txinput =
  in_prevout :: outpoint
  in_sequence :: int
  in_witness :: "bytes list"

definition mk_txinput :: "outpoint \<Rightarrow> int \<Rightarrow> bytes list \<Rightarrow> txinput result" where
  "mk_txinput prevout sequence witness =
     (if \<not> (0 \<le> sequence \<and> sequence \<le> 0xFFFFFFFF)
      then Inl (TransactionError ''sequence out of range'')
      else Inr \<lparr>in_prevout = prevout, in_sequence = sequence, in_witness = witness\<rparr>)"

definition input_is_replaceable :: "txinput \<Rightarrow> bool" where
  "input_is_replaceable ti \<longleftrightarrow> in_sequence ti < SEQUENCE_FINAL - 1"

definition check_witness_shape :: "txinput \<Rightarrow> unit result" where
  "check_witness_shape ti =
     (if int (length (in_witness ti)) > MAX_WITNESS_ITEMS
      then Inl (TransactionError ''witness has too many items'')
      else if list_ex (\<lambda>item. int (length item) > MAX_WITNESS_ITEM_SIZE) (in_witness ti)
      then Inl (TransactionError ''witness item is too long'')
      else Inr ())"

record txoutput =
  out_type :: int
  out_value :: int
  out_payload :: bytes

definition mk_txoutput :: "int \<Rightarrow> int \<Rightarrow> bytes \<Rightarrow> txoutput result" where
  "mk_txoutput typ val payload =
     (if typ \<noteq> OUTPUT_P2PKH \<and> typ \<noteq> OUTPUT_P2SH then Inl (TransactionError ''unknown output type'')
      else if val < 0 then Inl (TransactionError ''output value must not be negative'')
      else if val > MAX_MONEY
      then Inl (TransactionError ''output value exceeds the maximum money supply'')
      else if length payload \<noteq> PUBKEY_HASH_LENGTH
      then Inl (TransactionError ''output payload must be 20 bytes'')
      else Inr \<lparr>out_type = typ, out_value = val, out_payload = payload\<rparr>)"

definition txoutput_p2pkh :: "int \<Rightarrow> bytes \<Rightarrow> txoutput result" where
  "txoutput_p2pkh val pubkey_hash = mk_txoutput OUTPUT_P2PKH val pubkey_hash"

definition txoutput_p2sh :: "int \<Rightarrow> bytes \<Rightarrow> txoutput result" where
  "txoutput_p2sh val script_hash = mk_txoutput OUTPUT_P2SH val script_hash"

definition output_is_p2sh :: "txoutput \<Rightarrow> bool" where
  "output_is_p2sh to \<longleftrightarrow> out_type to = OUTPUT_P2SH"

record transaction =
  tx_version :: int
  tx_inputs :: "txinput list"
  tx_outputs :: "txoutput list"
  tx_lock_time :: int
  tx_coinbase_data :: bytes

definition mk_transaction ::
    "int \<Rightarrow> txinput list \<Rightarrow> txoutput list \<Rightarrow> int \<Rightarrow> bytes \<Rightarrow> transaction result" where
  "mk_transaction version ins outs lock_time coinbase_data =
     (if \<not> (0 \<le> version \<and> version \<le> 0xFFFFFFFF)
      then Inl (TransactionError ''transaction version out of range'')
      else if \<not> (0 \<le> lock_time \<and> lock_time \<le> 0xFFFFFFFF)
      then Inl (TransactionError ''lock time out of range'')
      else Inr \<lparr>tx_version = version, tx_inputs = ins, tx_outputs = outs,
             tx_lock_time = lock_time, tx_coinbase_data = coinbase_data\<rparr>)"

section \<open>Shape\<close>

definition is_coinbase :: "transaction \<Rightarrow> bool" where
  "is_coinbase t \<longleftrightarrow> (case tx_inputs t of [ti] \<Rightarrow> is_null (in_prevout ti) | _ \<Rightarrow> False)"

definition is_replaceable :: "transaction \<Rightarrow> bool" where
  "is_replaceable t \<longleftrightarrow> tx_inputs t \<noteq> [] \<and> list_all input_is_replaceable (tx_inputs t)"

definition total_output :: "transaction \<Rightarrow> int" where
  "total_output t = sum_list (map out_value (tx_outputs t))"

text \<open>The loop over the inputs of an ordinary transaction, with the set of outpoints seen.\<close>

fun check_inputs_distinct :: "outpoint set \<Rightarrow> txinput list \<Rightarrow> unit result" where
  "check_inputs_distinct seen [] = Inr ()"
| "check_inputs_distinct seen (ti # tis) =
     (if is_null (in_prevout ti)
      then Inl (TransactionError ''only the first input of a coinbase may be null'')
      else if in_prevout ti \<in> seen
      then Inl (TransactionError ''input is spent twice in one transaction'')
      else bnd (check_witness_shape ti)
             (\<lambda>_. check_inputs_distinct (insert (in_prevout ti) seen) tis))"

definition tx_check_sanity :: "int \<Rightarrow> transaction \<Rightarrow> unit result" where
  "tx_check_sanity min_output_value t =
     (if tx_inputs t = [] then Inl (TransactionError ''transaction has no inputs'')
      else if tx_outputs t = [] then Inl (TransactionError ''transaction has no outputs'')
      else if total_output t > MAX_MONEY
      then Inl (TransactionError ''total output value exceeds the maximum money supply'')
      else if list_ex (\<lambda>to. out_value to < min_output_value) (tx_outputs t)
      then Inl (TransactionError ''output value is below the minimum'')
      else if is_coinbase t then
        (if int (length (tx_coinbase_data t)) > MAX_COINBASE_DATA
         then Inl (TransactionError ''coinbase data must be at most 100 bytes'')
         else if in_witness (hd (tx_inputs t)) \<noteq> []
         then Inl (TransactionError ''coinbase input must not carry a witness'')
         else Inr ())
      else if tx_coinbase_data t \<noteq> []
      then Inl (TransactionError ''only a coinbase transaction may carry coinbase data'')
      else check_inputs_distinct {} (tx_inputs t))"

section \<open>Serialisation\<close>

definition w_input :: "txinput \<Rightarrow> writer \<Rightarrow> writer result" where
  "w_input ti w = bnd (w_hash32 (op_txid (in_prevout ti)) w) (\<lambda>w.
     bnd (w_uint32 (op_index (in_prevout ti)) w) (w_uint32 (in_sequence ti)))"

definition w_output :: "txoutput \<Rightarrow> writer \<Rightarrow> writer result" where
  "w_output to w = bnd (w_uint8 (out_type to) w) (\<lambda>w.
     bnd (w_uint64 (out_value to) w) (w_raw (out_payload to)))"

definition serialize_body :: "transaction \<Rightarrow> bytes result" where
  "serialize_body t =
     bnd (w_uint32 (tx_version t) []) (\<lambda>w.
     bnd (w_varint (int (length (tx_inputs t))) w) (\<lambda>w.
     bnd (foldR w_input (tx_inputs t) w) (\<lambda>w.
     bnd (w_varint (int (length (tx_outputs t))) w) (\<lambda>w.
     bnd (foldR w_output (tx_outputs t) w) (\<lambda>w.
     bnd (w_uint32 (tx_lock_time t) w) (w_varbytes (tx_coinbase_data t)))))))"

definition w_witness :: "txinput \<Rightarrow> writer \<Rightarrow> writer result" where
  "w_witness ti w =
     bnd (w_varint (int (length (in_witness ti))) w) (foldR w_varbytes (in_witness ti))"

definition tx_serialize :: "transaction \<Rightarrow> bytes result" where
  "tx_serialize t = bnd (serialize_body t) (\<lambda>b. bnd (w_raw b []) (foldR w_witness (tx_inputs t)))"

definition r_input :: "reader \<Rightarrow> (txinput \<times> reader) result" where
  "r_input s = bnd (r_hash32 s) (\<lambda>(h, s). bnd (r_uint32 s) (\<lambda>(i, s).
     bnd (mk_outpoint h i) (\<lambda>op. bnd (r_uint32 s) (\<lambda>(q, s).
     bnd (mk_txinput op q []) (\<lambda>ti. Inr (ti, s))))))"

definition r_output :: "reader \<Rightarrow> (txoutput \<times> reader) result" where
  "r_output s = bnd (r_uint8 s) (\<lambda>(ty, s). bnd (r_uint64 s) (\<lambda>(v, s).
     bnd (r_raw (int PUBKEY_HASH_LENGTH) s) (\<lambda>(p, s).
     bnd (mk_txoutput ty v p) (\<lambda>to. Inr (to, s)))))"

definition r_witness :: "reader \<Rightarrow> (bytes list \<times> reader) result" where
  "r_witness s = bnd (r_varint s) (\<lambda>(n, s).
     r_times (nat n) (r_varbytes (Some MAX_WITNESS_ITEM_SIZE)) s)"

fun r_witnessed :: "txinput list \<Rightarrow> reader \<Rightarrow> (txinput list \<times> reader) result" where
  "r_witnessed [] s = Inr ([], s)"
| "r_witnessed (ti # tis) s = bnd (r_witness s) (\<lambda>(ws, s).
     bnd (mk_txinput (in_prevout ti) (in_sequence ti) ws) (\<lambda>ti'.
     bnd (r_witnessed tis s) (\<lambda>(tis', s). Inr (ti' # tis', s))))"

definition tx_read :: "reader \<Rightarrow> (transaction \<times> reader) result" where
  "tx_read s =
     bnd (r_uint32 s) (\<lambda>(version, s).
     bnd (r_varint s) (\<lambda>(input_count, s).
     if input_count = 0 then Inl (SerializationError ''transaction has no inputs'')
     else if input_count > remaining s div 40 + 1
     then Inl (SerializationError ''input count is larger than the remaining data'')
     else
     bnd (r_times (nat input_count) r_input s) (\<lambda>(ins, s).
     bnd (r_varint s) (\<lambda>(output_count, s).
     if output_count = 0 then Inl (SerializationError ''transaction has no outputs'')
     else if output_count > remaining s div 29 + 1
     then Inl (SerializationError ''output count is larger than the remaining data'')
     else
     bnd (r_times (nat output_count) r_output s) (\<lambda>(outs, s).
     bnd (r_uint32 s) (\<lambda>(lock_time, s).
     bnd (r_varbytes (Some MAX_COINBASE_DATA) s) (\<lambda>(coinbase_data, s).
     bnd (r_witnessed ins s) (\<lambda>(ins, s).
     bnd (mk_transaction version ins outs lock_time coinbase_data) (\<lambda>t. Inr (t, s))))))))))"

definition tx_deserialize :: "bytes \<Rightarrow> transaction result" where
  "tx_deserialize data = bnd (tx_read data) (\<lambda>(t, s). bnd (expect_end s) (\<lambda>_. Inr t))"

section \<open>Hashes\<close>

definition written :: "bytes result \<Rightarrow> bytes" where
  "written r = (case r of Inl _ \<Rightarrow> [] | Inr b \<Rightarrow> b)"

definition txid :: "crypto \<Rightarrow> transaction \<Rightarrow> bytes" where
  "txid c t = hash256 c (written (serialize_body t))"

definition tx_size :: "transaction \<Rightarrow> int" where
  "tx_size t = int (length (written (tx_serialize t)))"

definition p2pkh_script_code :: "bytes \<Rightarrow> bytes" where
  "p2pkh_script_code pubkey_hash = [word_of_int OUTPUT_P2PKH] @ pubkey_hash"

text \<open>
  \<open>SignatureHasher\<close>: the state of a running SHA-256 is the bytes it has absorbed, so copying it,
  feeding it more bytes and finishing it is SHA-256 of the concatenation.
\<close>

record signature_hasher =
  sh_state :: bytes

definition mk_signature_hasher :: "transaction \<Rightarrow> signature_hasher result" where
  "mk_signature_hasher t =
     bnd (w_varbytes SIGHASH_TAG []) (\<lambda>w. bnd (serialize_body t) (\<lambda>b.
     bnd (w_raw b w) (\<lambda>w. Inr \<lparr>sh_state = w\<rparr>)))"

definition hasher_suffix :: "int \<Rightarrow> int \<Rightarrow> bytes \<Rightarrow> bytes result" where
  "hasher_suffix input_index prevout_value script_code =
     bnd (w_uint32 input_index []) (\<lambda>w. bnd (w_uint64 prevout_value w) (w_varbytes script_code))"

definition hasher_digest ::
    "crypto \<Rightarrow> signature_hasher \<Rightarrow> int \<Rightarrow> int \<Rightarrow> bytes \<Rightarrow> bytes result" where
  "hasher_digest c h input_index prevout_value script_code =
     bnd (hasher_suffix input_index prevout_value script_code) (\<lambda>w.
     Inr (sha256_fn c (sha256_fn c (sh_state h @ w))))"

definition signature_hash :: "crypto \<Rightarrow> transaction \<Rightarrow> int \<Rightarrow> int \<Rightarrow> bytes \<Rightarrow> bytes result" where
  "signature_hash c t input_index prevout_value script_code =
     (if \<not> (0 \<le> input_index \<and> input_index < int (length (tx_inputs t)))
      then Inl (TransactionError ''no input at that index'')
      else bnd (mk_signature_hasher t) (\<lambda>h. hasher_digest c h input_index prevout_value script_code))"

section \<open>Signing and verifying\<close>

fun signed_with :: "(nat \<times> bytes list) list \<Rightarrow> transaction \<Rightarrow> transaction result" where
  "signed_with [] t = Inr t"
| "signed_with ((i, w) # ws) t =
     (if i < length (tx_inputs t)
      then signed_with ws (t\<lparr>tx_inputs := (tx_inputs t)[i := (tx_inputs t ! i)\<lparr>in_witness := w\<rparr>]\<rparr>)
      else Inl IndexError)"

definition verify_input_signature ::
    "crypto \<Rightarrow> transaction \<Rightarrow> nat \<Rightarrow> int \<Rightarrow> bytes \<Rightarrow> signature_hasher option \<Rightarrow> bool result" where
  "verify_input_signature c t i prevout_value pubkey_hash hasher =
     (if \<not> i < length (tx_inputs t) then Inl IndexError
      else case in_witness (tx_inputs t ! i) of
        [public_key_bytes, signature] \<Rightarrow>
          (if length public_key_bytes \<noteq> PUBLIC_KEY_LENGTH \<or> length signature \<noteq> SIGNATURE_LENGTH
           then Inr False
           else case public_key_from_bytes c public_key_bytes of
             Inl e \<Rightarrow> if is_ValueError e then Inr False else Inl e
           | Inr public_key \<Rightarrow>
               (if public_key_hash160 c public_key \<noteq> pubkey_hash then Inr False
                else
                  bnd (case hasher of None \<Rightarrow> mk_signature_hasher t | Some h \<Rightarrow> Inr h) (\<lambda>h.
                  bnd (hasher_digest c h (int i) prevout_value (p2pkh_script_code pubkey_hash))
                    (\<lambda>digest. public_key_verify c public_key digest signature))))
      | _ \<Rightarrow> Inr False)"

section \<open>What the constructors guarantee\<close>

definition wf_outpoint :: "outpoint \<Rightarrow> bool" where
  "wf_outpoint op \<longleftrightarrow> length (op_txid op) = 32 \<and> fits 4 (op_index op)"

definition wf_txinput :: "txinput \<Rightarrow> bool" where
  "wf_txinput ti \<longleftrightarrow> wf_outpoint (in_prevout ti) \<and> fits 4 (in_sequence ti)"

definition wf_txoutput :: "txoutput \<Rightarrow> bool" where
  "wf_txoutput to \<longleftrightarrow> (out_type to = OUTPUT_P2PKH \<or> out_type to = OUTPUT_P2SH) \<and>
     0 \<le> out_value to \<and> out_value to \<le> MAX_MONEY \<and> length (out_payload to) = PUBKEY_HASH_LENGTH"

definition wf_transaction :: "transaction \<Rightarrow> bool" where
  "wf_transaction t \<longleftrightarrow> fits 4 (tx_version t) \<and> fits 4 (tx_lock_time t) \<and>
     list_all wf_txinput (tx_inputs t) \<and> list_all wf_txoutput (tx_outputs t)"

lemmas wf_tx_defs = wf_outpoint_def wf_txinput_def wf_txoutput_def wf_transaction_def

lemma fits_4_iff: "fits 4 v \<longleftrightarrow> 0 \<le> v \<and> v \<le> 0xFFFFFFFF"
  by (auto simp: fits_def)

lemma mk_outpoint_iff [result_simps]:
  "mk_outpoint h i = Inr op \<longleftrightarrow> wf_outpoint op \<and> op = \<lparr>op_txid = h, op_index = i\<rparr>"
  by (auto simp: mk_outpoint_def wf_outpoint_def fits_4_iff)

lemma mk_txinput_iff [result_simps]:
  "mk_txinput op q ws = Inr ti \<longleftrightarrow>
     fits 4 q \<and> ti = \<lparr>in_prevout = op, in_sequence = q, in_witness = ws\<rparr>"
  by (auto simp: mk_txinput_def fits_4_iff)

lemma mk_txoutput_iff [result_simps]:
  "mk_txoutput ty v p = Inr to \<longleftrightarrow>
     wf_txoutput to \<and> to = \<lparr>out_type = ty, out_value = v, out_payload = p\<rparr>"
  by (auto simp: mk_txoutput_def wf_txoutput_def)

lemma mk_transaction_iff [result_simps]:
  "mk_transaction v ins outs l cb = Inr t \<longleftrightarrow> fits 4 v \<and> fits 4 l \<and>
     t = \<lparr>tx_version = v, tx_inputs = ins, tx_outputs = outs, tx_lock_time = l,
          tx_coinbase_data = cb\<rparr>"
  by (auto simp: mk_transaction_def fits_4_iff)

text \<open>
  What the parser demands beyond that: at least one input and one output, a bounded coinbase
  field and bounded witness items.
\<close>

definition stack_ok :: "bytes list \<Rightarrow> bool" where
  "stack_ok ws \<longleftrightarrow> fits 8 (int (length ws)) \<and>
     list_all (\<lambda>d. int (length d) \<le> MAX_WITNESS_ITEM_SIZE) ws"

definition tx_ok :: "transaction \<Rightarrow> bool" where
  "tx_ok t \<longleftrightarrow> wf_transaction t \<and> tx_inputs t \<noteq> [] \<and> tx_outputs t \<noteq> [] \<and>
     fits 8 (int (length (tx_inputs t))) \<and> fits 8 (int (length (tx_outputs t))) \<and>
     int (length (tx_coinbase_data t)) \<le> MAX_COINBASE_DATA \<and>
     list_all (\<lambda>ti. stack_ok (in_witness ti)) (tx_inputs t)"

section \<open>The encoding\<close>

definition input_bytes :: "txinput \<Rightarrow> bytes" where
  "input_bytes ti =
     op_txid (in_prevout ti) @ to_le 4 (op_index (in_prevout ti)) @ to_le 4 (in_sequence ti)"

definition output_bytes :: "txoutput \<Rightarrow> bytes" where
  "output_bytes to = to_le 1 (out_type to) @ to_le 8 (out_value to) @ out_payload to"

definition body_bytes :: "transaction \<Rightarrow> bytes" where
  "body_bytes t =
     to_le 4 (tx_version t) @
     varint_bytes (int (length (tx_inputs t))) @ concat (map input_bytes (tx_inputs t)) @
     varint_bytes (int (length (tx_outputs t))) @ concat (map output_bytes (tx_outputs t)) @
     to_le 4 (tx_lock_time t) @ varbytes_bytes (tx_coinbase_data t)"

definition stack_bytes :: "bytes list \<Rightarrow> bytes" where
  "stack_bytes ws = varint_bytes (int (length ws)) @ concat (map varbytes_bytes ws)"

definition tx_bytes :: "transaction \<Rightarrow> bytes" where
  "tx_bytes t = body_bytes t @ concat (map (\<lambda>ti. stack_bytes (in_witness ti)) (tx_inputs t))"

lemma w_input_iff:
  "w_input ti w = Inr w' \<longleftrightarrow> wf_txinput ti \<and> w' = w @ input_bytes ti"
  by (auto simp: w_input_def result_simps codec_simps wf_txinput_def wf_outpoint_def input_bytes_def)

definition output_writable :: "txoutput \<Rightarrow> bool" where
  "output_writable to \<longleftrightarrow> fits 1 (out_type to) \<and> fits 8 (out_value to)"

lemma wf_output_writable: "wf_txoutput to \<Longrightarrow> output_writable to"
  by (auto simp: wf_txoutput_def output_writable_def fits_def tx_constants)

lemma w_output_iff:
  "w_output to w = Inr w' \<longleftrightarrow> output_writable to \<and> w' = w @ output_bytes to"
  by (auto simp: w_output_def result_simps codec_simps output_writable_def output_bytes_def)

lemma w_witness_iff:
  "w_witness ti w = Inr w' \<longleftrightarrow>
     (fits 8 (int (length (in_witness ti))) \<and>
      list_all (\<lambda>d. fits 8 (int (length d))) (in_witness ti)) \<and>
     w' = w @ stack_bytes (in_witness ti)"
  by (auto simp: w_witness_def result_simps codec_simps stack_bytes_def
      foldR_writer [OF w_varbytes_iff])

lemma serialize_body_iff:
  "serialize_body t = Inr b \<longleftrightarrow>
     fits 4 (tx_version t) \<and> fits 4 (tx_lock_time t) \<and>
     fits 8 (int (length (tx_inputs t))) \<and> fits 8 (int (length (tx_outputs t))) \<and>
     fits 8 (int (length (tx_coinbase_data t))) \<and>
     list_all wf_txinput (tx_inputs t) \<and> list_all output_writable (tx_outputs t) \<and>
     b = body_bytes t"
  by (auto simp: serialize_body_def result_simps codec_simps body_bytes_def
      foldR_writer [OF w_input_iff] foldR_writer [OF w_output_iff])

lemma fits_8_small: "int n \<le> 0xFFFFFFFF \<Longrightarrow> fits 8 (int n)"
  by (simp add: fits_def)

lemma list_all_wf_output_writable: "list_all wf_txoutput xs \<Longrightarrow> list_all output_writable xs"
  by (auto simp: list_all_iff wf_output_writable)

lemma tx_ok_body: "tx_ok t \<Longrightarrow> serialize_body t = Inr (body_bytes t)"
  by (auto simp: serialize_body_iff tx_ok_def wf_transaction_def tx_constants
      list_all_wf_output_writable intro!: fits_8_small)

lemma written_body [simp]: "tx_ok t \<Longrightarrow> written (serialize_body t) = body_bytes t"
  by (simp add: tx_ok_body written_def)

lemma stack_ok_items: "stack_ok ws \<Longrightarrow> list_all (\<lambda>d. fits 8 (int (length d))) ws"
  by (auto simp: stack_ok_def list_all_iff tx_constants intro!: fits_8_small dest: bspec)

lemma tx_ok_serialize:
  assumes "tx_ok t"
  shows "tx_serialize t = Inr (tx_bytes t)"
proof -
  have "stack_ok (in_witness ti)" if "ti \<in> set (tx_inputs t)" for ti
    using assms that by (simp add: tx_ok_def list_all_iff)
  then have "list_all (\<lambda>ti. fits 8 (int (length (in_witness ti))) \<and>
      list_all (\<lambda>d. fits 8 (int (length d))) (in_witness ti)) (tx_inputs t)"
    using stack_ok_items by (auto simp: list_all_iff [of _ "tx_inputs t"] stack_ok_def)
  then show ?thesis
    using assms
    by (simp add: tx_serialize_def tx_ok_body w_raw_def tx_bytes_def foldR_writer [OF w_witness_iff])
qed

interpretation txin: codec input_bytes r_input "\<lambda>ti. wf_txinput ti \<and> in_witness ti = []"
proof
  fix ti :: txinput and s
  assume "wf_txinput ti \<and> in_witness ti = []"
  then show "r_input (input_bytes ti @ s) = Inr (ti, s)"
    by (simp add: r_input_def input_bytes_def wf_txinput_def wf_outpoint_def u32.dec_enc
        h32.dec_enc mk_outpoint_def mk_txinput_def fits_4_iff)
next
  fix s s' :: bytes and ti
  assume "r_input s = Inr (ti, s')"
  then show "(wf_txinput ti \<and> in_witness ti = []) \<and> s = input_bytes ti @ s'"
    by (auto simp: r_input_def result_simps codec_simps input_bytes_def wf_txinput_def)
qed

interpretation txout: codec output_bytes r_output wf_txoutput
proof
  fix to :: txoutput and s
  assume wf: "wf_txoutput to"
  then have "r_raw (int PUBKEY_HASH_LENGTH) (out_payload to @ s) = Inr (out_payload to, s)"
    by (simp add: r_raw_iff wf_txoutput_def)
  then show "r_output (output_bytes to @ s) = Inr (to, s)"
    using wf wf_output_writable [OF wf]
    by (auto simp: r_output_def output_bytes_def output_writable_def u8.dec_enc u64.dec_enc
        mk_txoutput_def wf_txoutput_def)
next
  fix s s' :: bytes and to
  assume "r_output s = Inr (to, s')"
  then show "wf_txoutput to \<and> s = output_bytes to @ s'"
    by (auto simp: r_output_def result_simps codec_simps output_bytes_def)
qed

lemma item_codec:
  "codec varbytes_bytes (r_varbytes (Some MAX_WITNESS_ITEM_SIZE))
     (\<lambda>d. int (length d) \<le> MAX_WITNESS_ITEM_SIZE)"
  by unfold_locales (auto simp: r_varbytes_iff tx_constants intro!: fits_8_small)

interpretation item: codec varbytes_bytes "r_varbytes (Some MAX_WITNESS_ITEM_SIZE)"
  "\<lambda>d. int (length d) \<le> MAX_WITNESS_ITEM_SIZE"
  by (rule item_codec)

interpretation stack: codec stack_bytes r_witness stack_ok
proof
  fix ws :: "bytes list" and s
  assume "stack_ok ws"
  then show "r_witness (stack_bytes ws @ s) = Inr (ws, s)"
    by (simp add: r_witness_def stack_bytes_def stack_ok_def vint.dec_enc item.times_enc)
next
  fix s s' :: bytes and ws
  assume "r_witness s = Inr (ws, s')"
  then obtain n s1 where n: "r_varint s = Inr (n, s1)"
    and ws: "r_times (nat n) (r_varbytes (Some MAX_WITNESS_ITEM_SIZE)) s1 = Inr (ws, s')"
    by (auto simp: r_witness_def result_simps)
  from n have "fits 8 n" "s = varint_bytes n @ s1"
    by (simp_all add: vint.dec_iff)
  moreover have "n = int (length ws)" "s1 = concat (map varbytes_bytes ws) @ s'"
    "list_all (\<lambda>d. int (length d) \<le> MAX_WITNESS_ITEM_SIZE) ws"
    using ws \<open>fits 8 n\<close> by (auto simp: item.times_iff fits_def)
  ultimately show "stack_ok ws \<and> s = stack_bytes ws @ s'"
    by (simp add: stack_ok_def stack_bytes_def)
qed

text \<open>Reading the witnesses back puts each stack on its own input.\<close>

abbreviation bare :: "txinput \<Rightarrow> txinput" where
  "bare ti \<equiv> ti\<lparr>in_witness := []\<rparr>"

lemma r_witnessed_iff:
  assumes "list_all (\<lambda>ti. wf_txinput ti \<and> in_witness ti = []) tis"
  shows "r_witnessed tis s = Inr (tis', s') \<longleftrightarrow>
    map bare tis' = tis \<and> list_all (\<lambda>ti. stack_ok (in_witness ti)) tis' \<and>
    s = concat (map (\<lambda>ti. stack_bytes (in_witness ti)) tis') @ s'"
  using assms
proof (induction tis arbitrary: s tis')
  case Nil
  then show ?case by auto
next
  case (Cons ti tis)
  then have IH: "r_witnessed tis s = Inr (tis', s') \<longleftrightarrow>
      map bare tis' = tis \<and> list_all (\<lambda>ti. stack_ok (in_witness ti)) tis' \<and>
      s = concat (map (\<lambda>ti. stack_bytes (in_witness ti)) tis') @ s'" for s tis'
    by simp
  have "fits 4 (in_sequence ti)" and "in_witness ti = []"
    using Cons.prems by (simp_all add: wf_txinput_def)
  then have "r_witnessed (ti # tis) s = Inr (tis', s') \<longleftrightarrow>
      (\<exists>ws s1 tis1. r_witness s = Inr (ws, s1) \<and> r_witnessed tis s1 = Inr (tis1, s') \<and>
         tis' = ti\<lparr>in_witness := ws\<rparr> # tis1)"
    by (auto simp: result_simps)
  also have "\<dots> \<longleftrightarrow> map bare tis' = ti # tis \<and>
      list_all (\<lambda>ti. stack_ok (in_witness ti)) tis' \<and>
      s = concat (map (\<lambda>ti. stack_bytes (in_witness ti)) tis') @ s'"
    using \<open>in_witness ti = []\<close> by (cases tis') (auto simp: IH stack.dec_iff map_eq_Cons_conv)
  finally show ?case .
qed

lemma input_bytes_unsigned [simp]: "input_bytes (bare ti) = input_bytes ti"
  by (simp add: input_bytes_def)

lemma map_input_bytes_unsigned [simp]: "map (input_bytes \<circ> bare) tis = map input_bytes tis"
  by simp

lemma length_input_bytes: "wf_txinput ti \<Longrightarrow> length (input_bytes ti) = 40"
  by (simp add: input_bytes_def wf_txinput_def wf_outpoint_def)

lemma length_output_bytes: "wf_txoutput to \<Longrightarrow> length (output_bytes to) = 29"
  by (simp add: output_bytes_def wf_txoutput_def PUBKEY_HASH_LENGTH_def)

lemma length_concat_fixed:
  "list_all (\<lambda>x. length (f x) = k) xs \<Longrightarrow> length (concat (map f xs)) = k * length xs"
  by (induction xs) auto

lemma length_inputs_bytes:
  "list_all wf_txinput tis \<Longrightarrow> length (concat (map input_bytes tis)) = 40 * length tis"
  by (rule length_concat_fixed) (auto simp: list_all_iff length_input_bytes)

lemma length_outputs_bytes:
  "list_all wf_txoutput tos \<Longrightarrow> length (concat (map output_bytes tos)) = 29 * length tos"
  by (rule length_concat_fixed) (auto simp: list_all_iff length_output_bytes)

lemma tx_read_bytes:
  assumes "tx_ok t"
  shows "tx_read (tx_bytes t @ s) = Inr (t, s)"
proof -
  let ?ins = "tx_inputs t" and ?outs = "tx_outputs t"
  have wf: "fits 4 (tx_version t)" "fits 4 (tx_lock_time t)" "list_all wf_txinput ?ins"
    "list_all wf_txoutput ?outs"
    using assms by (simp_all add: tx_ok_def wf_transaction_def)
  have ok: "?ins \<noteq> []" "?outs \<noteq> []" "fits 8 (int (length ?ins))" "fits 8 (int (length ?outs))"
    "int (length (tx_coinbase_data t)) \<le> MAX_COINBASE_DATA"
    "list_all (\<lambda>ti. stack_ok (in_witness ti)) ?ins"
    using assms by (simp_all add: tx_ok_def)
  have ins: "list_all (\<lambda>ti. wf_txinput ti \<and> in_witness ti = []) (map bare ?ins)"
    using wf(3) by (auto simp: list_all_iff wf_txinput_def)
  have read_ins: "r_times (length ?ins) r_input (concat (map input_bytes ?ins) @ r) =
      Inr (map bare ?ins, r)" for r
    using txin.times_enc [OF ins, of r] by (simp add: comp_def)
  have witnessed: "r_witnessed (map bare ?ins)
      (concat (map (\<lambda>ti. stack_bytes (in_witness ti)) ?ins) @ s) = Inr (?ins, s)"
    using ok(6) by (simp add: r_witnessed_iff [OF ins])
  have data: "r_varbytes (Some MAX_COINBASE_DATA) (varbytes_bytes (tx_coinbase_data t) @ r) =
      Inr (tx_coinbase_data t, r)" for r
    using ok(5) by (simp add: r_varbytes_iff tx_constants fits_8_small)
  have room: "\<not> remaining (concat (map input_bytes ?ins) @ r) div 40 + 1 < int (length ?ins)"
    "\<not> remaining (concat (map output_bytes ?outs) @ r) div 29 + 1 < int (length ?outs)" for r
    using wf(3,4) by (auto simp: remaining_def length_inputs_bytes length_outputs_bytes)
  show ?thesis
    using wf ok
    by (simp add: tx_read_def tx_bytes_def body_bytes_def u32.dec_enc vint.dec_enc read_ins
        txout.times_enc data witnessed room mk_transaction_def fits_4_iff)
qed

lemma tx_read_canonical:
  assumes "tx_read s = Inr (t, s')"
  shows "tx_ok t \<and> s = tx_bytes t @ s'"
proof -
  obtain v s1 n s2 ins0 s3 m s4 outs s5 lk s6 cb s7 ins where
    v: "r_uint32 s = Inr (v, s1)" and n: "r_varint s1 = Inr (n, s2)" and n0: "n \<noteq> 0"
    and ins0: "r_times (nat n) r_input s2 = Inr (ins0, s3)"
    and m: "r_varint s3 = Inr (m, s4)" and m0: "m \<noteq> 0"
    and outs: "r_times (nat m) r_output s4 = Inr (outs, s5)"
    and lk: "r_uint32 s5 = Inr (lk, s6)"
    and cb: "r_varbytes (Some MAX_COINBASE_DATA) s6 = Inr (cb, s7)"
    and ins: "r_witnessed ins0 s7 = Inr (ins, s')"
    and t: "mk_transaction v ins outs lk cb = Inr t"
    using assms by (auto simp: tx_read_def result_simps split: if_splits)
  have ins0': "list_all (\<lambda>ti. wf_txinput ti \<and> in_witness ti = []) ins0" "length ins0 = nat n"
    "s2 = concat (map input_bytes ins0) @ s3"
    using ins0 by (simp_all add: txin.times_iff)
  have ins': "map bare ins = ins0" "list_all (\<lambda>ti. stack_ok (in_witness ti)) ins"
    "s7 = concat (map (\<lambda>ti. stack_bytes (in_witness ti)) ins) @ s'"
    using ins by (simp_all add: r_witnessed_iff [OF ins0'(1)])
  have wf_ins: "list_all wf_txinput ins" and len: "length ins = nat n"
    and bytes: "concat (map input_bytes ins0) = concat (map input_bytes ins)"
    using ins0'(1,2) ins'(1) by (auto simp: list_all_iff wf_txinput_def comp_def)
  show ?thesis
    using v n n0 m m0 lk cb t wf_ins len outs ins0'(3) ins'(2,3)
    by (auto simp: u32.dec_iff vint.dec_iff r_varbytes_iff result_simps txout.times_iff tx_ok_def
        wf_transaction_def tx_bytes_def body_bytes_def bytes fits_def)
qed

interpretation tx: codec tx_bytes tx_read tx_ok
  by unfold_locales (auto simp: tx_read_bytes dest: tx_read_canonical)

lemma tx_deserialize_iff: "tx_deserialize bs = Inr t \<longleftrightarrow> tx_ok t \<and> bs = tx_bytes t"
  by (auto simp: tx_deserialize_def result_simps tx.dec_iff expect_end_iff)

section \<open>What ids and signature digests commit to\<close>

definition strip_witness :: "transaction \<Rightarrow> transaction" where
  "strip_witness t = t\<lparr>tx_inputs := map bare (tx_inputs t)\<rparr>"

lemma serialize_body_strip: "serialize_body (strip_witness t) = serialize_body t"
proof -
  have "foldR w_input (map bare tis) w = foldR w_input tis w" for tis w
    by (induction tis arbitrary: w) (simp_all add: w_input_def bnd_def split: sum.split)
  then show ?thesis by (simp add: serialize_body_def strip_witness_def)
qed

lemma tx_ok_fits:
  assumes "tx_ok t"
  shows "fits 4 (tx_version t)" "fits 4 (tx_lock_time t)"
    "fits 8 (int (length (tx_inputs t)))" "fits 8 (int (length (tx_outputs t)))"
    "fits 8 (int (length (tx_coinbase_data t)))"
    "list_all (\<lambda>ti. wf_txinput ti \<and> in_witness ti = []) (map bare (tx_inputs t))"
    "list_all wf_txoutput (tx_outputs t)"
  using assms by (simp_all add: tx_ok_def wf_transaction_def tx_constants fits_8_small list_all_iff
      wf_txinput_def)

lemma body_unique:
  assumes t: "tx_ok t" and u: "tx_ok u" and eq: "body_bytes t @ r = body_bytes u @ s"
  shows "strip_witness t = strip_witness u \<and> r = s"
proof -
  note T = tx_ok_fits [OF t] and U = tx_ok_fits [OF u]
  let ?I = "\<lambda>t. concat (map input_bytes (map bare (tx_inputs t)))"
  let ?O = "\<lambda>t. concat (map output_bytes (tx_outputs t))"
  let ?V = "\<lambda>n. varint_bytes (int n)"
  let ?E4 = "\<lambda>t x. to_le 4 (tx_lock_time t) @ varbytes_bytes (tx_coinbase_data t) @ x"
  let ?E3 = "\<lambda>t x. ?O t @ ?E4 t x"
  let ?E2 = "\<lambda>t x. ?V (length (tx_outputs t)) @ ?E3 t x"
  let ?E1 = "\<lambda>t x. ?I t @ ?E2 t x"
  let ?E0 = "\<lambda>t x. ?V (length (tx_inputs t)) @ ?E1 t x"
  have "to_le 4 (tx_version t) @ ?E0 t r = to_le 4 (tx_version u) @ ?E0 u s"
    using eq by (simp add: body_bytes_def comp_def)
  then have 0: "tx_version t = tx_version u \<and> ?E0 t r = ?E0 u s"
    by (rule u32.enc_unique [OF T(1) U(1)])
  then have 1: "int (length (tx_inputs t)) = int (length (tx_inputs u)) \<and> ?E1 t r = ?E1 u s"
    by (intro vint.enc_unique [OF T(3) U(3)]) blast
  then have 2: "map bare (tx_inputs t) = map bare (tx_inputs u) \<and> ?E2 t r = ?E2 u s"
    by (intro txin.list_unique [OF T(6) U(6)]) simp_all
  then have 3: "int (length (tx_outputs t)) = int (length (tx_outputs u)) \<and> ?E3 t r = ?E3 u s"
    by (intro vint.enc_unique [OF T(4) U(4)]) blast
  then have 4: "tx_outputs t = tx_outputs u \<and> ?E4 t r = ?E4 u s"
    by (intro txout.list_unique [OF T(7) U(7)]) simp_all
  then have 5: "tx_lock_time t = tx_lock_time u \<and>
      varbytes_bytes (tx_coinbase_data t) @ r = varbytes_bytes (tx_coinbase_data u) @ s"
    by (intro u32.enc_unique [OF T(2) U(2)]) blast
  then have "tx_coinbase_data t = tx_coinbase_data u \<and> r = s"
    by (intro vbytes.enc_unique [OF T(5) U(5)]) blast
  with 0 2 4 5 show ?thesis
    by (simp add: strip_witness_def)
qed

lemma body_eq_iff:
  "tx_ok t \<Longrightarrow> tx_ok u \<Longrightarrow> body_bytes t = body_bytes u \<longleftrightarrow> strip_witness t = strip_witness u"
  using body_unique [of t u "[]" "[]"] serialize_body_strip tx_ok_body
  by (metis append_Nil2 sum.inject(2))

lemma check_inputs_distinct_iff:
  "check_inputs_distinct seen tis = Inr u \<longleftrightarrow>
     distinct (map in_prevout tis) \<and> in_prevout ` set tis \<inter> seen = {} \<and>
     (\<forall>ti \<in> set tis. \<not> is_null (in_prevout ti) \<and> check_witness_shape ti = Inr ())"
  by (induction tis arbitrary: seen) (auto simp: result_simps)

lemma check_witness_shape_iff:
  "check_witness_shape ti = Inr u \<longleftrightarrow>
     int (length (in_witness ti)) \<le> MAX_WITNESS_ITEMS \<and>
     (\<forall>item \<in> set (in_witness ti). int (length item) \<le> MAX_WITNESS_ITEM_SIZE)"
  by (auto simp: check_witness_shape_def list_ex_iff not_le)

text \<open>The bytes a signature digest is computed over.\<close>

definition sighash_preimage :: "transaction \<Rightarrow> int \<Rightarrow> int \<Rightarrow> bytes \<Rightarrow> bytes" where
  "sighash_preimage t i v code =
     varbytes_bytes SIGHASH_TAG @ body_bytes t @ to_le 4 i @ to_le 8 v @ varbytes_bytes code"

lemma hasher_suffix_iff:
  "hasher_suffix i v code = Inr w \<longleftrightarrow> fits 4 i \<and> fits 8 v \<and> fits 8 (int (length code)) \<and>
     w = to_le 4 i @ to_le 8 v @ varbytes_bytes code"
  by (auto simp: hasher_suffix_def result_simps codec_simps)

lemma mk_signature_hasher_ok:
  assumes "tx_ok t"
  shows "mk_signature_hasher t = Inr \<lparr>sh_state = varbytes_bytes SIGHASH_TAG @ body_bytes t\<rparr>"
proof -
  have "w_varbytes SIGHASH_TAG [] = Inr (varbytes_bytes SIGHASH_TAG)"
    by (simp add: w_varbytes_iff SIGHASH_TAG_def fits_def)
  then show ?thesis
    by (simp add: mk_signature_hasher_def tx_ok_body assms w_raw_def)
qed

lemma signature_hash_preimage:
  assumes "tx_ok t" and "signature_hash c t i v code = Inr d"
  shows "d = hash256 c (sighash_preimage t i v code)"
    and "fits 4 i" and "fits 8 v" and "fits 8 (int (length code))"
  using assms
  by (auto simp: signature_hash_def mk_signature_hasher_ok hasher_digest_def hasher_suffix_iff
      bnd_eq_Inr hash256_def sighash_preimage_def split: if_splits)

lemma sighash_preimage_inject:
  assumes t: "tx_ok t" and u: "tx_ok u"
    and fits: "fits 4 i" "fits 8 v" "fits 8 (int (length code))"
      "fits 4 j" "fits 8 w" "fits 8 (int (length code'))"
    and eq: "sighash_preimage t i v code = sighash_preimage u j w code'"
  shows "strip_witness t = strip_witness u \<and> i = j \<and> v = w \<and> code = code'"
proof -
  have body: "strip_witness t = strip_witness u \<and>
      to_le 4 i @ to_le 8 v @ varbytes_bytes code = to_le 4 j @ to_le 8 w @ varbytes_bytes code'"
    using eq by (intro body_unique [OF t u]) (simp add: sighash_preimage_def)
  then have i: "i = j \<and> to_le 8 v @ varbytes_bytes code = to_le 8 w @ varbytes_bytes code'"
    by (intro u32.enc_unique [OF fits(1,4)]) blast
  then have v: "v = w \<and> varbytes_bytes code = varbytes_bytes code'"
    by (intro u64.enc_unique [OF fits(2,5)]) blast
  then have "code = code' \<and> [] = ([] :: bytes)"
    by (intro vbytes.enc_unique [OF fits(3,6)]) simp
  with body i v show ?thesis by blast
qed

section \<open>Properties\<close>

text \<open>
  Parsing and printing transactions are inverse to each other, on the whole wire format: a byte
  string parses as the transaction \<open>t\<close> exactly when \<open>t\<close> is a transaction the parser admits and its
  serialisation is that very byte string. So serialising and parsing gives the transaction back,
  witnesses included, and no transaction has a second encoding.
\<close>
theorem transaction_wire_format:
  "tx_deserialize bs = Inr t \<longleftrightarrow> tx_ok t \<and> tx_serialize t = Inr bs"
  using tx_ok_serialize by (auto simp: tx_deserialize_iff)

text \<open>
  The id of a transaction commits to everything but its witnesses. Two transactions have the
  same id exactly when they agree on version, outpoints, sequence numbers, outputs, lock time and
  coinbase data, unless their two different bodies are a collision of the double hash; so
  replacing the witnesses never changes the id.
\<close>
theorem txid_commits_to_body:
  assumes "tx_ok t" and "tx_ok u"
  shows "txid c t = txid c u \<longleftrightarrow>
    strip_witness t = strip_witness u \<or>
    body_bytes t \<noteq> body_bytes u \<and> hash256 c (body_bytes t) = hash256 c (body_bytes u)"
  using assms by (auto simp: txid_def body_eq_iff [symmetric])

text \<open>
  A signature digest is bound to one input of one transaction. If two digests are equal, then
  the transactions agree on everything but witnesses and the input index, the value of the coin
  spent and the script code are the same, unless the two different preimages are a collision of
  the double hash. A signature cannot be replayed on another input, amount or lock.
\<close>
theorem signature_hash_binds:
  assumes "tx_ok t" and "tx_ok u"
    and "signature_hash c t i v code = Inr d" and "signature_hash c u j w code' = Inr d"
  shows "strip_witness t = strip_witness u \<and> i = j \<and> v = w \<and> code = code' \<or>
    sighash_preimage t i v code \<noteq> sighash_preimage u j w code' \<and>
    hash256 c (sighash_preimage t i v code) = hash256 c (sighash_preimage u j w code')"
  using signature_hash_preimage [OF assms(1,3)] signature_hash_preimage [OF assms(2,4)]
    sighash_preimage_inject [OF assms(1,2)] by metis

lemma tx_check_sanity_iff:
  "tx_check_sanity m t = Inr () \<longleftrightarrow>
     tx_inputs t \<noteq> [] \<and> tx_outputs t \<noteq> [] \<and> total_output t \<le> MAX_MONEY \<and>
     (\<forall>to \<in> set (tx_outputs t). m \<le> out_value to) \<and>
     (if is_coinbase t
      then int (length (tx_coinbase_data t)) \<le> MAX_COINBASE_DATA \<and> in_witness (hd (tx_inputs t)) = []
      else tx_coinbase_data t = [] \<and> distinct (map in_prevout (tx_inputs t)) \<and>
        (\<forall>ti \<in> set (tx_inputs t). \<not> is_null (in_prevout ti) \<and>
           int (length (in_witness ti)) \<le> MAX_WITNESS_ITEMS \<and>
           (\<forall>item \<in> set (in_witness ti). int (length item) \<le> MAX_WITNESS_ITEM_SIZE)))"
  by (auto simp: tx_check_sanity_def check_inputs_distinct_iff check_witness_shape_iff list_ex_iff
      not_le)

text \<open>
  The structural check accepts a transaction exactly when it has inputs and outputs, creates no
  more than the money supply, has no output below the minimum, and either is a coinbase with a
  short data field and no witness, or carries no coinbase data and spends pairwise different real
  outpoints with witnesses within the limits.
\<close>
theorem check_sanity_accepts:
  "tx_check_sanity m t = Inr () \<longleftrightarrow>
     tx_inputs t \<noteq> [] \<and> tx_outputs t \<noteq> [] \<and> total_output t \<le> MAX_MONEY \<and>
     (\<forall>to \<in> set (tx_outputs t). m \<le> out_value to) \<and>
     (if is_coinbase t
      then int (length (tx_coinbase_data t)) \<le> MAX_COINBASE_DATA \<and> in_witness (hd (tx_inputs t)) = []
      else tx_coinbase_data t = [] \<and> distinct (map in_prevout (tx_inputs t)) \<and>
        (\<forall>ti \<in> set (tx_inputs t). \<not> is_null (in_prevout ti) \<and>
           int (length (in_witness ti)) \<le> MAX_WITNESS_ITEMS \<and>
           (\<forall>item \<in> set (in_witness ti). int (length item) \<le> MAX_WITNESS_ITEM_SIZE)))"
  by (rule tx_check_sanity_iff)

section \<open>Witnesses\<close>

text \<open>Two transactions that differ in the witness of their only input, and a coinbase.\<close>

definition demo_tx :: "bytes list \<Rightarrow> transaction" where
  "demo_tx ws = \<lparr>tx_version = 1,
     tx_inputs = [\<lparr>in_prevout = \<lparr>op_txid = replicate 32 7, op_index = 0\<rparr>,
                   in_sequence = SEQUENCE_FINAL, in_witness = ws\<rparr>],
     tx_outputs = [\<lparr>out_type = OUTPUT_P2PKH, out_value = 5000, out_payload = replicate 20 1\<rparr>],
     tx_lock_time = 0, tx_coinbase_data = []\<rparr>"

lemma demo_tx_ok: "tx_ok (demo_tx [])" "tx_ok (demo_tx [[5], [6, 7]])"
  by (simp_all add: demo_tx_def tx_ok_def wf_tx_defs stack_ok_def tx_constants fits_def)

theorem txid_commits_to_body_witness:
  "tx_ok (demo_tx []) \<and> tx_ok (demo_tx [[5], [6, 7]]) \<and>
   txid demo_crypto (demo_tx []) = txid demo_crypto (demo_tx [[5], [6, 7]])"
  using txid_commits_to_body [OF demo_tx_ok, of demo_crypto] demo_tx_ok
  by (simp add: strip_witness_def demo_tx_def)

lemma demo_signature_hash:
  "signature_hash demo_crypto (demo_tx []) 0 5000 [9] =
     Inr (hash256 demo_crypto (sighash_preimage (demo_tx []) 0 5000 [9]))"
  "signature_hash demo_crypto (demo_tx [[5], [6, 7]]) 0 5000 [9] =
     Inr (hash256 demo_crypto (sighash_preimage (demo_tx []) 0 5000 [9]))"
  using mk_signature_hasher_ok [OF demo_tx_ok(1)] mk_signature_hasher_ok [OF demo_tx_ok(2)]
  by (simp_all add: signature_hash_def hasher_digest_def sighash_preimage_def hash256_def bnd_eq_Inr
      hasher_suffix_iff fits_def demo_tx_def body_bytes_def input_bytes_def)

theorem signature_hash_binds_witness:
  "signature_hash demo_crypto (demo_tx []) 0 5000 [9] =
     signature_hash demo_crypto (demo_tx [[5], [6, 7]]) 0 5000 [9] \<and>
   strip_witness (demo_tx []) = strip_witness (demo_tx [[5], [6, 7]])"
  using signature_hash_binds [OF demo_tx_ok demo_signature_hash] demo_signature_hash
  by (auto simp: sighash_preimage_def body_bytes_def input_bytes_def demo_tx_def)

theorem check_sanity_accepts_witness:
  "tx_check_sanity 1000 (demo_tx [[5], [6, 7]]) = Inr () \<and>
   tx_check_sanity 6000 (demo_tx []) \<noteq> Inr ()"
  using check_sanity_accepts [of 1000 "demo_tx [[5], [6, 7]]"] check_sanity_accepts [of 6000 "demo_tx []"]
  by (simp add: demo_tx_def total_output_def is_coinbase_def is_null_def tx_constants)

end
