(* ===== verification/Auxpow.thy ===== *)
theory Auxpow
  imports Transaction
begin

text \<open>
  \<^verbatim>\<open>core/auxpow.py\<close>: merged-mining proofs, their wire format and their validation.

  \<open>find_marker\<close> is \<^verbatim>\<open>bytes.find\<close> on the part of the coinbase data not yet scanned: it gives what
  follows the first marker. \<open>parse_loop\<close> is the scanning loop, with the commitments it appends to
  \<^verbatim>\<open>results\<close>. Not modelled: the JSON views \<^verbatim>\<open>to_dict\<close> and \<^verbatim>\<open>hash_hex\<close>.
\<close>

unbundle bit_operations_syntax

section \<open>Merkle branches\<close>

definition MERGED_MINING_HEADER :: bytes where
  "MERGED_MINING_HEADER = [0xFA, 0xBE, 0x6D, 0x6D]"

definition MAX_MERKLE_BRANCH_DEPTH :: nat where
  "MAX_MERKLE_BRANCH_DEPTH = 30"

fun branch_loop :: "crypto \<Rightarrow> bytes \<Rightarrow> bytes list \<Rightarrow> int \<Rightarrow> bytes result" where
  "branch_loop c current [] index = Inr current"
| "branch_loop c current (sibling # branch) index =
     (if length sibling \<noteq> 32 then Inl (AuxPoWError ''Merkle branch hash must be 32 bytes'')
      else branch_loop c
        (if index AND 1 \<noteq> 0 then hash256 c (sibling @ current) else hash256 c (current @ sibling))
        branch (drop_bit 1 index))"

definition check_merkle_branch :: "crypto \<Rightarrow> bytes \<Rightarrow> bytes list \<Rightarrow> int \<Rightarrow> bytes result" where
  "check_merkle_branch c leaf branch index =
     (if length leaf \<noteq> 32 then Inl (AuxPoWError ''Merkle leaf must be 32 bytes'')
      else if length branch > MAX_MERKLE_BRANCH_DEPTH
      then Inl (AuxPoWError ''Merkle branch is too deep'')
      else branch_loop c leaf branch index)"

section \<open>The parent header\<close>

record parent_header =
  ph_version :: int
  ph_prev_hash :: bytes
  ph_merkle_root :: bytes
  ph_timestamp :: int
  ph_bits :: int
  ph_nonce :: int

definition mk_parent_header :: "int \<Rightarrow> bytes \<Rightarrow> bytes \<Rightarrow> int \<Rightarrow> int \<Rightarrow> int \<Rightarrow> parent_header result" where
  "mk_parent_header version prev_hash merkle_root timestamp bits nonce =
     (if length prev_hash \<noteq> 32
      then Inl (AuxPoWError ''parent header previous hash must be 32 bytes'')
      else if length merkle_root \<noteq> 32
      then Inl (AuxPoWError ''parent header Merkle root must be 32 bytes'')
      else if \<not> list_all (\<lambda>v. 0 \<le> v \<and> v \<le> 0xFFFFFFFF) [version, timestamp, bits, nonce]
      then Inl (AuxPoWError ''parent header field must be a uint32'')
      else Inr \<lparr>ph_version = version, ph_prev_hash = prev_hash, ph_merkle_root = merkle_root,
             ph_timestamp = timestamp, ph_bits = bits, ph_nonce = nonce\<rparr>)"

definition parent_header_serialize :: "parent_header \<Rightarrow> bytes result" where
  "parent_header_serialize h =
     bnd (w_uint32 (ph_version h) []) (\<lambda>w.
     bnd (w_hash32 (ph_prev_hash h) w) (\<lambda>w.
     bnd (w_hash32 (ph_merkle_root h) w) (\<lambda>w.
     bnd (w_uint32 (ph_timestamp h) w) (\<lambda>w.
     bnd (w_uint32 (ph_bits h) w) (w_uint32 (ph_nonce h))))))"

definition parent_header_read :: "reader \<Rightarrow> (parent_header \<times> reader) result" where
  "parent_header_read s =
     bnd (r_uint32 s) (\<lambda>(version, s).
     bnd (r_hash32 s) (\<lambda>(prev_hash, s).
     bnd (r_hash32 s) (\<lambda>(merkle_root, s).
     bnd (r_uint32 s) (\<lambda>(timestamp, s).
     bnd (r_uint32 s) (\<lambda>(bits, s).
     bnd (r_uint32 s) (\<lambda>(nonce, s).
     bnd (mk_parent_header version prev_hash merkle_root timestamp bits nonce) (\<lambda>h. Inr (h, s))))))))"

definition parent_header_deserialize :: "bytes \<Rightarrow> parent_header result" where
  "parent_header_deserialize data =
     (if length data \<noteq> 80 then Inl (SerializationError ''parent block header must be 80 bytes'')
      else bnd (parent_header_read data) (\<lambda>(h, s). Inr h))"

definition parent_header_hash :: "crypto \<Rightarrow> parent_header \<Rightarrow> bytes" where
  "parent_header_hash c h = hash256 c (written (parent_header_serialize h))"

section \<open>The commitment\<close>

record commitment =
  cm_aux_root :: bytes
  cm_tree_size :: int
  cm_nonce :: int

definition mk_commitment :: "bytes \<Rightarrow> int \<Rightarrow> int \<Rightarrow> commitment result" where
  "mk_commitment aux_root tree_size nonce =
     (if length aux_root \<noteq> 32 then Inl (AuxPoWError ''aux root must be 32 bytes'')
      else if \<not> (1 \<le> tree_size \<and> tree_size \<le> 0xFFFFFFFF)
      then Inl (AuxPoWError ''aux tree size out of range'')
      else if \<not> (0 \<le> nonce \<and> nonce \<le> 0xFFFFFFFF)
      then Inl (AuxPoWError ''commitment nonce out of range'')
      else Inr \<lparr>cm_aux_root = aux_root, cm_tree_size = tree_size, cm_nonce = nonce\<rparr>)"

function height_loop :: "int \<Rightarrow> nat" where
  "height_loop n = (if n > 1 then Suc (height_loop (drop_bit 1 n)) else 0)"
  by auto
termination
  by (relation "measure nat") (auto simp: drop_bit_eq_div)

declare height_loop.simps [simp del]

definition aux_tree_height :: "commitment \<Rightarrow> nat" where
  "aux_tree_height cm = height_loop (cm_tree_size cm)"

definition build_auxpow_commitment :: "bytes \<Rightarrow> int \<Rightarrow> int \<Rightarrow> bytes result" where
  "build_auxpow_commitment aux_root tree_size nonce =
     (if length aux_root \<noteq> 32 then Inl (AuxPoWError ''aux root must be 32 bytes'')
      else if \<not> (1 \<le> tree_size \<and> tree_size \<le> 0xFFFFFFFF)
      then Inl (AuxPoWError ''aux tree size out of range'')
      else if \<not> (0 \<le> nonce \<and> nonce \<le> 0xFFFFFFFF)
      then Inl (AuxPoWError ''commitment nonce out of range'')
      else Inr (MERGED_MINING_HEADER @ aux_root @ to_le 4 tree_size @ to_le 4 nonce))"

fun find_marker :: "bytes \<Rightarrow> bytes option" where
  "find_marker [] = None"
| "find_marker (b # s) =
     (if take 4 (b # s) = MERGED_MINING_HEADER then Some (drop 4 (b # s)) else find_marker s)"

definition commitment_at :: "bytes \<Rightarrow> commitment list" where
  "commitment_at r =
     (if length r < 40 then []
      else case mk_commitment (take 32 r) (from_le (take 4 (drop 32 r))) (from_le (take 4 (drop 36 r))) of
        Inl _ \<Rightarrow> []
      | Inr cm \<Rightarrow> [cm])"

lemma find_marker_length: "find_marker s = Some r \<Longrightarrow> length r < length s"
  by (induction s) (auto split: if_splits)

function parse_loop :: "bytes \<Rightarrow> commitment list" where
  "parse_loop s = (case find_marker s of None \<Rightarrow> [] | Some r \<Rightarrow> commitment_at r @ parse_loop r)"
  by auto
termination
  by (relation "measure length") (auto dest: find_marker_length)

declare parse_loop.simps [simp del]

definition parse_auxpow_commitment :: "bytes \<Rightarrow> commitment option result" where
  "parse_auxpow_commitment coinbase_data =
     (if coinbase_data = [] then Inr None
      else
        let results = parse_loop coinbase_data in
        if length results > 1
        then Inl (AuxPoWError ''found several AuxPoW commitments in the parent coinbase'')
        else Inr (case results of [] \<Rightarrow> None | cm # _ \<Rightarrow> Some cm))"

definition get_expected_index :: "int \<Rightarrow> int \<Rightarrow> nat \<Rightarrow> int" where
  "get_expected_index nonce chain_id height =
     (let r = nonce AND 0xFFFFFFFF;
          r = (r * 1103515245 + 12345) AND 0xFFFFFFFFFFFFFFFF;
          r = (r + chain_id) AND 0xFFFFFFFFFFFFFFFF;
          r = (r * 1103515245 + 12345) AND 0xFFFFFFFFFFFFFFFF
      in if height = 0 then 0 else r mod 2 ^ height)"

section \<open>The proof\<close>

record auxpow =
  ap_coinbase_tx :: transaction
  ap_coinbase_merkle_branch :: "bytes list"
  ap_coinbase_index :: int
  ap_aux_merkle_branch :: "bytes list"
  ap_aux_chain_index :: int
  ap_parent_header :: parent_header

definition coinbase_hash :: "crypto \<Rightarrow> auxpow \<Rightarrow> bytes" where
  "coinbase_hash c a = txid c (ap_coinbase_tx a)"

definition parent_hash :: "crypto \<Rightarrow> auxpow \<Rightarrow> bytes" where
  "parent_hash c a = parent_header_hash c (ap_parent_header a)"

definition w_branch :: "bytes list \<Rightarrow> writer \<Rightarrow> writer result" where
  "w_branch branch w = bnd (w_varint (int (length branch)) w) (foldR w_hash32 branch)"

definition auxpow_serialize :: "auxpow \<Rightarrow> bytes result" where
  "auxpow_serialize a =
     bnd (w_branch (ap_coinbase_merkle_branch a) []) (\<lambda>w.
     bnd (w_uint32 (ap_coinbase_index a) w) (\<lambda>w.
     bnd (w_branch (ap_aux_merkle_branch a) w) (\<lambda>w.
     bnd (w_uint32 (ap_aux_chain_index a) w) (\<lambda>w.
     bnd (tx_serialize (ap_coinbase_tx a)) (\<lambda>t.
     bnd (w_varbytes t w) (\<lambda>w.
     bnd (parent_header_serialize (ap_parent_header a)) (\<lambda>h.
     w_raw h w)))))))"

definition r_branch :: "reader \<Rightarrow> (bytes list \<times> reader) result" where
  "r_branch s = bnd (r_varint s) (\<lambda>(n, s).
     if n > int MAX_MERKLE_BRANCH_DEPTH then Inl (SerializationError ''Merkle branch too deep'')
     else r_times (nat n) r_hash32 s)"

text \<open>The two \<^verbatim>\<open>except\<close> clauses, which turn the exceptions they name into a \<open>SerializationError\<close>.\<close>

definition wrapped :: "'a result \<Rightarrow> 'a result" where
  "wrapped r = (case r of
       Inl (SerializationError m) \<Rightarrow> Inl (SerializationError m)
     | Inl (TransactionError m) \<Rightarrow> Inl (SerializationError m)
     | Inl (AuxPoWError m) \<Rightarrow> Inl (SerializationError m)
     | _ \<Rightarrow> r)"

definition auxpow_read :: "reader \<Rightarrow> (auxpow \<times> reader) result" where
  "auxpow_read s =
     bnd (r_branch s) (\<lambda>(cb_branch, s).
     bnd (r_uint32 s) (\<lambda>(coinbase_index, s).
     bnd (r_branch s) (\<lambda>(aux_branch, s).
     bnd (r_uint32 s) (\<lambda>(aux_chain_index, s).
     bnd (r_varbytes (Some (MAX_COINBASE_DATA + 2000)) s) (\<lambda>(coinbase_bytes, s).
     bnd (wrapped (tx_deserialize coinbase_bytes)) (\<lambda>coinbase_tx.
     bnd (r_raw 80 s) (\<lambda>(parent_bytes, s).
     bnd (wrapped (parent_header_deserialize parent_bytes)) (\<lambda>header.
     Inr (\<lparr>ap_coinbase_tx = coinbase_tx, ap_coinbase_merkle_branch = cb_branch,
           ap_coinbase_index = coinbase_index, ap_aux_merkle_branch = aux_branch,
           ap_aux_chain_index = aux_chain_index, ap_parent_header = header\<rparr>, s)))))))))"

definition auxpow_deserialize :: "bytes \<Rightarrow> auxpow result" where
  "auxpow_deserialize data = bnd (auxpow_read data) (\<lambda>(a, s). bnd (expect_end s) (\<lambda>_. Inr a))"

definition validate_auxpow :: "crypto \<Rightarrow> auxpow \<Rightarrow> bytes \<Rightarrow> int \<Rightarrow> int \<Rightarrow> unit result" where
  "validate_auxpow c a aux_block_hash aux_target chain_id =
     (if chain_id = 0 then Inl (AuxPoWError ''AuxPoW is not configured for this network (chain_id=0)'')
      else if length (ap_coinbase_merkle_branch a) > MAX_MERKLE_BRANCH_DEPTH
      then Inl (AuxPoWError ''coinbase Merkle branch exceeds maximum depth'')
      else if length (ap_aux_merkle_branch a) > MAX_MERKLE_BRANCH_DEPTH
      then Inl (AuxPoWError ''aux Merkle branch exceeds maximum depth'')
      else if list_ex (\<lambda>sibling. length sibling \<noteq> 32) (ap_coinbase_merkle_branch a)
      then Inl (AuxPoWError ''coinbase Merkle branch hash is not 32 bytes'')
      else if list_ex (\<lambda>sibling. length sibling \<noteq> 32) (ap_aux_merkle_branch a)
      then Inl (AuxPoWError ''aux Merkle branch hash is not 32 bytes'')
      else if \<not> is_coinbase (ap_coinbase_tx a)
      then Inl (AuxPoWError ''parent coinbase transaction is not a coinbase'')
      else if length aux_block_hash \<noteq> 32 then Inl (AuxPoWError ''aux block hash must be 32 bytes'')
      else
        bnd (check_merkle_branch c aux_block_hash (ap_aux_merkle_branch a) (ap_aux_chain_index a)) (\<lambda>aux_root.
        bnd (parse_auxpow_commitment (tx_coinbase_data (ap_coinbase_tx a))) (\<lambda>found.
        case found of
          None \<Rightarrow> Inl (AuxPoWError ''the parent coinbase does not contain a merged-mining commitment'')
        | Some cm \<Rightarrow>
            if cm_aux_root cm \<noteq> aux_root
            then Inl (AuxPoWError ''the auxiliary Merkle root does not match the computed root'')
            else if cm_tree_size cm < 1 then Inl (AuxPoWError ''aux tree size must be at least 1'')
            else if cm_tree_size cm AND (cm_tree_size cm - 1) \<noteq> 0
            then Inl (AuxPoWError ''aux tree size is not a power of two'')
            else if ap_aux_chain_index a \<noteq> get_expected_index (cm_nonce cm) chain_id (aux_tree_height cm)
            then Inl (AuxPoWError ''aux chain index is not the expected one'')
            else
              bnd (check_merkle_branch c (coinbase_hash c a) (ap_coinbase_merkle_branch a)
                     (ap_coinbase_index a)) (\<lambda>coinbase_root.
              if coinbase_root \<noteq> ph_merkle_root (ap_parent_header a)
              then Inl (AuxPoWError ''the coinbase Merkle root does not match the parent block'')
              else if from_le (parent_hash c a) > aux_target
              then Inl (AuxPoWError ''parent block hash does not satisfy the ScarletCoin target'')
              else Inr ()))))"

section \<open>The encoding\<close>

definition wf_parent_header :: "parent_header \<Rightarrow> bool" where
  "wf_parent_header h \<longleftrightarrow> length (ph_prev_hash h) = 32 \<and> length (ph_merkle_root h) = 32 \<and>
     fits 4 (ph_version h) \<and> fits 4 (ph_timestamp h) \<and> fits 4 (ph_bits h) \<and> fits 4 (ph_nonce h)"

definition parent_header_bytes :: "parent_header \<Rightarrow> bytes" where
  "parent_header_bytes h = to_le 4 (ph_version h) @ ph_prev_hash h @ ph_merkle_root h @
     to_le 4 (ph_timestamp h) @ to_le 4 (ph_bits h) @ to_le 4 (ph_nonce h)"

lemma mk_parent_header_iff [result_simps]:
  "mk_parent_header v p m t b n = Inr h \<longleftrightarrow> wf_parent_header h \<and>
     h = \<lparr>ph_version = v, ph_prev_hash = p, ph_merkle_root = m, ph_timestamp = t, ph_bits = b,
          ph_nonce = n\<rparr>"
  by (auto simp: mk_parent_header_def wf_parent_header_def fits_4_iff)

lemma parent_header_serialize_iff:
  "parent_header_serialize h = Inr b \<longleftrightarrow> wf_parent_header h \<and> b = parent_header_bytes h"
  by (auto simp: parent_header_serialize_def result_simps codec_simps wf_parent_header_def
      parent_header_bytes_def)

lemma length_parent_header_bytes: "wf_parent_header h \<Longrightarrow> length (parent_header_bytes h) = 80"
  by (simp add: parent_header_bytes_def wf_parent_header_def)

interpretation phdr: codec parent_header_bytes parent_header_read wf_parent_header
proof
  fix h :: parent_header and s
  assume "wf_parent_header h"
  then show "parent_header_read (parent_header_bytes h @ s) = Inr (h, s)"
    by (auto simp: parent_header_read_def parent_header_bytes_def wf_parent_header_def u32.dec_enc
        h32.dec_enc mk_parent_header_def fits_4_iff)
next
  fix s s' :: bytes and h
  assume "parent_header_read s = Inr (h, s')"
  then show "wf_parent_header h \<and> s = parent_header_bytes h @ s'"
    by (auto simp: parent_header_read_def result_simps codec_simps parent_header_bytes_def)
qed

lemma parent_header_deserialize_iff:
  "parent_header_deserialize d = Inr h \<longleftrightarrow> wf_parent_header h \<and> d = parent_header_bytes h"
proof
  assume "parent_header_deserialize d = Inr h"
  then obtain s where "length d = 80" "parent_header_read d = Inr (h, s)"
    by (auto simp: parent_header_deserialize_def bnd_eq_Inr split: if_splits)
  then show "wf_parent_header h \<and> d = parent_header_bytes h"
    using length_parent_header_bytes by (auto simp: phdr.dec_iff)
next
  assume "wf_parent_header h \<and> d = parent_header_bytes h"
  then show "parent_header_deserialize d = Inr h"
    using phdr.dec_enc [of h "[]"] by (simp add: parent_header_deserialize_def length_parent_header_bytes)
qed

definition branch_ok :: "bytes list \<Rightarrow> bool" where
  "branch_ok b \<longleftrightarrow> length b \<le> MAX_MERKLE_BRANCH_DEPTH \<and> list_all (\<lambda>h. length h = 32) b"

definition branch_bytes :: "bytes list \<Rightarrow> bytes" where
  "branch_bytes b = varint_bytes (int (length b)) @ concat b"

lemma small_branch_fits: "length b \<le> MAX_MERKLE_BRANCH_DEPTH \<Longrightarrow> fits 8 (int (length b))"
  by (simp add: fits_def MAX_MERKLE_BRANCH_DEPTH_def)

lemma w_branch_ok:
  assumes "branch_ok b"
  shows "w_branch b w = Inr (w @ branch_bytes b)"
proof -
  have "bnd (w_varint (int (length b)) w) (foldR w_hash32 b) = Inr (w @ branch_bytes b)"
    using assms by (simp add: bnd_eq_Inr w_varint_iff foldR_writer [of w_hash32 "\<lambda>d. length d = 32" "\<lambda>d. d"]
        w_hash32_iff small_branch_fits branch_ok_def branch_bytes_def)
  then show ?thesis by (simp add: w_branch_def)
qed

interpretation branch: codec branch_bytes r_branch branch_ok
proof
  fix b s
  assume "branch_ok b"
  then show "r_branch (branch_bytes b @ s) = Inr (b, s)"
    using h32.times_enc [of b s]
    by (simp add: r_branch_def branch_bytes_def vint.dec_enc small_branch_fits branch_ok_def)
next
  fix s b s'
  assume "r_branch s = Inr (b, s')"
  then show "branch_ok b \<and> s = branch_bytes b @ s'"
    by (auto simp: r_branch_def bnd_eq_Inr vint.dec_iff h32.times_iff branch_ok_def branch_bytes_def
        fits_def MAX_MERKLE_BRANCH_DEPTH_def split: if_splits)
qed

text \<open>What the parser admits, and the bytes it reads.\<close>

definition auxpow_ok :: "auxpow \<Rightarrow> bool" where
  "auxpow_ok a \<longleftrightarrow> branch_ok (ap_coinbase_merkle_branch a) \<and> fits 4 (ap_coinbase_index a) \<and>
     branch_ok (ap_aux_merkle_branch a) \<and> fits 4 (ap_aux_chain_index a) \<and>
     tx_ok (ap_coinbase_tx a) \<and> int (length (tx_bytes (ap_coinbase_tx a))) \<le> MAX_COINBASE_DATA + 2000 \<and>
     wf_parent_header (ap_parent_header a)"

definition auxpow_bytes :: "auxpow \<Rightarrow> bytes" where
  "auxpow_bytes a = branch_bytes (ap_coinbase_merkle_branch a) @ to_le 4 (ap_coinbase_index a) @
     branch_bytes (ap_aux_merkle_branch a) @ to_le 4 (ap_aux_chain_index a) @
     varbytes_bytes (tx_bytes (ap_coinbase_tx a)) @ parent_header_bytes (ap_parent_header a)"

lemma wrapped_eq_Inr [simp]: "wrapped r = Inr x \<longleftrightarrow> r = Inr x"
  by (auto simp: wrapped_def split: sum.splits exn.splits)

lemma coinbase_fits:
  "int (length (tx_bytes t)) \<le> MAX_COINBASE_DATA + 2000 \<Longrightarrow> fits 8 (int (length (tx_bytes t)))"
  by (simp add: fits_def MAX_COINBASE_DATA_def)

interpretation apow: codec auxpow_bytes auxpow_read auxpow_ok
proof
  fix a :: auxpow and s
  assume ok: "auxpow_ok a"
  have tx: "r_varbytes (Some (MAX_COINBASE_DATA + 2000))
      (varbytes_bytes (tx_bytes (ap_coinbase_tx a)) @ r) = Inr (tx_bytes (ap_coinbase_tx a), r)" for r
    using ok by (simp add: r_varbytes_iff coinbase_fits auxpow_ok_def)
  have parsed: "wrapped (tx_deserialize (tx_bytes (ap_coinbase_tx a))) = Inr (ap_coinbase_tx a)"
    "wrapped (parent_header_deserialize (parent_header_bytes (ap_parent_header a))) = Inr (ap_parent_header a)"
    using ok by (simp_all add: tx_deserialize_iff parent_header_deserialize_iff auxpow_ok_def)
  have header: "r_raw 80 (parent_header_bytes (ap_parent_header a) @ s) =
      Inr (parent_header_bytes (ap_parent_header a), s)"
    using ok by (simp add: r_raw_iff length_parent_header_bytes auxpow_ok_def)
  show "auxpow_read (auxpow_bytes a @ s) = Inr (a, s)"
    using ok by (simp add: auxpow_read_def auxpow_bytes_def auxpow_ok_def branch.dec_enc u32.dec_enc
        tx parsed header)
next
  fix s s' :: bytes and a
  assume "auxpow_read s = Inr (a, s')"
  then show "auxpow_ok a \<and> s = auxpow_bytes a @ s'"
    by (auto simp: auxpow_read_def bnd_eq_Inr branch.dec_iff u32.dec_iff r_varbytes_iff r_raw_iff
        tx_deserialize_iff parent_header_deserialize_iff auxpow_ok_def auxpow_bytes_def)
qed

lemma auxpow_ok_serialize: "auxpow_ok a \<Longrightarrow> auxpow_serialize a = Inr (auxpow_bytes a)"
  by (simp add: auxpow_serialize_def auxpow_ok_def auxpow_bytes_def bnd_eq_Inr w_branch_ok
      w_uint_iffs tx_ok_serialize w_varbytes_iff coinbase_fits parent_header_serialize_iff w_raw_iff)

lemma auxpow_deserialize_iff: "auxpow_deserialize d = Inr a \<longleftrightarrow> auxpow_ok a \<and> d = auxpow_bytes a"
  by (auto simp: auxpow_deserialize_def bnd_eq_Inr apow.dec_iff expect_end_iff)

section \<open>Finding the commitment\<close>

text \<open>The commitments at every position of the data that holds a marker.\<close>

fun all_commitments :: "bytes \<Rightarrow> commitment list" where
  "all_commitments [] = []"
| "all_commitments (b # s) =
     (if take 4 (b # s) = MERGED_MINING_HEADER then commitment_at (drop 4 (b # s)) else []) @
     all_commitments s"

text \<open>No marker begins inside another one, so jumping over a marker misses nothing.\<close>

lemma all_commitments_inside:
  assumes "take 4 (b # s) = MERGED_MINING_HEADER"
  shows "all_commitments s = all_commitments (drop 4 (b # s))"
proof -
  have "take 3 s = [0xBE, 0x6D, 0x6D]"
    using assms by (simp add: MERGED_MINING_HEADER_def)
  then have "s = [0xBE, 0x6D, 0x6D] @ drop 3 s"
    by (metis append_take_drop_id)
  then obtain r where "s = 0xBE # 0x6D # 0x6D # r"
    by simp
  then show ?thesis
    by (simp add: MERGED_MINING_HEADER_def)
qed

lemma find_marker_commitments:
  "all_commitments s = (case find_marker s of None \<Rightarrow> [] | Some r \<Rightarrow> commitment_at r @ all_commitments r)"
proof (induction s)
  case (Cons b s)
  then show ?case
    using all_commitments_inside [of b s] by (auto split: option.splits)
qed simp

lemma parse_loop_all: "parse_loop s = all_commitments s"
proof (induction s rule: parse_loop.induct)
  case (1 s)
  then show ?case
    by (subst parse_loop.simps, subst find_marker_commitments) (simp split: option.split)
qed

lemma all_commitments_append: "\<exists>p. all_commitments (pre @ s) = p @ all_commitments s"
proof (induction pre)
  case (Cons b pre)
  then obtain p where "all_commitments (pre @ s) = p @ all_commitments s" by blast
  then show ?case by simp
qed simp

lemma all_commitments_short: "length s < 44 \<Longrightarrow> all_commitments s = []"
  by (induction s) (auto simp: commitment_at_def)

lemma all_commitments_built:
  assumes "build_auxpow_commitment root n k = Inr b"
  shows "\<exists>q. all_commitments (b @ post) = \<lparr>cm_aux_root = root, cm_tree_size = n, cm_nonce = k\<rparr> # q \<and>
    (post = [] \<longrightarrow> q = [])"
proof -
  have b: "b = MERGED_MINING_HEADER @ root @ to_le 4 n @ to_le 4 k"
    and ok: "length root = 32" "1 \<le> n" "n \<le> 0xFFFFFFFF" "0 \<le> k" "k \<le> 0xFFFFFFFF"
    using assms by (auto simp: build_auxpow_commitment_def split: if_splits)
  let ?r = "root @ to_le 4 n @ to_le 4 k @ post"
  have at: "commitment_at ?r = [\<lparr>cm_aux_root = root, cm_tree_size = n, cm_nonce = k\<rparr>]"
    using ok by (simp add: commitment_at_def mk_commitment_def fits_def)
  have "all_commitments (b @ post) = commitment_at ?r @ all_commitments ([0xBE, 0x6D, 0x6D] @ ?r)"
    by (simp add: b MERGED_MINING_HEADER_def)
  moreover have "all_commitments ([0xBE, 0x6D, 0x6D] @ ?r) = []" if "post = []"
    using that ok by (intro all_commitments_short) simp
  ultimately show ?thesis
    using at by (simp del: all_commitments.simps)
qed

section \<open>Powers of two\<close>

lemma power_of_two_iff: "1 \<le> n \<Longrightarrow> n AND (n - 1) = 0 \<longleftrightarrow> n = 2 ^ height_loop n"
proof (induction n rule: height_loop.induct)
  case (1 n)
  show ?case
  proof (cases "n = 1")
    case True
    then show ?thesis by (simp add: height_loop.simps)
  next
    case False
    then have n: "n > 1" using 1(2) by simp
    then have h: "height_loop n = Suc (height_loop (n div 2))"
      by (subst height_loop.simps) (simp add: drop_bit_eq_div)
    show ?thesis
    proof (cases "even n")
      case True
      then obtain m where m: "n = 2 * m" by blast
      have "(2 * m - 1) div 2 = m - 1" by presburger
      then have "n AND (n - 1) = 2 * (m AND (m - 1))"
        using and_rec [of n "n - 1"] by (simp add: m)
      then show ?thesis
        using 1(1) n m h by (simp add: drop_bit_eq_div)
    next
      case False
      then obtain m where m: "n = 2 * m + 1" by (elim oddE)
      have "n AND (n - 1) = 2 * (m AND m)"
        using and_rec [of n "n - 1"] by (simp add: m)
      moreover have "n \<noteq> 2 ^ height_loop n"
        using False h by (metis even_power even_numeral zero_less_Suc)
      ultimately show ?thesis
        using n m by simp
    qed
  qed
qed

section \<open>What a Merkle branch proves\<close>

text \<open>The strings hashed on the way from the leaf to the root.\<close>

fun branch_preimages :: "crypto \<Rightarrow> bytes \<Rightarrow> bytes list \<Rightarrow> int \<Rightarrow> bytes list" where
  "branch_preimages c current [] index = []"
| "branch_preimages c current (sibling # branch) index =
     (let x = (if index AND 1 \<noteq> 0 then sibling @ current else current @ sibling)
      in x # branch_preimages c (hash256 c x) branch (drop_bit 1 index))"

definition collision_in :: "crypto \<Rightarrow> (bytes \<times> bytes) list \<Rightarrow> bool" where
  "collision_in c ps \<longleftrightarrow> (\<exists>(x, y) \<in> set ps. x \<noteq> y \<and> hash256 c x = hash256 c y)"

lemma branch_binding:
  assumes "crypto_ok c" "length l1 = 32" "length l2 = 32" "length b1 = length b2"
    and "branch_loop c l1 b1 i = Inr r" "branch_loop c l2 b2 i = Inr r"
  shows "l1 = l2 \<and> b1 = b2 \<or>
    collision_in c (zip (branch_preimages c l1 b1 i) (branch_preimages c l2 b2 i))"
  using assms(4,2,3,5,6)
proof (induction b1 b2 arbitrary: l1 l2 i rule: list_induct2)
  case Nil
  then show ?case by simp
next
  case (Cons s1 b1 s2 b2)
  let ?x = "\<lambda>s l. if i AND 1 \<noteq> 0 then s @ l else l @ s"
  have s: "length s1 = 32" "length s2 = 32"
    using Cons.prems(3,4) by (auto split: if_splits)
  have IH: "hash256 c (?x s1 l1) = hash256 c (?x s2 l2) \<and> b1 = b2 \<or>
    collision_in c (zip (branch_preimages c (hash256 c (?x s1 l1)) b1 (drop_bit 1 i))
      (branch_preimages c (hash256 c (?x s2 l2)) b2 (drop_bit 1 i)))"
    using Cons.prems s assms(1) by (intro Cons.IH) (auto simp: if_distrib [of "hash256 c"] cong: if_cong)
  have "?x s1 l1 = ?x s2 l2 \<longleftrightarrow> s1 = s2 \<and> l1 = l2"
    using s Cons.prems(1,2) by auto
  then show ?case
    using IH by (auto simp: collision_in_def Let_def)
qed

section \<open>What is accepted\<close>

lemma parse_found: "parse_auxpow_commitment d = Inr (Some cm) \<longleftrightarrow> all_commitments d = [cm]"
  by (auto simp: parse_auxpow_commitment_def parse_loop_all Let_def split: list.splits)

lemma power_of_two_iff': "1 \<le> n \<and> n AND (n - 1) = 0 \<longleftrightarrow> n = 2 ^ height_loop n"
  using power_of_two_iff [of n] by (metis one_le_power one_le_numeral)

lemma validate_auxpow_iff:
  "validate_auxpow c a h target chain_id = Inr () \<longleftrightarrow>
     chain_id \<noteq> 0 \<and> branch_ok (ap_coinbase_merkle_branch a) \<and> branch_ok (ap_aux_merkle_branch a) \<and>
     is_coinbase (ap_coinbase_tx a) \<and> length h = 32 \<and>
     (\<exists>cm. all_commitments (tx_coinbase_data (ap_coinbase_tx a)) = [cm] \<and>
        check_merkle_branch c h (ap_aux_merkle_branch a) (ap_aux_chain_index a) = Inr (cm_aux_root cm) \<and>
        cm_tree_size cm = 2 ^ aux_tree_height cm \<and>
        ap_aux_chain_index a = get_expected_index (cm_nonce cm) chain_id (aux_tree_height cm)) \<and>
     check_merkle_branch c (coinbase_hash c a) (ap_coinbase_merkle_branch a) (ap_coinbase_index a) =
       Inr (ph_merkle_root (ap_parent_header a)) \<and>
     from_le (parent_hash c a) \<le> target"
  (is "?L \<longleftrightarrow> ?R")
proof -
  let ?cb = "ap_coinbase_merkle_branch a" and ?aux = "ap_aux_merkle_branch a"
  have branches: "\<not> length b > MAX_MERKLE_BRANCH_DEPTH \<and> \<not> list_ex (\<lambda>s. length s \<noteq> 32) b \<longleftrightarrow> branch_ok b" for b
    by (auto simp: branch_ok_def list_ex_iff list_all_iff)
  have "?L \<longleftrightarrow> chain_id \<noteq> 0 \<and> (\<not> length ?cb > MAX_MERKLE_BRANCH_DEPTH \<and> \<not> list_ex (\<lambda>s. length s \<noteq> 32) ?cb) \<and>
      (\<not> length ?aux > MAX_MERKLE_BRANCH_DEPTH \<and> \<not> list_ex (\<lambda>s. length s \<noteq> 32) ?aux) \<and>
      is_coinbase (ap_coinbase_tx a) \<and> length h = 32 \<and>
      (\<exists>cm. parse_auxpow_commitment (tx_coinbase_data (ap_coinbase_tx a)) = Inr (Some cm) \<and>
        check_merkle_branch c h ?aux (ap_aux_chain_index a) = Inr (cm_aux_root cm) \<and>
        (1 \<le> cm_tree_size cm \<and> cm_tree_size cm AND (cm_tree_size cm - 1) = 0) \<and>
        ap_aux_chain_index a = get_expected_index (cm_nonce cm) chain_id (aux_tree_height cm)) \<and>
      check_merkle_branch c (coinbase_hash c a) ?cb (ap_coinbase_index a) =
        Inr (ph_merkle_root (ap_parent_header a)) \<and> from_le (parent_hash c a) \<le> target"
    unfolding validate_auxpow_def bnd_eq_Inr guard_eq_Inr lookup_eq_Inr not_not not_less by blast
  then show ?thesis
    unfolding branches parse_found power_of_two_iff' aux_tree_height_def .
qed

lemma double_proof:
  assumes "crypto_ok c" "length h = 32" "length h' = 32"
  shows "\<exists>a a'. ap_parent_header a = ap_parent_header a' \<and> ap_coinbase_tx a = ap_coinbase_tx a' \<and>
    tx_ok (ap_coinbase_tx a) \<and> wf_parent_header (ap_parent_header a) \<and>
    validate_auxpow c a h (from_le (parent_hash c a)) 1 = Inr () \<and>
    validate_auxpow c a' h' (from_le (parent_hash c a)) 1 = Inr ()"
proof -
  define s where "s = hash256 c (replicate 32 0 @ h')"
  define root where "root = hash256 c (s @ h)"
  have len: "length s = 32" "length root = 32"
    using assms(1) by (simp_all add: s_def root_def)
  define cm where "cm = \<lparr>cm_aux_root = root, cm_tree_size = 4, cm_nonce = 2\<rparr>"
  obtain b where b: "build_auxpow_commitment root 4 2 = Inr b" "length b = 44"
    using len by (simp add: build_auxpow_commitment_def MERGED_MINING_HEADER_def)
  then have found: "all_commitments b = [cm]"
    using all_commitments_built [of root 4 2 b "[]"] by (auto simp: cm_def)
  have height: "aux_tree_height cm = 2"
    by (simp add: aux_tree_height_def cm_def height_loop.simps drop_bit_eq_div)
  have index: "get_expected_index (cm_nonce cm) 1 (aux_tree_height cm) = 1"
    unfolding height by (simp add: cm_def get_expected_index_def)
  define tx where "tx = \<lparr>tx_version = 1,
    tx_inputs = [\<lparr>in_prevout = COINBASE_OUTPOINT, in_sequence = SEQUENCE_FINAL, in_witness = []\<rparr>],
    tx_outputs = [\<lparr>out_type = OUTPUT_P2PKH, out_value = 0, out_payload = replicate 20 0\<rparr>],
    tx_lock_time = 0, tx_coinbase_data = b\<rparr>"
  define hd where "hd = \<lparr>ph_version = 1, ph_prev_hash = replicate 32 0, ph_merkle_root = txid c tx,
    ph_timestamp = 0, ph_bits = 0, ph_nonce = 0\<rparr>"
  define proof_with where "proof_with = (\<lambda>branch. \<lparr>ap_coinbase_tx = tx, ap_coinbase_merkle_branch = [],
    ap_coinbase_index = 0, ap_aux_merkle_branch = branch, ap_aux_chain_index = 1, ap_parent_header = hd\<rparr>)"
  have tx: "tx_ok tx" "is_coinbase tx" "tx_coinbase_data tx = b" "length (txid c tx) = 32"
    using b(2) assms(1)
    by (simp_all add: tx_def tx_ok_def wf_tx_defs stack_ok_def tx_constants fits_def is_coinbase_def
        is_null_def COINBASE_OUTPOINT_def txid_def)
  have "validate_auxpow c (proof_with [s]) h (from_le (parent_hash c (proof_with [s]))) 1 = Inr ()"
    unfolding validate_auxpow_iff using tx found index height len assms
    by (simp add: proof_with_def branch_ok_def MAX_MERKLE_BRANCH_DEPTH_def check_merkle_branch_def
        coinbase_hash_def hd_def cm_def root_def)
  moreover have "validate_auxpow c (proof_with [replicate 32 0, h]) h'
      (from_le (parent_hash c (proof_with [s]))) 1 = Inr ()"
    unfolding validate_auxpow_iff using tx found index height len assms
    by (simp add: proof_with_def branch_ok_def MAX_MERKLE_BRANCH_DEPTH_def check_merkle_branch_def
        coinbase_hash_def hd_def cm_def root_def s_def parent_hash_def)
  ultimately show ?thesis
    using tx(1,4) by (intro exI [of _ "proof_with [s]"] exI [of _ "proof_with [replicate 32 0, h]"])
      (simp add: proof_with_def wf_parent_header_def hd_def fits_def)
qed

section \<open>Properties\<close>

text \<open>
  C29. A merged-mining proof is accepted exactly when AuxPoW is configured, both Merkle branches are
  well formed, the parent transaction is a coinbase with exactly one commitment, the block hash
  lies under the committed root at the position that the nonce and the chain id determine in a
  tree of a power-of-two size, the coinbase lies under the Merkle root of the parent header, and
  the parent's hash meets the target.
\<close>
theorem validate_auxpow_accepts:
  "validate_auxpow c a h target chain_id = Inr () \<longleftrightarrow>
     chain_id \<noteq> 0 \<and> branch_ok (ap_coinbase_merkle_branch a) \<and> branch_ok (ap_aux_merkle_branch a) \<and>
     is_coinbase (ap_coinbase_tx a) \<and> length h = 32 \<and>
     (\<exists>cm. all_commitments (tx_coinbase_data (ap_coinbase_tx a)) = [cm] \<and>
        check_merkle_branch c h (ap_aux_merkle_branch a) (ap_aux_chain_index a) = Inr (cm_aux_root cm) \<and>
        cm_tree_size cm = 2 ^ aux_tree_height cm \<and>
        ap_aux_chain_index a = get_expected_index (cm_nonce cm) chain_id (aux_tree_height cm)) \<and>
     check_merkle_branch c (coinbase_hash c a) (ap_coinbase_merkle_branch a) (ap_coinbase_index a) =
       Inr (ph_merkle_root (ap_parent_header a)) \<and>
     from_le (parent_hash c a) \<le> target"
  by (rule validate_auxpow_iff)

text \<open>
  The scan of a coinbase finds what \<open>build_auxpow_commitment\<close> put there, wherever it stands: it
  gives that commitment, or it reports an ambiguity, and never misses it nor gives another one.
\<close>
theorem parse_finds_commitment:
  assumes "build_auxpow_commitment root n k = Inr b"
  shows "parse_auxpow_commitment (pre @ b @ post) =
      Inr (Some \<lparr>cm_aux_root = root, cm_tree_size = n, cm_nonce = k\<rparr>) \<or>
    parse_auxpow_commitment (pre @ b @ post) =
      Inl (AuxPoWError ''found several AuxPoW commitments in the parent coinbase'')"
proof -
  let ?cm = "\<lparr>cm_aux_root = root, cm_tree_size = n, cm_nonce = k\<rparr>"
  obtain q where q: "all_commitments (b @ post) = ?cm # q"
    using all_commitments_built [OF assms] by blast
  obtain p where "all_commitments (pre @ b @ post) = p @ ?cm # q"
    using all_commitments_append [of pre "b @ post"] q by auto
  moreover have "b \<noteq> []"
    using assms by (auto simp: build_auxpow_commitment_def MERGED_MINING_HEADER_def split: if_splits)
  ultimately show ?thesis
    by (cases p) (auto simp: parse_auxpow_commitment_def parse_loop_all Let_def)
qed

text \<open>
  A parent coinbase proves one block hash per branch length: if the same parent coinbase backs
  proofs of two hashes with auxiliary branches of the same length, then the hashes are equal, or
  two different strings hashed along the branches collide.
\<close>
theorem auxpow_binds_hash:
  assumes "crypto_ok c"
    and "validate_auxpow c a h target chain_id = Inr ()" "validate_auxpow c a' h' target' chain_id = Inr ()"
    and "ap_coinbase_tx a = ap_coinbase_tx a'"
    and "length (ap_aux_merkle_branch a) = length (ap_aux_merkle_branch a')"
  shows "h = h' \<or>
    collision_in c (zip (branch_preimages c h (ap_aux_merkle_branch a) (ap_aux_chain_index a))
      (branch_preimages c h' (ap_aux_merkle_branch a') (ap_aux_chain_index a)))"
proof -
  obtain cm where "length h = 32"
    "branch_loop c h (ap_aux_merkle_branch a) (ap_aux_chain_index a) = Inr (cm_aux_root cm)"
    "all_commitments (tx_coinbase_data (ap_coinbase_tx a)) = [cm]"
    "ap_aux_chain_index a = get_expected_index (cm_nonce cm) chain_id (aux_tree_height cm)"
    using assms(2) by (auto simp: validate_auxpow_iff check_merkle_branch_def split: if_splits)
  moreover obtain cm' where "length h' = 32"
    "branch_loop c h' (ap_aux_merkle_branch a') (ap_aux_chain_index a') = Inr (cm_aux_root cm')"
    "all_commitments (tx_coinbase_data (ap_coinbase_tx a')) = [cm']"
    "ap_aux_chain_index a' = get_expected_index (cm_nonce cm') chain_id (aux_tree_height cm')"
    using assms(3) by (auto simp: validate_auxpow_iff check_merkle_branch_def split: if_splits)
  ultimately show ?thesis
    using branch_binding [OF assms(1) _ _ assms(5)] assms(4) by (metis list.inject)
qed

text \<open>
  C35. Without the condition on the length the binding fails. The length of the auxiliary branch is
  not compared with the size of the tree, so for any two block hashes there are two proofs with
  the same parent header and the same parent coinbase, one of each hash, and both are accepted
  for every target that the parent's hash meets: one solved parent block proves two blocks.
\<close>
theorem auxpow_double_proof:
  assumes "crypto_ok c" "length h = 32" "length h' = 32"
  shows "\<exists>a a'. ap_parent_header a = ap_parent_header a' \<and> ap_coinbase_tx a = ap_coinbase_tx a' \<and>
    tx_ok (ap_coinbase_tx a) \<and> wf_parent_header (ap_parent_header a) \<and>
    validate_auxpow c a h (from_le (parent_hash c a)) 1 = Inr () \<and>
    validate_auxpow c a' h' (from_le (parent_hash c a)) 1 = Inr ()"
  using assms by (rule double_proof)

section \<open>Witnesses\<close>

theorem parse_finds_commitment_witness:
  "\<exists>b. build_auxpow_commitment (replicate 32 5) 1 7 = Inr b \<and>
    (parse_auxpow_commitment ([1, 2, 3, 4] @ b @ [9]) =
       Inr (Some \<lparr>cm_aux_root = replicate 32 5, cm_tree_size = 1, cm_nonce = 7\<rparr>) \<or>
     parse_auxpow_commitment ([1, 2, 3, 4] @ b @ [9]) =
       Inl (AuxPoWError ''found several AuxPoW commitments in the parent coinbase''))"
proof -
  have "\<exists>b. build_auxpow_commitment (replicate 32 5) 1 7 = Inr b"
    by (simp add: build_auxpow_commitment_def)
  then show ?thesis
    using parse_finds_commitment [of "replicate 32 5" 1 7 _ "[1, 2, 3, 4]" "[9]"] by blast
qed

theorem auxpow_binds_hash_witness:
  "\<exists>a target. validate_auxpow demo_crypto a (replicate 32 1) target 1 = Inr () \<and>
    (replicate 32 1 = (replicate 32 1 :: bytes) \<or>
     collision_in demo_crypto (zip
       (branch_preimages demo_crypto (replicate 32 1) (ap_aux_merkle_branch a) (ap_aux_chain_index a))
       (branch_preimages demo_crypto (replicate 32 1) (ap_aux_merkle_branch a) (ap_aux_chain_index a))))"
  using double_proof [of demo_crypto "replicate 32 1" "replicate 32 2"]
    auxpow_binds_hash [OF demo_crypto_ok, of _ "replicate 32 1" _ 1 _ "replicate 32 1"]
  by fastforce

theorem auxpow_double_proof_witness:
  "\<exists>a a'. ap_parent_header a = ap_parent_header a' \<and> ap_coinbase_tx a = ap_coinbase_tx a' \<and>
    tx_ok (ap_coinbase_tx a) \<and> wf_parent_header (ap_parent_header a) \<and>
    validate_auxpow demo_crypto a (replicate 32 1) (from_le (parent_hash demo_crypto a)) 1 = Inr () \<and>
    validate_auxpow demo_crypto a' (replicate 32 2) (from_le (parent_hash demo_crypto a)) 1 = Inr ()"
  by (rule auxpow_double_proof) simp_all

end
