(* ===== verification/Block.thy ===== *)
theory Block
  imports Pow Auxpow
begin

text \<open>
  \<^verbatim>\<open>core/block.py\<close>: headers, the Merkle tree, blocks, their wire format and the checks that need no
  chain. \<open>int(time.time())\<close> is the argument \<open>now\<close> of \<open>block_create\<close>. Not modelled: the JSON views
  (\<^verbatim>\<open>to_dict\<close>).
\<close>

section \<open>The Merkle tree\<close>

fun pair_up :: "crypto \<Rightarrow> bytes list \<Rightarrow> bytes list" where
  "pair_up c (x # y # r) = hash256 c (x @ y) # pair_up c r"
| "pair_up c _ = []"

definition even_level :: "bytes list \<Rightarrow> bytes list" where
  "even_level level = (if odd (length level) then level @ [last level] else level)"

lemma length_pair_up: "length (pair_up c xs) = length xs div 2"
  by (induction c xs rule: pair_up.induct) auto

lemma length_pair_up_level:
  "1 < length level \<Longrightarrow> length (pair_up c (even_level level)) < length level"
  "1 < length level \<Longrightarrow> 0 < length (pair_up c (even_level level))"
  by (auto simp: length_pair_up even_level_def) presburger

function merkle_loop :: "crypto \<Rightarrow> bytes list \<Rightarrow> bytes" where
  "merkle_loop c level =
     (if length level > 1 then merkle_loop c (pair_up c (even_level level)) else hd level)"
  by auto
termination
  by (relation "measure (\<lambda>(_, level). length level)") (simp_all add: length_pair_up_level)

declare merkle_loop.simps [simp del]

definition merkle_root :: "crypto \<Rightarrow> bytes list \<Rightarrow> bytes result" where
  "merkle_root c txids =
     (if txids = [] then Inl (BlockError ''cannot compute a Merkle root of zero transactions'')
      else Inr (merkle_loop c txids))"

section \<open>Headers\<close>

definition BLOCK_HEADER_SIZE :: nat where
  "BLOCK_HEADER_SIZE = 80"

record block_header =
  bh_version :: int
  bh_prev_hash :: bytes
  bh_merkle_root :: bytes
  bh_timestamp :: int
  bh_bits :: int
  bh_nonce :: int

definition mk_block_header :: "int \<Rightarrow> bytes \<Rightarrow> bytes \<Rightarrow> int \<Rightarrow> int \<Rightarrow> int \<Rightarrow> block_header result" where
  "mk_block_header version prev_hash merkle timestamp bits nonce =
     (if length prev_hash \<noteq> 32 then Inl (BlockError ''previous block hash must be 32 bytes'')
      else if length merkle \<noteq> 32 then Inl (BlockError ''Merkle root must be 32 bytes'')
      else if \<not> list_all (\<lambda>v. 0 \<le> v \<and> v \<le> 0xFFFFFFFF) [version, timestamp, bits, nonce]
      then Inl (BlockError ''header field must be a uint32'')
      else Inr \<lparr>bh_version = version, bh_prev_hash = prev_hash, bh_merkle_root = merkle,
             bh_timestamp = timestamp, bh_bits = bits, bh_nonce = nonce\<rparr>)"

definition header_serialize :: "block_header \<Rightarrow> bytes result" where
  "header_serialize h =
     bnd (w_uint32 (bh_version h) []) (\<lambda>w.
     bnd (w_hash32 (bh_prev_hash h) w) (\<lambda>w.
     bnd (w_hash32 (bh_merkle_root h) w) (\<lambda>w.
     bnd (w_uint32 (bh_timestamp h) w) (\<lambda>w.
     bnd (w_uint32 (bh_bits h) w) (w_uint32 (bh_nonce h))))))"

definition header_read :: "reader \<Rightarrow> (block_header \<times> reader) result" where
  "header_read s =
     bnd (r_uint32 s) (\<lambda>(version, s).
     bnd (r_hash32 s) (\<lambda>(prev_hash, s).
     bnd (r_hash32 s) (\<lambda>(merkle, s).
     bnd (r_uint32 s) (\<lambda>(timestamp, s).
     bnd (r_uint32 s) (\<lambda>(bits, s).
     bnd (r_uint32 s) (\<lambda>(nonce, s).
     bnd (mk_block_header version prev_hash merkle timestamp bits nonce) (\<lambda>h. Inr (h, s))))))))"

definition header_deserialize :: "bytes \<Rightarrow> block_header result" where
  "header_deserialize data =
     (if length data \<noteq> BLOCK_HEADER_SIZE then Inl (SerializationError ''block header must be 80 bytes'')
      else bnd (header_read data) (\<lambda>(h, s). Inr h))"

definition header_hash :: "crypto \<Rightarrow> block_header \<Rightarrow> bytes" where
  "header_hash c h = hash256 c (written (header_serialize h))"

text \<open>\<^verbatim>\<open>bytes.hex\<close> and the display order of a hash.\<close>

definition hex_digit :: "nat \<Rightarrow> char" where
  "hex_digit n = ''0123456789abcdef'' ! n"

definition hex_string :: "bytes \<Rightarrow> string" where
  "hex_string bs = concat (map (\<lambda>b. [hex_digit (unat b div 16), hex_digit (unat b mod 16)]) bs)"

definition header_hash_hex :: "crypto \<Rightarrow> block_header \<Rightarrow> string" where
  "header_hash_hex c h = hex_string (rev (header_hash c h))"

definition work_value :: "crypto \<Rightarrow> block_header \<Rightarrow> int result" where
  "work_value c h = hash_to_int (header_hash c h)"

definition header_check_proof_of_work :: "crypto \<Rightarrow> int \<Rightarrow> block_header \<Rightarrow> bool result" where
  "header_check_proof_of_work c pow_limit h = check_proof_of_work (header_hash c h) (bh_bits h) pow_limit"

definition with_nonce :: "int \<Rightarrow> block_header \<Rightarrow> block_header result" where
  "with_nonce nonce h = mk_block_header (bh_version h) (bh_prev_hash h) (bh_merkle_root h)
     (bh_timestamp h) (bh_bits h) nonce"

section \<open>Blocks\<close>

record block =
  bk_header :: block_header
  bk_transactions :: "transaction list"
  bk_auxpow :: "auxpow option"

definition block_create ::
    "crypto \<Rightarrow> int \<Rightarrow> bytes \<Rightarrow> transaction list \<Rightarrow> int \<Rightarrow> int option \<Rightarrow> int \<Rightarrow> int \<Rightarrow> auxpow option \<Rightarrow>
     block result" where
  "block_create c now prev_hash transactions bits timestamp version nonce aux =
     (if transactions = []
      then Inl (BlockError ''a block must contain at least the coinbase transaction'')
      else
        bnd (merkle_root c (map (txid c) transactions)) (\<lambda>merkle.
        bnd (mk_block_header version prev_hash merkle
               (case timestamp of None \<Rightarrow> now | Some t \<Rightarrow> t) bits nonce) (\<lambda>header.
        Inr \<lparr>bk_header = header, bk_transactions = transactions, bk_auxpow = aux\<rparr>)))"

definition block_hash :: "crypto \<Rightarrow> block \<Rightarrow> bytes" where
  "block_hash c b = header_hash c (bk_header b)"

definition block_hash_hex :: "crypto \<Rightarrow> block \<Rightarrow> string" where
  "block_hash_hex c b = header_hash_hex c (bk_header b)"

definition has_auxpow :: "block \<Rightarrow> bool" where
  "has_auxpow b \<longleftrightarrow> bk_auxpow b \<noteq> None"

definition block_coinbase :: "block \<Rightarrow> transaction result" where
  "block_coinbase b =
     (case bk_transactions b of [] \<Rightarrow> Inl (BlockError ''block has no transactions'') | t # _ \<Rightarrow> Inr t)"

definition block_txids :: "crypto \<Rightarrow> block \<Rightarrow> bytes list" where
  "block_txids c b = map (txid c) (bk_transactions b)"

definition computed_merkle_root :: "crypto \<Rightarrow> block \<Rightarrow> bytes result" where
  "computed_merkle_root c b = merkle_root c (block_txids c b)"

definition with_header :: "block_header \<Rightarrow> block \<Rightarrow> block" where
  "with_header h b = b\<lparr>bk_header := h\<rparr>"

definition with_auxpow :: "auxpow \<Rightarrow> block \<Rightarrow> block" where
  "with_auxpow a b = b\<lparr>bk_auxpow := Some a\<rparr>"

definition w_transaction :: "transaction \<Rightarrow> writer \<Rightarrow> writer result" where
  "w_transaction t w = bnd (tx_serialize t) (\<lambda>b. w_raw b w)"

definition block_serialize :: "block \<Rightarrow> bytes result" where
  "block_serialize b =
     bnd (header_serialize (bk_header b)) (\<lambda>h.
     bnd (w_raw h []) (\<lambda>w.
     bnd (w_varint (int (length (bk_transactions b))) w) (\<lambda>w.
     bnd (foldR w_transaction (bk_transactions b) w) (\<lambda>w.
     case bk_auxpow b of
       None \<Rightarrow> Inr w
     | Some a \<Rightarrow> bnd (w_uint8 0x01 w) (\<lambda>w. bnd (auxpow_serialize a) (\<lambda>d. w_varbytes d w))))))"

definition block_deserialize :: "bytes \<Rightarrow> block result" where
  "block_deserialize data =
     bnd (header_read data) (\<lambda>(header, s).
     bnd (r_varint s) (\<lambda>(count, s).
     if count = 0 then Inl (SerializationError ''block has no transactions'')
     else if count > remaining s
     then Inl (SerializationError ''transaction count is larger than the remaining data'')
     else
     bnd (r_times (nat count) tx_read s) (\<lambda>(transactions, s).
     bnd (if remaining s > 0 then
            bnd (r_uint8 s) (\<lambda>(marker, s).
            if marker \<noteq> 0x01 then Inl (SerializationError ''unknown AuxPoW marker'')
            else
              bnd (r_varbytes None s) (\<lambda>(d, s).
              bnd (auxpow_deserialize d) (\<lambda>a. Inr (Some a, s))))
          else Inr (None, s)) (\<lambda>(aux, s).
     bnd (expect_end s) (\<lambda>_.
     Inr \<lparr>bk_header = header, bk_transactions = transactions, bk_auxpow = aux\<rparr>)))))"

definition block_size :: "block \<Rightarrow> int" where
  "block_size b = int (length (written (block_serialize b)))"

definition block_check_sanity ::
    "crypto \<Rightarrow> int \<Rightarrow> int \<Rightarrow> int \<Rightarrow> bool \<Rightarrow> block \<Rightarrow> unit result" where
  "block_check_sanity c pow_limit max_block_size min_output_value is_auxpow_active b =
     (if bk_transactions b = [] then Inl (BlockError ''block has no transactions'')
      else if block_size b > max_block_size then Inl (BlockError ''block is too large'')
      else
        bnd (if \<not> is_auxpow_active \<or> \<not> has_auxpow b
             then header_check_proof_of_work c pow_limit (bk_header b) else Inr True) (\<lambda>pow_ok.
        if \<not> pow_ok then Inl (BlockError ''block hash does not meet its proof-of-work target'')
        else if \<not> is_coinbase (hd (bk_transactions b))
        then Inl (BlockError ''first transaction in a block must be the coinbase'')
        else if list_ex is_coinbase (tl (bk_transactions b))
        then Inl (BlockError ''block contains more than one coinbase transaction'')
        else
          bnd (foldR (\<lambda>t u. tx_check_sanity min_output_value t) (bk_transactions b) ()) (\<lambda>_.
          let txids = block_txids c b in
          if card (set txids) \<noteq> length txids then Inl (BlockError ''block contains duplicate transactions'')
          else
            bnd (merkle_root c txids) (\<lambda>root.
            if root \<noteq> bh_merkle_root (bk_header b)
            then Inl (BlockError ''Merkle root does not match the block transactions'')
            else Inr ()))))"

section \<open>The encoding\<close>

definition wf_block_header :: "block_header \<Rightarrow> bool" where
  "wf_block_header h \<longleftrightarrow> length (bh_prev_hash h) = 32 \<and> length (bh_merkle_root h) = 32 \<and>
     fits 4 (bh_version h) \<and> fits 4 (bh_timestamp h) \<and> fits 4 (bh_bits h) \<and> fits 4 (bh_nonce h)"

definition header_bytes :: "block_header \<Rightarrow> bytes" where
  "header_bytes h = to_le 4 (bh_version h) @ bh_prev_hash h @ bh_merkle_root h @
     to_le 4 (bh_timestamp h) @ to_le 4 (bh_bits h) @ to_le 4 (bh_nonce h)"

lemma mk_block_header_iff [result_simps]:
  "mk_block_header v p m t b n = Inr h \<longleftrightarrow> wf_block_header h \<and>
     h = \<lparr>bh_version = v, bh_prev_hash = p, bh_merkle_root = m, bh_timestamp = t, bh_bits = b,
          bh_nonce = n\<rparr>"
  by (auto simp: mk_block_header_def wf_block_header_def fits_4_iff)

lemma header_serialize_iff: "header_serialize h = Inr b \<longleftrightarrow> wf_block_header h \<and> b = header_bytes h"
  by (auto simp: header_serialize_def result_simps codec_simps wf_block_header_def header_bytes_def)

lemma length_header_bytes: "wf_block_header h \<Longrightarrow> length (header_bytes h) = 80"
  by (simp add: header_bytes_def wf_block_header_def)

lemma written_header [simp]: "wf_block_header h \<Longrightarrow> written (header_serialize h) = header_bytes h"
  by (simp add: written_def header_serialize_iff [THEN iffD2])

interpretation bhdr: codec header_bytes header_read wf_block_header
proof
  fix h :: block_header and s
  assume "wf_block_header h"
  then show "header_read (header_bytes h @ s) = Inr (h, s)"
    by (auto simp: header_read_def header_bytes_def wf_block_header_def u32.dec_enc h32.dec_enc
        mk_block_header_def fits_4_iff)
next
  fix s s' :: bytes and h
  assume "header_read s = Inr (h, s')"
  then show "wf_block_header h \<and> s = header_bytes h @ s'"
    by (auto simp: header_read_def result_simps codec_simps header_bytes_def)
qed

text \<open>What the parser admits, and the bytes it reads.\<close>

definition block_ok :: "block \<Rightarrow> bool" where
  "block_ok b \<longleftrightarrow> wf_block_header (bk_header b) \<and> bk_transactions b \<noteq> [] \<and>
     fits 8 (int (length (bk_transactions b))) \<and> list_all tx_ok (bk_transactions b) \<and>
     (case bk_auxpow b of None \<Rightarrow> True
      | Some a \<Rightarrow> auxpow_ok a \<and> fits 8 (int (length (auxpow_bytes a))))"

definition aux_bytes :: "auxpow option \<Rightarrow> bytes" where
  "aux_bytes aux = (case aux of None \<Rightarrow> [] | Some a \<Rightarrow> 0x01 # varbytes_bytes (auxpow_bytes a))"

definition block_bytes :: "block \<Rightarrow> bytes" where
  "block_bytes b = header_bytes (bk_header b) @ varint_bytes (int (length (bk_transactions b))) @
     concat (map tx_bytes (bk_transactions b)) @ aux_bytes (bk_auxpow b)"

lemma tx_bytes_nonempty: "1 \<le> length (tx_bytes t)"
  by (simp add: tx_bytes_def body_bytes_def)

lemma length_txs_bytes: "length ts \<le> length (concat (map tx_bytes ts))"
proof (induction ts)
  case (Cons t ts)
  then show ?case using tx_bytes_nonempty [of t] by simp
qed simp

lemma foldR_w_transaction:
  "list_all tx_ok ts \<Longrightarrow> foldR w_transaction ts w = Inr (w @ concat (map tx_bytes ts))"
  by (induction ts arbitrary: w) (simp_all add: w_transaction_def tx_ok_serialize w_raw_def)

lemma block_ok_serialize: "block_ok b \<Longrightarrow> block_serialize b = Inr (block_bytes b)"
  by (auto simp: block_serialize_def block_ok_def bnd_eq_Inr header_serialize_iff w_raw_iff w_varint_iff
      foldR_w_transaction block_bytes_def aux_bytes_def w_uint_iffs auxpow_ok_serialize w_varbytes_iff
      fits_def eval_simps split: option.splits)

lemma written_block [simp]: "block_ok b \<Longrightarrow> written (block_serialize b) = block_bytes b"
  by (simp add: block_ok_serialize written_def)

lemma r_marker: "r_uint8 (1 # s) = Inr (1, s)"
  using u8.dec_enc [of 1 s] by (simp add: fits_def eval_simps)

lemma block_read_bytes:
  assumes "block_ok b"
  shows "block_deserialize (block_bytes b) = Inr b"
proof -
  let ?ts = "bk_transactions b"
  have ok: "wf_block_header (bk_header b)" "?ts \<noteq> []" "fits 8 (int (length ?ts))" "list_all tx_ok ?ts"
    using assms by (simp_all add: block_ok_def)
  have aux: "r_varbytes None (varbytes_bytes (auxpow_bytes a)) = Inr (auxpow_bytes a, [])"
    "auxpow_deserialize (auxpow_bytes a) = Inr a" if "bk_auxpow b = Some a" for a
    using assms that vbytes.dec_enc [of "auxpow_bytes a" "[]"]
    by (simp_all add: block_ok_def auxpow_deserialize_iff)
  show ?thesis
    using ok length_txs_bytes [of ?ts]
    by (cases "bk_auxpow b") (simp_all add: block_deserialize_def block_bytes_def bhdr.dec_enc vint.dec_enc
        tx.times_enc tx.times_enc [where s = "[]", simplified] aux_bytes_def r_marker aux
        expect_end_def remaining_def)
qed

lemma block_read_canonical:
  assumes "block_deserialize d = Inr b"
  shows "block_ok b \<and> d = block_bytes b"
proof -
  obtain h s1 n s2 ts s3 aux s4 where
    h: "header_read d = Inr (h, s1)" and n: "r_varint s1 = Inr (n, s2)" "n \<noteq> 0"
    and ts: "r_times (nat n) tx_read s2 = Inr (ts, s3)"
    and aux: "(if remaining s3 > 0 then
            bnd (r_uint8 s3) (\<lambda>(marker, s).
            if marker \<noteq> 0x01 then Inl (SerializationError ''unknown AuxPoW marker'')
            else
              bnd (r_varbytes None s) (\<lambda>(d, s).
              bnd (auxpow_deserialize d) (\<lambda>a. Inr (Some a, s))))
          else Inr (None, s3)) = Inr (aux, s4)"
    and s4: "s4 = []"
    and b: "b = \<lparr>bk_header = h, bk_transactions = ts, bk_auxpow = aux\<rparr>"
    using assms by (auto simp: block_deserialize_def bnd_eq_Inr guard_eq_Inr expect_end_iff)
  have "s3 = aux_bytes aux \<and> (case aux of None \<Rightarrow> True
      | Some a \<Rightarrow> auxpow_ok a \<and> fits 8 (int (length (auxpow_bytes a))))"
  proof (cases "remaining s3 > 0")
    case True
    then show ?thesis
      using aux s4 by (auto simp: bnd_eq_Inr guard_eq_Inr u8.dec_iff vbytes.dec_iff auxpow_deserialize_iff
          aux_bytes_def eval_simps)
  next
    case False
    then show ?thesis using aux by (auto simp: aux_bytes_def remaining_def)
  qed
  then show ?thesis
    using h n ts b by (auto simp: bhdr.dec_iff vint.dec_iff tx.times_iff block_ok_def block_bytes_def
        fits_def)
qed

lemma block_deserialize_iff: "block_deserialize d = Inr b \<longleftrightarrow> block_ok b \<and> d = block_bytes b"
  using block_read_bytes block_read_canonical by blast

section \<open>What the Merkle root commits to\<close>

text \<open>
  \<open>pair_strings\<close> are the strings hashed to build one level from the level below, \<open>merkle_strings\<close> those of
  the whole tree, and \<open>upper_levels\<close> the levels above the leaves.
\<close>

fun pair_strings :: "bytes list \<Rightarrow> bytes list" where
  "pair_strings (x # y # r) = (x @ y) # pair_strings r"
| "pair_strings _ = []"

abbreviation level_up :: "crypto \<Rightarrow> bytes list \<Rightarrow> bytes list" where
  "level_up c level \<equiv> pair_up c (even_level level)"

function merkle_strings :: "crypto \<Rightarrow> bytes list \<Rightarrow> bytes list" where
  "merkle_strings c level = (if length level > 1
     then pair_strings (even_level level) @ merkle_strings c (level_up c level) else [])"
  by auto
termination
  by (relation "measure (\<lambda>(_, level). length level)") (simp_all add: length_pair_up_level)

function upper_levels :: "crypto \<Rightarrow> bytes list \<Rightarrow> bytes list list" where
  "upper_levels c level = (if length level > 1
     then level_up c level # upper_levels c (level_up c level) else [])"
  by auto
termination
  by (relation "measure (\<lambda>(_, level). length level)") (simp_all add: length_pair_up_level)

declare merkle_strings.simps [simp del] upper_levels.simps [simp del]

lemma pair_up_strings: "pair_up c xs = map (hash256 c) (pair_strings xs)"
  by (induction c xs rule: pair_up.induct) auto

definition digests :: "bytes list \<Rightarrow> bool" where
  "digests xs \<longleftrightarrow> (\<forall>x \<in> set xs. length x = 32)"

lemma digests_pair_up: "crypto_ok c \<Longrightarrow> digests (pair_up c xs)"
  by (simp add: pair_up_strings digests_def)

lemma digests_even_level: "digests xs \<Longrightarrow> digests (even_level xs)"
  by (cases xs rule: rev_cases) (auto simp: digests_def even_level_def)

lemma pair_strings_64: "digests xs \<Longrightarrow> s \<in> set (pair_strings xs) \<Longrightarrow> length s = 64"
  by (induction xs rule: pair_strings.induct) (auto simp: digests_def)

lemma pair_strings_inject:
  assumes "digests xs" "digests ys" "even (length xs)" "even (length ys)"
    and "pair_strings xs = pair_strings ys"
  shows "xs = ys"
  using assms
proof (induction xs arbitrary: ys rule: pair_strings.induct)
  case (1 x y r)
  then obtain x' y' r' where ys: "ys = x' # y' # r'"
    by (cases ys rule: pair_strings.cases) auto
  have "length x = 32" "length x' = 32"
    using 1(2,3) ys by (simp_all add: digests_def)
  moreover have "x @ y = x' @ y'" "pair_strings r = pair_strings r'"
    using 1(6) ys by simp_all
  moreover have "r = r'"
    using 1(2-6) ys by (intro 1(1)) (simp_all add: digests_def)
  ultimately show ?case by (simp add: ys)
next
  case "2_1"
  then show ?case by (cases ys rule: pair_strings.cases) auto
qed simp

lemma even_length_even_level: "even (length (even_level xs))"
  by (simp add: even_level_def)

lemma even_level_inject:
  assumes "distinct xs" "distinct ys" "1 < length xs" "1 < length ys" "even_level xs = even_level ys"
  shows "xs = ys"
proof -
  have "last zs \<in> set zs" if "1 < length zs" for zs :: "bytes list"
    using that by (intro last_in_set) auto
  then have "\<not> distinct (zs @ [last zs])" if "1 < length zs" for zs :: "bytes list"
    using that by simp
  with assms show ?thesis
    by (auto simp: even_level_def split: if_splits)
qed

text \<open>Without collisions, levels that have the same parents are the same level.\<close>

lemma level_up_inject:
  assumes "inj_on (hash256 c) (set (pair_strings (even_level xs)) \<union> set (pair_strings (even_level ys)))"
    and "digests xs" "digests ys" "distinct xs" "distinct ys" "1 < length xs" "1 < length ys"
    and "level_up c xs = level_up c ys"
  shows "xs = ys"
proof -
  have "pair_strings (even_level xs) = pair_strings (even_level ys)"
    using assms(1,8) unfolding pair_up_strings by (rule map_inj_on [rotated])
  then have "even_level xs = even_level ys"
    by (rule pair_strings_inject [OF digests_even_level [OF assms(2)] digests_even_level [OF assms(3)]
          even_length_even_level even_length_even_level])
  then show ?thesis by (rule even_level_inject [OF assms(4-7)])
qed

lemma pair_strings_first:
  "digests xs \<Longrightarrow> s \<in> set (pair_strings xs) \<Longrightarrow> \<exists>a b. s = a @ b \<and> a \<in> set (butlast xs) \<and> length a = 32"
proof (induction xs rule: pair_strings.induct)
  case (1 x y r)
  show ?case
  proof (cases "s = x @ y")
    case True
    moreover have "length x = 32" using 1(2) by (simp add: digests_def)
    ultimately show ?thesis by (intro exI [of _ x] exI [of _ y]) simp
  next
    case False
    then have s: "s \<in> set (pair_strings r)" using 1(3) by simp
    then have "r \<noteq> []" by auto
    moreover obtain a b where "s = a @ b" "a \<in> set (butlast r)" "length a = 32"
      using 1(1) 1(2) s by (auto simp: digests_def)
    ultimately show ?thesis by (intro exI [of _ a] exI [of _ b]) simp
  qed
qed simp_all

lemma distinct_pair_strings:
  assumes "digests xs" "distinct (butlast xs)"
  shows "distinct (pair_strings xs)"
  using assms
proof (induction xs rule: pair_strings.induct)
  case (1 x y r)
  have r: "digests r" "distinct (butlast r)" "x \<notin> set (butlast r)" "length x = 32"
    using 1(2,3) by (auto simp: digests_def split: if_splits)
  have "x @ y \<notin> set (pair_strings r)"
    using pair_strings_first [OF r(1), of "x @ y"] r(3,4) by auto
  with 1(1) r show ?case by simp
qed simp_all

lemma distinct_level_up:
  assumes "inj_on (hash256 c) (set (pair_strings (even_level xs)))" "digests xs" "distinct xs"
  shows "distinct (level_up c xs)"
proof -
  have "distinct (butlast (even_level xs))"
    using assms(3) by (auto simp: even_level_def distinct_butlast)
  then have "distinct (pair_strings (even_level xs))"
    using assms(2) by (intro distinct_pair_strings digests_even_level)
  then show ?thesis
    using assms(1) by (simp add: pair_up_strings distinct_map)
qed

lemma merkle_strings_up:
  "1 < length xs \<Longrightarrow> set (merkle_strings c xs) =
     set (pair_strings (even_level xs)) \<union> set (merkle_strings c (level_up c xs))"
  by (subst merkle_strings.simps) simp

lemma upper_levels_up:
  "1 < length xs \<Longrightarrow> set (upper_levels c xs) =
     insert (level_up c xs) (set (upper_levels c (level_up c xs)))"
  by (subst upper_levels.simps) simp

lemma level_props:
  assumes "crypto_ok c" "1 < length xs" "digests xs" "distinct xs"
    and "inj_on (hash256 c) (set (merkle_strings c xs))"
  shows "distinct (level_up c xs)" "digests (level_up c xs)" "level_up c xs \<noteq> []"
    and "inj_on (hash256 c) (set (merkle_strings c (level_up c xs)))"
    and "\<forall>x \<in> set (level_up c xs). \<exists>s \<in> set (merkle_strings c xs). x = hash256 c s \<and> length s = 64"
proof -
  note strings = merkle_strings_up [OF assms(2), of c]
  show "distinct (level_up c xs)"
    using assms(3-5) by (intro distinct_level_up) (auto simp: strings inj_on_Un)
  show "digests (level_up c xs)" by (rule digests_pair_up [OF assms(1)])
  show "level_up c xs \<noteq> []" using length_pair_up_level(2) [OF assms(2), of c] by auto
  show "inj_on (hash256 c) (set (merkle_strings c (level_up c xs)))"
    using assms(5) by (auto simp: strings inj_on_Un)
  show "\<forall>x \<in> set (level_up c xs). \<exists>s \<in> set (merkle_strings c xs). x = hash256 c s \<and> length s = 64"
    using pair_strings_64 [OF digests_even_level [OF assms(3)]] by (auto simp: strings pair_up_strings)
qed

lemma upper_level_props:
  assumes "crypto_ok c" "L \<in> set (upper_levels c xs)" "digests xs" "distinct xs"
    and "inj_on (hash256 c) (set (merkle_strings c xs))"
  shows "distinct L \<and> digests L \<and> L \<noteq> [] \<and> set (merkle_strings c L) \<subseteq> set (merkle_strings c xs) \<and>
    (\<forall>x \<in> set L. \<exists>s \<in> set (merkle_strings c xs). x = hash256 c s \<and> length s = 64)"
  using assms(2-)
proof (induction "length xs" arbitrary: xs rule: less_induct)
  case less
  then have len: "1 < length xs"
    by (cases "length xs > 1") (simp_all add: upper_levels.simps [of c xs])
  note up = level_props [OF assms(1) len less.prems(2-4)]
  note strings = merkle_strings_up [OF len, of c]
  show ?case
  proof (cases "L = level_up c xs")
    case True
    then show ?thesis using up strings by auto
  next
    case False
    then have "L \<in> set (upper_levels c (level_up c xs))"
      using less.prems(1) by (simp add: upper_levels_up [OF len])
    then have "distinct L \<and> digests L \<and> L \<noteq> [] \<and>
      set (merkle_strings c L) \<subseteq> set (merkle_strings c (level_up c xs)) \<and>
      (\<forall>x \<in> set L. \<exists>s \<in> set (merkle_strings c (level_up c xs)). x = hash256 c s \<and> length s = 64)"
      using length_pair_up_level(1) [OF len, of c] up by (intro less.hyps)
    then show ?thesis unfolding strings by blast
  qed
qed

lemma upper_level_below:
  assumes "L \<in> set (upper_levels c (level_up c xs))" "1 < length xs"
  shows "\<exists>M \<in> set (upper_levels c xs). 1 < length M \<and> L = level_up c M"
  using assms
proof (induction "length xs" arbitrary: xs rule: less_induct)
  case less
  let ?u = "level_up c xs"
  have len: "1 < length ?u"
    using less.prems(1) by (cases "length ?u > 1") (simp_all add: upper_levels.simps [of c ?u])
  show ?case
  proof (cases "L = level_up c ?u")
    case True
    then show ?thesis using len by (auto simp: upper_levels_up [OF less.prems(2)])
  next
    case False
    then have "L \<in> set (upper_levels c (level_up c ?u))"
      using less.prems(1) by (simp add: upper_levels_up [OF len])
    then have "\<exists>M \<in> set (upper_levels c ?u). 1 < length M \<and> L = level_up c M"
      using length_pair_up_level(1) [OF less.prems(2), of c] len by (intro less.hyps)
    then show ?thesis by (auto simp: upper_levels_up [OF less.prems(2)])
  qed
qed

lemma merkle_loop_up: "1 < length xs \<Longrightarrow> merkle_loop c xs = merkle_loop c (level_up c xs)"
  by (subst merkle_loop.simps) simp

lemma root_level: "1 < length xs \<Longrightarrow> [merkle_loop c xs] \<in> set (upper_levels c xs)"
proof (induction "length xs" arbitrary: xs rule: less_induct)
  case less
  let ?u = "level_up c xs"
  show ?case
  proof (cases "1 < length ?u")
    case True
    then have "[merkle_loop c ?u] \<in> set (upper_levels c ?u)"
      using less length_pair_up_level(1) by blast
    then show ?thesis
      using less.prems by (simp add: upper_levels_up merkle_loop_up)
  next
    case False
    then have "length ?u = 1"
      using length_pair_up_level(2) [OF less.prems, of c] by linarith
    then have "[merkle_loop c ?u] = ?u"
      by (cases ?u) (simp_all add: merkle_loop.simps)
    then show ?thesis
      using less.prems by (simp add: upper_levels_up merkle_loop_up)
  qed
qed

text \<open>
  Trees with the same root are the same tree, or one is the top part of the other, unless strings
  hashed in them collide.
\<close>

lemma level_up_upper:
  assumes c: "crypto_ok c" and len: "1 < length xs" "1 < length ys"
    and d: "digests xs" "digests ys" "distinct xs" "distinct ys"
    and inj: "inj_on (hash256 c) (set (merkle_strings c xs) \<union> set (merkle_strings c ys))"
    and up: "level_up c xs \<in> set (upper_levels c (level_up c ys))"
  shows "xs \<in> set (upper_levels c ys)"
proof -
  obtain M where M: "M \<in> set (upper_levels c ys)" "1 < length M" "level_up c xs = level_up c M"
    using upper_level_below [OF up len(2)] by blast
  have "inj_on (hash256 c) (set (merkle_strings c ys))"
    using inj by (simp add: inj_on_Un)
  note props = upper_level_props [OF c M(1) d(2,4) this]
  have "set (pair_strings (even_level xs)) \<union> set (pair_strings (even_level M)) \<subseteq>
      set (merkle_strings c xs) \<union> set (merkle_strings c ys)"
    using props merkle_strings_up [OF M(2), of c] merkle_strings_up [OF len(1), of c] by auto
  then have "xs = M"
    using props d M len inj by (intro level_up_inject [of c xs M]) (auto intro: inj_on_subset)
  then show ?thesis using M by simp
qed

lemma merkle_same_root:
  assumes c: "crypto_ok c" and "xs \<noteq> []" "ys \<noteq> []" "digests xs" "digests ys" "distinct xs" "distinct ys"
    and "inj_on (hash256 c) (set (merkle_strings c xs) \<union> set (merkle_strings c ys))"
    and "merkle_loop c xs = merkle_loop c ys"
  shows "xs = ys \<or> xs \<in> set (upper_levels c ys) \<or> ys \<in> set (upper_levels c xs)"
  using assms(2-)
proof (induction "length xs" arbitrary: xs ys rule: less_induct)
  case less
  have single: "zs = [merkle_loop c zs]" if "zs \<noteq> []" "\<not> 1 < length zs" for zs
    using that by (cases zs) (simp_all add: merkle_loop.simps)
  consider "\<not> 1 < length xs" "\<not> 1 < length ys" | "\<not> 1 < length xs" "1 < length ys"
    | "1 < length xs" "\<not> 1 < length ys" | "1 < length xs" "1 < length ys" by blast
  then show ?case
  proof cases
    case 1
    then show ?thesis using single less.prems by metis
  next
    case 2
    then show ?thesis using single less.prems root_level by metis
  next
    case 3
    then show ?thesis using single less.prems root_level by metis
  next
    case 4
    note sx = merkle_strings_up [OF 4(1), of c] and sy = merkle_strings_up [OF 4(2), of c]
    have inj: "inj_on (hash256 c) (set (merkle_strings c xs))" "inj_on (hash256 c) (set (merkle_strings c ys))"
      using less.prems(7) by (simp_all add: inj_on_Un)
    note px = level_props [OF c 4(1) less.prems(3,5) inj(1)]
      and py = level_props [OF c 4(2) less.prems(4,6) inj(2)]
    have "set (merkle_strings c (level_up c xs)) \<union> set (merkle_strings c (level_up c ys)) \<subseteq>
        set (merkle_strings c xs) \<union> set (merkle_strings c ys)"
      unfolding sx sy by blast
    then have "level_up c xs = level_up c ys \<or> level_up c xs \<in> set (upper_levels c (level_up c ys)) \<or>
        level_up c ys \<in> set (upper_levels c (level_up c xs))"
      using px py less.prems(7,8) 4 length_pair_up_level(1) [OF 4(1), of c]
      by (intro less.hyps) (auto simp: merkle_loop_up intro: inj_on_subset)
    moreover have "xs = ys" if "level_up c xs = level_up c ys"
      using less.prems 4 that by (intro level_up_inject [of c xs ys]) (auto simp: sx sy intro: inj_on_subset)
    moreover have "inj_on (hash256 c) (set (merkle_strings c ys) \<union> set (merkle_strings c xs))"
      using less.prems(7) by (simp add: Un_commute)
    ultimately show ?thesis
      using level_up_upper [OF c 4 less.prems(3-6,7)] level_up_upper [OF c 4(2,1) less.prems(4,3,6,5)]
      by blast
  qed
qed

lemma merkle_leaves_bind:
  assumes c: "crypto_ok c" and ne: "ps \<noteq> []" "qs \<noteq> []"
    and leaf: "\<forall>p \<in> set ps \<union> set qs. length p \<noteq> 64"
    and d: "distinct (map (hash256 c) ps)" "distinct (map (hash256 c) qs)"
    and inj: "inj_on (hash256 c) (set ps \<union> set qs \<union> set (merkle_strings c (map (hash256 c) ps)) \<union>
      set (merkle_strings c (map (hash256 c) qs)))"
    and root: "merkle_loop c (map (hash256 c) ps) = merkle_loop c (map (hash256 c) qs)"
  shows "ps = qs"
proof -
  let ?xs = "map (hash256 c) ps" and ?ys = "map (hash256 c) qs"
  have dig: "digests ?xs" "digests ?ys" using c by (auto simp: digests_def)
  have not_upper: False if "map (hash256 c) us \<in> set (upper_levels c (map (hash256 c) vs))"
    "us \<noteq> []" "set us \<subseteq> set ps \<union> set qs" "set vs \<subseteq> set ps \<union> set qs"
    "set (merkle_strings c (map (hash256 c) vs)) \<subseteq> set (merkle_strings c ?xs) \<union> set (merkle_strings c ?ys)"
    "distinct (map (hash256 c) vs)" for us vs
  proof -
    have "inj_on (hash256 c) (set (merkle_strings c (map (hash256 c) vs)))"
      by (rule inj_on_subset [OF inj]) (use that(5) in blast)
    moreover have "digests (map (hash256 c) vs)" using c by (auto simp: digests_def)
    ultimately have "\<forall>x \<in> set (map (hash256 c) us).
        \<exists>s \<in> set (merkle_strings c (map (hash256 c) vs)). x = hash256 c s \<and> length s = 64"
      using upper_level_props [OF c that(1)] that(6) by blast
    moreover have u: "hd us \<in> set us" using that(2) by simp
    ultimately obtain s where s: "s \<in> set (merkle_strings c (map (hash256 c) vs))"
      "hash256 c (hd us) = hash256 c s" "length s = 64" by auto
    have "hd us = s" using u s that(3,5) by (intro inj_onD [OF inj s(2)]) auto
    then show False using s(3) leaf u that(3) by blast
  qed
  have "inj_on (hash256 c) (set (merkle_strings c ?xs) \<union> set (merkle_strings c ?ys))"
    by (rule inj_on_subset [OF inj]) blast
  from merkle_same_root [OF c _ _ dig d this root] ne
  have "?xs = ?ys \<or> ?xs \<in> set (upper_levels c ?ys) \<or> ?ys \<in> set (upper_levels c ?xs)"
    by simp
  then have "?xs = ?ys"
    using not_upper [of ps qs] not_upper [of qs ps] ne d by blast
  then show ?thesis
    by (rule map_inj_on) (rule inj_on_subset [OF inj], blast)
qed

section \<open>The stateless checks\<close>

lemma foldR_unit: "foldR (\<lambda>x u. f x) xs () = Inr () \<longleftrightarrow> (\<forall>x \<in> set xs. f x = Inr ())"
  by (induction xs) (auto simp: bnd_eq_Inr)

lemma block_check_sanity_iff:
  "block_check_sanity c limit max_size min_out aux b = Inr () \<longleftrightarrow>
     bk_transactions b \<noteq> [] \<and> block_size b \<le> max_size \<and>
     (aux \<and> has_auxpow b \<or> header_check_proof_of_work c limit (bk_header b) = Inr True) \<and>
     is_coinbase (hd (bk_transactions b)) \<and> (\<forall>t \<in> set (tl (bk_transactions b)). \<not> is_coinbase t) \<and>
     (\<forall>t \<in> set (bk_transactions b). tx_check_sanity min_out t = Inr ()) \<and>
     distinct (block_txids c b) \<and>
     merkle_root c (block_txids c b) = Inr (bh_merkle_root (bk_header b))"
proof -
  have pow: "(if \<not> aux \<or> \<not> has_auxpow b then header_check_proof_of_work c limit (bk_header b) else Inr True) =
      Inr True \<longleftrightarrow> aux \<and> has_auxpow b \<or> header_check_proof_of_work c limit (bk_header b) = Inr True"
    by auto
  have "block_check_sanity c limit max_size min_out aux b = Inr () \<longleftrightarrow>
     bk_transactions b \<noteq> [] \<and> \<not> block_size b > max_size \<and>
     (if \<not> aux \<or> \<not> has_auxpow b then header_check_proof_of_work c limit (bk_header b) else Inr True) = Inr True \<and>
     is_coinbase (hd (bk_transactions b)) \<and> \<not> list_ex is_coinbase (tl (bk_transactions b)) \<and>
     foldR (\<lambda>t u. tx_check_sanity min_out t) (bk_transactions b) () = Inr () \<and>
     card (set (block_txids c b)) = length (block_txids c b) \<and>
     merkle_root c (block_txids c b) = Inr (bh_merkle_root (bk_header b))"
    unfolding block_check_sanity_def Let_def guard_eq_Inr bnd_eq_Inr not_not by auto
  then show ?thesis
    unfolding pow foldR_unit list_ex_iff not_less
    by (metis card_distinct distinct_card)
qed

section \<open>Properties\<close>

text \<open>
  C31. Parsing and printing blocks are inverse to each other on the whole wire format, with and
  without a merged-mining proof: a byte string parses as a block exactly when the block is one the
  parser admits and its serialisation is that byte string.
\<close>
theorem block_wire_format:
  "block_deserialize d = Inr b \<longleftrightarrow> block_ok b \<and> block_serialize b = Inr d"
  using block_ok_serialize by (auto simp: block_deserialize_iff)

text \<open>The strings hashed for a block: its header, its transaction bodies and its Merkle tree.\<close>

definition block_strings :: "crypto \<Rightarrow> block \<Rightarrow> bytes list" where
  "block_strings c b = header_bytes (bk_header b) # map body_bytes (bk_transactions b) @
     merkle_strings c (block_txids c b)"

text \<open>Two different strings of a set have the same double hash.\<close>

definition colliding :: "crypto \<Rightarrow> bytes set \<Rightarrow> bool" where
  "colliding c S = (\<exists>x \<in> S. \<exists>y \<in> S. x \<noteq> y \<and> hash256 c x = hash256 c y)"

lemma colliding_iff: "colliding c S \<longleftrightarrow> \<not> inj_on (hash256 c) S"
  by (auto simp: colliding_def inj_on_def)

lemma length_body_bytes: "tx_ok t \<Longrightarrow> 80 \<le> length (body_bytes t)"
proof -
  assume ok: "tx_ok t"
  have "1 \<le> length (varint_bytes v)" for v
    by (simp add: varint_bytes_def)
  then have v: "1 \<le> length (varint_bytes (int (length (tx_inputs t))))"
    "1 \<le> length (varint_bytes (int (length (tx_outputs t))))"
    "1 \<le> length (varbytes_bytes (tx_coinbase_data t))"
    by (auto simp: varbytes_bytes_def intro: trans_le_add1)
  have "tx_inputs t \<noteq> []" "tx_outputs t \<noteq> []"
    using ok by (simp_all add: tx_ok_def)
  then have "1 \<le> length (tx_inputs t)" "1 \<le> length (tx_outputs t)"
    by (simp_all add: Suc_le_eq)
  with v ok show ?thesis
    by (simp add: body_bytes_def length_inputs_bytes length_outputs_bytes tx_ok_def wf_transaction_def)
qed

lemma bodies_strip:
  "map body_bytes ts = map body_bytes us \<Longrightarrow> \<forall>t \<in> set ts \<union> set us. tx_ok t \<Longrightarrow>
    map strip_witness ts = map strip_witness us"
proof (induction ts arbitrary: us)
  case (Cons t ts)
  then obtain u us' where "us = u # us'" "body_bytes t = body_bytes u" "map body_bytes ts = map body_bytes us'"
    by (cases us) auto
  with Cons show ?case by (simp add: body_eq_iff)
qed simp

text \<open>
  C32. The block hash commits to the transactions. Two blocks that pass the stateless checks and
  have the same hash have the same header and the same transactions up to witnesses, in the same
  order, unless two different strings hashed in them collide. The rejection of repeated
  transaction ids and the size of a transaction body rule out the two ambiguities of a Merkle tree
  that repeats its last node: lists of different lengths with the same root, and inner nodes taken
  for leaves.
\<close>
theorem block_hash_commits:
  assumes "crypto_ok c" and "block_ok b" "block_ok b'"
    and "block_check_sanity c l m v x b = Inr ()" "block_check_sanity c l' m' v' x' b' = Inr ()"
    and "block_hash c b = block_hash c b'"
  shows "bk_header b = bk_header b' \<and>
      map strip_witness (bk_transactions b) = map strip_witness (bk_transactions b') \<or>
    colliding c (set (block_strings c b) \<union> set (block_strings c b'))"
proof (rule disjCI)
  assume "\<not> colliding c (set (block_strings c b) \<union> set (block_strings c b'))"
  then have inj: "inj_on (hash256 c) (set (block_strings c b) \<union> set (block_strings c b'))"
    by (simp add: colliding_iff)
  let ?ts = "bk_transactions b" and ?us = "bk_transactions b'"
  have ok: "\<forall>t \<in> set ?ts \<union> set ?us. tx_ok t" and hd: "wf_block_header (bk_header b)" "wf_block_header (bk_header b')"
    using assms(2,3) by (auto simp: block_ok_def list_all_iff)
  have ids: "block_txids c b = map (hash256 c) (map body_bytes ?ts)"
    "block_txids c b' = map (hash256 c) (map body_bytes ?us)"
    using ok by (simp_all add: block_txids_def txid_def)
  have "header_bytes (bk_header b) = header_bytes (bk_header b')"
    by (rule inj_onD [OF inj])
      (use assms(6) hd in \<open>simp_all add: block_strings_def block_hash_def header_hash_def\<close>)
  then have header: "bk_header b = bk_header b'"
    using bhdr.enc_unique [OF hd, of "[]" "[]"] by simp
  have sane: "?ts \<noteq> []" "?us \<noteq> []" "distinct (block_txids c b)" "distinct (block_txids c b')"
    and root: "merkle_loop c (block_txids c b) = merkle_loop c (block_txids c b')"
    using assms(4,5) header by (auto simp: block_check_sanity_iff merkle_root_def split: if_splits)
  have bodies: "map body_bytes ?ts = map body_bytes ?us"
  proof (rule merkle_leaves_bind [OF assms(1)])
    show "map body_bytes ?ts \<noteq> []" "map body_bytes ?us \<noteq> []"
      using sane by simp_all
    show "\<forall>p \<in> set (map body_bytes ?ts) \<union> set (map body_bytes ?us). length p \<noteq> 64"
      using ok length_body_bytes by fastforce
    show "distinct (map (hash256 c) (map body_bytes ?ts))" "distinct (map (hash256 c) (map body_bytes ?us))"
      "merkle_loop c (map (hash256 c) (map body_bytes ?ts)) = merkle_loop c (map (hash256 c) (map body_bytes ?us))"
      using sane root unfolding ids by blast+
    show "inj_on (hash256 c) (set (map body_bytes ?ts) \<union> set (map body_bytes ?us) \<union>
        set (merkle_strings c (map (hash256 c) (map body_bytes ?ts))) \<union>
        set (merkle_strings c (map (hash256 c) (map body_bytes ?us))))"
      unfolding ids [symmetric] by (rule inj_on_subset [OF inj]) (auto simp: block_strings_def)
  qed
  have "map strip_witness ?ts = map strip_witness ?us"
    using bodies ok by (rule bodies_strip)
  with header show "bk_header b = bk_header b' \<and> map strip_witness ?ts = map strip_witness ?us" by simp
qed

section \<open>Witnesses\<close>

definition demo_coinbase :: transaction where
  "demo_coinbase = \<lparr>tx_version = 1,
     tx_inputs = [\<lparr>in_prevout = COINBASE_OUTPOINT, in_sequence = SEQUENCE_FINAL, in_witness = []\<rparr>],
     tx_outputs = [\<lparr>out_type = OUTPUT_P2PKH, out_value = 5000, out_payload = replicate 20 1\<rparr>],
     tx_lock_time = 0, tx_coinbase_data = [1, 0, 0, 0]\<rparr>"

definition demo_block :: block where
  "demo_block = \<lparr>bk_header = \<lparr>bh_version = 1, bh_prev_hash = replicate 32 3,
       bh_merkle_root = txid demo_crypto demo_coinbase, bh_timestamp = 7, bh_bits = 0x1d00ffff, bh_nonce = 0\<rparr>,
     bk_transactions = [demo_coinbase], bk_auxpow = None\<rparr>"

lemma demo_coinbase_ok: "tx_ok demo_coinbase" "is_coinbase demo_coinbase"
  "tx_check_sanity 1 demo_coinbase = Inr ()"
  by (simp_all add: demo_coinbase_def tx_ok_def wf_tx_defs stack_ok_def tx_constants fits_def is_coinbase_def
      is_null_def COINBASE_OUTPOINT_def tx_check_sanity_def total_output_def)

lemma demo_block_ok: "block_ok demo_block"
  using demo_coinbase_ok(1)
  by (simp add: block_ok_def demo_block_def wf_block_header_def fits_def txid_def)

lemma demo_block_sane:
  "block_check_sanity demo_crypto (2 ^ 224) (block_size demo_block) 1 False demo_block = Inr ()"
proof -
  have "header_check_proof_of_work demo_crypto (2 ^ 224) (bk_header demo_block) = Inr True"
    using from_le_demo_hash [of "written (header_serialize (bk_header demo_block))"] demo_target
    by (simp add: header_check_proof_of_work_def check_proof_of_work_iff header_hash_def demo_block_def)
  then show ?thesis
    using demo_coinbase_ok
    by (simp add: block_check_sanity_iff demo_block_def block_txids_def merkle_root_def merkle_loop.simps)
qed

theorem block_hash_commits_witness:
  "block_ok demo_block \<and>
   block_check_sanity demo_crypto (2 ^ 224) (block_size demo_block) 1 False demo_block = Inr () \<and>
   (bk_header demo_block = bk_header demo_block \<and>
     map strip_witness (bk_transactions demo_block) = map strip_witness (bk_transactions demo_block) \<or>
    colliding demo_crypto
     (set (block_strings demo_crypto demo_block) \<union> set (block_strings demo_crypto demo_block)))"
  using block_hash_commits [OF demo_crypto_ok demo_block_ok demo_block_ok demo_block_sane
      demo_block_sane refl] demo_block_ok demo_block_sane by blast

end
