(* ===== verification/Coinbase.thy ===== *)
theory Coinbase
  imports Transaction
begin

text \<open>
  \<^verbatim>\<open>core/coinbase.py\<close>: the coinbase transaction and the height it commits to.
\<close>

definition HEIGHT_PREFIX_SIZE :: nat where
  "HEIGHT_PREFIX_SIZE = 4"

definition encode_coinbase_data :: "int \<Rightarrow> bytes \<Rightarrow> bytes result" where
  "encode_coinbase_data height extra =
     (if \<not> (0 \<le> height \<and> height \<le> 0xFFFFFFFF) then Inl (TransactionError ''block height out of range'')
      else
        let data = to_le HEIGHT_PREFIX_SIZE height @ extra in
        if int (length data) > MAX_COINBASE_DATA
        then Inl (TransactionError ''coinbase data is over the limit'')
        else Inr data)"

definition coinbase_height :: "transaction \<Rightarrow> int result" where
  "coinbase_height t =
     (if \<not> is_coinbase t then Inl (TransactionError ''transaction is not a coinbase'')
      else if length (tx_coinbase_data t) < HEIGHT_PREFIX_SIZE
      then Inl (TransactionError ''coinbase data does not start with a block height'')
      else Inr (from_le (take HEIGHT_PREFIX_SIZE (tx_coinbase_data t))))"

definition build_coinbase :: "int \<Rightarrow> int \<Rightarrow> bytes \<Rightarrow> bytes \<Rightarrow> int \<Rightarrow> transaction result" where
  "build_coinbase height reward pubkey_hash extra lock_time =
     bnd (mk_txinput COINBASE_OUTPOINT SEQUENCE_FINAL []) (\<lambda>ti.
     bnd (txoutput_p2pkh reward pubkey_hash) (\<lambda>to.
     bnd (encode_coinbase_data height extra) (\<lambda>data.
     mk_transaction 1 [ti] [to] lock_time data)))"

lemma encode_coinbase_data_iff:
  "encode_coinbase_data height extra = Inr d \<longleftrightarrow>
     fits 4 height \<and> length extra \<le> 96 \<and> d = to_le 4 height @ extra"
  by (auto simp: encode_coinbase_data_def fits_4_iff HEIGHT_PREFIX_SIZE_def MAX_COINBASE_DATA_def Let_def)

lemma build_coinbase_iff:
  "build_coinbase height reward h extra lock = Inr t \<longleftrightarrow>
     fits 4 height \<and> length extra \<le> 96 \<and> fits 4 lock \<and> 0 \<le> reward \<and> reward \<le> MAX_MONEY \<and> length h = 20 \<and>
     t = \<lparr>tx_version = 1, tx_inputs = [\<lparr>in_prevout = COINBASE_OUTPOINT, in_sequence = SEQUENCE_FINAL, in_witness = []\<rparr>],
          tx_outputs = [\<lparr>out_type = OUTPUT_P2PKH, out_value = reward, out_payload = h\<rparr>],
          tx_lock_time = lock, tx_coinbase_data = to_le 4 height @ extra\<rparr>"
  by (auto simp: build_coinbase_def txoutput_p2pkh_def result_simps encode_coinbase_data_iff wf_txoutput_def
      PUBKEY_HASH_LENGTH_def fits_def SEQUENCE_FINAL_def)

lemma built_coinbase:
  assumes "build_coinbase height reward h extra lock = Inr t"
  shows "tx_ok t" "is_coinbase t" "coinbase_height t = Inr height" "total_output t = reward"
    and "m \<le> reward \<Longrightarrow> tx_check_sanity m t = Inr ()"
  using assms
  by (auto simp: build_coinbase_iff tx_ok_def wf_tx_defs stack_ok_def tx_constants COINBASE_OUTPOINT_def
      is_coinbase_def is_null_def coinbase_height_def HEIGHT_PREFIX_SIZE_def total_output_def
      tx_check_sanity_def fits_def)

section \<open>Properties\<close>

text \<open>
  A coinbase that \<open>build_coinbase\<close> builds is one: it passes the structural checks whenever the
  reward is not below the minimum output, mints exactly the reward, and commits to the height it
  was built for.
\<close>
theorem build_coinbase_correct:
  assumes "build_coinbase height reward h extra lock = Inr t" and "m \<le> reward"
  shows "tx_ok t \<and> tx_check_sanity m t = Inr () \<and> is_coinbase t \<and> total_output t = reward \<and>
    coinbase_height t = Inr height"
  using built_coinbase [OF assms(1)] assms(2) by simp

section \<open>Witnesses\<close>

theorem build_coinbase_correct_witness:
  "\<exists>t. build_coinbase 258 5000 (replicate 20 1) [7] 0 = Inr t \<and> total_output t = 5000 \<and>
     coinbase_height t = Inr 258"
proof -
  obtain t where "build_coinbase 258 5000 (replicate 20 1) [7] 0 = Inr t"
    by (auto simp: build_coinbase_iff fits_def MAX_MONEY_def)
  then show ?thesis
    using build_coinbase_correct [of 258 5000 "replicate 20 1" "[7]" 0 t 1] by auto
qed

end
