(* ===== verification/Params.thy ===== *)
theory Params
  imports Block Coinbase
begin

text \<open>
  \<^verbatim>\<open>core/params.py\<close>: the parameters of a network, the subsidy schedule and the genesis block, with
  the three networks. A \<^verbatim>\<open>cached_property\<close> is a function of the record. Checkpoints are pairs of a
  height and a block hash in display order.
\<close>

unbundle bit_operations_syntax

definition COIN :: int where
  "COIN = 100000000"

definition UNSPENDABLE_HASH :: bytes where
  "UNSPENDABLE_HASH = replicate 20 0"

record chain_params =
  pm_name :: string
  pm_magic :: bytes
  pm_address_version :: int
  pm_wif_version :: int
  pm_script_address_version :: int
  pm_default_p2p_port :: int
  pm_default_rpc_port :: int
  pm_target_spacing :: int
  pm_retarget_interval :: int
  pm_pow_limit_bits :: int
  pm_max_adjustment_factor :: int
  pm_per_block_retarget :: bool
  pm_retarget_fork_height :: int
  pm_retarget_measure_fork_height :: int
  pm_initial_subsidy :: int
  pm_halving_interval :: int
  pm_coinbase_maturity :: int
  pm_max_block_size :: int
  pm_max_future_time :: int
  pm_median_time_blocks :: int
  pm_min_relay_fee_per_kb :: int
  pm_min_output_value :: int
  pm_bip44_coin_type :: int
  pm_auxpow_chain_id :: int
  pm_auxpow_activation_height :: "int option"
  pm_checkpoints :: "(int \<times> string) list"
  pm_genesis_timestamp :: int
  pm_genesis_bits :: int
  pm_genesis_nonce :: int
  pm_genesis_message :: bytes
  pm_seeds :: "string list"
  pm_public_nodes :: "string list"

section \<open>Derived values\<close>

definition pow_limit :: "chain_params \<Rightarrow> int result" where
  "pow_limit p = bits_to_target (pm_pow_limit_bits p)"

definition target_timespan :: "chain_params \<Rightarrow> int" where
  "target_timespan p = pm_target_spacing p * pm_retarget_interval p"

definition subsidy :: "chain_params \<Rightarrow> int \<Rightarrow> int result" where
  "subsidy p height =
     (if height < 0 then Inl (ValueError ''block height must not be negative'')
      else if pm_halving_interval p = 0 then Inl ZeroDivisionError
      else
        let halvings = height div pm_halving_interval p in
        if halvings \<ge> 64 then Inr 0
        else if halvings < 0 then Inl (ValueError ''negative shift count'')
        else Inr (drop_bit (nat halvings) (pm_initial_subsidy p)))"

definition genesis_coinbase :: "chain_params \<Rightarrow> transaction result" where
  "genesis_coinbase p = bnd (subsidy p 0) (\<lambda>reward.
     build_coinbase 0 reward UNSPENDABLE_HASH (pm_genesis_message p) 0)"

definition genesis_block :: "crypto \<Rightarrow> chain_params \<Rightarrow> block result" where
  "genesis_block c p = bnd (genesis_coinbase p) (\<lambda>t.
     block_create c 0 (replicate 32 0) [t] (pm_genesis_bits p) (Some (pm_genesis_timestamp p)) 1
       (pm_genesis_nonce p) None)"

definition genesis_hash :: "crypto \<Rightarrow> chain_params \<Rightarrow> bytes result" where
  "genesis_hash c p = bnd (genesis_block c p) (\<lambda>b. Inr (block_hash c b))"

section \<open>The networks\<close>

definition GENESIS_MESSAGE :: bytes where
  "GENESIS_MESSAGE = map (of_char :: char \<Rightarrow> byte) ''ScarletCoin: a small chain, honestly built''"

definition MAINNET :: chain_params where
  "MAINNET = \<lparr>
     pm_name = ''mainnet'', pm_magic = map of_char ''SCRL'',
     pm_address_version = 63, pm_wif_version = 191, pm_script_address_version = 50,
     pm_default_p2p_port = 20333, pm_default_rpc_port = 20332,
     pm_target_spacing = 60, pm_retarget_interval = 60, pm_pow_limit_bits = 0x1E0FFFFF,
     pm_max_adjustment_factor = 4, pm_per_block_retarget = True,
     pm_retarget_fork_height = 10496, pm_retarget_measure_fork_height = 10563,
     pm_initial_subsidy = 50 * COIN, pm_halving_interval = 210000, pm_coinbase_maturity = 100,
     pm_max_block_size = 1000000, pm_max_future_time = 7200, pm_median_time_blocks = 11,
     pm_min_relay_fee_per_kb = 1000, pm_min_output_value = 1, pm_bip44_coin_type = 0,
     pm_auxpow_chain_id = 1, pm_auxpow_activation_height = Some 47000, pm_checkpoints = [],
     pm_genesis_timestamp = 1700000000, pm_genesis_bits = 0x1E0FFFFF, pm_genesis_nonce = 816317,
     pm_genesis_message = GENESIS_MESSAGE,
     pm_seeds = [''scarletcoin.remotewire.net'', ''45.126.126.139''],
     pm_public_nodes = [''https://scarletcoin.remotewire.net'']\<rparr>"

definition TESTNET :: chain_params where
  "TESTNET = \<lparr>
     pm_name = ''testnet'', pm_magic = map of_char ''SCRT'',
     pm_address_version = 127, pm_wif_version = 239, pm_script_address_version = 65,
     pm_default_p2p_port = 30333, pm_default_rpc_port = 30332,
     pm_target_spacing = 60, pm_retarget_interval = 60, pm_pow_limit_bits = 0x1E0FFFFF,
     pm_max_adjustment_factor = 4, pm_per_block_retarget = True,
     pm_retarget_fork_height = 0, pm_retarget_measure_fork_height = 0,
     pm_initial_subsidy = 50 * COIN, pm_halving_interval = 210000, pm_coinbase_maturity = 20,
     pm_max_block_size = 1000000, pm_max_future_time = 7200, pm_median_time_blocks = 11,
     pm_min_relay_fee_per_kb = 1000, pm_min_output_value = 1, pm_bip44_coin_type = 1,
     pm_auxpow_chain_id = 2, pm_auxpow_activation_height = None, pm_checkpoints = [],
     pm_genesis_timestamp = 1700000001, pm_genesis_bits = 0x1E0FFFFF, pm_genesis_nonce = 154650,
     pm_genesis_message = GENESIS_MESSAGE @ map of_char '' (testnet)'',
     pm_seeds = [], pm_public_nodes = []\<rparr>"

definition REGTEST :: chain_params where
  "REGTEST = \<lparr>
     pm_name = ''regtest'', pm_magic = map of_char ''SCRR'',
     pm_address_version = 127, pm_wif_version = 239, pm_script_address_version = 65,
     pm_default_p2p_port = 40333, pm_default_rpc_port = 40332,
     pm_target_spacing = 10, pm_retarget_interval = 20, pm_pow_limit_bits = 0x207FFFFF,
     pm_max_adjustment_factor = 4, pm_per_block_retarget = False,
     pm_retarget_fork_height = 0, pm_retarget_measure_fork_height = 0,
     pm_initial_subsidy = 50 * COIN, pm_halving_interval = 210000, pm_coinbase_maturity = 2,
     pm_max_block_size = 1000000, pm_max_future_time = 7200, pm_median_time_blocks = 11,
     pm_min_relay_fee_per_kb = 1000, pm_min_output_value = 1, pm_bip44_coin_type = 1,
     pm_auxpow_chain_id = 3, pm_auxpow_activation_height = Some 0, pm_checkpoints = [],
     pm_genesis_timestamp = 1700000002, pm_genesis_bits = 0x207FFFFF, pm_genesis_nonce = 5,
     pm_genesis_message = GENESIS_MESSAGE @ map of_char '' (regtest)'',
     pm_seeds = [], pm_public_nodes = []\<rparr>"

definition NETWORKS :: "(string \<times> chain_params) list" where
  "NETWORKS = [(pm_name MAINNET, MAINNET), (pm_name TESTNET, TESTNET), (pm_name REGTEST, REGTEST)]"

definition network_names :: "string list" where
  "network_names = map fst NETWORKS"

definition get_params :: "string \<Rightarrow> chain_params result" where
  "get_params name = (case map_of NETWORKS name of None \<Rightarrow> Inl KeyError | Some p \<Rightarrow> Inr p)"

section \<open>Lemmas\<close>

text \<open>What the chain relies on: a proper schedule and a usable proof-of-work limit.\<close>

definition params_ok :: "chain_params \<Rightarrow> bool" where
  "params_ok p \<longleftrightarrow> 0 < pm_halving_interval p \<and> 0 \<le> pm_initial_subsidy p \<and>
     2 * pm_halving_interval p * pm_initial_subsidy p \<le> MAX_MONEY \<and>
     0 < pm_target_spacing p \<and> 0 < pm_retarget_interval p \<and> 1 \<le> pm_max_adjustment_factor p \<and>
     (\<exists>l. pow_limit p = Inr l \<and> 0 < l) \<and> 0 \<le> pm_min_output_value p"

lemma network_limits:
  "pow_limit MAINNET = Inr (0x0FFFFF * 256 ^ 27)" "pow_limit TESTNET = Inr (0x0FFFFF * 256 ^ 27)"
  "pow_limit REGTEST = Inr (0x7FFFFF * 256 ^ 29)"
  using bits_to_target_compact [of "0x0FFFFF" 30] bits_to_target_compact [of "0x7FFFFF" 32]
  by (simp_all add: pow_limit_def MAINNET_def TESTNET_def REGTEST_def compact_value_def)

lemma networks_ok: "params_ok MAINNET" "params_ok TESTNET" "params_ok REGTEST"
  using network_limits by (simp_all add: params_ok_def MAX_MONEY_def)
    (simp_all add: MAINNET_def TESTNET_def REGTEST_def COIN_def)

definition subsidy_at :: "chain_params \<Rightarrow> nat \<Rightarrow> int" where
  "subsidy_at p h = (let k = h div nat (pm_halving_interval p) in
     if k \<ge> 64 then 0 else pm_initial_subsidy p div 2 ^ k)"

lemma subsidy_eq:
  assumes "0 < pm_halving_interval p"
  shows "subsidy p (int h) = Inr (subsidy_at p h)"
proof -
  have k: "nat (int h div pm_halving_interval p) = h div nat (pm_halving_interval p)"
    using assms by (simp add: nat_div_distrib)
  have "0 \<le> int h div pm_halving_interval p"
    using assms by (simp add: pos_imp_zdiv_nonneg_iff)
  then show ?thesis
    using assms k by (auto simp: subsidy_def subsidy_at_def Let_def drop_bit_eq_div nat_le_iff)
qed

lemma subsidy_at_nonneg: "0 \<le> pm_initial_subsidy p \<Longrightarrow> 0 \<le> subsidy_at p h"
  by (simp add: subsidy_at_def Let_def pos_imp_zdiv_nonneg_iff)

text \<open>All heights below a bound, grouped by halving period.\<close>

definition total_subsidy :: "chain_params \<Rightarrow> nat \<Rightarrow> int" where
  "total_subsidy p n = (\<Sum>h < n. subsidy_at p h)"

lemma total_subsidy_Suc: "total_subsidy p (Suc n) = total_subsidy p n + subsidy_at p n"
  by (simp add: total_subsidy_def)

lemma total_subsidy_periods:
  assumes "0 < pm_halving_interval p"
  shows "total_subsidy p (m * nat (pm_halving_interval p)) =
    pm_halving_interval p * (\<Sum>k < m. if k \<ge> 64 then 0 else pm_initial_subsidy p div 2 ^ k)"
proof (induction m)
  case 0
  then show ?case by (simp add: total_subsidy_def)
next
  case (Suc m)
  let ?I = "nat (pm_halving_interval p)"
  have I: "0 < ?I" using assms by simp
  have "subsidy_at p h = (if m \<ge> 64 then 0 else pm_initial_subsidy p div 2 ^ m)"
    if "h \<in> {m * ?I..<m * ?I + ?I}" for h
  proof -
    have "h div ?I = m" using that I by (intro div_nat_eqI) (auto simp: mult.commute)
    then show ?thesis by (simp add: subsidy_at_def)
  qed
  then have "(\<Sum>h \<in> {m * ?I..<m * ?I + ?I}. subsidy_at p h) =
      pm_halving_interval p * (if m \<ge> 64 then 0 else pm_initial_subsidy p div 2 ^ m)"
    using assms by simp
  moreover have "total_subsidy p (Suc m * ?I) = total_subsidy p (m * ?I) +
      (\<Sum>h \<in> {m * ?I..<m * ?I + ?I}. subsidy_at p h)"
    by (simp add: total_subsidy_def lessThan_atLeast0 sum.atLeastLessThan_concat add.commute)
  ultimately show ?case
    using Suc by (simp add: algebra_simps)
qed

lemma total_subsidy_mono:
  assumes "0 \<le> pm_initial_subsidy p" "m \<le> n"
  shows "total_subsidy p m \<le> total_subsidy p n"
  unfolding total_subsidy_def using assms by (intro sum_mono2) (auto simp: subsidy_at_nonneg)

lemma halvings_bound:
  assumes "0 \<le> (S :: int)"
  shows "(\<Sum>k < m. if k \<ge> 64 then 0 else S div 2 ^ k) \<le> 2 * S - 2 * (S div 2 ^ m)"
proof (induction m)
  case 0
  then show ?case by simp
next
  case (Suc m)
  define a where "a = S div 2 ^ m"
  have "0 \<le> a" using assms by (simp add: a_def pos_imp_zdiv_nonneg_iff)
  moreover have "S div 2 ^ Suc m = a div 2"
    using zdiv_zmult2_eq [of 2 S "2 ^ m"] by (simp add: a_def mult.commute)
  moreover have "2 * (a div 2) \<le> a" by presburger
  moreover define s where "s = (\<Sum>k < m. if k \<ge> 64 then 0 else S div 2 ^ k)"
  moreover have "(\<Sum>k < Suc m. if k \<ge> 64 then 0 else S div 2 ^ k) =
      s + (if m \<ge> 64 then 0 else a)"
    by (simp only: sum.lessThan_Suc a_def s_def)
  ultimately show ?case
    using Suc unfolding a_def [symmetric] s_def [symmetric] by (cases "m \<ge> 64") simp_all
qed

lemma total_subsidy_bound:
  assumes "0 < pm_halving_interval p" "0 \<le> pm_initial_subsidy p"
  shows "total_subsidy p n \<le> 2 * pm_halving_interval p * pm_initial_subsidy p"
proof -
  let ?I = "pm_halving_interval p" and ?S = "pm_initial_subsidy p"
  have "n \<le> n * nat ?I" using assms(1) by (simp add: Suc_le_eq)
  then have "total_subsidy p n \<le> total_subsidy p (n * nat ?I)"
    by (rule total_subsidy_mono [OF assms(2)])
  also have "\<dots> = ?I * (\<Sum>k < n. if k \<ge> 64 then 0 else ?S div 2 ^ k)"
    by (rule total_subsidy_periods [OF assms(1)])
  also have "\<dots> \<le> ?I * (2 * ?S)"
  proof (rule mult_left_mono)
    have "0 \<le> ?S div 2 ^ n" using assms(2) by (simp add: pos_imp_zdiv_nonneg_iff)
    then show "(\<Sum>k < n. if k \<ge> 64 then 0 else ?S div 2 ^ k) \<le> 2 * ?S"
      using halvings_bound [OF assms(2), of n] by linarith
  qed (use assms(1) in simp)
  finally show ?thesis by simp
qed

lemma total_subsidy_max_money: "params_ok p \<Longrightarrow> total_subsidy p n \<le> MAX_MONEY"
  using total_subsidy_bound [of p n] by (auto simp: params_ok_def)

lemma subsidy_at_antitone:
  assumes "0 \<le> pm_initial_subsidy p"
  shows "subsidy_at p (Suc h) \<le> subsidy_at p h"
proof -
  let ?I = "nat (pm_halving_interval p)"
  have "h div ?I \<le> Suc h div ?I" by (rule div_le_mono) simp
  then have "(2 :: int) ^ (h div ?I) \<le> 2 ^ (Suc h div ?I)" by (intro power_increasing) auto
  then have "pm_initial_subsidy p div 2 ^ (Suc h div ?I) \<le> pm_initial_subsidy p div 2 ^ (h div ?I)"
    using assms by (intro zdiv_mono2) auto
  moreover have "0 \<le> pm_initial_subsidy p div 2 ^ (h div ?I)"
    using assms by (simp add: pos_imp_zdiv_nonneg_iff)
  moreover have "64 \<le> Suc h div ?I" if "64 \<le> h div ?I"
    using that \<open>h div ?I \<le> Suc h div ?I\<close> by (rule order_trans)
  ultimately show ?thesis
    by (auto simp: subsidy_at_def Let_def)
qed

lemma mainnet_halvings: "(\<Sum>k < 33. if k \<ge> 64 then 0 else (5000000000 :: int) div 2 ^ k) = 9999999989"
  by code_simp

lemma mainnet_values: "pm_halving_interval MAINNET = 210000" "pm_initial_subsidy MAINNET = 5000000000"
  by (simp_all add: MAINNET_def COIN_def)

lemma mainnet_total: "total_subsidy MAINNET 6930000 = 2099999997690000"
  using total_subsidy_periods [of MAINNET 33] mainnet_halvings by (simp add: mainnet_values)

lemma mainnet_exhausted: "6930000 \<le> h \<Longrightarrow> subsidy_at MAINNET h = 0"
proof -
  assume "6930000 \<le> h"
  then have "33 \<le> h div 210000" by (simp add: less_eq_div_iff_mult_less_eq)
  then have "(2 :: int) ^ 33 \<le> 2 ^ (h div 210000)" by (rule power_increasing) simp
  then have "(5000000000 :: int) < 2 ^ (h div 210000)" by simp
  then show ?thesis by (simp add: subsidy_at_def mainnet_values Let_def)
qed

lemma mainnet_bound: "total_subsidy MAINNET n \<le> 2099999997690000"
proof -
  have "total_subsidy MAINNET (6930000 + k) = 2099999997690000" for k
  proof (induction k)
    case 0
    then show ?case by (simp add: mainnet_total)
  next
    case (Suc k)
    then show ?case
      using total_subsidy_Suc [of MAINNET "6930000 + k"] mainnet_exhausted [of "6930000 + k"] by simp
  qed
  moreover have "total_subsidy MAINNET n \<le> total_subsidy MAINNET (6930000 + n)"
    by (rule total_subsidy_mono) (simp_all add: mainnet_values)
  ultimately show ?thesis by simp
qed

section \<open>Properties\<close>

text \<open>
  C36. The subsidy schedule of the main network is bounded: every height has a subsidy, it never
  grows, all subsidies together never exceed 20,999,999.9769 coins, that sum is reached after 33
  halvings, and it is below the maximum money supply.
\<close>
theorem mainnet_supply:
  "\<exists>f. (\<forall>h. subsidy MAINNET (int h) = Inr (f h) \<and> 0 \<le> f h \<and> f (Suc h) \<le> f h) \<and>
     (\<forall>n. sum f {..<n} \<le> 2099999997690000) \<and> sum f {..<6930000} = 2099999997690000 \<and>
     2099999997690000 < MAX_MONEY"
proof (intro exI conjI allI)
  fix h :: nat and n :: nat
  show "subsidy MAINNET (int h) = Inr (subsidy_at MAINNET h)"
    by (rule subsidy_eq) (simp add: mainnet_values)
  show "0 \<le> subsidy_at MAINNET h" "subsidy_at MAINNET (Suc h) \<le> subsidy_at MAINNET h"
    by (simp_all add: subsidy_at_nonneg subsidy_at_antitone mainnet_values)
  show "sum (subsidy_at MAINNET) {..<n} \<le> 2099999997690000"
    using mainnet_bound [of n] by (simp add: total_subsidy_def)
  show "sum (subsidy_at MAINNET) {..<6930000} = 2099999997690000"
    using mainnet_total by (simp add: total_subsidy_def)
qed (simp add: MAX_MONEY_def)

end
