(* ===== verification/Utxo.thy ===== *)
theory Utxo
  imports Transaction
begin

text \<open>
  \<^verbatim>\<open>core/utxo.py\<close>: coins, their encoding in undo records, and the overlay on which blocks and
  mempool transactions are tried out.

  A \<open>CoinView\<close> is the function its only method is. The overlay keeps the source's three fields; its
  set of spent outpoints is a list without repetitions, because the chain iterates over it. The
  locale \<open>coin_store\<close> is the contract of every mutable coin set, the overlay here and the database
  table in \<open>Storage\<close>.
\<close>

section \<open>Coins\<close>

record coin =
  co_value :: int
  co_output_type :: int
  co_payload :: bytes
  co_height :: int
  co_is_coinbase :: bool

definition coin_is_p2sh :: "coin \<Rightarrow> bool" where
  "coin_is_p2sh k \<longleftrightarrow> co_output_type k = OUTPUT_P2SH"

definition coin_serialize :: "coin \<Rightarrow> bytes result" where
  "coin_serialize k =
     bnd (w_uint64 (co_value k) []) (\<lambda>w.
     bnd (w_uint8 (co_output_type k) w) (\<lambda>w.
     bnd (w_raw (co_payload k) w) (\<lambda>w.
     bnd (w_uint32 (co_height k) w) (w_uint8 (if co_is_coinbase k then 1 else 0)))))"

definition coin_read :: "reader \<Rightarrow> (coin \<times> reader) result" where
  "coin_read s =
     bnd (r_uint64 s) (\<lambda>(v, s).
     bnd (r_uint8 s) (\<lambda>(ty, s).
     bnd (r_raw 20 s) (\<lambda>(p, s).
     bnd (r_uint32 s) (\<lambda>(h, s).
     bnd (r_uint8 s) (\<lambda>(cb, s).
     Inr (\<lparr>co_value = v, co_output_type = ty, co_payload = p, co_height = h,
           co_is_coinbase = (cb \<noteq> 0)\<rparr>, s))))))"

definition is_spendable_at :: "int \<Rightarrow> int \<Rightarrow> coin \<Rightarrow> bool" where
  "is_spendable_at height maturity k =
     (if \<not> co_is_coinbase k then True else height - co_height k \<ge> maturity)"

section \<open>The overlay\<close>

type_synonym coin_view = "outpoint \<Rightarrow> coin option"

record overlay =
  ov_base :: coin_view
  ov_added :: "(outpoint \<times> coin) list"
  ov_spent :: "outpoint list"

definition mk_overlay :: "coin_view \<Rightarrow> overlay" where
  "mk_overlay base = \<lparr>ov_base = base, ov_added = [], ov_spent = []\<rparr>"

definition ov_get_coin :: "overlay \<Rightarrow> coin_view" where
  "ov_get_coin ov op =
     (if op \<in> set (ov_spent ov) then None
      else case map_of (ov_added ov) op of Some k \<Rightarrow> Some k | None \<Rightarrow> ov_base ov op)"

definition ov_forget :: "outpoint \<Rightarrow> overlay \<Rightarrow> overlay" where
  "ov_forget op ov =
     ov\<lparr>ov_added := AList.delete op (ov_added ov), ov_spent := List.insert op (ov_spent ov)\<rparr>"

definition ov_spend :: "outpoint \<Rightarrow> overlay \<Rightarrow> (coin \<times> overlay) result" where
  "ov_spend op ov =
     (case ov_get_coin ov op of None \<Rightarrow> Inl KeyError | Some k \<Rightarrow> Inr (k, ov_forget op ov))"

definition ov_add :: "outpoint \<Rightarrow> coin \<Rightarrow> overlay \<Rightarrow> overlay" where
  "ov_add op k ov =
     ov\<lparr>ov_spent := removeAll op (ov_spent ov), ov_added := AList.update op k (ov_added ov)\<rparr>"

text \<open>\<^verbatim>\<open>enumerate(transaction.outputs)\<close> as the coins the transaction creates, under their outpoints.\<close>

definition output_coin :: "bool \<Rightarrow> int \<Rightarrow> txoutput \<Rightarrow> coin" where
  "output_coin cb height to = \<lparr>co_value = out_value to, co_output_type = out_type to,
     co_payload = out_payload to, co_height = height, co_is_coinbase = cb\<rparr>"

definition tx_outpoints :: "crypto \<Rightarrow> transaction \<Rightarrow> outpoint list" where
  "tx_outpoints c t =
     map (\<lambda>i. \<lparr>op_txid = txid c t, op_index = int i\<rparr>) [0..<length (tx_outputs t)]"

definition created_coins :: "crypto \<Rightarrow> int \<Rightarrow> transaction \<Rightarrow> (outpoint \<times> coin) list" where
  "created_coins c height t =
     zip (tx_outpoints c t) (map (output_coin (is_coinbase t) height) (tx_outputs t))"

definition ov_add_transaction :: "crypto \<Rightarrow> int \<Rightarrow> transaction \<Rightarrow> overlay \<Rightarrow> overlay" where
  "ov_add_transaction c height t ov = fold (\<lambda>(op, k). ov_add op k) (created_coins c height t) ov"

section \<open>The contract of a coin set\<close>

locale coin_store =
  fixes get :: "'s \<Rightarrow> coin_view"
    and add :: "outpoint \<Rightarrow> coin \<Rightarrow> 's \<Rightarrow> 's"
    and remove :: "outpoint \<Rightarrow> 's \<Rightarrow> 's"
  assumes get_add: "get (add op k s) = (get s)(op \<mapsto> k)"
    and get_remove: "get (remove op s) = (get s)(op := None)"
begin

lemma get_add_all: "get (fold (\<lambda>(op, k). add op k) kvs s) = get s ++ map_of (rev kvs)"
proof (induction kvs arbitrary: s)
  case (Cons kv kvs)
  then show ?case by (cases kv) (auto simp: get_add map_add_def fun_eq_iff split: option.splits)
qed simp

lemma get_remove_all: "get (fold remove ops s) = (get s) |` (- set ops)"
proof (induction ops arbitrary: s)
  case (Cons op ops)
  then show ?case by (auto simp: get_remove restrict_map_def fun_eq_iff)
qed (simp add: restrict_map_def)

text \<open>Removing some coins and adding others.\<close>

lemma get_replace_all:
  "get (fold (\<lambda>(op, k). add op k) kvs (fold remove ops s)) =
     (get s |` (- set ops)) ++ map_of (rev kvs)"
  by (simp add: get_add_all get_remove_all)

end

interpretation ovs: coin_store ov_get_coin ov_add ov_forget
  by unfold_locales
    (auto simp: ov_get_coin_def ov_add_def ov_forget_def fun_eq_iff split: option.splits)

lemma ov_spend_iff:
  "ov_spend op ov = Inr (k, ov') \<longleftrightarrow> ov_get_coin ov op = Some k \<and> ov' = ov_forget op ov"
  by (auto simp: ov_spend_def split: option.splits)

lemma ov_get_mk [simp]: "ov_get_coin (mk_overlay base) = base"
  by (simp add: ov_get_coin_def mk_overlay_def fun_eq_iff)

section \<open>The invariant of an overlay\<close>

definition overlay_ok :: "overlay \<Rightarrow> bool" where
  "overlay_ok ov \<longleftrightarrow> keys_distinct (ov_added ov) \<and> distinct (ov_spent ov) \<and>
     set (ov_spent ov) \<inter> fst ` set (ov_added ov) = {}"

lemma overlay_ok_mk [simp]: "overlay_ok (mk_overlay base)"
  by (simp add: overlay_ok_def mk_overlay_def)

lemma overlay_ok_add: "overlay_ok ov \<Longrightarrow> overlay_ok (ov_add op k ov)"
  by (auto simp: overlay_ok_def ov_add_def distinct_removeAll dom_update)

lemma overlay_ok_forget: "overlay_ok ov \<Longrightarrow> overlay_ok (ov_forget op ov)"
proof -
  assume ok: "overlay_ok ov"
  then have "set (List.insert op (ov_spent ov)) \<inter> fst ` set (AList.delete op (ov_added ov)) = {}"
    by (auto simp: overlay_ok_def AList.delete_eq)
  with ok show ?thesis by (simp add: overlay_ok_def ov_forget_def)
qed

lemma overlay_ok_add_all: "overlay_ok ov \<Longrightarrow> overlay_ok (fold (\<lambda>(op, k). ov_add op k) kvs ov)"
  by (induction kvs arbitrary: ov) (auto simp: overlay_ok_add)

lemma ov_base_simps [simp]:
  "ov_base (ov_add op k ov) = ov_base ov" "ov_base (ov_forget op ov) = ov_base ov"
  "ov_base (mk_overlay b) = b"
  by (simp_all add: ov_add_def ov_forget_def mk_overlay_def)

lemma ov_base_add_all [simp]: "ov_base (fold (\<lambda>(op, k). ov_add op k) kvs ov) = ov_base ov"
  by (induction kvs arbitrary: ov) auto

text \<open>
  What the overlay shows is what the base shows once the spent outpoints are taken away and the
  added coins are put in.
\<close>

lemma ov_get_flush:
  assumes "overlay_ok ov"
  shows "(ov_base ov |` (- set (ov_spent ov))) ++ map_of (ov_added ov) = ov_get_coin ov"
proof
  fix op
  have "op \<in> set (ov_spent ov) \<Longrightarrow> map_of (ov_added ov) op = None"
    using assms by (auto simp: overlay_ok_def map_of_eq_None_iff)
  then show "((ov_base ov |` (- set (ov_spent ov))) ++ map_of (ov_added ov)) op = ov_get_coin ov op"
    by (auto simp: ov_get_coin_def map_add_def restrict_map_def split: option.splits)
qed

section \<open>Coins created by a transaction\<close>

lemma map_fst_created [simp]: "map fst (created_coins c h t) = tx_outpoints c t"
  by (simp add: created_coins_def tx_outpoints_def)

lemma distinct_tx_outpoints [simp]: "distinct (tx_outpoints c t)"
  by (auto simp: tx_outpoints_def distinct_map inj_on_def)

lemma tx_outpoints_txid: "op \<in> set (tx_outpoints c t) \<Longrightarrow> op_txid op = txid c t"
  by (auto simp: tx_outpoints_def)

lemma sum_created: "sum_list (map (co_value \<circ> snd) (created_coins c h t)) = total_output t"
proof -
  have "map snd (created_coins c h t) = map (output_coin (is_coinbase t) h) (tx_outputs t)"
    by (simp add: created_coins_def tx_outpoints_def)
  then have "map (co_value \<circ> snd) (created_coins c h t) = map out_value (tx_outputs t)"
    unfolding map_map [symmetric] by (simp add: output_coin_def comp_def)
  then show ?thesis by (simp add: total_output_def)
qed

section \<open>Encoding\<close>

definition wf_coin :: "coin \<Rightarrow> bool" where
  "wf_coin k \<longleftrightarrow> fits 8 (co_value k) \<and> fits 1 (co_output_type k) \<and> length (co_payload k) = 20 \<and>
     fits 4 (co_height k)"

definition coin_bytes :: "coin \<Rightarrow> bytes" where
  "coin_bytes k = to_le 8 (co_value k) @ to_le 1 (co_output_type k) @ co_payload k @
     to_le 4 (co_height k) @ to_le 1 (if co_is_coinbase k then 1 else 0)"

lemma coin_serialize_wf: "wf_coin k \<Longrightarrow> coin_serialize k = Inr (coin_bytes k)"
  by (simp add: coin_serialize_def wf_coin_def coin_bytes_def bnd_eq_Inr w_uint_iffs w_raw_iff fits_def)

lemma coin_read_bytes: "wf_coin k \<Longrightarrow> coin_read (coin_bytes k @ s) = Inr (k, s)"
proof -
  assume wf: "wf_coin k"
  have "fits (Suc 0) (if co_is_coinbase k then 1 else 0)" by (simp add: fits_def)
  then have cb: "r_uint8 (to_le (Suc 0) (if co_is_coinbase k then 1 else 0) @ s) =
      Inr (if co_is_coinbase k then 1 else 0, s)"
    by (rule u8.dec_enc)
  have "r_raw 20 (co_payload k @ r) = Inr (co_payload k, r)" for r
    using wf by (simp add: r_raw_iff wf_coin_def)
  then show ?thesis
    using wf cb by (simp add: coin_read_def coin_bytes_def wf_coin_def u64.dec_enc u8.dec_enc u32.dec_enc)
qed

end
