(* ===== verification/Validation.thy ===== *)
theory Validation
  imports Script Params Utxo
begin

text \<open>
  \<^verbatim>\<open>core/validation.py\<close>: a transaction against a set of coins. \<open>inputs_loop\<close> is the loop over the
  inputs, from \<open>index\<close> on, with the running total; \<open>unlocks\<close> is the check of the coin's lock inside it.
\<close>

definition check_transaction_final :: "transaction \<Rightarrow> int \<Rightarrow> bool" where
  "check_transaction_final t height \<longleftrightarrow> tx_lock_time t = 0 \<or> tx_lock_time t \<le> height"

definition verify_p2sh :: "crypto \<Rightarrow> transaction \<Rightarrow> nat \<Rightarrow> int \<Rightarrow> signature_hasher \<Rightarrow> bool result" where
  "verify_p2sh c t index prevout_value hasher =
     (if \<not> index < length (tx_inputs t) then Inl IndexError
      else case in_witness (tx_inputs t ! index) of
        [] \<Rightarrow> Inr False
      | redeem_script # arguments \<Rightarrow>
          if length redeem_script > MAX_SCRIPT_SIZE then Inr False
          else
            bnd (hasher_digest c hasher (int index) prevout_value redeem_script) (\<lambda>digest.
            case evaluate_script c redeem_script arguments digest of
              Inl (ScriptError _) \<Rightarrow> Inr False
            | r \<Rightarrow> r))"

definition unlocks :: "crypto \<Rightarrow> transaction \<Rightarrow> signature_hasher option \<Rightarrow> nat \<Rightarrow> coin \<Rightarrow> bool result" where
  "unlocks c t hasher index k =
     (case hasher of
        None \<Rightarrow> Inr True
      | Some h \<Rightarrow>
          if co_output_type k = OUTPUT_P2PKH
          then verify_input_signature c t index (co_value k) (co_payload k) (Some h)
          else verify_p2sh c t index (co_value k) h)"

fun inputs_loop ::
    "crypto \<Rightarrow> transaction \<Rightarrow> coin_view \<Rightarrow> int \<Rightarrow> int \<Rightarrow> signature_hasher option \<Rightarrow>
     nat \<Rightarrow> txinput list \<Rightarrow> int \<Rightarrow> int result" where
  "inputs_loop c t view height maturity hasher index [] total_in = Inr total_in"
| "inputs_loop c t view height maturity hasher index (ti # tis) total_in =
     (case view (in_prevout ti) of
        None \<Rightarrow> Inl (MissingInputError ''input spends unknown output'')
      | Some k \<Rightarrow>
          if \<not> is_spendable_at height maturity k
          then Inl (ValidationError ''input spends an immature coinbase output'')
          else if co_output_type k \<noteq> OUTPUT_P2PKH \<and> co_output_type k \<noteq> OUTPUT_P2SH
          then Inl (ValidationError ''input has an unknown output type'')
          else
            bnd (unlocks c t hasher index k) (\<lambda>valid.
            if \<not> valid then Inl (ValidationError ''input has an invalid signature'')
            else if total_in + co_value k > MAX_MONEY
            then Inl (ValidationError ''input values sum to more than the maximum money supply'')
            else inputs_loop c t view height maturity hasher (index + 1) tis (total_in + co_value k)))"

definition check_transaction_inputs ::
    "crypto \<Rightarrow> transaction \<Rightarrow> coin_view \<Rightarrow> int \<Rightarrow> chain_params \<Rightarrow> bool \<Rightarrow> int result" where
  "check_transaction_inputs c t view height p verify_signatures =
     (if is_coinbase t
      then Inl (ValidationError ''check_transaction_inputs must not be used on a coinbase'')
      else
        bnd (if verify_signatures then bnd (mk_signature_hasher t) (\<lambda>h. Inr (Some h)) else Inr None) (\<lambda>hasher.
        bnd (inputs_loop c t view height (pm_coinbase_maturity p) hasher 0 (tx_inputs t) 0) (\<lambda>total_in.
        if total_in < total_output t
        then Inl (ValidationError ''transaction spends more than it provides'')
        else Inr (total_in - total_output t))))"

section \<open>What the loop accepts\<close>

definition input_ok ::
    "crypto \<Rightarrow> transaction \<Rightarrow> coin_view \<Rightarrow> int \<Rightarrow> int \<Rightarrow> signature_hasher option \<Rightarrow> nat \<Rightarrow> coin \<Rightarrow> txinput \<Rightarrow> bool" where
  "input_ok c t view height maturity hasher i k ti \<longleftrightarrow>
     view (in_prevout ti) = Some k \<and> is_spendable_at height maturity k \<and>
     co_output_type k \<in> {OUTPUT_P2PKH, OUTPUT_P2SH} \<and> unlocks c t hasher i k = Inr True"

text \<open>The coins \<open>ks\<close> are those of the inputs, from index \<open>i\<close> on, and each of them may be spent.\<close>

fun inputs_ok ::
    "crypto \<Rightarrow> transaction \<Rightarrow> coin_view \<Rightarrow> int \<Rightarrow> int \<Rightarrow> signature_hasher option \<Rightarrow> nat \<Rightarrow> coin list \<Rightarrow> txinput list \<Rightarrow> bool" where
  "inputs_ok c t view height maturity hasher i [] [] \<longleftrightarrow> True"
| "inputs_ok c t view height maturity hasher i (k # ks) (ti # tis) \<longleftrightarrow>
     input_ok c t view height maturity hasher i k ti \<and>
     inputs_ok c t view height maturity hasher (Suc i) ks tis"
| "inputs_ok c t view height maturity hasher i _ _ \<longleftrightarrow> False"

definition coin_sum :: "coin list \<Rightarrow> int" where
  "coin_sum ks = sum_list (map co_value ks)"

lemma coin_sum_simps [simp]: "coin_sum [] = 0" "coin_sum (k # ks) = co_value k + coin_sum ks"
  by (simp_all add: coin_sum_def)

definition coins_nonneg :: "coin_view \<Rightarrow> bool" where
  "coins_nonneg view \<longleftrightarrow> (\<forall>op k. view op = Some k \<longrightarrow> 0 \<le> co_value k)"

lemma inputs_ok_Nil: "inputs_ok c t view height m hs i ks [] \<longleftrightarrow> ks = []"
  by (cases ks) simp_all

lemma inputs_ok_Cons: "inputs_ok c t view height m hs i ks (ti # tis) \<longleftrightarrow> (\<exists>k ks'. ks = k # ks' \<and>
    input_ok c t view height m hs i k ti \<and> inputs_ok c t view height m hs (Suc i) ks' tis)"
  by (cases ks) simp_all

lemma inputs_loop_step:
  "inputs_loop c t view height m hs i (ti # tis) acc = Inr s \<longleftrightarrow>
     (\<exists>k. input_ok c t view height m hs i k ti \<and> acc + co_value k \<le> MAX_MONEY \<and>
        inputs_loop c t view height m hs (Suc i) tis (acc + co_value k) = Inr s)"
  by (auto simp: input_ok_def lookup_eq_Inr guard_eq_Inr bnd_eq_Inr not_less)

lemma inputs_ok_nonneg:
  "coins_nonneg view \<Longrightarrow> inputs_ok c t view height m hs i ks tis \<Longrightarrow> 0 \<le> coin_sum ks"
  by (induction c t view height m hs i ks tis rule: inputs_ok.induct)
    (auto simp: input_ok_def coins_nonneg_def)

text \<open>
  The loop succeeds with the sum of the coins it found, and every partial sum stays within the
  money supply; when no coin is negative that is the bound on the whole sum.
\<close>

lemma inputs_loop_iff:
  assumes "coins_nonneg view"
  shows "inputs_loop c t view height m hs i tis acc = Inr s \<longleftrightarrow>
    (\<exists>ks. inputs_ok c t view height m hs i ks tis \<and> s = acc + coin_sum ks \<and>
       (tis \<noteq> [] \<longrightarrow> s \<le> MAX_MONEY))"
proof (induction tis arbitrary: i acc)
  case Nil
  show ?case by (simp add: inputs_ok_Nil) auto
next
  case (Cons ti tis)
  show ?case (is "?l \<longleftrightarrow> ?r")
  proof
    assume ?l
    then obtain k ks where k: "input_ok c t view height m hs i k ti" "acc + co_value k \<le> MAX_MONEY"
      and ks: "inputs_ok c t view height m hs (Suc i) ks tis"
      and s: "s = acc + co_value k + coin_sum ks" "tis \<noteq> [] \<longrightarrow> s \<le> MAX_MONEY"
      unfolding inputs_loop_step Cons.IH by blast
    have "s \<le> MAX_MONEY"
      using k s ks by (cases "tis = []") (simp_all add: inputs_ok_Nil)
    then show ?r
      using k ks s by (intro exI [of _ "k # ks"]) simp
  next
    assume ?r
    then obtain k ks where k: "input_ok c t view height m hs i k ti"
      and ks: "inputs_ok c t view height m hs (Suc i) ks tis"
      and s: "s = acc + co_value k + coin_sum ks" "s \<le> MAX_MONEY"
      by (auto simp: inputs_ok_Cons)
    have "0 \<le> coin_sum ks" by (rule inputs_ok_nonneg [OF assms ks])
    then show ?l
      unfolding inputs_loop_step Cons.IH using k ks s by (intro exI [of _ k]) auto
  qed
qed

lemma check_transaction_inputs_iff:
  assumes "coins_nonneg view" and "tx_ok t"
  shows "check_transaction_inputs c t view height p v = Inr fee \<longleftrightarrow>
    \<not> is_coinbase t \<and>
    (\<exists>ks. inputs_ok c t view height (pm_coinbase_maturity p)
           (if v then Some \<lparr>sh_state = varbytes_bytes SIGHASH_TAG @ body_bytes t\<rparr> else None) 0 ks (tx_inputs t) \<and>
       coin_sum ks \<le> MAX_MONEY \<and> fee = coin_sum ks - total_output t \<and> 0 \<le> fee)"
proof -
  have "tx_inputs t \<noteq> []" using assms(2) by (simp add: tx_ok_def)
  then show ?thesis
    using assms by (auto simp: check_transaction_inputs_def guard_eq_Inr bnd_eq_Inr
        mk_signature_hasher_ok inputs_loop_iff [OF assms(1)])
qed

section \<open>Properties\<close>

text \<open>
  C30. A transaction passes the input check exactly when it is no coinbase, each input finds its coin
  in the view, the coin is mature and of a known type and its lock opens for that input (a
  signature for P2PKH, a redeem script for P2SH, when signatures are checked at all), and the
  coins are worth at least the outputs and no more than the money supply. The result is then the
  fee, coins minus outputs, which is never negative; and skipping the signatures never changes
  the fee.
\<close>
theorem check_inputs_accepts:
  assumes "coins_nonneg view" and "tx_ok t"
  shows "check_transaction_inputs c t view height p v = Inr fee \<longleftrightarrow>
    \<not> is_coinbase t \<and>
    (\<exists>ks. inputs_ok c t view height (pm_coinbase_maturity p)
           (if v then Some \<lparr>sh_state = varbytes_bytes SIGHASH_TAG @ body_bytes t\<rparr> else None) 0 ks (tx_inputs t) \<and>
       coin_sum ks \<le> MAX_MONEY \<and> fee = coin_sum ks - total_output t \<and> 0 \<le> fee)"
  using assms by (rule check_transaction_inputs_iff)

text \<open>
  C37. Nothing ties a P2SH coin to its redeem script. The check runs whatever script the spender
  presents and never compares its hash with the coin's payload, so any P2SH coin that is mature is
  spent by a one-byte script that pushes the number one, whatever its payload is.
\<close>
theorem p2sh_anyone_can_spend:
  assumes "tx_ok t" and "tx_inputs t = [\<lparr>in_prevout = op, in_sequence = q, in_witness = [[0x51]]\<rparr>]"
    and "\<not> is_null op" and "view op = Some k" and "co_output_type k = OUTPUT_P2SH"
    and "is_spendable_at height (pm_coinbase_maturity p) k"
    and "0 \<le> co_value k" and "co_value k \<le> MAX_MONEY" and "total_output t \<le> co_value k"
  shows "check_transaction_inputs c t view height p True = Inr (co_value k - total_output t)"
proof -
  define h where "h = \<lparr>sh_state = varbytes_bytes SIGHASH_TAG @ body_bytes t\<rparr>"
  have run: "evaluate_script c [0x51] [] d = Inr True" for d
    by (simp add: evaluate_script_def decode_ops_def Let_def opcodes script_op_def script_limits)
  obtain d where "hasher_digest c h 0 (co_value k) [0x51] = Inr d"
  proof -
    have "hasher_suffix 0 (co_value k) [0x51] =
        Inr (to_le 4 0 @ to_le 8 (co_value k) @ varbytes_bytes [0x51])"
      using assms(7,8) by (simp add: hasher_suffix_iff fits_def MAX_MONEY_def)
    then show ?thesis using that by (simp add: hasher_digest_def)
  qed
  then have "unlocks c t (Some h) 0 k = Inr True"
    using assms(2,5) run by (simp add: unlocks_def verify_p2sh_def tx_constants script_limits)
  moreover have "\<not> is_coinbase t"
    using assms(2,3) by (simp add: is_coinbase_def)
  ultimately show ?thesis
    using assms(4-9) mk_signature_hasher_ok [OF assms(1)]
    by (simp add: check_transaction_inputs_def assms(2) h_def [symmetric])
qed

section \<open>Witnesses\<close>

definition demo_view :: "int \<Rightarrow> coin_view" where
  "demo_view ty = [\<lparr>op_txid = replicate 32 7, op_index = 0\<rparr> \<mapsto>
     \<lparr>co_value = 6000, co_output_type = ty, co_payload = replicate 20 9, co_height = 1, co_is_coinbase = False\<rparr>]"

lemma demo_spend_ok: "tx_ok (demo_tx [[0x51]])"
  by (simp add: demo_tx_def tx_ok_def wf_tx_defs stack_ok_def tx_constants fits_def)

theorem check_inputs_accepts_witness:
  "check_transaction_inputs demo_crypto (demo_tx [[0x51]]) (demo_view OUTPUT_P2PKH) 5 REGTEST False = Inr 1000"
proof -
  have "coins_nonneg (demo_view OUTPUT_P2PKH)"
    by (simp add: coins_nonneg_def demo_view_def)
  from check_inputs_accepts [OF this demo_spend_ok, of demo_crypto 5 REGTEST False 1000] show ?thesis
    by (simp add: demo_tx_def demo_view_def is_coinbase_def is_null_def tx_constants inputs_ok_Cons
        inputs_ok_Nil input_ok_def is_spendable_at_def unlocks_def total_output_def)
qed

theorem p2sh_anyone_can_spend_witness:
  "check_transaction_inputs demo_crypto (demo_tx [[0x51]]) (demo_view OUTPUT_P2SH) 5 REGTEST True = Inr 1000"
  using p2sh_anyone_can_spend [OF demo_spend_ok, of "\<lparr>op_txid = replicate 32 7, op_index = 0\<rparr>" SEQUENCE_FINAL
      "demo_view OUTPUT_P2SH"
      "\<lparr>co_value = 6000, co_output_type = OUTPUT_P2SH, co_payload = replicate 20 9, co_height = 1, co_is_coinbase = False\<rparr>"
      5 REGTEST demo_crypto]
  by (simp add: demo_tx_def demo_view_def is_null_def tx_constants is_spendable_at_def total_output_def)

end
