(* ===== verification/Ledger.thy ===== *)
theory Ledger
  imports Validation
begin

text \<open>
  The abstract ledger: what a chain of blocks does to the set of coins, as a pure function of the
  blocks. It is the specification that the connection and disconnection of blocks implement
  (\<open>Connect\<close>), and the place where the two global facts about it are proved: the coins in
  circulation are covered by the subsidies, and no transaction id is used twice.
\<close>

section \<open>The specification\<close>

text \<open>A transaction takes the coins of its inputs away and puts those of its outputs in.\<close>

definition ledger_tx :: "crypto \<Rightarrow> int \<Rightarrow> transaction \<Rightarrow> coin_view \<Rightarrow> coin_view" where
  "ledger_tx c height t v =
     (if is_coinbase t then v else v |` (- set (map in_prevout (tx_inputs t)))) ++
     map_of (created_coins c height t)"

text \<open>The fee of a transaction that may be included at a height, \<open>None\<close> when it may not.\<close>

definition tx_fee :: "crypto \<Rightarrow> chain_params \<Rightarrow> int \<Rightarrow> transaction \<Rightarrow> coin_view \<Rightarrow> int option" where
  "tx_fee c p height t v =
     (if \<not> check_transaction_final t height then None
      else if is_coinbase t then Some 0
      else case check_transaction_inputs c t v height p True of Inl _ \<Rightarrow> None | Inr f \<Rightarrow> Some f)"

fun ledger_txs ::
    "crypto \<Rightarrow> chain_params \<Rightarrow> int \<Rightarrow> transaction list \<Rightarrow> coin_view \<Rightarrow> (int \<times> coin_view) option" where
  "ledger_txs c p height [] v = Some (0, v)"
| "ledger_txs c p height (t # ts) v =
     (case tx_fee c p height t v of
        None \<Rightarrow> None
      | Some f \<Rightarrow> map_option (\<lambda>(g, v'). (f + g, v')) (ledger_txs c p height ts (ledger_tx c height t v)))"

text \<open>A block may pay itself the subsidy and the fees.\<close>

definition ledger_block :: "crypto \<Rightarrow> chain_params \<Rightarrow> int \<Rightarrow> block \<Rightarrow> coin_view \<Rightarrow> coin_view option" where
  "ledger_block c p height b v =
     (case (ledger_txs c p height (bk_transactions b) v, subsidy p height, bk_transactions b) of
        (Some (fees, v'), Inr reward, cb # _) \<Rightarrow>
          if total_output cb \<le> reward + fees then Some v' else None
      | _ \<Rightarrow> None)"

fun ledger_chain :: "crypto \<Rightarrow> chain_params \<Rightarrow> int \<Rightarrow> block list \<Rightarrow> coin_view \<Rightarrow> coin_view option" where
  "ledger_chain c p height [] v = Some v"
| "ledger_chain c p height (b # bs) v =
     (case ledger_block c p height b v of None \<Rightarrow> None | Some v' \<Rightarrow> ledger_chain c p (height + 1) bs v')"

lemma ledger_txs_Cons:
  "ledger_txs c p height (t # ts) v = Some (fees, v') \<longleftrightarrow>
     (\<exists>f g. tx_fee c p height t v = Some f \<and> fees = f + g \<and>
        ledger_txs c p height ts (ledger_tx c height t v) = Some (g, v'))"
  by (auto split: option.splits)

lemma ledger_block_Some:
  "ledger_block c p height b v = Some v' \<longleftrightarrow>
     (\<exists>fees reward cb ts. ledger_txs c p height (bk_transactions b) v = Some (fees, v') \<and>
        subsidy p height = Inr reward \<and> bk_transactions b = cb # ts \<and> total_output cb \<le> reward + fees)"
  by (auto simp: ledger_block_def split: option.splits sum.splits list.splits)

lemma ledger_chain_append:
  "ledger_chain c p height (bs @ bs') v =
     (case ledger_chain c p height bs v of None \<Rightarrow> None
      | Some v' \<Rightarrow> ledger_chain c p (height + int (length bs)) bs' v')"
  by (induction bs arbitrary: height v) (auto simp: algebra_simps split: option.splits)

section \<open>Blocks the stateless checks let through\<close>

text \<open>What the stateless checks and the coinbase height guarantee of a block at a height.\<close>

definition tx_shape :: "transaction \<Rightarrow> bool" where
  "tx_shape t \<longleftrightarrow> tx_ok t \<and> distinct (map in_prevout (tx_inputs t)) \<and> length (tx_outputs t) < 2 ^ 32"

definition block_shape :: "int \<Rightarrow> block \<Rightarrow> bool" where
  "block_shape height b \<longleftrightarrow>
     (case bk_transactions b of
        [] \<Rightarrow> False
      | cb # ts \<Rightarrow> is_coinbase cb \<and> coinbase_height cb = Inr height \<and> tx_shape cb \<and>
          (\<forall>t \<in> set ts. \<not> is_coinbase t \<and> tx_shape t)) \<and>
     length (concat (map tx_inputs (bk_transactions b))) < 2 ^ 32"

fun chain_shape :: "int \<Rightarrow> block list \<Rightarrow> bool" where
  "chain_shape height [] \<longleftrightarrow> True"
| "chain_shape height (b # bs) \<longleftrightarrow> block_shape height b \<and> chain_shape (height + 1) bs"

lemma block_shape_Cons:
  "block_shape height b \<Longrightarrow> \<exists>cb ts. bk_transactions b = cb # ts \<and> is_coinbase cb \<and>
     coinbase_height cb = Inr height \<and> tx_shape cb \<and> (\<forall>t \<in> set ts. \<not> is_coinbase t \<and> tx_shape t)"
  by (auto simp: block_shape_def split: list.splits)

lemma chain_shape_append:
  "chain_shape height (bs @ bs') \<longleftrightarrow> chain_shape height bs \<and> chain_shape (height + int (length bs)) bs'"
  by (induction bs arbitrary: height) (auto simp: algebra_simps)

text \<open>Inputs and outputs take 40 and 29 bytes each, so a block of bounded size has a bounded number.\<close>

lemma sane_block_shape:
  assumes "block_ok b" "block_check_sanity c limit max_size min_out aux b = Inr ()" "max_size < 2 ^ 32"
    and "block_coinbase b = Inr cb" "coinbase_height cb = Inr height"
  shows "block_shape height b"
proof -
  have ne: "bk_transactions b \<noteq> []" and sz: "block_size b \<le> max_size"
    and cb: "is_coinbase (hd (bk_transactions b))" "\<forall>t \<in> set (tl (bk_transactions b)). \<not> is_coinbase t"
    and sane: "\<forall>t \<in> set (bk_transactions b). tx_check_sanity min_out t = Inr ()"
    using assms(2) by (auto simp: block_check_sanity_iff)
  have ok: "tx_ok t" if "t \<in> set (bk_transactions b)" for t
    using assms(1) that by (simp add: block_ok_def list_all_iff)
  have shape: "tx_shape t" if t: "t \<in> set (bk_transactions b)" for t
  proof -
    have "distinct (map in_prevout (tx_inputs t))"
      using sane t by (cases "is_coinbase t") (auto simp: tx_check_sanity_iff is_coinbase_def split: list.splits)
    moreover have "length (tx_outputs t) \<le> length (tx_bytes t)"
      using ok [OF t] by (simp add: tx_bytes_def body_bytes_def length_outputs_bytes tx_ok_def wf_transaction_def)
    moreover have "length (tx_bytes t) \<le> length (concat (map tx_bytes (bk_transactions b)))"
      using t by (auto simp: length_concat intro!: member_le_sum_list)
    then have "int (length (tx_bytes t)) \<le> block_size b"
      using assms(1) by (simp add: block_size_def block_bytes_def)
    ultimately show ?thesis
      using sz assms(3) ok [OF t] by (auto simp: tx_shape_def)
  qed
  have "length (tx_inputs t) \<le> length (tx_bytes t)" if "t \<in> set (bk_transactions b)" for t
    using ok [OF that] by (simp add: tx_bytes_def body_bytes_def length_inputs_bytes tx_ok_def wf_transaction_def)
  then have "length (concat (map tx_inputs (bk_transactions b))) \<le> length (concat (map tx_bytes (bk_transactions b)))"
    unfolding length_concat map_map by (intro sum_list_mono) simp
  then have "int (length (concat (map tx_inputs (bk_transactions b)))) \<le> block_size b"
    using assms(1) by (simp add: block_size_def block_bytes_def)
  then have "length (concat (map tx_inputs (bk_transactions b))) < 2 ^ 32"
    using sz assms(3) by simp
  with shape show ?thesis
    using ne cb assms(4,5) by (cases "bk_transactions b") (auto simp: block_shape_def block_coinbase_def)
qed

section \<open>The coins of a ledger\<close>

definition ledger_sum :: "coin_view \<Rightarrow> int" where
  "ledger_sum v = (\<Sum>op \<in> dom v. co_value (the (v op)))"

text \<open>A well-formed coin set: finitely many coins, under proper outpoints, none negative.\<close>

definition coins_ok :: "coin_view \<Rightarrow> bool" where
  "coins_ok v \<longleftrightarrow> finite (dom v) \<and> (\<forall>op k. v op = Some k \<longrightarrow> wf_outpoint op \<and> wf_coin k)"

lemma coins_ok_nonneg: "coins_ok v \<Longrightarrow> coins_nonneg v"
  by (auto simp: coins_ok_def coins_nonneg_def wf_coin_def fits_def)

lemma coins_ok_empty [simp]: "coins_ok (\<lambda>_. None)"
  by (simp add: coins_ok_def)

lemma coins_ok_restrict: "coins_ok v \<Longrightarrow> coins_ok (v |` A)"
  by (auto simp: coins_ok_def restrict_map_def dom_def elim: finite_subset [rotated])

lemma coins_ok_add: "coins_ok v \<Longrightarrow> coins_ok w \<Longrightarrow> coins_ok (v ++ w)"
  by (auto simp: coins_ok_def)

lemma coins_ok_created:
  assumes "crypto_ok c" "tx_shape t" "fits 4 height"
  shows "coins_ok (map_of (created_coins c height t))"
proof -
  have "wf_outpoint op \<and> wf_coin k" if at: "map_of (created_coins c height t) op = Some k" for op k
  proof -
    obtain i where i: "i < length (tx_outputs t)" "op = \<lparr>op_txid = txid c t, op_index = int i\<rparr>"
      "k = output_coin (is_coinbase t) height (tx_outputs t ! i)"
      using map_of_SomeD [OF at] by (auto simp: created_coins_def tx_outpoints_def set_zip)
    have "wf_txoutput (tx_outputs t ! i)"
      using assms(2) i(1) by (simp add: tx_shape_def tx_ok_def wf_transaction_def list_all_length)
    then have "wf_coin k"
      using assms(3) by (auto simp: i(3) wf_coin_def output_coin_def wf_txoutput_def fits_def tx_constants
          PUBKEY_HASH_LENGTH_def)
    moreover have "wf_outpoint op"
      using assms(1,2) i by (auto simp: wf_outpoint_def fits_def txid_def tx_shape_def)
    ultimately show ?thesis by simp
  qed
  then show ?thesis by (simp add: coins_ok_def finite_dom_map_of)
qed

lemma coins_ok_ledger_tx:
  assumes "crypto_ok c" "tx_shape t" "fits 4 height" "coins_ok v"
  shows "coins_ok (ledger_tx c height t v)"
  using assms by (auto simp: ledger_tx_def intro: coins_ok_add coins_ok_restrict coins_ok_created)

text \<open>The sum of a coin set, and how taking coins away and putting coins in changes it.\<close>

lemma ledger_sum_restrict:
  assumes "finite (dom v)" "A \<subseteq> dom v"
  shows "ledger_sum (v |` (- A)) = ledger_sum v - (\<Sum>op \<in> A. co_value (the (v op)))"
proof -
  have "ledger_sum (v |` (- A)) = (\<Sum>op \<in> dom v - A. co_value (the (v op)))"
    unfolding ledger_sum_def by (rule sum.cong) (auto simp: restrict_map_def split: if_splits)
  then show ?thesis
    using assms by (simp add: ledger_sum_def sum_diff)
qed

lemma ledger_sum_map_of:
  assumes "keys_distinct t"
  shows "ledger_sum (map_of t) = table_sum co_value t"
  using assms
proof (induction t)
  case (Cons kv t)
  have new: "fst kv \<notin> dom (map_of t)"
    using Cons.prems by (simp add: dom_map_of_conv_image_fst)
  then have "map_of (kv # t) op = map_of t op" if "op \<in> dom (map_of t)" for op
    using that by auto
  then have "(\<Sum>op \<in> dom (map_of t). co_value (the (map_of (kv # t) op))) = ledger_sum (map_of t)"
    unfolding ledger_sum_def by (intro sum.cong) simp_all
  moreover have "dom (map_of (kv # t)) = insert (fst kv) (dom (map_of t))"
    by (simp add: dom_map_of_conv_image_fst)
  ultimately have "ledger_sum (map_of (kv # t)) = co_value (snd kv) + ledger_sum (map_of t)"
    using new by (simp only: ledger_sum_def) (simp add: finite_dom_map_of)
  moreover have "keys_distinct t" using Cons.prems by simp
  ultimately show ?case
    using Cons.IH by (simp only: table_sum_simps)
qed (simp add: ledger_sum_def)

lemma ledger_sum_add:
  assumes "coins_ok v" "keys_distinct kvs"
  shows "ledger_sum (v ++ map_of kvs) \<le> ledger_sum v + table_sum co_value kvs"
proof -
  have fin: "finite (dom v)" and nn: "coins_nonneg v"
    using assms(1) by (simp_all add: coins_ok_def coins_ok_nonneg)
  let ?K = "fst ` set kvs"
  have kv: "dom (map_of kvs) = ?K" by (rule dom_map_of_conv_image_fst)
  have new: "(\<Sum>op \<in> ?K. co_value (the (map_of kvs op))) = table_sum co_value kvs"
    using ledger_sum_map_of [OF assms(2)] by (simp add: ledger_sum_def kv)
  have "ledger_sum (v ++ map_of kvs) =
      (\<Sum>op \<in> dom v - ?K. co_value (the (v op))) + (\<Sum>op \<in> ?K. co_value (the (map_of kvs op)))"
  proof -
    have "ledger_sum (v ++ map_of kvs) = (\<Sum>op \<in> (dom v - ?K) \<union> ?K. co_value (the ((v ++ map_of kvs) op)))"
      by (simp add: ledger_sum_def kv Un_Diff_cancel2 Un_commute)
    also have "\<dots> = (\<Sum>op \<in> dom v - ?K. co_value (the ((v ++ map_of kvs) op))) +
        (\<Sum>op \<in> ?K. co_value (the ((v ++ map_of kvs) op)))"
      using fin by (intro sum.union_disjoint) auto
    also have "(\<Sum>op \<in> dom v - ?K. co_value (the ((v ++ map_of kvs) op))) =
        (\<Sum>op \<in> dom v - ?K. co_value (the (v op)))"
      by (rule sum.cong) (auto simp: map_add_dom_app_simps kv [symmetric])
    also have "(\<Sum>op \<in> ?K. co_value (the ((v ++ map_of kvs) op))) =
        (\<Sum>op \<in> ?K. co_value (the (map_of kvs op)))"
      by (rule sum.cong) (auto simp: map_add_dom_app_simps kv [symmetric])
    finally show ?thesis .
  qed
  moreover have "(\<Sum>op \<in> dom v - ?K. co_value (the (v op))) \<le> ledger_sum v"
    unfolding ledger_sum_def using fin nn by (intro sum_mono2) (auto simp: coins_nonneg_def)
  ultimately show ?thesis by (simp add: new)
qed

section \<open>Supply\<close>

lemma inputs_ok_coins:
  "inputs_ok c t v height m hs i ks tis \<Longrightarrow> map (v \<circ> in_prevout) tis = map Some ks"
  by (induction c t v height m hs i ks tis rule: inputs_ok.induct) (auto simp: input_ok_def)

lemma tx_fee_spends:
  assumes "tx_fee c p height t v = Some fee" "\<not> is_coinbase t" "coins_ok v" "tx_shape t"
  shows "set (map in_prevout (tx_inputs t)) \<subseteq> dom v"
    and "(\<Sum>op \<in> set (map in_prevout (tx_inputs t)). co_value (the (v op))) = fee + total_output t"
proof -
  have "check_transaction_inputs c t v height p True = Inr fee"
    using assms(1,2) by (auto simp: tx_fee_def split: if_splits sum.splits)
  then obtain hs ks where ks: "inputs_ok c t v height (pm_coinbase_maturity p) hs 0 ks (tx_inputs t)"
    and fee: "fee = coin_sum ks - total_output t"
    using assms(3,4) check_transaction_inputs_iff [OF coins_ok_nonneg] unfolding tx_shape_def by blast
  have coins: "map (v \<circ> in_prevout) (tx_inputs t) = map Some ks"
    by (rule inputs_ok_coins [OF ks])
  have "v (in_prevout ti) \<noteq> None" if "ti \<in> set (tx_inputs t)" for ti
  proof -
    have "v (in_prevout ti) \<in> set (map Some ks)" using that coins by (metis comp_apply image_eqI list.set_map)
    then show ?thesis by auto
  qed
  then show "set (map in_prevout (tx_inputs t)) \<subseteq> dom v" by auto
  have "map (\<lambda>op. co_value (the (v op))) (map in_prevout (tx_inputs t)) =
      map (co_value \<circ> the) (map (v \<circ> in_prevout) (tx_inputs t))"
    by (simp add: comp_def)
  also have "\<dots> = map co_value ks" by (simp only: coins) (simp add: comp_def)
  finally have vals: "map (\<lambda>op. co_value (the (v op))) (map in_prevout (tx_inputs t)) = map co_value ks" .
  have "distinct (map in_prevout (tx_inputs t))" using assms(4) by (simp add: tx_shape_def)
  then have "(\<Sum>op \<in> set (map in_prevout (tx_inputs t)). co_value (the (v op))) = sum_list (map co_value ks)"
    by (subst sum_list_distinct_conv_sum_set [symmetric]) (simp_all only: vals)
  then show "(\<Sum>op \<in> set (map in_prevout (tx_inputs t)). co_value (the (v op))) = fee + total_output t"
    by (simp add: fee coin_sum_def)
qed

lemma ledger_tx_sum:
  assumes "coins_ok v" "tx_shape t" "tx_fee c p height t v = Some fee"
  shows "ledger_sum (ledger_tx c height t v) \<le>
    ledger_sum v + (if is_coinbase t then total_output t else - fee)"
proof -
  let ?A = "set (map in_prevout (tx_inputs t))"
  have new: "table_sum co_value (created_coins c height t) = total_output t"
    using sum_created [of c height t] by (simp add: table_sum_def)
  have kd: "keys_distinct (created_coins c height t)" by simp
  show ?thesis
  proof (cases "is_coinbase t")
    case True
    then show ?thesis
      using ledger_sum_add [OF assms(1) kd] by (simp add: ledger_tx_def new)
  next
    case False
    note spent = tx_fee_spends [OF assms(3) False assms(1,2)]
    have "ledger_sum (v |` (- ?A)) = ledger_sum v - (fee + total_output t)"
      using ledger_sum_restrict [OF _ spent(1)] assms(1) spent(2) by (simp add: coins_ok_def)
    then show ?thesis
      using False ledger_sum_add [OF coins_ok_restrict [OF assms(1)] kd, of "- ?A"]
      by (simp add: ledger_tx_def new)
  qed
qed

lemma ledger_txs_sum:
  assumes "ledger_txs c p height ts v = Some (fees, v')" "\<forall>t \<in> set ts. \<not> is_coinbase t \<and> tx_shape t"
    and "crypto_ok c" "fits 4 height" "coins_ok v"
  shows "coins_ok v' \<and> ledger_sum v' \<le> ledger_sum v - fees"
  using assms(1,2,5)
proof (induction ts arbitrary: fees v)
  case (Cons t ts)
  then obtain f g where f: "tx_fee c p height t v = Some f" "fees = f + g"
    and g: "ledger_txs c p height ts (ledger_tx c height t v) = Some (g, v')"
    unfolding ledger_txs_Cons by blast
  have t: "tx_shape t" "\<not> is_coinbase t" using Cons.prems by simp_all
  have "coins_ok (ledger_tx c height t v)"
    by (rule coins_ok_ledger_tx [OF assms(3) t(1) assms(4) Cons.prems(3)])
  then have "coins_ok v' \<and> ledger_sum v' \<le> ledger_sum (ledger_tx c height t v) - g"
    using Cons.IH [OF g] Cons.prems(2) by simp
  then show ?case
    using ledger_tx_sum [OF Cons.prems(3) t(1) f(1)] t(2) f(2) by simp
qed simp

lemma ledger_block_sum:
  assumes "ledger_block c p height b v = Some v'" "block_shape height b"
    and "crypto_ok c" "fits 4 height" "coins_ok v" "subsidy p height = Inr reward"
  shows "coins_ok v' \<and> ledger_sum v' \<le> ledger_sum v + reward"
proof -
  obtain cb ts fees where b: "bk_transactions b = cb # ts" and cb: "is_coinbase cb" "tx_shape cb"
    and ts: "\<forall>t \<in> set ts. \<not> is_coinbase t \<and> tx_shape t"
    and run: "ledger_txs c p height (cb # ts) v = Some (fees, v')" and pay: "total_output cb \<le> reward + fees"
    using assms(1,2,6) block_shape_Cons [of height b] by (auto simp: ledger_block_Some)
  obtain g where g: "tx_fee c p height cb v = Some 0" "fees = g"
    "ledger_txs c p height ts (ledger_tx c height cb v) = Some (g, v')"
    using run cb(1) by (auto simp: ledger_txs_Cons tx_fee_def simp del: ledger_txs.simps split: if_splits)
  have "coins_ok (ledger_tx c height cb v)"
    by (rule coins_ok_ledger_tx [OF assms(3) cb(2) assms(4,5)])
  then have "coins_ok v' \<and> ledger_sum v' \<le> ledger_sum (ledger_tx c height cb v) - fees"
    using ledger_txs_sum [OF g(3) ts assms(3,4)] g(2) by simp
  then show ?thesis
    using ledger_tx_sum [OF assms(5) cb(2) g(1)] cb(1) pay by simp
qed

lemma block_shape_fits: "block_shape height b \<Longrightarrow> fits 4 height"
proof -
  assume "block_shape height b"
  then obtain cb where "coinbase_height cb = Inr height" by (auto dest: block_shape_Cons)
  then have "height = from_le (take 4 (tx_coinbase_data cb))" "4 \<le> length (tx_coinbase_data cb)"
    by (auto simp: coinbase_height_def HEIGHT_PREFIX_SIZE_def guard_eq_Inr)
  then show ?thesis
    using fits_from_le [of "take 4 (tx_coinbase_data cb)"] by simp
qed

lemma ledger_chain_sum:
  assumes "ledger_chain c p (int h) bs v = Some v'" "chain_shape (int h) bs"
    and "crypto_ok c" "params_ok p" "coins_ok v"
  shows "coins_ok v' \<and> ledger_sum v' \<le> ledger_sum v + total_subsidy p (h + length bs) - total_subsidy p h"
  using assms(1,2,5)
proof (induction bs arbitrary: h v)
  case (Cons b bs)
  then obtain w where w: "ledger_block c p (int h) b v = Some w"
    and rest: "ledger_chain c p (int (Suc h)) bs w = Some v'"
    by (auto split: option.splits simp: add.commute)
  have shape: "block_shape (int h) b" "chain_shape (int (Suc h)) bs"
    using Cons.prems(2) by (simp_all add: add.commute)
  have "subsidy p (int h) = Inr (subsidy_at p h)"
    using assms(4) by (intro subsidy_eq) (simp add: params_ok_def)
  then have "coins_ok w \<and> ledger_sum w \<le> ledger_sum v + subsidy_at p h"
    using ledger_block_sum [OF w shape(1) assms(3) block_shape_fits [OF shape(1)] Cons.prems(3)] by simp
  then show ?case
    using Cons.IH [OF rest shape(2)] by (auto simp: total_subsidy_Suc)
qed simp

section \<open>Transaction ids are used once\<close>

text \<open>
  The invariant of a run: the coins belong to transactions seen before, whose ids are different,
  and what a seen transaction spent is gone for good.
\<close>

definition seen_ok :: "crypto \<Rightarrow> transaction list \<Rightarrow> coin_view \<Rightarrow> bool" where
  "seen_ok c us v \<longleftrightarrow> op_txid ` dom v \<subseteq> txid c ` set us \<and> distinct (map (txid c) us) \<and>
     (\<forall>u \<in> set us. \<not> is_coinbase u \<longrightarrow>
        (\<forall>ti \<in> set (tx_inputs u). v (in_prevout ti) = None \<and> op_txid (in_prevout ti) \<in> txid c ` set us))"

text \<open>Transactions with the same id spend the same outpoints, unless their bodies collide.\<close>

lemma same_txid:
  assumes "txid c t = txid c u" "tx_ok t" "tx_ok u" "\<not> colliding c (body_bytes ` S)" "t \<in> S" "u \<in> S"
  shows "map in_prevout (tx_inputs t) = map in_prevout (tx_inputs u)"
    and "is_coinbase t = is_coinbase u" "coinbase_height t = coinbase_height u"
proof -
  have "body_bytes t = body_bytes u"
    using assms by (auto simp: colliding_def txid_def)
  then have strip: "strip_witness t = strip_witness u"
    using assms by (simp add: body_eq_iff)
  then have "tx_inputs (strip_witness t) = tx_inputs (strip_witness u)"
    "tx_coinbase_data (strip_witness t) = tx_coinbase_data (strip_witness u)" by simp_all
  then have bare: "map bare (tx_inputs t) = map bare (tx_inputs u)"
    and data: "tx_coinbase_data t = tx_coinbase_data u"
    by (simp_all add: strip_witness_def)
  from bare have "map in_prevout (map bare (tx_inputs t)) = map in_prevout (map bare (tx_inputs u))"
    by simp
  then show ins: "map in_prevout (tx_inputs t) = map in_prevout (tx_inputs u)"
    by (simp add: comp_def)
  have cb: "is_coinbase w \<longleftrightarrow> (case map in_prevout (tx_inputs w) of [op] \<Rightarrow> is_null op | _ \<Rightarrow> False)" for w
    by (auto simp: is_coinbase_def split: list.splits)
  show "is_coinbase t = is_coinbase u" unfolding cb ins ..
  then show "coinbase_height t = coinbase_height u" by (simp add: coinbase_height_def data)
qed

lemma seen_step:
  assumes "seen_ok c us v" "tx_fee c p height t v = Some fee" "coins_ok v" "tx_shape t"
    and "\<forall>u \<in> set us. tx_ok u" "\<not> colliding c (body_bytes ` S)" "insert t (set us) \<subseteq> S"
    and "is_coinbase t \<Longrightarrow> \<forall>u \<in> set us. coinbase_height u \<noteq> coinbase_height t"
  shows "seen_ok c (us @ [t]) (ledger_tx c height t v)" "txid c t \<notin> txid c ` set us"
proof -
  have t: "tx_ok t" "tx_inputs t \<noteq> []" using assms(4) by (simp_all add: tx_shape_def tx_ok_def)
  have spend: "v (in_prevout ti) \<noteq> None" if "\<not> is_coinbase t" "ti \<in> set (tx_inputs t)" for ti
    using tx_fee_spends(1) [OF assms(2) that(1) assms(3,4)] that(2) by auto
  show new: "txid c t \<notin> txid c ` set us"
  proof
    assume "txid c t \<in> txid c ` set us"
    then obtain u where u: "u \<in> set us" "txid c t = txid c u" by blast
    have same: "map in_prevout (tx_inputs t) = map in_prevout (tx_inputs u)"
      "is_coinbase t = is_coinbase u" "coinbase_height t = coinbase_height u"
      using same_txid [OF u(2) t(1) _ assms(6)] assms(5,7) u(1) by auto
    show False
    proof (cases "is_coinbase t")
      case True
      then show False using assms(8) u(1) same(3) by metis
    next
      case False
      obtain ti where ti: "ti \<in> set (tx_inputs t)" using t(2) by (cases "tx_inputs t") auto
      then have "in_prevout ti \<in> set (map in_prevout (tx_inputs u))"
        unfolding same(1) [symmetric] by simp
      then have "v (in_prevout ti) = None"
        using assms(1) u(1) False same(2) by (auto simp: seen_ok_def)
      then show False using spend [OF False ti] by simp
    qed
  qed
  have created: "op_txid op = txid c t" if "map_of (created_coins c height t) op = Some k" for op k
    using that by (metis map_fst_created map_of_SomeD fst_conv image_eqI list.set_map tx_outpoints_txid)
  have dom: "op_txid op \<in> txid c ` insert t (set us)" if "ledger_tx c height t v op = Some k" for op k
    using that assms(1) created [of op k]
    by (auto simp: ledger_tx_def seen_ok_def restrict_map_def map_add_Some_iff split: if_splits)
  have old: "ledger_tx c height t v op = None" if "v op = None" "op_txid op \<in> txid c ` set us" for op
    using that new created [of op] by (cases "map_of (created_coins c height t) op")
      (auto simp: ledger_tx_def map_add_def restrict_map_def)
  have mine: "ledger_tx c height t v (in_prevout ti) = None \<and> op_txid (in_prevout ti) \<in> txid c ` set us"
    if "\<not> is_coinbase t" "ti \<in> set (tx_inputs t)" for ti
  proof -
    have id: "op_txid (in_prevout ti) \<in> txid c ` set us"
      using spend [OF that] assms(1) by (auto simp: seen_ok_def)
    then have "map_of (created_coins c height t) (in_prevout ti) = None"
      using new created [of "in_prevout ti"] by (cases "map_of (created_coins c height t) (in_prevout ti)") auto
    then show ?thesis using id that by (auto simp: ledger_tx_def map_add_def restrict_map_def)
  qed
  show "seen_ok c (us @ [t]) (ledger_tx c height t v)"
    unfolding seen_ok_def
  proof (intro conjI ballI impI)
    show "op_txid ` dom (ledger_tx c height t v) \<subseteq> txid c ` set (us @ [t])"
      using dom by fastforce
    show "distinct (map (txid c) (us @ [t]))"
      using assms(1) new by (auto simp: seen_ok_def)
    fix u ti assume u: "u \<in> set (us @ [t])" "\<not> is_coinbase u" and ti: "ti \<in> set (tx_inputs u)"
    show "ledger_tx c height t v (in_prevout ti) = None"
      using u ti assms(1) mine old by (fastforce simp: seen_ok_def)
    show "op_txid (in_prevout ti) \<in> txid c ` set (us @ [t])"
      using u ti assms(1) mine by (fastforce simp: seen_ok_def)
  qed
qed

lemma seen_txs:
  assumes "ledger_txs c p height ts v = Some (fees, v')" "seen_ok c us v" "coins_ok v"
    and "\<forall>t \<in> set ts. \<not> is_coinbase t \<and> tx_shape t" "\<forall>u \<in> set us. tx_ok u"
    and "crypto_ok c" "fits 4 height" "\<not> colliding c (body_bytes ` S)" "set us \<union> set ts \<subseteq> S"
  shows "seen_ok c (us @ ts) v'"
  using assms(1-5,9)
proof (induction ts arbitrary: fees v us)
  case (Cons t ts)
  then obtain f g where f: "tx_fee c p height t v = Some f"
    and g: "ledger_txs c p height ts (ledger_tx c height t v) = Some (g, v')"
    unfolding ledger_txs_Cons by blast
  have t: "tx_shape t" "\<not> is_coinbase t" "tx_ok t" using Cons.prems(4) by (simp_all add: tx_shape_def)
  have "coins_ok (ledger_tx c height t v)"
    by (rule coins_ok_ledger_tx [OF assms(6) t(1) assms(7) Cons.prems(3)])
  moreover have "seen_ok c (us @ [t]) (ledger_tx c height t v)"
    using seen_step(1) [OF Cons.prems(2) f Cons.prems(3) t(1) Cons.prems(5) assms(8)] t(2) Cons.prems(6)
    by auto
  ultimately have "seen_ok c ((us @ [t]) @ ts) v'"
    using Cons.prems t(3) by (intro Cons.IH [OF g]) auto
  then show ?case by simp
qed simp

lemma seen_block:
  assumes "ledger_block c p height b v = Some v'" "seen_ok c us v" "coins_ok v" "block_shape height b"
    and "\<forall>u \<in> set us. tx_ok u" "\<forall>u \<in> set us. coinbase_height u \<noteq> Inr height"
    and "crypto_ok c" "\<not> colliding c (body_bytes ` S)" "set us \<union> set (bk_transactions b) \<subseteq> S"
  shows "seen_ok c (us @ bk_transactions b) v'"
proof -
  obtain cb ts fees where b: "bk_transactions b = cb # ts" and cb: "is_coinbase cb" "tx_shape cb"
      "coinbase_height cb = Inr height"
    and ts: "\<forall>t \<in> set ts. \<not> is_coinbase t \<and> tx_shape t"
    and run: "ledger_txs c p height (cb # ts) v = Some (fees, v')"
    using assms(1,4) block_shape_Cons [of height b] by (auto simp: ledger_block_Some)
  obtain f g where f: "tx_fee c p height cb v = Some f"
    and g: "ledger_txs c p height ts (ledger_tx c height cb v) = Some (g, v')"
    using run unfolding ledger_txs_Cons by blast
  note fits = block_shape_fits [OF assms(4)]
  have "coins_ok (ledger_tx c height cb v)"
    by (rule coins_ok_ledger_tx [OF assms(7) cb(2) fits assms(3)])
  moreover have "seen_ok c (us @ [cb]) (ledger_tx c height cb v)"
    using seen_step(1) [OF assms(2) f assms(3) cb(2) assms(5) assms(8)] assms(6,9) cb(3) b by auto
  ultimately have "seen_ok c ((us @ [cb]) @ ts) v'"
    using assms(5,9) ts b cb(2) by (intro seen_txs [OF g _ _ ts _ assms(7) fits assms(8)]) (auto simp: tx_shape_def)
  then show ?thesis by (simp add: b)
qed

text \<open>The transactions of a chain of blocks, in order.\<close>

definition chain_txs :: "block list \<Rightarrow> transaction list" where
  "chain_txs bs = concat (map bk_transactions bs)"

lemma chain_txs_simps [simp]:
  "chain_txs [] = []" "chain_txs (b # bs) = bk_transactions b @ chain_txs bs"
  "chain_txs (bs @ bs') = chain_txs bs @ chain_txs bs'"
  by (simp_all add: chain_txs_def)

lemma block_shape_txs:
  assumes "block_shape height b" "t \<in> set (bk_transactions b)"
  shows "tx_shape t" "tx_ok t" "coinbase_height t = Inr h \<Longrightarrow> h = height"
proof -
  obtain cb ts where b: "bk_transactions b = cb # ts" "coinbase_height cb = Inr height" "tx_shape cb"
      "\<forall>t \<in> set ts. \<not> is_coinbase t \<and> tx_shape t"
    using block_shape_Cons [OF assms(1)] by blast
  then show "tx_shape t" using assms(2) by auto
  then show "tx_ok t" by (simp add: tx_shape_def)
  show "h = height" if "coinbase_height t = Inr h"
    using that b assms(2) by (auto simp: coinbase_height_def)
qed

lemma seen_chain:
  assumes "ledger_chain c p (int h) bs v = Some v'" "seen_ok c us v" "coins_ok v" "chain_shape (int h) bs"
    and "\<forall>u \<in> set us. tx_ok u" "\<forall>u \<in> set us. \<forall>k. coinbase_height u = Inr k \<longrightarrow> k < int h"
    and "crypto_ok c" "params_ok p" "\<not> colliding c (body_bytes ` S)" "set us \<union> set (chain_txs bs) \<subseteq> S"
  shows "seen_ok c (us @ chain_txs bs) v'"
  using assms(1-6,10)
proof (induction bs arbitrary: h v us)
  case (Cons b bs)
  then obtain w where w: "ledger_block c p (int h) b v = Some w"
    and rest: "ledger_chain c p (int (Suc h)) bs w = Some v'"
    by (auto split: option.splits simp: add.commute)
  have shape: "block_shape (int h) b" "chain_shape (int (Suc h)) bs"
    using Cons.prems(4) by (simp_all add: add.commute)
  have seen: "seen_ok c (us @ bk_transactions b) w"
    using Cons.prems by (intro seen_block [OF w _ _ shape(1) _ _ assms(7,9)]) auto
  have ok: "coins_ok w"
    using ledger_block_sum [OF w shape(1) assms(7) block_shape_fits [OF shape(1)] Cons.prems(3)]
      subsidy_eq [of p h] assms(8) by (auto simp: params_ok_def)
  have "seen_ok c ((us @ bk_transactions b) @ chain_txs bs) v'"
  proof (rule Cons.IH [OF rest seen ok shape(2)])
    show "\<forall>u \<in> set (us @ bk_transactions b). tx_ok u"
      using Cons.prems(5) block_shape_txs(2) [OF shape(1)] by auto
    show "\<forall>u \<in> set (us @ bk_transactions b). \<forall>k. coinbase_height u = Inr k \<longrightarrow> k < int (Suc h)"
      using Cons.prems(6) block_shape_txs(3) [OF shape(1)] by force
    show "set (us @ bk_transactions b) \<union> set (chain_txs bs) \<subseteq> S"
      using Cons.prems(7) by auto
  qed
  then show ?case by simp
qed simp

text \<open>
  The two facts about a chain that starts at genesis: the coins are covered by the subsidies, and
  the ids of its transactions are pairwise different.
\<close>

lemma genesis_chain_supply:
  assumes "ledger_chain c p 0 bs (\<lambda>_. None) = Some v" "chain_shape 0 bs" "crypto_ok c" "params_ok p"
  shows "coins_ok v" "ledger_sum v \<le> total_subsidy p (length bs)" "ledger_sum v \<le> MAX_MONEY"
proof -
  have "coins_ok v \<and> ledger_sum v \<le> total_subsidy p (length bs)"
    using ledger_chain_sum [of c p 0 bs "\<lambda>_. None" v] assms
    by (simp add: total_subsidy_def ledger_sum_def)
  then show "coins_ok v" "ledger_sum v \<le> total_subsidy p (length bs)" "ledger_sum v \<le> MAX_MONEY"
    using total_subsidy_max_money [OF assms(4), of "length bs"] by auto
qed

lemma genesis_chain_seen:
  assumes "ledger_chain c p 0 bs (\<lambda>_. None) = Some v" "chain_shape 0 bs" "crypto_ok c" "params_ok p"
    and "\<not> colliding c (body_bytes ` set (chain_txs bs))"
  shows "seen_ok c (chain_txs bs) v"
  using seen_chain [of c p 0 bs "\<lambda>_. None" v "[]" "set (chain_txs bs)"] assms
  by (simp add: seen_ok_def)

text \<open>So a block never recreates an outpoint that is still unspent below it.\<close>

lemma genesis_chain_fresh:
  assumes "ledger_chain c p 0 bs (\<lambda>_. None) = Some v"
    and "ledger_chain c p 0 (bs @ [b]) (\<lambda>_. None) = Some w" "chain_shape 0 (bs @ [b])"
    and "crypto_ok c" "params_ok p" "\<not> colliding c (body_bytes ` set (chain_txs (bs @ [b])))"
    and "t \<in> set (bk_transactions b)" "op \<in> set (tx_outpoints c t)"
  shows "v op = None"
proof (rule ccontr)
  assume "v op \<noteq> None"
  have "seen_ok c (chain_txs (bs @ [b])) w"
    by (rule genesis_chain_seen [OF assms(2-6)])
  then have "txid c t \<notin> txid c ` set (chain_txs bs)"
    using assms(7) by (auto simp: seen_ok_def)
  moreover have "seen_ok c (chain_txs bs) v"
    using assms(1,3-6) by (intro genesis_chain_seen [of c p])
      (auto simp: chain_shape_append colliding_def)
  then have "op_txid op \<in> txid c ` set (chain_txs bs)"
    using \<open>v op \<noteq> None\<close> by (auto simp: seen_ok_def)
  ultimately show False
    using tx_outpoints_txid [OF assms(8)] by simp
qed

end
