(* ===== verification/Storage.thy ===== *)
theory Storage
  imports Block Utxo "HOL-Library.Product_Lexorder" "HOL-Library.List_Lexorder"
begin

text \<open>
  \<^verbatim>\<open>core/storage.py\<close>: the database. Every SQLite table is an association list under its primary key;
  a query that returns several rows returns them in table order, or sorted by its \<^verbatim>\<open>ORDER BY\<close>.

  A row of \<^verbatim>\<open>blocks\<close> holds the header and, until it is pruned, the block instead of the \<^verbatim>\<open>raw\<close> column;
  \<open>raw_column\<close> is the column, and reading it back gives these values (\<open>raw_column_reads_back\<close>). The
  \<^verbatim>\<open>undo\<close> table keeps its bytes. The metadata table has the two keys the code uses. A sequence of
  updates inside \<^verbatim>\<open>with storage.write()\<close> is a function from the old database to a result with the
  new one: an exception carries no database, which is the rollback.

  Not modelled: opening, schema migration and vacuuming, the read cache of deserialised blocks,
  the cached size statistics, and \<^verbatim>\<open>inspect_database\<close>.
\<close>

section \<open>Data\<close>

definition UNDO_KEEP_BLOCKS :: int where
  "UNDO_KEEP_BLOCKS = 2000"

record block_row =
  br_height :: int
  br_prev_hash :: bytes
  br_chainwork :: int
  br_in_chain :: bool
  br_timestamp :: int
  br_header :: block_header
  br_body :: "block option"
  br_tx_count :: nat

record header_row =
  hr_height :: int
  hr_prev_hash :: bytes
  hr_chainwork :: int
  hr_header :: block_header

record tx_location =
  tl_block_hash :: bytes
  tl_position :: nat
  tl_height :: int

record history_row =
  ah_height :: int
  ah_received :: int
  ah_sent :: int
  ah_coinbase :: bool

record storage =
  st_tip :: "bytes option"
  st_prune_height :: "int option"
  st_blocks :: "(bytes \<times> block_row) list"
  st_utxo :: "(outpoint \<times> coin) list"
  st_undo :: "(bytes \<times> bytes) list"
  st_headers :: "(bytes \<times> header_row) list"
  st_tx_location :: "(bytes \<times> tx_location) list"
  st_address_history :: "((bytes \<times> bytes) \<times> history_row) list"

definition empty_storage :: storage where
  "empty_storage = \<lparr>st_tip = None, st_prune_height = None, st_blocks = [], st_utxo = [], st_undo = [],
     st_headers = [], st_tx_location = [], st_address_history = []\<rparr>"

record block_index_entry =
  be_hash :: bytes
  be_height :: int
  be_prev_hash :: bytes
  be_chainwork :: int
  be_in_chain :: bool
  be_header :: block_header
  be_pruned :: bool

definition be_timestamp :: "block_index_entry \<Rightarrow> int" where
  "be_timestamp e = bh_timestamp (be_header e)"

definition be_bits :: "block_index_entry \<Rightarrow> int" where
  "be_bits e = bh_bits (be_header e)"

record header_entry_rec =
  he_hash :: bytes
  he_height :: int
  he_prev_hash :: bytes
  he_chainwork :: int
  he_header :: block_header

record prune_result =
  pr_blocks :: nat
  pr_transactions :: nat
  pr_freed_bytes :: int
  pr_prune_height :: int

definition raw_column :: "block_row \<Rightarrow> bytes" where
  "raw_column r = (case br_body r of
       Some b \<Rightarrow> written (block_serialize b)
     | None \<Rightarrow> written (header_serialize (br_header r)))"

text \<open>A cumulative work is stored in 32 bytes.\<close>

definition work_to_blob :: "int \<Rightarrow> bytes result" where
  "work_to_blob work =
     (if work < 0 then Inl (StorageError ''cumulative work must not be negative'')
      else if \<not> fits 32 work then Inl OverflowError
      else Inr (to_be 32 work))"

definition blob_to_work :: "bytes \<Rightarrow> int" where
  "blob_to_work blob = from_be blob"

section \<open>The block index\<close>

definition set_tip :: "bytes \<Rightarrow> storage \<Rightarrow> storage" where
  "set_tip h s = s\<lparr>st_tip := Some h\<rparr>"

definition entry_of :: "bytes \<Rightarrow> block_row \<Rightarrow> block_index_entry" where
  "entry_of h r = \<lparr>be_hash = h, be_height = br_height r, be_prev_hash = br_prev_hash r,
     be_chainwork = br_chainwork r, be_in_chain = br_in_chain r, be_header = br_header r,
     be_pruned = (br_body r = None)\<rparr>"

definition put_block ::
    "crypto \<Rightarrow> block \<Rightarrow> int \<Rightarrow> int \<Rightarrow> bool \<Rightarrow> storage \<Rightarrow> (block_index_entry \<times> storage) result" where
  "put_block c b height chainwork in_chain s =
     bnd (work_to_blob chainwork) (\<lambda>blob.
       let h = block_hash c b;
           r = \<lparr>br_height = height, br_prev_hash = bh_prev_hash (bk_header b),
                br_chainwork = blob_to_work blob, br_in_chain = in_chain,
                br_timestamp = bh_timestamp (bk_header b), br_header = bk_header b, br_body = Some b,
                br_tx_count = length (bk_transactions b)\<rparr>
       in Inr (\<lparr>be_hash = h, be_height = height, be_prev_hash = bh_prev_hash (bk_header b),
                be_chainwork = chainwork, be_in_chain = in_chain, be_header = bk_header b,
                be_pruned = False\<rparr>, s\<lparr>st_blocks := AList.update h r (st_blocks s)\<rparr>))"

definition has_block :: "storage \<Rightarrow> bytes \<Rightarrow> bool" where
  "has_block s h \<longleftrightarrow> map_of (st_blocks s) h \<noteq> None"

definition get_entry :: "storage \<Rightarrow> bytes \<Rightarrow> block_index_entry option" where
  "get_entry s h = map_option (entry_of h) (map_of (st_blocks s) h)"

definition get_block :: "storage \<Rightarrow> bytes \<Rightarrow> block option" where
  "get_block s h = Option.bind (map_of (st_blocks s) h) br_body"

definition set_in_chain :: "bytes \<Rightarrow> bool \<Rightarrow> storage \<Rightarrow> storage" where
  "set_in_chain h v s =
     s\<lparr>st_blocks := map (\<lambda>(k, r). (k, if k = h then r\<lparr>br_in_chain := v\<rparr> else r)) (st_blocks s)\<rparr>"

definition all_entries :: "storage \<Rightarrow> block_index_entry list" where
  "all_entries s = map (\<lambda>(h, r). entry_of h r) (st_blocks s)"

definition get_chain_entry :: "storage \<Rightarrow> int \<Rightarrow> block_index_entry option" where
  "get_chain_entry s height =
     find (\<lambda>e. be_in_chain e \<and> be_height e = height) (all_entries s)"

definition chain_samples :: "storage \<Rightarrow> int list \<Rightarrow> (int \<times> int \<times> int \<times> int) list" where
  "chain_samples s heights =
     map (\<lambda>e. (be_height e, be_chainwork e, be_timestamp e, be_bits e))
       (filter (\<lambda>e. be_in_chain e \<and> be_height e \<in> set heights) (all_entries s))"

definition children_of :: "storage \<Rightarrow> bytes \<Rightarrow> block_index_entry list" where
  "children_of s h = filter (\<lambda>e. be_prev_hash e = h) (all_entries s)"

definition best_entries :: "storage \<Rightarrow> nat \<Rightarrow> block_index_entry list" where
  "best_entries s limit =
     take limit (sort_key (\<lambda>e. (- be_chainwork e, - be_height e)) (all_entries s))"

definition count_blocks_since :: "storage \<Rightarrow> int \<Rightarrow> nat" where
  "count_blocks_since s t = length (filter (\<lambda>(h, r). br_in_chain r \<and> br_timestamp r \<ge> t) (st_blocks s))"

definition count_transactions :: "storage \<Rightarrow> int \<Rightarrow> int \<Rightarrow> nat" where
  "count_transactions s start_height end_height =
     (if end_height < start_height then 0
      else sum_list (map (br_tx_count \<circ> snd)
        (filter (\<lambda>(h, r). br_in_chain r \<and> start_height \<le> br_height r \<and> br_height r \<le> end_height)
          (st_blocks s))))"

definition block_count :: "storage \<Rightarrow> nat" where
  "block_count s = length (st_blocks s)"

section \<open>Headers\<close>

definition put_header :: "crypto \<Rightarrow> block_header \<Rightarrow> int \<Rightarrow> int \<Rightarrow> storage \<Rightarrow> storage result" where
  "put_header c h height chainwork s =
     bnd (work_to_blob chainwork) (\<lambda>blob.
       Inr (s\<lparr>st_headers := AList.update (header_hash c h)
         \<lparr>hr_height = height, hr_prev_hash = bh_prev_hash h, hr_chainwork = blob_to_work blob, hr_header = h\<rparr>
         (st_headers s)\<rparr>))"

definition has_header :: "storage \<Rightarrow> bytes \<Rightarrow> bool" where
  "has_header s h \<longleftrightarrow> map_of (st_headers s) h \<noteq> None"

definition header_entry_of :: "bytes \<Rightarrow> header_row \<Rightarrow> header_entry_rec" where
  "header_entry_of h r = \<lparr>he_hash = h, he_height = hr_height r, he_prev_hash = hr_prev_hash r,
     he_chainwork = hr_chainwork r, he_header = hr_header r\<rparr>"

definition header_entry :: "storage \<Rightarrow> bytes \<Rightarrow> header_entry_rec option" where
  "header_entry s h = map_option (header_entry_of h) (map_of (st_headers s) h)"

definition best_header :: "storage \<Rightarrow> header_entry_rec option" where
  "best_header s =
     (case sort_key (\<lambda>e. (- he_chainwork e, - he_height e)) (map (\<lambda>(h, r). header_entry_of h r) (st_headers s)) of
        [] \<Rightarrow> None | e # _ \<Rightarrow> Some e)"

definition header_count :: "storage \<Rightarrow> nat" where
  "header_count s = length (st_headers s)"

text \<open>
  The loop of \<^verbatim>\<open>remove_headers_from\<close>. \<^verbatim>\<open>pending\<close> is kept top first, so the children found are pushed in
  reverse. Every round that goes on deletes a row.
\<close>

lemma length_delete_less: "map_of t k = Some v \<Longrightarrow> length (AList.delete k t) < length t"
  by (induction t) (auto simp: AList.delete_eq less_Suc_eq_le split: if_splits)

function remove_headers_loop :: "bytes list \<Rightarrow> nat \<Rightarrow> (bytes \<times> header_row) list \<Rightarrow> nat \<times> (bytes \<times> header_row) list" where
  "remove_headers_loop [] count t = (count, t)"
| "remove_headers_loop (current # pending) count t =
     (case map_of t current of
        None \<Rightarrow> remove_headers_loop pending count t
      | Some _ \<Rightarrow>
          let t' = AList.delete current t in
          remove_headers_loop
            (rev (map fst (filter (\<lambda>(h, r). hr_prev_hash r = current) t')) @ pending) (count + 1) t')"
  by pat_completeness auto
termination
  by (relation "measures [\<lambda>(p, n, t). length t, \<lambda>(p, n, t). length p]") (auto dest: length_delete_less)

definition remove_headers_from :: "bytes \<Rightarrow> storage \<Rightarrow> nat \<times> storage" where
  "remove_headers_from h s =
     (case remove_headers_loop [h] 0 (st_headers s) of (n, t) \<Rightarrow> (n, s\<lparr>st_headers := t\<rparr>))"

section \<open>Coins\<close>

definition get_coin :: "storage \<Rightarrow> coin_view" where
  "get_coin s op = map_of (st_utxo s) op"

definition add_coin :: "outpoint \<Rightarrow> coin \<Rightarrow> storage \<Rightarrow> storage" where
  "add_coin op k s = s\<lparr>st_utxo := AList.update op k (st_utxo s)\<rparr>"

definition remove_coin :: "outpoint \<Rightarrow> storage \<Rightarrow> storage" where
  "remove_coin op s = s\<lparr>st_utxo := AList.delete op (st_utxo s)\<rparr>"

definition coins_of :: "storage \<Rightarrow> bytes \<Rightarrow> int option \<Rightarrow> int \<Rightarrow> (outpoint \<times> coin) list" where
  "coins_of s payload limit offset =
     (let rows = sort_key (\<lambda>(op, k). (co_height k, op_txid op, op_index op))
                   (filter (\<lambda>(op, k). co_payload k = payload) (st_utxo s))
      in case limit of None \<Rightarrow> rows | Some n \<Rightarrow> take (nat (max 0 n)) (drop (nat (max 0 offset)) rows))"

definition utxo_stats :: "storage \<Rightarrow> nat \<times> int" where
  "utxo_stats s = (length (st_utxo s), table_sum co_value (st_utxo s))"

section \<open>Undo records\<close>

definition w_undo_item :: "outpoint \<times> coin \<Rightarrow> writer \<Rightarrow> writer result" where
  "w_undo_item item w =
     bnd (w_hash32 (op_txid (fst item)) w) (\<lambda>w.
     bnd (w_uint32 (op_index (fst item)) w) (\<lambda>w.
     bnd (coin_serialize (snd item)) (\<lambda>b. w_raw b w)))"

definition undo_encode :: "(outpoint \<times> coin) list \<Rightarrow> bytes result" where
  "undo_encode spent = bnd (w_varint (int (length spent)) []) (foldR w_undo_item spent)"

definition put_undo :: "bytes \<Rightarrow> (outpoint \<times> coin) list \<Rightarrow> storage \<Rightarrow> storage result" where
  "put_undo h spent s =
     bnd (undo_encode spent) (\<lambda>data. Inr (s\<lparr>st_undo := AList.update h data (st_undo s)\<rparr>))"

definition r_undo_item :: "reader \<Rightarrow> ((outpoint \<times> coin) \<times> reader) result" where
  "r_undo_item s =
     bnd (r_hash32 s) (\<lambda>(t, s).
     bnd (r_uint32 s) (\<lambda>(i, s).
     bnd (mk_outpoint t i) (\<lambda>op.
     bnd (coin_read s) (\<lambda>(k, s). Inr ((op, k), s)))))"

definition get_undo :: "storage \<Rightarrow> bytes \<Rightarrow> (outpoint \<times> coin) list result" where
  "get_undo s h =
     (case map_of (st_undo s) h of
        None \<Rightarrow> Inl (StorageError ''missing undo data for block'')
      | Some data \<Rightarrow>
          bnd (r_varint data) (\<lambda>(n, r).
          bnd (r_times (nat n) r_undo_item r) (\<lambda>(spent, r).
          bnd (expect_end r) (\<lambda>_. Inr spent))))"

definition delete_undo :: "bytes \<Rightarrow> storage \<Rightarrow> storage" where
  "delete_undo h s = s\<lparr>st_undo := AList.delete h (st_undo s)\<rparr>"

definition prune_undo_at_height :: "int \<Rightarrow> storage \<Rightarrow> storage" where
  "prune_undo_at_height height s =
     (if height < 0 then s
      else case get_chain_entry s height of None \<Rightarrow> s | Some e \<Rightarrow> delete_undo (be_hash e) s)"

section \<open>Indexes\<close>

definition index_transaction ::
    "crypto \<Rightarrow> transaction \<Rightarrow> bytes \<Rightarrow> nat \<Rightarrow> int \<Rightarrow> (bytes \<times> int \<times> int) list \<Rightarrow> storage \<Rightarrow> storage" where
  "index_transaction c t bhash position height deltas s =
     (let i = txid c t;
          s = s\<lparr>st_tx_location := AList.update i
                \<lparr>tl_block_hash = bhash, tl_position = position, tl_height = height\<rparr> (st_tx_location s)\<rparr>
      in s\<lparr>st_address_history := fold (\<lambda>(a, received, sent).
             AList.update (a, i) \<lparr>ah_height = height, ah_received = received, ah_sent = sent,
               ah_coinbase = is_coinbase t\<rparr>) deltas (st_address_history s)\<rparr>)"

definition unindex_transaction :: "bytes \<Rightarrow> storage \<Rightarrow> storage" where
  "unindex_transaction i s =
     s\<lparr>st_tx_location := AList.delete i (st_tx_location s),
       st_address_history := filter (\<lambda>((a, i'), r). i' \<noteq> i) (st_address_history s)\<rparr>"

definition unindex_transactions :: "bytes list \<Rightarrow> storage \<Rightarrow> storage" where
  "unindex_transactions txids s =
     s\<lparr>st_tx_location := filter (\<lambda>(i, l). i \<notin> set txids) (st_tx_location s),
       st_address_history := filter (\<lambda>((a, i), r). i \<notin> set txids) (st_address_history s)\<rparr>"

definition get_tx_location :: "storage \<Rightarrow> bytes \<Rightarrow> tx_location option" where
  "get_tx_location s i = map_of (st_tx_location s) i"

definition address_history :: "storage \<Rightarrow> bytes \<Rightarrow> nat \<Rightarrow> (bytes \<times> history_row) list" where
  "address_history s a limit =
     take limit (sort_key (\<lambda>(i, r). - ah_height r)
       (map (\<lambda>((_, i), r). (i, r)) (filter (\<lambda>((a', i), r). a' = a) (st_address_history s))))"

section \<open>Pruning\<close>

definition prune_height :: "storage \<Rightarrow> int" where
  "prune_height s = (case st_prune_height s of None \<Rightarrow> 0 | Some h \<Rightarrow> h)"

definition prunable_blocks :: "storage \<Rightarrow> int \<Rightarrow> bytes list" where
  "prunable_blocks s height =
     map be_hash (sort_key be_height
       (filter (\<lambda>e. \<not> be_pruned e \<and> 1 \<le> be_height e \<and> be_height e \<le> height) (all_entries s)))"

definition drop_body :: "bytes \<Rightarrow> storage \<Rightarrow> storage" where
  "drop_body h s =
     s\<lparr>st_blocks := map (\<lambda>(k, r). (k, if k = h then r\<lparr>br_body := None\<rparr> else r)) (st_blocks s)\<rparr>"

definition prune_block :: "crypto \<Rightarrow> bytes \<Rightarrow> nat \<times> int \<times> storage \<Rightarrow> nat \<times> int \<times> storage" where
  "prune_block c h acc =
     (case acc of (transactions, freed, s) \<Rightarrow>
      case get_block s h of
        None \<Rightarrow> (transactions, freed, s)
      | Some b \<Rightarrow>
          let s1 = unindex_transactions (block_txids c b) s;
              undo_size = (case map_of (st_undo s1) h of None \<Rightarrow> 0 | Some d \<Rightarrow> int (length d))
          in (transactions + length (bk_transactions b), freed + block_size b - 80 + undo_size,
              drop_body h (delete_undo h s1)))"

definition prune_to :: "crypto \<Rightarrow> int \<Rightarrow> storage \<Rightarrow> prune_result \<times> storage" where
  "prune_to c height s =
     (let candidates = prunable_blocks s height in
      case fold (prune_block c) candidates (0, 0, s) of (transactions, freed, s') \<Rightarrow>
        let marker = (if candidates \<noteq> [] then max height (prune_height s) else prune_height s);
            s'' = (if candidates \<noteq> [] then s'\<lparr>st_prune_height := Some marker\<rparr> else s')
        in (\<lparr>pr_blocks = length candidates, pr_transactions = transactions, pr_freed_bytes = freed,
              pr_prune_height = marker\<rparr>, s''))"

section \<open>The coin set\<close>

interpretation db: coin_store get_coin add_coin remove_coin
  by unfold_locales (auto simp: get_coin_def add_coin_def remove_coin_def fun_eq_iff)

lemma coin_frames [simp]:
  "st_blocks (add_coin op k s) = st_blocks s" "st_blocks (remove_coin op s) = st_blocks s"
  "st_undo (add_coin op k s) = st_undo s" "st_undo (remove_coin op s) = st_undo s"
  "st_tip (add_coin op k s) = st_tip s" "st_tip (remove_coin op s) = st_tip s"
  by (simp_all add: add_coin_def remove_coin_def)

lemma fold_coin_frames [simp]:
  "st_blocks (fold (\<lambda>(op, k). add_coin op k) kvs s) = st_blocks s"
  "st_undo (fold (\<lambda>(op, k). add_coin op k) kvs s) = st_undo s"
  "st_tip (fold (\<lambda>(op, k). add_coin op k) kvs s) = st_tip s"
  "st_blocks (fold remove_coin ops s) = st_blocks s"
  "st_undo (fold remove_coin ops s) = st_undo s"
  "st_tip (fold remove_coin ops s) = st_tip s"
  by (induction kvs arbitrary: s, auto) (induction ops arbitrary: s, auto)+

section \<open>Undo records\<close>

definition wf_undo_item :: "outpoint \<times> coin \<Rightarrow> bool" where
  "wf_undo_item item \<longleftrightarrow> wf_outpoint (fst item) \<and> wf_coin (snd item)"

definition undo_item_bytes :: "outpoint \<times> coin \<Rightarrow> bytes" where
  "undo_item_bytes item = op_txid (fst item) @ to_le 4 (op_index (fst item)) @ coin_bytes (snd item)"

lemma w_undo_items:
  "list_all wf_undo_item us \<Longrightarrow> foldR w_undo_item us w = Inr (w @ concat (map undo_item_bytes us))"
proof (induction us arbitrary: w)
  case (Cons u us)
  then have "w_undo_item u w = Inr (w @ undo_item_bytes u)"
    by (simp add: w_undo_item_def wf_undo_item_def wf_outpoint_def undo_item_bytes_def bnd_eq_Inr
        w_hash32_iff w_uint_iffs coin_serialize_wf w_raw_iff)
  with Cons show ?case by simp
qed simp

lemma r_undo_items:
  "list_all wf_undo_item us \<Longrightarrow>
     r_times (length us) r_undo_item (concat (map undo_item_bytes us) @ s) = Inr (us, s)"
proof (induction us)
  case (Cons u us)
  then have "r_undo_item (undo_item_bytes u @ r) = Inr (u, r)" for r
    by (cases u) (simp add: r_undo_item_def wf_undo_item_def wf_outpoint_def undo_item_bytes_def
        h32.dec_enc u32.dec_enc coin_read_bytes mk_outpoint_def fits_4_iff)
  with Cons show ?case by simp
qed simp

lemma undo_encode_wf:
  assumes "list_all wf_undo_item us" "fits 8 (int (length us))"
  shows "undo_encode us = Inr (varint_bytes (int (length us)) @ concat (map undo_item_bytes us))"
proof -
  have "w_varint (int (length us)) [] = Inr (varint_bytes (int (length us)))"
    using assms(2) by (simp add: w_varint_iff)
  then show ?thesis
    by (simp add: undo_encode_def w_undo_items [OF assms(1)])
qed

lemma put_get_undo:
  assumes "put_undo h us s = Inr s'" "list_all wf_undo_item us" "fits 8 (int (length us))"
    and "map_of (st_undo s'') h = map_of (st_undo s') h"
  shows "get_undo s'' h = Inr us"
proof -
  have "map_of (st_undo s'') h = Some (varint_bytes (int (length us)) @ concat (map undo_item_bytes us))"
    using assms by (auto simp: put_undo_def undo_encode_wf bnd_eq_Inr)
  then show ?thesis
    using assms(3) r_undo_items [OF assms(2), of "[]"]
    by (simp add: get_undo_def vint.dec_enc expect_end_def remaining_def)
qed

section \<open>The raw column\<close>

lemma raw_column_reads_back:
  assumes "block_ok b"
  shows "block_deserialize (raw_column (r\<lparr>br_body := Some b\<rparr>)) = Inr b"
    and "header_deserialize (take 80 (raw_column (r\<lparr>br_body := Some b\<rparr>))) = Inr (bk_header b)"
proof -
  have raw: "raw_column (r\<lparr>br_body := Some b\<rparr>) = block_bytes b"
    using assms by (simp add: raw_column_def)
  show "block_deserialize (raw_column (r\<lparr>br_body := Some b\<rparr>)) = Inr b"
    using assms by (simp add: raw block_deserialize_iff)
  have wf: "wf_block_header (bk_header b)" using assms by (simp add: block_ok_def)
  then have "take 80 (block_bytes b) = header_bytes (bk_header b)"
    by (simp add: block_bytes_def length_header_bytes)
  then show "header_deserialize (take 80 (raw_column (r\<lparr>br_body := Some b\<rparr>))) = Inr (bk_header b)"
    using wf bhdr.dec_enc [OF wf, of "[]"]
    by (simp add: raw header_deserialize_def BLOCK_HEADER_SIZE_def length_header_bytes)
qed

lemma blob_to_work_to_blob: "work_to_blob w = Inr b \<Longrightarrow> blob_to_work b = w"
  by (auto simp: work_to_blob_def blob_to_work_def from_be_def to_be_def guard_eq_Inr)

section \<open>The block index\<close>

lemma map_of_map_rows: "map_of (map (\<lambda>(k, r). (k, f k r)) t) k' = map_option (f k') (map_of t k')"
  by (induction t) auto

lemma get_entry_set_in_chain:
  "get_entry (set_in_chain h v s) h' =
     map_option (\<lambda>e. if h' = h then e\<lparr>be_in_chain := v\<rparr> else e) (get_entry s h')"
  by (cases "map_of (st_blocks s) h'") (auto simp: get_entry_def set_in_chain_def map_of_map_rows entry_of_def)

lemma get_block_set_in_chain [simp]: "get_block (set_in_chain h v s) h' = get_block s h'"
  by (cases "map_of (st_blocks s) h'") (auto simp: get_block_def set_in_chain_def map_of_map_rows)

lemma set_in_chain_frames [simp]:
  "st_utxo (set_in_chain h v s) = st_utxo s" "st_undo (set_in_chain h v s) = st_undo s"
  "st_tip (set_in_chain h v s) = st_tip s" "get_coin (set_in_chain h v s) = get_coin s"
  "has_block (set_in_chain h v s) h' = has_block s h'"
  by (auto simp: set_in_chain_def get_coin_def fun_eq_iff has_block_def map_of_map_rows)

lemma set_all_entries:
  assumes "keys_distinct (st_blocks s)"
  shows "e \<in> set (all_entries s) \<longleftrightarrow> get_entry s (be_hash e) = Some e"
proof -
  have "(h, r) \<in> set (st_blocks s) \<longleftrightarrow> map_of (st_blocks s) h = Some r" for h r
    using assms by (simp add: eq_commute [of _ "Some r"])
  moreover have "e \<in> set (all_entries s) \<longleftrightarrow> (\<exists>r. (be_hash e, r) \<in> set (st_blocks s) \<and> e = entry_of (be_hash e) r)"
    by (force simp: all_entries_def entry_of_def)
  ultimately show ?thesis
    by (auto simp: get_entry_def)
qed

lemma get_chain_entry_Some:
  assumes "keys_distinct (st_blocks s)" "get_chain_entry s k = Some e"
  shows "get_entry s (be_hash e) = Some e" "be_in_chain e" "be_height e = k"
  using assms set_all_entries [OF assms(1), of e]
  by (auto simp: get_chain_entry_def find_Some_iff in_set_conv_nth)

lemma get_entry_hash: "get_entry s h = Some e \<Longrightarrow> be_hash e = h"
  by (auto simp: get_entry_def entry_of_def)

lemma keys_distinct_set_in_chain [simp]:
  "keys_distinct (st_blocks (set_in_chain h v s)) \<longleftrightarrow> keys_distinct (st_blocks s)"
  by (simp add: set_in_chain_def case_prod_unfold comp_def)

lemma put_block_effect:
  assumes "put_block c b height work ic s = Inr (e, s')"
  shows "get_entry s' h = (if h = block_hash c b then Some e else get_entry s h)"
    and "get_block s' h = (if h = block_hash c b then Some b else get_block s h)"
    and "st_utxo s' = st_utxo s" "st_undo s' = st_undo s" "st_tip s' = st_tip s"
    and "be_hash e = block_hash c b" "be_chainwork e = work" "be_height e = height" "be_in_chain e = ic"
    and "be_header e = bk_header b" "be_prev_hash e = bh_prev_hash (bk_header b)"
  using assms blob_to_work_to_blob
  by (auto simp: put_block_def bnd_eq_Inr Let_def get_entry_def get_block_def entry_of_def)

section \<open>Pruning\<close>

lemma prune_block_effect:
  assumes "prune_block c h (n, f, s) = (n', f', s')"
  shows "map_of (st_blocks s') k =
      (if k = h then map_option (\<lambda>r. r\<lparr>br_body := None\<rparr>) (map_of (st_blocks s) k) else map_of (st_blocks s) k)"
    and "st_utxo s' = st_utxo s" "st_tip s' = st_tip s" "st_headers s' = st_headers s"
    and "k \<noteq> h \<Longrightarrow> map_of (st_undo s') k = map_of (st_undo s) k"
proof -
  note eqs = prune_block_def get_block_def drop_body_def delete_undo_def unindex_transactions_def
  show "map_of (st_blocks s') k =
      (if k = h then map_option (\<lambda>r. r\<lparr>br_body := None\<rparr>) (map_of (st_blocks s) k) else map_of (st_blocks s) k)"
  proof (cases "map_of (st_blocks s) h")
    case None
    then show ?thesis using assms by (auto simp: eqs)
  next
    case (Some r)
    then show ?thesis
      using assms by (cases "br_body r") (auto simp: eqs Let_def map_of_map_rows option.map_ident split: option.splits)
  qed
  show "st_utxo s' = st_utxo s" "st_tip s' = st_tip s" "st_headers s' = st_headers s"
    using assms by (auto simp: eqs Let_def split: option.splits bind_splits)
  show "map_of (st_undo s') k = map_of (st_undo s) k" if "k \<noteq> h"
    using assms that by (auto simp: eqs Let_def split: option.splits bind_splits)
qed

lemma prune_blocks_effect:
  assumes "fold (prune_block c) hs (n, f, s) = (n', f', s')"
  shows "map_of (st_blocks s') k = (if k \<in> set hs then map_option (\<lambda>r. r\<lparr>br_body := None\<rparr>) (map_of (st_blocks s) k)
      else map_of (st_blocks s) k) \<and>
    st_utxo s' = st_utxo s \<and> st_tip s' = st_tip s \<and> st_headers s' = st_headers s \<and>
    (k \<notin> set hs \<longrightarrow> map_of (st_undo s') k = map_of (st_undo s) k)"
  using assms
proof (induction hs arbitrary: n f s)
  case Nil
  then show ?case by simp
next
  case (Cons h hs)
  obtain n1 f1 s1 where s1: "prune_block c h (n, f, s) = (n1, f1, s1)"
    by (cases "prune_block c h (n, f, s)")
  note step = prune_block_effect(1) [OF s1, of k] prune_block_effect(2-4) [OF s1]
    prune_block_effect(5) [OF s1, of k]
  have rest: "fold (prune_block c) hs (n1, f1, s1) = (n', f', s')"
    using Cons.prems s1 by simp
  show ?case
    using Cons.IH [OF rest] step by (auto simp: option.map_comp comp_def split: if_splits)
qed

lemma prunable_iff:
  assumes "keys_distinct (st_blocks s)"
  shows "h \<in> set (prunable_blocks s height) \<longleftrightarrow>
    (\<exists>e. get_entry s h = Some e \<and> \<not> be_pruned e \<and> 1 \<le> be_height e \<and> be_height e \<le> height)"
proof -
  have "set (prunable_blocks s height) =
      {k. \<exists>r. (k, r) \<in> set (st_blocks s) \<and> br_body r \<noteq> None \<and> 1 \<le> br_height r \<and> br_height r \<le> height}"
    by (force simp: prunable_blocks_def all_entries_def entry_of_def)
  moreover have "(h, r) \<in> set (st_blocks s) \<longleftrightarrow> map_of (st_blocks s) h = Some r" for r
    using assms by (simp add: eq_commute [of _ "Some r"])
  ultimately show ?thesis
    by (auto simp: get_entry_def entry_of_def)
qed

section \<open>Properties\<close>

text \<open>
  Undo records come back: what is stored for a block is read back exactly, and the records of
  other blocks are not touched. (The coins and outpoints have to fit the widths of the record,
  which those of a valid chain do.)
\<close>
theorem undo_roundtrip:
  assumes "list_all wf_undo_item us" "fits 8 (int (length us))"
  shows "\<exists>s'. put_undo h us s = Inr s' \<and> get_undo s' h = Inr us \<and>
    (\<forall>h'. h' \<noteq> h \<longrightarrow> get_undo s' h' = get_undo s h')"
proof -
  obtain s' where s': "put_undo h us s = Inr s'"
    using undo_encode_wf [OF assms] by (simp add: put_undo_def)
  then have "get_undo s' h = Inr us"
    using assms by (intro put_get_undo) auto
  moreover have "get_undo s' h' = get_undo s h'" if "h' \<noteq> h" for h'
    using s' that by (auto simp: put_undo_def bnd_eq_Inr get_undo_def)
  ultimately show ?thesis using s' by blast
qed

lemma prune_to_effect:
  assumes "keys_distinct (st_blocks s)" and "prune_to c height s = (res, s')"
  shows "get_entry s' h = map_option (\<lambda>e.
      if 1 \<le> be_height e \<and> be_height e \<le> height then e\<lparr>be_pruned := True\<rparr> else e) (get_entry s h) \<and>
    get_coin s' = get_coin s \<and> st_tip s' = st_tip s \<and> st_headers s' = st_headers s \<and>
    (\<forall>e. get_entry s h = Some e \<and> height < be_height e \<longrightarrow>
       get_block s' h = get_block s h \<and> get_undo s' h = get_undo s h)"
proof -
  let ?hs = "prunable_blocks s height"
  obtain n f s1 where s1: "fold (prune_block c) ?hs (0, 0, s) = (n, f, s1)"
    by (cases "fold (prune_block c) ?hs (0, 0, s)")
  have s': "st_blocks s' = st_blocks s1" "st_undo s' = st_undo s1" "st_utxo s' = st_utxo s1"
    "st_tip s' = st_tip s1" "st_headers s' = st_headers s1"
    using assms(2) s1 by (auto simp: prune_to_def Let_def)
  note eff = prune_blocks_effect [OF s1, of h]
  show ?thesis
  proof (cases "map_of (st_blocks s) h")
    case None
    then show ?thesis
      using eff s' by (auto simp: get_entry_def get_coin_def fun_eq_iff)
  next
    case (Some r)
    then have "h \<in> set ?hs \<longleftrightarrow> br_body r \<noteq> None \<and> 1 \<le> br_height r \<and> br_height r \<le> height"
      by (auto simp: prunable_iff [OF assms(1)] get_entry_def entry_of_def)
    then show ?thesis
      using eff s' Some by (auto simp: get_entry_def get_coin_def fun_eq_iff entry_of_def get_block_def
          get_undo_def)
  qed
qed

lemma prune_block_weaker:
  assumes "prune_block c h (n, f, s) = (n', f', s')"
  shows "map fst (st_blocks s') = map fst (st_blocks s)"
    and "map_of (st_undo s') k = Some d \<Longrightarrow> map_of (st_undo s) k = Some d"
    and "get_block s' k = Some b \<Longrightarrow> get_block s k = Some b"
proof -
  note eqs = prune_block_def Let_def drop_body_def delete_undo_def unindex_transactions_def
  show "map fst (st_blocks s') = map fst (st_blocks s)"
    using assms by (auto simp: eqs case_prod_unfold comp_def split: option.splits)
  show "map_of (st_undo s) k = Some d" if "map_of (st_undo s') k = Some d"
    using assms that by (auto simp: eqs split: option.splits if_splits)
  show "get_block s k = Some b" if "get_block s' k = Some b"
    using prune_block_effect(1) [OF assms, of k] that by (auto simp: get_block_def bind_eq_Some_conv split: if_splits)
qed

lemma prune_to_weaker:
  assumes "prune_to c height s = (res, s')"
  shows "map fst (st_blocks s') = map fst (st_blocks s)"
    and "map_of (st_undo s') k = Some d \<Longrightarrow> map_of (st_undo s) k = Some d"
    and "get_block s' k = Some b \<Longrightarrow> get_block s k = Some b"
    and "st_utxo s' = st_utxo s"
proof -
  let ?hs = "prunable_blocks s height"
  obtain n f s1 where s1: "fold (prune_block c) ?hs (0, 0, s) = (n, f, s1)"
    by (cases "fold (prune_block c) ?hs (0, 0, s)")
  have s': "st_blocks s' = st_blocks s1" "st_undo s' = st_undo s1" "st_utxo s' = st_utxo s1"
    using assms s1 by (auto simp: prune_to_def Let_def)
  have "map fst (st_blocks s2) = map fst (st_blocks u) \<and>
      (map_of (st_undo s2) k = Some d \<longrightarrow> map_of (st_undo u) k = Some d) \<and>
      (get_block s2 k = Some b \<longrightarrow> get_block u k = Some b)"
    if "fold (prune_block c) hs (m, g, u) = (n', f', s2)" for hs m g u n' f' s2
    using that
  proof (induction hs arbitrary: m g u)
    case (Cons h hs)
    obtain m1 g1 u1 where u1: "prune_block c h (m, g, u) = (m1, g1, u1)" by (cases "prune_block c h (m, g, u)")
    then have "fold (prune_block c) hs (m1, g1, u1) = (n', f', s2)" using Cons.prems by simp
    then show ?case using Cons.IH [of m1 g1 u1] prune_block_weaker [OF u1] by metis
  qed simp
  from this [OF s1] show "map fst (st_blocks s') = map fst (st_blocks s)"
    "map_of (st_undo s') k = Some d \<Longrightarrow> map_of (st_undo s) k = Some d"
    "get_block s' k = Some b \<Longrightarrow> get_block s k = Some b"
    by (auto simp: s' get_block_def)
  show "st_utxo s' = st_utxo s" using prune_blocks_effect [OF s1] s'(3) by simp
qed

text \<open>
  Pruning drops the bodies of exactly the blocks at heights 1 to the horizon, and nothing the
  consensus rules read: every index entry keeps its height, work, header and chain flag, the
  coins, the tip and the headers are untouched, and the blocks above the horizon keep their
  bodies and their undo records.
\<close>
theorem prune_keeps_consensus_state:
  assumes "keys_distinct (st_blocks s)" and "prune_to c height s = (res, s')"
  shows "get_entry s' h = map_option (\<lambda>e.
      if 1 \<le> be_height e \<and> be_height e \<le> height then e\<lparr>be_pruned := True\<rparr> else e) (get_entry s h) \<and>
    get_coin s' = get_coin s \<and> st_tip s' = st_tip s \<and> st_headers s' = st_headers s \<and>
    (\<forall>e. get_entry s h = Some e \<and> height < be_height e \<longrightarrow>
       get_block s' h = get_block s h \<and> get_undo s' h = get_undo s h)"
  using assms by (rule prune_to_effect)

section \<open>Witnesses\<close>

definition demo_coin :: coin where
  "demo_coin = \<lparr>co_value = 6000, co_output_type = OUTPUT_P2PKH, co_payload = replicate 20 9,
     co_height = 1, co_is_coinbase = False\<rparr>"

theorem undo_roundtrip_witness:
  "\<exists>s'. put_undo [1] [(\<lparr>op_txid = replicate 32 7, op_index = 3\<rparr>, demo_coin)] empty_storage = Inr s' \<and>
     get_undo s' [1] = Inr [(\<lparr>op_txid = replicate 32 7, op_index = 3\<rparr>, demo_coin)]"
proof -
  have "list_all wf_undo_item [(\<lparr>op_txid = replicate 32 7, op_index = 3\<rparr>, demo_coin)]"
    by (simp add: wf_undo_item_def wf_outpoint_def wf_coin_def demo_coin_def fits_def OUTPUT_P2PKH_def)
  from undo_roundtrip [OF this, of "[1]" empty_storage] show ?thesis by (auto simp: fits_def)
qed

definition demo_store :: storage where
  "demo_store = empty_storage\<lparr>st_blocks := [([5], \<lparr>br_height = 1, br_prev_hash = [4], br_chainwork = 2,
     br_in_chain = True, br_timestamp = 7, br_header = bk_header demo_block, br_body = Some demo_block,
     br_tx_count = 1\<rparr>)]\<rparr>"

theorem prune_keeps_consensus_state_witness:
  "get_entry (snd (prune_to demo_crypto 3 demo_store)) [5] =
     map_option (\<lambda>e. e\<lparr>be_pruned := True\<rparr>) (get_entry demo_store [5]) \<and>
   get_coin (snd (prune_to demo_crypto 3 demo_store)) = get_coin demo_store"
proof -
  have "keys_distinct (st_blocks demo_store)" by (simp add: demo_store_def)
  moreover obtain r s' where s': "prune_to demo_crypto 3 demo_store = (r, s')"
    by (cases "prune_to demo_crypto 3 demo_store")
  ultimately show ?thesis
    using prune_keeps_consensus_state [of demo_store demo_crypto 3 r s' "[5]"]
    by (simp add: demo_store_def get_entry_def entry_of_def)
qed

end
