(* ===== verification/Connect.thy ===== *)
theory Connect
  imports Ledger Storage
begin

text \<open>
  The part of \<^verbatim>\<open>core/chain.py\<close> that moves one block in or out of the active chain: \<^verbatim>\<open>_connect_block\<close>,
  \<^verbatim>\<open>_disconnect_block\<close>, \<^verbatim>\<open>_index_block\<close> and \<^verbatim>\<open>_apply_block_state\<close>. The lemmas show that connecting
  implements the ledger of \<open>Ledger\<close> and that disconnecting is its inverse.
\<close>

section \<open>Connecting a block\<close>

text \<open>The local variables of \<^verbatim>\<open>_connect_block\<close>.\<close>

record connect_state =
  cs_overlay :: overlay
  cs_spent :: "(outpoint \<times> coin) list"
  cs_undo :: "(outpoint \<times> coin) list"
  cs_created :: "outpoint set"
  cs_fees :: int

definition start_connect :: "coin_view \<Rightarrow> connect_state" where
  "start_connect view = \<lparr>cs_overlay = mk_overlay view, cs_spent = [], cs_undo = [], cs_created = {}, cs_fees = 0\<rparr>"

definition spend_input :: "txinput \<Rightarrow> connect_state \<Rightarrow> connect_state result" where
  "spend_input ti cs =
     bnd (ov_spend (in_prevout ti) (cs_overlay cs)) (\<lambda>(k, ov).
     Inr (cs\<lparr>cs_overlay := ov, cs_spent := AList.update (in_prevout ti) k (cs_spent cs),
             cs_undo := (if in_prevout ti \<notin> cs_created cs then cs_undo cs @ [(in_prevout ti, k)] else cs_undo cs)\<rparr>))"

definition connect_tx ::
    "crypto \<Rightarrow> chain_params \<Rightarrow> bytes \<Rightarrow> int \<Rightarrow> transaction \<Rightarrow> connect_state \<Rightarrow> connect_state result" where
  "connect_tx c p h height t cs =
     (if \<not> check_transaction_final t height then Inl (ConnectError h ''transaction is locked'')
      else
        bnd (if is_coinbase t then Inr cs
             else case check_transaction_inputs c t (ov_get_coin (cs_overlay cs)) height p True of
                 Inl e \<Rightarrow> if is_ValidationError e then Inl (ConnectError h (exn_message e)) else Inl e
               | Inr fee \<Rightarrow> foldR spend_input (tx_inputs t) (cs\<lparr>cs_fees := cs_fees cs + fee\<rparr>)) (\<lambda>cs.
        Inr (cs\<lparr>cs_created := cs_created cs \<union> set (tx_outpoints c t),
                cs_overlay := ov_add_transaction c height t (cs_overlay cs)\<rparr>)))"

definition add_amount :: "bytes \<Rightarrow> int \<Rightarrow> (bytes \<times> int) list \<Rightarrow> (bytes \<times> int) list" where
  "add_amount a v m = AList.update a ((case map_of m a of None \<Rightarrow> 0 | Some w \<Rightarrow> w) + v) m"

definition tx_received :: "transaction \<Rightarrow> (bytes \<times> int) list" where
  "tx_received t = fold (\<lambda>to. add_amount (out_payload to) (out_value to)) (tx_outputs t) []"

definition tx_sent :: "(outpoint \<times> coin) list \<Rightarrow> transaction \<Rightarrow> (bytes \<times> int) list" where
  "tx_sent spent t = fold (\<lambda>ti m.
       case map_of spent (in_prevout ti) of
         None \<Rightarrow> m | Some k \<Rightarrow> add_amount (co_payload k) (co_value k) m) (tx_inputs t) []"

definition tx_deltas :: "(outpoint \<times> coin) list \<Rightarrow> transaction \<Rightarrow> (bytes \<times> int \<times> int) list" where
  "tx_deltas spent t =
     (let received = tx_received t; sent = tx_sent spent t;
          amount = (\<lambda>m a. case map_of m a of None \<Rightarrow> 0 | Some (w :: int) \<Rightarrow> w)
      in map (\<lambda>a. (a, amount received a, amount sent a)) (remdups (map fst received @ map fst sent)))"

definition index_block ::
    "crypto \<Rightarrow> block \<Rightarrow> int \<Rightarrow> (outpoint \<times> coin) list \<Rightarrow> storage \<Rightarrow> storage" where
  "index_block c b height spent s =
     fold (\<lambda>(position, t). index_transaction c t (block_hash c b) position height (tx_deltas spent t))
       (enumerate 0 (bk_transactions b)) s"

definition connect_block ::
    "crypto \<Rightarrow> chain_params \<Rightarrow> block \<Rightarrow> block_index_entry \<Rightarrow> storage \<Rightarrow> storage result" where
  "connect_block c p b e s =
     (let height = be_height e; h = be_hash e in
      bnd (foldR (connect_tx c p h height) (bk_transactions b) (start_connect (get_coin s))) (\<lambda>cs.
      bnd (subsidy p height) (\<lambda>sub.
      bnd (block_coinbase b) (\<lambda>cb.
      if total_output cb > sub + cs_fees cs
      then Inl (ConnectError h ''coinbase pays more than is available'')
      else
        let s = fold remove_coin (ov_spent (cs_overlay cs)) s;
            s = fold (\<lambda>(op, k). add_coin op k) (ov_added (cs_overlay cs)) s
        in bnd (put_undo h (cs_undo cs) s) (\<lambda>s.
           let s = index_block c b height (cs_spent cs) s;
               s = set_in_chain h True s
           in Inr (prune_undo_at_height (height - UNDO_KEEP_BLOCKS) s))))))"

section \<open>The genesis block\<close>

definition apply_block_state ::
    "crypto \<Rightarrow> block \<Rightarrow> int \<Rightarrow> (outpoint \<times> coin) list \<Rightarrow> storage \<Rightarrow> storage" where
  "apply_block_state c b height spent s =
     index_block c b height spent
       (fold (\<lambda>t. fold (\<lambda>(op, k). add_coin op k) (created_coins c height t)) (bk_transactions b) s)"

section \<open>Disconnecting a block\<close>

definition disconnect_block :: "crypto \<Rightarrow> block_index_entry \<Rightarrow> storage \<Rightarrow> (block \<times> storage) result" where
  "disconnect_block c e s =
     (case get_block s (be_hash e) of
        None \<Rightarrow> Inl (ConnectError (be_hash e) ''cannot disconnect a block whose data is missing'')
      | Some b \<Rightarrow>
          let s = fold (\<lambda>t. fold remove_coin (tx_outpoints c t)) (bk_transactions b) s;
              s = unindex_transactions (block_txids c b) s
          in bnd (get_undo s (be_hash e)) (\<lambda>undo.
             let s = fold (\<lambda>(op, k). add_coin op k) undo s
             in Inr (b, set_in_chain (be_hash e) False s)))"

section \<open>Connecting implements the ledger\<close>

text \<open>
  The invariant of the loop over the transactions, for the coins \<open>v\<close> that the block started from:
  what was added is known as created, the undo list holds coins of \<open>v\<close>, and it holds all of them
  that are gone.
\<close>

definition connect_inv :: "coin_view \<Rightarrow> connect_state \<Rightarrow> bool" where
  "connect_inv v cs \<longleftrightarrow> overlay_ok (cs_overlay cs) \<and> ov_base (cs_overlay cs) = v \<and>
     fst ` set (ov_added (cs_overlay cs)) \<subseteq> cs_created cs \<and>
     (\<forall>(op, k) \<in> set (cs_undo cs). v op = Some k) \<and>
     (\<forall>op. op \<notin> cs_created cs \<longrightarrow> ov_get_coin (cs_overlay cs) op = None \<longrightarrow>
        v op = None \<or> op \<in> fst ` set (cs_undo cs))"

lemma connect_inv_start [simp]: "connect_inv v (start_connect v)"
  by (simp add: connect_inv_def start_connect_def) (simp add: mk_overlay_def)

lemma connect_inv_base:
  assumes "connect_inv v cs" "op \<notin> cs_created cs" "ov_get_coin (cs_overlay cs) op = Some k"
  shows "v op = Some k"
proof -
  have "map_of (ov_added (cs_overlay cs)) op = None"
    using assms(1,2) by (auto simp: connect_inv_def map_of_eq_None_iff)
  then show ?thesis
    using assms(1,3) by (auto simp: connect_inv_def ov_get_coin_def split: if_splits)
qed

lemma connect_inv_spend:
  assumes "connect_inv v cs" "spend_input ti cs = Inr cs'"
  shows "connect_inv v cs'"
    and "cs_created cs' = cs_created cs" "cs_fees cs' = cs_fees cs"
    and "ov_get_coin (cs_overlay cs') = (ov_get_coin (cs_overlay cs))(in_prevout ti := None)"
    and "length (cs_undo cs') \<le> Suc (length (cs_undo cs))"
proof -
  obtain k where k: "ov_get_coin (cs_overlay cs) (in_prevout ti) = Some k"
    and cs': "cs' = cs\<lparr>cs_overlay := ov_forget (in_prevout ti) (cs_overlay cs),
        cs_spent := AList.update (in_prevout ti) k (cs_spent cs),
        cs_undo := (if in_prevout ti \<notin> cs_created cs then cs_undo cs @ [(in_prevout ti, k)] else cs_undo cs)\<rparr>"
    using assms(2) by (auto simp: spend_input_def bnd_eq_Inr ov_spend_iff)
  show "cs_created cs' = cs_created cs" "cs_fees cs' = cs_fees cs"
    "length (cs_undo cs') \<le> Suc (length (cs_undo cs))"
    "ov_get_coin (cs_overlay cs') = (ov_get_coin (cs_overlay cs))(in_prevout ti := None)"
    by (simp_all add: cs' ovs.get_remove)
  have added: "ov_added (ov_forget op ov) = AList.delete op (ov_added ov)" for op ov
    by (simp add: ov_forget_def)
  have "fst ` set (AList.delete (in_prevout ti) (ov_added (cs_overlay cs))) \<subseteq> cs_created cs"
    using assms(1) by (auto simp: connect_inv_def AList.delete_eq)
  moreover have "overlay_ok (ov_forget (in_prevout ti) (cs_overlay cs))"
    using assms(1) by (auto simp: connect_inv_def intro: overlay_ok_forget)
  moreover have "in_prevout ti \<notin> cs_created cs \<Longrightarrow> v (in_prevout ti) = Some k"
    using connect_inv_base [OF assms(1) _ k] .
  ultimately show "connect_inv v cs'"
    using assms(1) by (auto simp: connect_inv_def cs' ovs.get_remove added)
qed

lemma connect_inv_spends:
  assumes "connect_inv v cs" "foldR spend_input tis cs = Inr cs'"
  shows "connect_inv v cs' \<and> cs_created cs' = cs_created cs \<and> cs_fees cs' = cs_fees cs \<and>
    ov_get_coin (cs_overlay cs') = ov_get_coin (cs_overlay cs) |` (- set (map in_prevout tis)) \<and>
    length (cs_undo cs') \<le> length tis + length (cs_undo cs)"
  using assms
proof (induction tis arbitrary: cs)
  case Nil
  then show ?case by (simp add: restrict_map_def)
next
  case (Cons ti tis)
  then obtain cs1 where cs1: "spend_input ti cs = Inr cs1" and rest: "foldR spend_input tis cs1 = Inr cs'"
    by (auto simp: bnd_eq_Inr)
  note step = connect_inv_spend [OF Cons.prems(1) cs1]
  show ?case
    using Cons.IH [OF step(1) rest] step(2-5) by (auto simp: restrict_map_def fun_eq_iff)
qed

text \<open>Spending succeeds when the inputs are pairwise different coins of the overlay.\<close>

lemma spends_succeed:
  assumes "distinct (map in_prevout tis)" "set (map in_prevout tis) \<subseteq> dom (ov_get_coin (cs_overlay cs))"
  shows "\<exists>cs'. foldR spend_input tis cs = Inr cs'"
  using assms
proof (induction tis arbitrary: cs)
  case (Cons ti tis)
  then obtain k where k: "ov_get_coin (cs_overlay cs) (in_prevout ti) = Some k" by auto
  then obtain cs1 where cs1: "spend_input ti cs = Inr cs1"
    and view: "ov_get_coin (cs_overlay cs1) = (ov_get_coin (cs_overlay cs))(in_prevout ti := None)"
    by (simp add: spend_input_def ov_spend_def ovs.get_remove)
  have "\<exists>cs'. foldR spend_input tis cs1 = Inr cs'"
    using Cons.prems by (intro Cons.IH) (simp_all only: view dom_fun_upd, simp_all add: subset_Diff_insert)
  then show ?case by (simp add: cs1)
qed simp

lemma connect_inv_add_transaction:
  assumes "connect_inv v cs"
  shows "connect_inv v (cs\<lparr>cs_created := cs_created cs \<union> set (tx_outpoints c t),
    cs_overlay := ov_add_transaction c height t (cs_overlay cs)\<rparr>)"
    and "ov_get_coin (ov_add_transaction c height t (cs_overlay cs)) =
      ov_get_coin (cs_overlay cs) ++ map_of (created_coins c height t)"
proof -
  let ?kvs = "created_coins c height t"
  have fst: "fst ` set ?kvs = set (tx_outpoints c t)"
    by (metis list.set_map map_fst_created)
  show view: "ov_get_coin (ov_add_transaction c height t (cs_overlay cs)) =
      ov_get_coin (cs_overlay cs) ++ map_of ?kvs"
    by (simp add: ov_add_transaction_def ovs.get_add_all map_of_rev_distinct)
  have added: "fst ` set (ov_added (fold (\<lambda>(op, k). ov_add op k) kvs ov)) =
      fst ` set (ov_added ov) \<union> fst ` set kvs" for kvs ov
  proof (induction kvs arbitrary: ov)
    case (Cons kv kvs)
    have "fst ` set (ov_added (ov_add (fst kv) (snd kv) ov)) = insert (fst kv) (fst ` set (ov_added ov))"
      by (simp add: ov_add_def dom_update)
    with Cons show ?case by (simp add: case_prod_unfold)
  qed simp
  have "overlay_ok (ov_add_transaction c height t (cs_overlay cs))"
      "ov_base (ov_add_transaction c height t (cs_overlay cs)) = v"
      "fst ` set (ov_added (ov_add_transaction c height t (cs_overlay cs))) \<subseteq> cs_created cs \<union> set (tx_outpoints c t)"
    using assms by (auto simp only: connect_inv_def ov_add_transaction_def added fst ov_base_add_all overlay_ok_add_all)
  then show "connect_inv v (cs\<lparr>cs_created := cs_created cs \<union> set (tx_outpoints c t),
    cs_overlay := ov_add_transaction c height t (cs_overlay cs)\<rparr>)"
    using assms by (auto simp: connect_inv_def view)
qed

lemma connect_tx_effect:
  assumes "connect_inv v cs" "connect_tx c p h height t cs = Inr cs'"
  shows "\<exists>fee. tx_fee c p height t (ov_get_coin (cs_overlay cs)) = Some fee \<and> connect_inv v cs' \<and>
    cs_fees cs' = cs_fees cs + fee \<and> cs_created cs' = cs_created cs \<union> set (tx_outpoints c t) \<and>
    ov_get_coin (cs_overlay cs') = ledger_tx c height t (ov_get_coin (cs_overlay cs)) \<and>
    length (cs_undo cs') \<le> length (tx_inputs t) + length (cs_undo cs)"
proof -
  let ?view = "ov_get_coin (cs_overlay cs)"
  define fee where "fee = the (tx_fee c p height t ?view)"
  have final: "check_transaction_final t height"
    using assms(2) unfolding connect_tx_def guard_eq_Inr by blast
  then obtain cs1 where spent: "(if is_coinbase t then Inr cs
       else case check_transaction_inputs c t ?view height p True of
           Inl e \<Rightarrow> if is_ValidationError e then Inl (ConnectError h (exn_message e)) else Inl e
         | Inr fee \<Rightarrow> foldR spend_input (tx_inputs t) (cs\<lparr>cs_fees := cs_fees cs + fee\<rparr>)) = Inr cs1"
    and cs': "cs' = cs1\<lparr>cs_created := cs_created cs1 \<union> set (tx_outpoints c t),
        cs_overlay := ov_add_transaction c height t (cs_overlay cs1)\<rparr>"
    using assms(2) by (auto simp: connect_tx_def bnd_eq_Inr)
  have inv: "connect_inv v (cs\<lparr>cs_fees := f\<rparr>)" for f
    using assms(1) by (simp add: connect_inv_def)
  have "tx_fee c p height t ?view = Some fee \<and> connect_inv v cs1 \<and> cs_fees cs1 = cs_fees cs + fee \<and>
      cs_created cs1 = cs_created cs \<and>
      ov_get_coin (cs_overlay cs1) =
        (if is_coinbase t then ?view else ?view |` (- set (map in_prevout (tx_inputs t)))) \<and>
      length (cs_undo cs1) \<le> length (tx_inputs t) + length (cs_undo cs)"
  proof (cases "is_coinbase t")
    case True
    then show ?thesis using spent final assms(1) by (auto simp: fee_def tx_fee_def)
  next
    case False
    then obtain f where "check_transaction_inputs c t ?view height p True = Inr f"
      and "foldR spend_input (tx_inputs t) (cs\<lparr>cs_fees := cs_fees cs + f\<rparr>) = Inr cs1"
      using spent by (auto split: sum.splits if_splits)
    then show ?thesis
      using connect_inv_spends [OF inv] False final by (simp add: fee_def tx_fee_def)
  qed
  then show ?thesis
    using connect_inv_add_transaction [where v = v and cs = cs1 and c = c and t = t and height = height] by (auto simp: cs' ledger_tx_def)
qed

lemma connect_tx_succeeds:
  assumes "tx_fee c p height t (ov_get_coin (cs_overlay cs)) = Some fee" "tx_shape t"
    and "coins_ok (ov_get_coin (cs_overlay cs))"
  shows "\<exists>cs'. connect_tx c p h height t cs = Inr cs'"
proof (cases "is_coinbase t")
  case True
  then show ?thesis using assms(1) by (auto simp: connect_tx_def tx_fee_def split: if_splits)
next
  case False
  then have "check_transaction_final t height"
    "check_transaction_inputs c t (ov_get_coin (cs_overlay cs)) height p True = Inr fee"
    using assms(1) by (auto simp: tx_fee_def split: if_splits sum.splits)
  moreover have "\<exists>cs'. foldR spend_input (tx_inputs t) (cs\<lparr>cs_fees := cs_fees cs + fee\<rparr>) = Inr cs'"
    using tx_fee_spends(1) [OF assms(1) False assms(3,2)] assms(2)
    by (intro spends_succeed) (auto simp: tx_shape_def)
  ultimately show ?thesis using False by (auto simp: connect_tx_def)
qed

lemma connect_txs_effect:
  assumes "connect_inv v cs" "foldR (connect_tx c p h height) ts cs = Inr cs'"
  shows "\<exists>fees. ledger_txs c p height ts (ov_get_coin (cs_overlay cs)) =
      Some (fees, ov_get_coin (cs_overlay cs')) \<and> connect_inv v cs' \<and> cs_fees cs' = cs_fees cs + fees \<and>
    cs_created cs' = cs_created cs \<union> (\<Union>t \<in> set ts. set (tx_outpoints c t)) \<and>
    length (cs_undo cs') \<le> length (concat (map tx_inputs ts)) + length (cs_undo cs)"
  using assms
proof (induction ts arbitrary: cs)
  case (Cons t ts)
  then obtain cs1 where cs1: "connect_tx c p h height t cs = Inr cs1"
    and rest: "foldR (connect_tx c p h height) ts cs1 = Inr cs'"
    by (auto simp: bnd_eq_Inr)
  obtain fee where fee: "tx_fee c p height t (ov_get_coin (cs_overlay cs)) = Some fee" "connect_inv v cs1"
    "cs_fees cs1 = cs_fees cs + fee" "cs_created cs1 = cs_created cs \<union> set (tx_outpoints c t)"
    "ov_get_coin (cs_overlay cs1) = ledger_tx c height t (ov_get_coin (cs_overlay cs))"
    "length (cs_undo cs1) \<le> length (tx_inputs t) + length (cs_undo cs)"
    using connect_tx_effect [OF Cons.prems(1) cs1] by blast
  show ?case
    using Cons.IH [OF fee(2) rest] fee by (auto simp: Un_assoc)
qed simp

lemma connect_txs_succeed:
  assumes "ledger_txs c p height ts (ov_get_coin (cs_overlay cs)) = Some (fees, v')" "connect_inv v cs"
    and "\<forall>t \<in> set ts. tx_shape t" "coins_ok (ov_get_coin (cs_overlay cs))" "crypto_ok c" "fits 4 height"
  shows "\<exists>cs'. foldR (connect_tx c p h height) ts cs = Inr cs'"
  using assms(1-4)
proof (induction ts arbitrary: cs fees)
  case (Cons t ts)
  then obtain f g where f: "tx_fee c p height t (ov_get_coin (cs_overlay cs)) = Some f"
    and g: "ledger_txs c p height ts (ledger_tx c height t (ov_get_coin (cs_overlay cs))) = Some (g, v')"
    unfolding ledger_txs_Cons by blast
  have t: "tx_shape t" using Cons.prems(3) by simp
  obtain cs1 where cs1: "connect_tx c p h height t cs = Inr cs1"
    using connect_tx_succeeds [OF f t Cons.prems(4)] by blast
  then have "connect_inv v cs1"
    and view: "ov_get_coin (cs_overlay cs1) = ledger_tx c height t (ov_get_coin (cs_overlay cs))"
    using connect_tx_effect [OF Cons.prems(2) cs1] by blast+
  then have "\<exists>cs'. foldR (connect_tx c p h height) ts cs1 = Inr cs'"
    using Cons.prems g coins_ok_ledger_tx [OF assms(5) t assms(6) Cons.prems(4)]
    by (intro Cons.IH [of cs1 g]) (simp_all add: view)
  then show ?case by (simp add: cs1)
qed simp

section \<open>Frames\<close>

text \<open>What the index and the undo records leave alone.\<close>

lemma index_transaction_frames [simp]:
  "st_blocks (index_transaction c t h i k ds s) = st_blocks s"
  "st_utxo (index_transaction c t h i k ds s) = st_utxo s"
  "st_undo (index_transaction c t h i k ds s) = st_undo s"
  "st_tip (index_transaction c t h i k ds s) = st_tip s"
  "st_headers (index_transaction c t h i k ds s) = st_headers s"
  by (simp_all add: index_transaction_def Let_def)

lemma index_block_frames [simp]:
  "st_blocks (index_block c b k spent s) = st_blocks s"
  "st_utxo (index_block c b k spent s) = st_utxo s"
  "st_undo (index_block c b k spent s) = st_undo s"
  "st_tip (index_block c b k spent s) = st_tip s"
  "st_headers (index_block c b k spent s) = st_headers s"
proof -
  have "st_blocks (fold (\<lambda>(i, t). index_transaction c t h i k (f t)) its s) = st_blocks s \<and>
      st_utxo (fold (\<lambda>(i, t). index_transaction c t h i k (f t)) its s) = st_utxo s \<and>
      st_undo (fold (\<lambda>(i, t). index_transaction c t h i k (f t)) its s) = st_undo s \<and>
      st_tip (fold (\<lambda>(i, t). index_transaction c t h i k (f t)) its s) = st_tip s \<and>
      st_headers (fold (\<lambda>(i, t). index_transaction c t h i k (f t)) its s) = st_headers s" for h f its
    by (induction its arbitrary: s) auto
  then show "st_blocks (index_block c b k spent s) = st_blocks s"
    "st_utxo (index_block c b k spent s) = st_utxo s"
    "st_undo (index_block c b k spent s) = st_undo s"
    "st_tip (index_block c b k spent s) = st_tip s"
    "st_headers (index_block c b k spent s) = st_headers s"
    by (simp_all add: index_block_def)
qed

lemma prune_undo_frames [simp]:
  "st_blocks (prune_undo_at_height k s) = st_blocks s"
  "st_utxo (prune_undo_at_height k s) = st_utxo s"
  "st_tip (prune_undo_at_height k s) = st_tip s"
  "st_headers (prune_undo_at_height k s) = st_headers s"
  by (simp_all add: prune_undo_at_height_def delete_undo_def split: option.splits)

lemma prune_undo_lookup:
  "map_of (st_undo (prune_undo_at_height k s)) h =
     (if 0 \<le> k \<and> (\<exists>e. get_chain_entry s k = Some e \<and> be_hash e = h) then None else map_of (st_undo s) h)"
  by (auto simp: prune_undo_at_height_def delete_undo_def split: option.splits)

lemma unindex_transactions_frames [simp]:
  "st_blocks (unindex_transactions is s) = st_blocks s"
  "st_utxo (unindex_transactions is s) = st_utxo s"
  "st_undo (unindex_transactions is s) = st_undo s"
  "st_tip (unindex_transactions is s) = st_tip s"
  "st_headers (unindex_transactions is s) = st_headers s"
  by (simp_all add: unindex_transactions_def)

lemma coin_header_frames [simp]:
  "st_headers (fold (\<lambda>(op, k). add_coin op k) kvs s) = st_headers s"
  "st_headers (fold remove_coin ops s) = st_headers s"
  by (induction kvs arbitrary: s, auto simp: add_coin_def)
    (induction ops arbitrary: s, auto simp: remove_coin_def)

lemma keys_distinct_coins:
  assumes "keys_distinct (st_utxo s)"
  shows "keys_distinct (st_utxo (fold (\<lambda>(op, k). add_coin op k) kvs s))"
    and "keys_distinct (st_utxo (fold remove_coin ops s))"
  using assms
proof -
  show "keys_distinct (st_utxo (fold (\<lambda>(op, k). add_coin op k) kvs s))"
    using assms by (induction kvs arbitrary: s) (auto simp: add_coin_def)
  show "keys_distinct (st_utxo (fold remove_coin ops s))"
    using assms by (induction ops arbitrary: s) (auto simp: remove_coin_def)
qed

lemma get_coin_cong: "st_utxo s = st_utxo s' \<Longrightarrow> get_coin s = get_coin s'"
  by (simp add: get_coin_def fun_eq_iff)

lemma get_entry_cong: "st_blocks s = st_blocks s' \<Longrightarrow> get_entry s = get_entry s'"
  by (simp add: get_entry_def fun_eq_iff)

lemma get_block_cong: "st_blocks s = st_blocks s' \<Longrightarrow> get_block s = get_block s'"
  by (simp add: get_block_def fun_eq_iff)

section \<open>The effect of connecting a block\<close>

definition block_outpoints :: "crypto \<Rightarrow> block \<Rightarrow> outpoint set" where
  "block_outpoints c b = (\<Union>t \<in> set (bk_transactions b). set (tx_outpoints c t))"

text \<open>The list \<open>us\<close> undoes a block that led from the coins \<open>v\<close> to the coins \<open>v'\<close>.\<close>

definition undo_for ::
    "crypto \<Rightarrow> block \<Rightarrow> coin_view \<Rightarrow> coin_view \<Rightarrow> (outpoint \<times> coin) list \<Rightarrow> bool" where
  "undo_for c b v v' us \<longleftrightarrow> (\<forall>(op, k) \<in> set us. v op = Some k) \<and>
     (\<forall>op. op \<notin> block_outpoints c b \<longrightarrow>
        (v' op = None \<longrightarrow> v op = None \<or> op \<in> fst ` set us) \<and> (\<forall>k. v' op = Some k \<longrightarrow> v op = Some k))"

lemma undo_for_restores:
  assumes "undo_for c b v v' us" "\<forall>op \<in> block_outpoints c b. v op = None"
  shows "(v' |` (- block_outpoints c b)) ++ map_of (rev us) = v"
proof
  fix op
  have us: "v op' = Some k" if "map_of (rev us) op' = Some k" for op' k
    using map_of_SomeD [OF that] assms(1) by (auto simp: undo_for_def)
  show "((v' |` (- block_outpoints c b)) ++ map_of (rev us)) op = v op"
  proof (cases "map_of (rev us) op")
    case None
    then have "op \<notin> fst ` set us" by (simp add: map_of_eq_None_iff)
    then show ?thesis
      using None assms by (cases "v' op") (auto simp: undo_for_def map_add_def restrict_map_def)
  next
    case (Some k)
    then show ?thesis using us [OF Some] by simp
  qed
qed

text \<open>The undo records after connecting \<open>e\<close>: its own is stored, the one \<open>UNDO_KEEP_BLOCKS\<close> below is dropped.\<close>

definition undo_after :: "block_index_entry \<Rightarrow> storage \<Rightarrow> bytes \<Rightarrow> bytes \<Rightarrow> bytes option" where
  "undo_after e s data h =
     (if \<exists>e'. get_chain_entry (set_in_chain (be_hash e) True s) (be_height e - UNDO_KEEP_BLOCKS) = Some e' \<and>
           be_hash e' = h \<and> UNDO_KEEP_BLOCKS \<le> be_height e then None
      else if h = be_hash e then Some data else map_of (st_undo s) h)"

lemma connect_block_effect:
  assumes "connect_block c p b e s = Inr s'"
  shows "ledger_block c p (be_height e) b (get_coin s) = Some (get_coin s')"
    and "st_blocks s' = st_blocks (set_in_chain (be_hash e) True s)" "st_tip s' = st_tip s"
      "st_headers s' = st_headers s"
    and "keys_distinct (st_utxo s) \<Longrightarrow> keys_distinct (st_utxo s')"
    and "\<exists>us data. undo_for c b (get_coin s) (get_coin s') us \<and> undo_encode us = Inr data \<and>
      length us \<le> length (concat (map tx_inputs (bk_transactions b))) \<and>
      (\<forall>h. map_of (st_undo s') h = undo_after e s data h)"
proof -
  obtain cs sub cb data where run: "foldR (connect_tx c p (be_hash e) (be_height e)) (bk_transactions b)
      (start_connect (get_coin s)) = Inr cs"
    and sub: "subsidy p (be_height e) = Inr sub" and cb: "block_coinbase b = Inr cb"
    and pay: "\<not> total_output cb > sub + cs_fees cs" and data: "undo_encode (cs_undo cs) = Inr data"
    and s': "s' = prune_undo_at_height (be_height e - UNDO_KEEP_BLOCKS) (set_in_chain (be_hash e) True
      (index_block c b (be_height e) (cs_spent cs)
        (fold (\<lambda>(op, k). add_coin op k) (ov_added (cs_overlay cs)) (fold remove_coin (ov_spent (cs_overlay cs)) s)
          \<lparr>st_undo := AList.update (be_hash e) data (st_undo s)\<rparr>)))"
    using assms unfolding connect_block_def Let_def put_undo_def bnd_eq_Inr guard_eq_Inr
    by auto
  obtain fees where fees: "ledger_txs c p (be_height e) (bk_transactions b) (get_coin s) =
      Some (fees, ov_get_coin (cs_overlay cs))"
    and inv: "connect_inv (get_coin s) cs" and f: "cs_fees cs = fees"
    and created: "cs_created cs = block_outpoints c b"
    and len: "length (cs_undo cs) \<le> length (concat (map tx_inputs (bk_transactions b)))"
    using connect_txs_effect [OF connect_inv_start run]
    by (auto simp: start_connect_def block_outpoints_def)
  have ov: "overlay_ok (cs_overlay cs)" "ov_base (cs_overlay cs) = get_coin s"
    using inv by (simp_all add: connect_inv_def)
  have "get_coin s' = get_coin (fold (\<lambda>(op, k). add_coin op k) (ov_added (cs_overlay cs))
      (fold remove_coin (ov_spent (cs_overlay cs)) s))"
    by (rule get_coin_cong) (simp add: s')
  also have "\<dots> = (get_coin s |` (- set (ov_spent (cs_overlay cs)))) ++ map_of (ov_added (cs_overlay cs))"
    using ov(1) by (simp add: db.get_replace_all map_of_rev_distinct overlay_ok_def)
  finally have coins: "get_coin s' = ov_get_coin (cs_overlay cs)"
    using ov_get_flush [OF ov(1)] ov(2) by simp
  show "ledger_block c p (be_height e) b (get_coin s) = Some (get_coin s')"
    using fees sub cb pay f by (auto simp: ledger_block_Some coins block_coinbase_def split: list.splits)
  show blocks: "st_blocks s' = st_blocks (set_in_chain (be_hash e) True s)" "st_tip s' = st_tip s"
      "st_headers s' = st_headers s"
    by (simp_all add: s' set_in_chain_def)
  show "keys_distinct (st_utxo s')" if "keys_distinct (st_utxo s)"
    using that by (simp add: s' keys_distinct_coins)
  have undo: "undo_for c b (get_coin s) (get_coin s') (cs_undo cs)"
    using inv connect_inv_base [OF inv] by (auto simp: undo_for_def connect_inv_def created coins)
  have chain: "get_chain_entry (set_in_chain (be_hash e) True (index_block c b (be_height e) (cs_spent cs)
        (fold (\<lambda>(op, k). add_coin op k) (ov_added (cs_overlay cs)) (fold remove_coin (ov_spent (cs_overlay cs)) s)
          \<lparr>st_undo := AList.update (be_hash e) data (st_undo s)\<rparr>))) k =
      get_chain_entry (set_in_chain (be_hash e) True s) k" for k
    by (simp add: get_chain_entry_def all_entries_def set_in_chain_def)
  have "map_of (st_undo s') h = undo_after e s data h" for h
    unfolding s' prune_undo_lookup chain undo_after_def by auto
  then show "\<exists>us data. undo_for c b (get_coin s) (get_coin s') us \<and> undo_encode us = Inr data \<and>
      length us \<le> length (concat (map tx_inputs (bk_transactions b))) \<and>
      (\<forall>h. map_of (st_undo s') h = undo_after e s data h)"
    using undo data len by (intro exI [of _ "cs_undo cs"] exI [of _ data]) blast
qed

lemma connect_block_succeeds:
  assumes "ledger_block c p (be_height e) b (get_coin s) = Some v" "block_shape (be_height e) b"
    and "crypto_ok c" "coins_ok (get_coin s)"
  shows "\<exists>s'. connect_block c p b e s = Inr s'"
proof -
  obtain fees reward cb ts where run: "ledger_txs c p (be_height e) (bk_transactions b) (get_coin s) = Some (fees, v)"
    and pay: "subsidy p (be_height e) = Inr reward" "bk_transactions b = cb # ts" "total_output cb \<le> reward + fees"
    using assms(1) by (auto simp: ledger_block_Some)
  obtain cs where cs: "foldR (connect_tx c p (be_hash e) (be_height e)) (bk_transactions b)
      (start_connect (get_coin s)) = Inr cs"
    using connect_txs_succeed [of c p "be_height e" "bk_transactions b" "start_connect (get_coin s)" fees v
        "get_coin s" "be_hash e"] run assms block_shape_txs(1) [OF assms(2)] block_shape_fits [OF assms(2)]
    by (auto simp: start_connect_def connect_inv_start [unfolded start_connect_def])
  obtain fees' where fees: "ledger_txs c p (be_height e) (bk_transactions b) (get_coin s) =
      Some (fees', ov_get_coin (cs_overlay cs))" "cs_fees cs = fees'" and inv: "connect_inv (get_coin s) cs"
    and len: "length (cs_undo cs) \<le> length (concat (map tx_inputs (bk_transactions b)))"
    using connect_txs_effect [OF connect_inv_start cs] by (auto simp: start_connect_def)
  have "list_all wf_undo_item (cs_undo cs)"
    using inv assms(4) by (force simp: connect_inv_def coins_ok_def wf_undo_item_def list_all_iff)
  moreover have "length (concat (map tx_inputs (bk_transactions b))) < 2 ^ 32"
    using assms(2) by (simp add: block_shape_def)
  then have "int (length (cs_undo cs)) < 2 ^ 32"
    using len by simp
  then have "fits 8 (int (length (cs_undo cs)))"
    by (simp add: fits_def)
  ultimately show ?thesis
    using cs pay fees run
    by (simp add: connect_block_def Let_def block_coinbase_def put_undo_def undo_encode_wf)
qed

text \<open>A stored undo record reads back as a list that undoes the block.\<close>

lemma undo_for_wf:
  assumes "undo_for c b v v' us" "coins_ok v" "undo_encode us = Inr data" "length us < 2 ^ 32"
    and "map_of (st_undo s) h = Some data"
  shows "get_undo s h = Inr us"
proof (rule put_get_undo [of h us s "s\<lparr>st_undo := AList.update h data (st_undo s)\<rparr>"])
  show "put_undo h us s = Inr (s\<lparr>st_undo := AList.update h data (st_undo s)\<rparr>)"
    using assms(3) by (simp add: put_undo_def)
  show "list_all wf_undo_item us"
    using assms(1,2) by (force simp: undo_for_def coins_ok_def wf_undo_item_def list_all_iff)
  show "fits 8 (int (length us))"
    using assms(4) by (simp add: fits_def)
qed (use assms(5) in simp)

section \<open>The effect of disconnecting a block\<close>

lemma disconnect_block_effect:
  assumes "disconnect_block c e s = Inr (b, s')"
  shows "get_block s (be_hash e) = Some b"
    and "\<exists>us. get_undo s (be_hash e) = Inr us \<and>
      get_coin s' = (get_coin s |` (- block_outpoints c b)) ++ map_of (rev us)"
    and "st_blocks s' = st_blocks (set_in_chain (be_hash e) False s)" "st_tip s' = st_tip s"
      "st_undo s' = st_undo s" "st_headers s' = st_headers s"
    and "keys_distinct (st_utxo s) \<Longrightarrow> keys_distinct (st_utxo s')"
proof -
  have flat: "fold (\<lambda>t. fold remove_coin (tx_outpoints c t)) ts s =
      fold remove_coin (concat (map (tx_outpoints c) ts)) s" for ts and s :: storage
    by (induction ts arbitrary: s) auto
  let ?ops = "concat (map (tx_outpoints c) (bk_transactions b))"
  let ?s1 = "unindex_transactions (block_txids c b) (fold remove_coin ?ops s)"
  obtain us where b: "get_block s (be_hash e) = Some b" and us: "get_undo ?s1 (be_hash e) = Inr us"
    and s': "s' = set_in_chain (be_hash e) False (fold (\<lambda>(op, k). add_coin op k) us ?s1)"
    using assms by (auto simp: disconnect_block_def Let_def bnd_eq_Inr flat split: option.splits)
  show "get_block s (be_hash e) = Some b" by (rule b)
  have ops: "set ?ops = block_outpoints c b" by (simp add: block_outpoints_def)
  have "get_coin s' = get_coin (fold (\<lambda>(op, k). add_coin op k) us ?s1)"
    by (rule get_coin_cong) (simp add: s')
  also have "\<dots> = get_coin (fold remove_coin ?ops s) ++ map_of (rev us)"
    by (simp add: db.get_add_all get_coin_cong [of ?s1 "fold remove_coin ?ops s"])
  finally have "get_coin s' = (get_coin s |` (- block_outpoints c b)) ++ map_of (rev us)"
    by (simp only: db.get_remove_all ops)
  then show "\<exists>us. get_undo s (be_hash e) = Inr us \<and>
      get_coin s' = (get_coin s |` (- block_outpoints c b)) ++ map_of (rev us)"
    using us by (auto simp: get_undo_def)
  show "st_blocks s' = st_blocks (set_in_chain (be_hash e) False s)" "st_tip s' = st_tip s"
      "st_undo s' = st_undo s" "st_headers s' = st_headers s"
    by (simp_all add: s' set_in_chain_def)
  show "keys_distinct (st_utxo s')" if "keys_distinct (st_utxo s)"
    using that by (simp add: s' keys_distinct_coins)
qed

section \<open>The indexes\<close>

lemma index_frames:
  "st_tx_location (add_coin op k s) = st_tx_location s" "st_tx_location (remove_coin op s) = st_tx_location s"
  "st_address_history (add_coin op k s) = st_address_history s"
  "st_address_history (remove_coin op s) = st_address_history s"
  "st_tx_location (set_in_chain h v s) = st_tx_location s"
  "st_address_history (set_in_chain h v s) = st_address_history s"
  "st_tx_location (prune_undo_at_height m s) = st_tx_location s"
  "st_address_history (prune_undo_at_height m s) = st_address_history s"
  by (simp_all add: add_coin_def remove_coin_def set_in_chain_def prune_undo_at_height_def delete_undo_def
      split: option.splits)

lemma fold_index_frames:
  "st_tx_location (fold (\<lambda>(op, k). add_coin op k) kvs s) = st_tx_location s"
  "st_address_history (fold (\<lambda>(op, k). add_coin op k) kvs s) = st_address_history s"
  "st_tx_location (fold remove_coin ops s) = st_tx_location s"
  "st_address_history (fold remove_coin ops s) = st_address_history s"
  by (induction kvs arbitrary: s, auto simp: index_frames) (induction ops arbitrary: s, auto simp: index_frames)+

text \<open>Indexing a block only writes rows of its own transactions.\<close>

lemma index_transaction_other:
  assumes "i \<noteq> txid c t"
  shows "map_of (st_tx_location (index_transaction c t h n k ds s)) i = map_of (st_tx_location s) i"
    and "map_of (st_address_history (index_transaction c t h n k ds s)) (a, i) =
      map_of (st_address_history s) (a, i)"
proof -
  have "map_of (fold (\<lambda>(a, x, y). AList.update (a, txid c t) (f x y)) ds m) (a, i) = map_of m (a, i)" for f m
    using assms by (induction ds arbitrary: m) auto
  then show "map_of (st_address_history (index_transaction c t h n k ds s)) (a, i) =
      map_of (st_address_history s) (a, i)"
    by (simp add: index_transaction_def Let_def)
  show "map_of (st_tx_location (index_transaction c t h n k ds s)) i = map_of (st_tx_location s) i"
    using assms by (simp add: index_transaction_def Let_def)
qed

lemma index_block_other:
  assumes "i \<notin> set (block_txids c b)"
  shows "map_of (st_tx_location (index_block c b k spent s)) i = map_of (st_tx_location s) i"
    and "map_of (st_address_history (index_block c b k spent s)) (a, i) = map_of (st_address_history s) (a, i)"
proof -
  have "map_of (st_tx_location (fold (\<lambda>(n, t). index_transaction c t h n k (f t)) (enumerate m ts) s)) i =
      map_of (st_tx_location s) i \<and>
    map_of (st_address_history (fold (\<lambda>(n, t). index_transaction c t h n k (f t)) (enumerate m ts) s)) (a, i) =
      map_of (st_address_history s) (a, i)" if "i \<notin> txid c ` set ts" for h f m ts
    using that by (induction ts arbitrary: m s) (auto simp: index_transaction_other)
  then show "map_of (st_tx_location (index_block c b k spent s)) i = map_of (st_tx_location s) i"
    "map_of (st_address_history (index_block c b k spent s)) (a, i) = map_of (st_address_history s) (a, i)"
    using assms by (auto simp: index_block_def block_txids_def)
qed

lemma map_of_filter_keys: "map_of (filter (\<lambda>(k, v). P k) t) = map_of t |` {k. P k}"
  by (induction t) (auto simp: restrict_map_def fun_eq_iff)

lemma connect_index:
  assumes "connect_block c p b e s = Inr s'" "i \<notin> set (block_txids c b)"
  shows "map_of (st_tx_location s') i = map_of (st_tx_location s) i"
    "map_of (st_address_history s') (a, i) = map_of (st_address_history s) (a, i)"
  using assms(1) unfolding connect_block_def Let_def put_undo_def bnd_eq_Inr guard_eq_Inr
  by (auto simp: index_frames index_block_other [OF assms(2)] fold_index_frames)

lemma disconnect_index:
  assumes "disconnect_block c e s = Inr (b, s')"
  shows "map_of (st_tx_location s') = map_of (st_tx_location s) |` (- set (block_txids c b))"
    "map_of (st_address_history s') = map_of (st_address_history s) |` {(a, i). i \<notin> set (block_txids c b)}"
proof -
  have flat: "st_tx_location (fold (\<lambda>t. fold remove_coin (tx_outpoints c t)) ts s) = st_tx_location s"
    "st_address_history (fold (\<lambda>t. fold remove_coin (tx_outpoints c t)) ts s) = st_address_history s" for ts
    by (induction ts arbitrary: s) (auto simp: fold_index_frames)
  have loc: "st_tx_location s' = filter (\<lambda>(i, l). i \<notin> set (block_txids c b)) (st_tx_location s)"
    "st_address_history s' = filter (\<lambda>((a, i), r). i \<notin> set (block_txids c b)) (st_address_history s)"
    using assms unfolding disconnect_block_def Let_def bnd_eq_Inr lookup_eq_Inr
    by (auto simp: index_frames fold_index_frames unindex_transactions_def flat)
  show "map_of (st_tx_location s') = map_of (st_tx_location s) |` (- set (block_txids c b))"
    unfolding loc map_of_filter_keys by (simp add: Compl_eq)
  have "(\<lambda>((a, i), r). i \<notin> set (block_txids c b)) =
      (\<lambda>(k, r :: history_row). (\<lambda>(a :: bytes, i). i \<notin> set (block_txids c b)) k)"
    by auto
  then show "map_of (st_address_history s') = map_of (st_address_history s) |` {(a, i). i \<notin> set (block_txids c b)}"
    unfolding loc by (simp only: map_of_filter_keys)
qed

section \<open>Undo records that are kept\<close>

text \<open>The undo record just stored survives the pruning of old ones.\<close>

lemma undo_after_self:
  assumes "keys_distinct (st_blocks s)" "get_entry s (be_hash e) = Some e'" "be_height e' = be_height e"
  shows "undo_after e s data (be_hash e) = Some data"
proof -
  have "be_hash e'' \<noteq> be_hash e"
    if "get_chain_entry (set_in_chain (be_hash e) True s) (be_height e - UNDO_KEEP_BLOCKS) = Some e''" for e''
    using get_chain_entry_Some [OF _ that] assms
    by (auto simp: get_entry_set_in_chain UNDO_KEEP_BLOCKS_def)
  then show ?thesis by (auto simp: undo_after_def)
qed

section \<open>Properties\<close>

text \<open>
  C6. Connecting a block implements the abstract ledger. On a well-formed coin set, a block that
  passed the stateless checks is connected exactly when the ledger admits it (every transaction
  final, every input unspent, mature and unlocked, the coinbase within subsidy and fees), and the
  coins afterwards are those of the ledger; otherwise an exception leaves the database as it was.
\<close>
theorem connect_block_refines_ledger:
  assumes "crypto_ok c" "coins_ok (get_coin s)" "block_shape (be_height e) b"
  shows "case connect_block c p b e s of
      Inr s' \<Rightarrow> ledger_block c p (be_height e) b (get_coin s) = Some (get_coin s')
    | Inl _ \<Rightarrow> ledger_block c p (be_height e) b (get_coin s) = None"
proof (cases "connect_block c p b e s")
  case (Inr s')
  then show ?thesis using connect_block_effect(1) [OF Inr] by simp
next
  case (Inl x)
  then show ?thesis
    using connect_block_succeeds [OF _ assms(3,1,2)]
    by (cases "ledger_block c p (be_height e) b (get_coin s)") fastforce+
qed

text \<open>
  No block creates more than its subsidy: the sum over the unspent outputs grows by at most the
  subsidy of the height when a block is connected, whatever the block contains.
\<close>
theorem connect_block_supply:
  assumes "crypto_ok c" "coins_ok (get_coin s)" "keys_distinct (st_utxo s)" "block_shape (be_height e) b"
    and "subsidy p (be_height e) = Inr reward" "connect_block c p b e s = Inr s'"
  shows "snd (utxo_stats s') \<le> snd (utxo_stats s) + reward"
proof -
  have sum: "ledger_sum (get_coin u) = snd (utxo_stats u)" if "keys_distinct (st_utxo u)" for u
    using ledger_sum_map_of [OF that] by (simp add: utxo_stats_def get_coin_def [abs_def])
  have "ledger_sum (get_coin s') \<le> ledger_sum (get_coin s) + reward"
    using ledger_block_sum [OF connect_block_effect(1) [OF assms(6)] assms(4,1) block_shape_fits [OF assms(4)]
        assms(2,5)] by simp
  then show ?thesis
    using sum [OF assms(3)] sum [OF connect_block_effect(5) [OF assms(6,3)]] by simp
qed

text \<open>
  C7. Disconnecting undoes connecting. A block that was just connected, and that did not recreate an
  unspent outpoint, can be disconnected, and then the coins are what they were before, its entry is
  off the chain, and the indexes hold the rows of all other transactions and none of its own.
\<close>
theorem disconnect_undoes_connect:
  assumes "crypto_ok c" "keys_distinct (st_blocks s)" "coins_ok (get_coin s)" "block_shape (be_height e) b"
    and "get_entry s (be_hash e) = Some e" "get_block s (be_hash e) = Some b"
    and "\<forall>op \<in> block_outpoints c b. get_coin s op = None"
    and "connect_block c p b e s = Inr s1"
  shows "\<exists>s2. disconnect_block c e s1 = Inr (b, s2) \<and> get_coin s2 = get_coin s \<and>
    get_entry s2 h = map_option (\<lambda>e'. if h = be_hash e then e'\<lparr>be_in_chain := False\<rparr> else e') (get_entry s h) \<and>
    get_tx_location s2 = get_tx_location s |` (- set (block_txids c b))"
proof -
  note eff = connect_block_effect [OF assms(8)]
  obtain us data where us: "undo_for c b (get_coin s) (get_coin s1) us" "undo_encode us = Inr data"
    "length us \<le> length (concat (map tx_inputs (bk_transactions b)))"
    and undo: "map_of (st_undo s1) (be_hash e) = undo_after e s data (be_hash e)"
    using eff(6) by blast
  have "length us < 2 ^ 32"
    using us(3) assms(4) by (simp add: block_shape_def)
  then have get: "get_undo s1 (be_hash e) = Inr us"
    using undo_for_wf [OF us(1) assms(3) us(2)] undo undo_after_self [OF assms(2,5)] by simp
  have "get_block s1 (be_hash e) = Some b"
    using assms(6) by (simp add: get_block_cong [OF eff(2)])
  moreover have flat: "st_undo (fold (\<lambda>t. fold remove_coin (tx_outpoints c t)) ts u) = st_undo u" for ts u
    by (induction ts arbitrary: u) simp_all
  ultimately obtain s2 where s2: "disconnect_block c e s1 = Inr (b, s2)"
    using get by (auto simp: disconnect_block_def get_undo_def flat Let_def)
  note dis = disconnect_block_effect [OF s2]
  have "get_coin s2 = get_coin s"
    using dis(2) get undo_for_restores [OF us(1) assms(7)] by auto
  moreover have "get_entry s2 h =
      map_option (\<lambda>e'. if h = be_hash e then e'\<lparr>be_in_chain := False\<rparr> else e') (get_entry s h)"
  proof -
    have "get_entry s2 h = map_option (\<lambda>e'. if h = be_hash e then e'\<lparr>be_in_chain := False\<rparr> else e') (get_entry s1 h)"
      by (simp add: get_entry_cong [OF dis(3)] get_entry_set_in_chain)
    also have "get_entry s1 h = map_option (\<lambda>e'. if h = be_hash e then e'\<lparr>be_in_chain := True\<rparr> else e') (get_entry s h)"
      by (simp add: get_entry_cong [OF eff(2)] get_entry_set_in_chain)
    finally show ?thesis by (auto simp: option.map_comp intro: option.map_cong)
  qed
  moreover have "get_tx_location s2 = get_tx_location s |` (- set (block_txids c b))"
    using disconnect_index(1) [OF s2] connect_index(1) [OF assms(8)]
    by (auto simp: get_tx_location_def fun_eq_iff restrict_map_def)
  ultimately show ?thesis using s2 by blast
qed

section \<open>Witnesses\<close>

text \<open>A database that holds the block \<open>demo_block\<close>, at height 1, off the active chain, and one coin.\<close>

definition demo_entry :: block_index_entry where
  "demo_entry = \<lparr>be_hash = block_hash demo_crypto demo_block, be_height = 1,
     be_prev_hash = replicate 32 3, be_chainwork = 7, be_in_chain = False, be_header = bk_header demo_block,
     be_pruned = False\<rparr>"

definition demo_conn :: storage where
  "demo_conn = empty_storage
     \<lparr>st_blocks := [(be_hash demo_entry, \<lparr>br_height = 1, br_prev_hash = replicate 32 3, br_chainwork = 7,
         br_in_chain = False, br_timestamp = 7, br_header = bk_header demo_block, br_body = Some demo_block,
         br_tx_count = 1\<rparr>)]\<rparr>"

lemma demo_conn_facts:
  "get_entry demo_conn (be_hash demo_entry) = Some demo_entry"
  "get_block demo_conn (be_hash demo_entry) = Some demo_block"
  "get_coin demo_conn = (\<lambda>_. None)" "be_height demo_entry = 1"
  "keys_distinct (st_blocks demo_conn)" "keys_distinct (st_utxo demo_conn)"
  by (auto simp: demo_conn_def empty_storage_def get_entry_def get_block_def get_coin_def demo_entry_def
      entry_of_def demo_block_def)

lemma demo_shape: "block_shape 1 demo_block"
proof -
  have "coinbase_height demo_coinbase = Inr 1"
    using demo_coinbase_ok(2) by (simp add: coinbase_height_def HEIGHT_PREFIX_SIZE_def demo_coinbase_def)
  then show ?thesis
    using demo_coinbase_ok by (simp add: block_shape_def demo_block_def tx_shape_def)
      (simp add: demo_coinbase_def)
qed

lemma demo_subsidy: "subsidy REGTEST 1 = Inr 5000000000"
  by (simp add: subsidy_def REGTEST_def COIN_def Let_def)

lemma demo_connects: "\<exists>s. connect_block demo_crypto REGTEST demo_block demo_entry demo_conn = Inr s"
proof (rule connect_block_succeeds)
  have "tx_fee demo_crypto REGTEST 1 demo_coinbase v = Some 0" for v
    using demo_coinbase_ok(2) by (simp add: tx_fee_def check_transaction_final_def demo_coinbase_def)
  then show "ledger_block demo_crypto REGTEST (be_height demo_entry) demo_block (get_coin demo_conn) =
      Some (ledger_tx demo_crypto 1 demo_coinbase (\<lambda>_. None))"
    using demo_subsidy
    by (simp add: ledger_block_def demo_conn_facts demo_block_def) (simp add: demo_coinbase_def total_output_def)
qed (simp_all add: demo_conn_facts demo_shape)

theorem connect_block_refines_ledger_witness:
  "\<exists>s. connect_block demo_crypto REGTEST demo_block demo_entry demo_conn = Inr s \<and>
     ledger_block demo_crypto REGTEST 1 demo_block (get_coin demo_conn) = Some (get_coin s)"
proof -
  obtain s where "connect_block demo_crypto REGTEST demo_block demo_entry demo_conn = Inr s"
    using demo_connects by blast
  then show ?thesis
    using connect_block_refines_ledger [of demo_crypto demo_conn demo_entry demo_block REGTEST] demo_shape
    by (simp add: demo_conn_facts)
qed

theorem connect_block_supply_witness:
  "\<exists>s. connect_block demo_crypto REGTEST demo_block demo_entry demo_conn = Inr s \<and>
     snd (utxo_stats s) \<le> snd (utxo_stats demo_conn) + 5000000000"
proof -
  obtain s where "connect_block demo_crypto REGTEST demo_block demo_entry demo_conn = Inr s"
    using demo_connects by blast
  then show ?thesis
    using connect_block_supply [of demo_crypto demo_conn demo_entry demo_block REGTEST 5000000000 s]
      demo_shape demo_subsidy by (simp add: demo_conn_facts)
qed

theorem disconnect_undoes_connect_witness:
  "\<exists>s1 s2. connect_block demo_crypto REGTEST demo_block demo_entry demo_conn = Inr s1 \<and>
     disconnect_block demo_crypto demo_entry s1 = Inr (demo_block, s2) \<and> get_coin s2 = get_coin demo_conn"
proof -
  obtain s1 where "connect_block demo_crypto REGTEST demo_block demo_entry demo_conn = Inr s1"
    using demo_connects by blast
  then show ?thesis
    using disconnect_undoes_connect [of demo_crypto demo_conn demo_entry demo_block REGTEST s1] demo_shape
    by (auto simp: demo_conn_facts)
qed

end
