(* ===== verification/Retarget.thy ===== *)
theory Retarget
  imports Params Storage
begin

text \<open>
  The consensus context of \<^verbatim>\<open>core/chain.py\<close>: the median time, ancestors, and the compact target that a
  child of a block or of a header must have, by the three retargeting rules.

  The walks towards genesis follow \<^verbatim>\<open>prev_hash\<close> through the index. Their fuel is larger than the number
  of rows, so a walk that runs out of it has met a row twice and would not end in the source either;
  on a well-formed index none does (\<open>ancestor_at_eq\<close>, \<open>node_at_height_eq\<close>). The clock is the argument \<open>now\<close>.
\<close>

section \<open>Ancestors and median time\<close>

fun recent_timestamps :: "storage \<Rightarrow> nat \<Rightarrow> block_index_entry option \<Rightarrow> int list" where
  "recent_timestamps s 0 walker = []"
| "recent_timestamps s (Suc n) None = []"
| "recent_timestamps s (Suc n) (Some e) =
     be_timestamp e # recent_timestamps s n (get_entry s (be_prev_hash e))"

definition median_low :: "int list \<Rightarrow> int result" where
  "median_low xs =
     (if xs = [] then Inl (ValueError ''no median for empty data'')
      else Inr (sort xs ! ((length xs - 1) div 2)))"

definition median_time_past :: "chain_params \<Rightarrow> storage \<Rightarrow> block_index_entry \<Rightarrow> int result" where
  "median_time_past p s e = median_low (recent_timestamps s (nat (pm_median_time_blocks p)) (Some e))"

fun ancestor_walk :: "nat \<Rightarrow> storage \<Rightarrow> int \<Rightarrow> block_index_entry option \<Rightarrow> block_index_entry option result" where
  "ancestor_walk n s height None = Inr None"
| "ancestor_walk 0 s height (Some e) = (if be_height e > height then Inl Nonterminating else Inr (Some e))"
| "ancestor_walk (Suc n) s height (Some e) =
     (if be_height e > height
      then if be_in_chain e then Inr (get_chain_entry s height)
           else ancestor_walk n s height (get_entry s (be_prev_hash e))
      else Inr (Some e))"

definition walk_fuel :: "storage \<Rightarrow> nat" where
  "walk_fuel s = Suc (length (st_blocks s) + length (st_headers s))"

definition ancestor_at :: "storage \<Rightarrow> block_index_entry \<Rightarrow> int \<Rightarrow> block_index_entry option result" where
  "ancestor_at s e height =
     (if height > be_height e \<or> height < 0 then Inr None
      else if be_in_chain e then Inr (get_chain_entry s height)
      else ancestor_walk (walk_fuel s) s height (Some e))"

section \<open>The target of a child of a block\<close>

definition next_bits_time_ratio ::
    "chain_params \<Rightarrow> storage \<Rightarrow> block_index_entry \<Rightarrow> int \<Rightarrow> int \<Rightarrow> int result" where
  "next_bits_time_ratio p s parent height child_timestamp =
     (let lookback = min height (pm_retarget_interval p) in
      bnd (ancestor_at s parent (height - lookback)) (\<lambda>first.
      case first of
        None \<Rightarrow> Inr (be_bits parent)
      | Some f \<Rightarrow> bnd (pow_limit p) (\<lambda>limit.
          next_bits (be_bits parent) (child_timestamp - be_timestamp f) (pm_target_spacing p * lookback)
            limit (pm_max_adjustment_factor p))))"

text \<open>The start of the trailing window: every round of the loop goes at least one height down.\<close>

fun window_start :: "nat \<Rightarrow> storage \<Rightarrow> int \<Rightarrow> block_index_entry \<Rightarrow> block_index_entry result" where
  "window_start 0 s cutoff start = (if be_height start > 0 then Inl Nonterminating else Inr start)"
| "window_start (Suc n) s cutoff start =
     (if be_height start > 0
      then bnd (ancestor_at s start (be_height start - 1)) (\<lambda>prev.
        case prev of
          None \<Rightarrow> Inr start
        | Some e \<Rightarrow> if be_timestamp e < cutoff then Inr start else window_start n s cutoff e)
      else Inr start)"

definition window_work :: "chain_params \<Rightarrow> storage \<Rightarrow> block_index_entry \<Rightarrow> int \<Rightarrow> (int \<times> int) result" where
  "window_work p s parent child_timestamp =
     (let duration = pm_target_spacing p * pm_retarget_interval p;
          cutoff = be_timestamp parent - duration
      in bnd (window_start (nat (be_height parent)) s cutoff parent) (\<lambda>start.
         bnd (ancestor_at s start (be_height start - 1)) (\<lambda>before.
         Inr (be_chainwork parent - (case before of None \<Rightarrow> 0 | Some e \<Rightarrow> be_chainwork e),
              child_timestamp - be_timestamp start))))"

definition next_bits_from_work :: "chain_params \<Rightarrow> storage \<Rightarrow> block_index_entry \<Rightarrow> int \<Rightarrow> int result" where
  "next_bits_from_work p s parent child_timestamp =
     bnd (window_work p s parent child_timestamp) (\<lambda>(work, elapsed).
     bnd (pow_limit p) (\<lambda>limit.
     bits_from_work work elapsed (pm_target_spacing p) limit (be_bits parent) (pm_max_adjustment_factor p)))"

definition next_bits_after ::
    "chain_params \<Rightarrow> storage \<Rightarrow> block_index_entry \<Rightarrow> int option \<Rightarrow> int \<Rightarrow> int result" where
  "next_bits_after p s parent child_timestamp now =
     (let height = be_height parent + 1; interval = pm_retarget_interval p in
      if \<not> pm_per_block_retarget p \<or> height < pm_retarget_fork_height p
      then
        if interval = 0 then Inl ZeroDivisionError
        else if height mod interval \<noteq> 0 then Inr (be_bits parent)
        else bnd (ancestor_at s parent (height - interval)) (\<lambda>first.
          case first of
            None \<Rightarrow> Inr (be_bits parent)
          | Some f \<Rightarrow> bnd (pow_limit p) (\<lambda>limit.
              next_bits (be_bits parent) (be_timestamp parent - be_timestamp f) (target_timespan p)
                limit (pm_max_adjustment_factor p)))
      else
        let child_timestamp = (case child_timestamp of None \<Rightarrow> now | Some t \<Rightarrow> t) in
        if child_timestamp - be_timestamp parent > pm_max_future_time p then Inr (pm_pow_limit_bits p)
        else if height < pm_retarget_measure_fork_height p
        then next_bits_time_ratio p s parent height child_timestamp
        else next_bits_from_work p s parent child_timestamp)"

section \<open>The target of a child of a header\<close>

record chain_node =
  nd_hash :: bytes
  nd_height :: int
  nd_prev_hash :: bytes
  nd_chainwork :: int
  nd_bits :: int
  nd_timestamp :: int

definition node_of_entry :: "block_index_entry \<Rightarrow> chain_node" where
  "node_of_entry e = \<lparr>nd_hash = be_hash e, nd_height = be_height e, nd_prev_hash = be_prev_hash e,
     nd_chainwork = be_chainwork e, nd_bits = be_bits e, nd_timestamp = be_timestamp e\<rparr>"

definition node_of_header :: "header_entry_rec \<Rightarrow> chain_node" where
  "node_of_header h = \<lparr>nd_hash = he_hash h, nd_height = he_height h, nd_prev_hash = he_prev_hash h,
     nd_chainwork = he_chainwork h, nd_bits = bh_bits (he_header h), nd_timestamp = bh_timestamp (he_header h)\<rparr>"

definition get_node :: "storage \<Rightarrow> bytes \<Rightarrow> chain_node option" where
  "get_node s h =
     (case get_entry s h of
        Some e \<Rightarrow> Some (node_of_entry e)
      | None \<Rightarrow> map_option node_of_header (header_entry s h))"

fun node_walk :: "nat \<Rightarrow> storage \<Rightarrow> int \<Rightarrow> chain_node option \<Rightarrow> chain_node option result" where
  "node_walk n s height None = Inr None"
| "node_walk 0 s height (Some nd) = (if nd_height nd > height then Inl Nonterminating else Inr (Some nd))"
| "node_walk (Suc n) s height (Some nd) =
     (if nd_height nd > height then node_walk n s height (get_node s (nd_prev_hash nd)) else Inr (Some nd))"

definition node_at_height :: "storage \<Rightarrow> bytes \<Rightarrow> int \<Rightarrow> chain_node option result" where
  "node_at_height s h height = node_walk (walk_fuel s) s height (get_node s h)"

definition next_bits_for_node_time_ratio ::
    "chain_params \<Rightarrow> storage \<Rightarrow> chain_node \<Rightarrow> int \<Rightarrow> int \<Rightarrow> int result" where
  "next_bits_for_node_time_ratio p s parent height child_timestamp =
     (let lookback = min height (pm_retarget_interval p) in
      bnd (node_at_height s (nd_prev_hash parent) (height - lookback)) (\<lambda>first.
      case first of
        None \<Rightarrow> Inr (nd_bits parent)
      | Some f \<Rightarrow> bnd (pow_limit p) (\<lambda>limit.
          next_bits (nd_bits parent) (child_timestamp - nd_timestamp f) (pm_target_spacing p * lookback)
            limit (pm_max_adjustment_factor p))))"

fun node_window_start :: "nat \<Rightarrow> storage \<Rightarrow> int \<Rightarrow> chain_node \<Rightarrow> chain_node result" where
  "node_window_start 0 s cutoff start = (if nd_height start > 0 then Inl Nonterminating else Inr start)"
| "node_window_start (Suc n) s cutoff start =
     (if nd_height start > 0
      then case get_node s (nd_prev_hash start) of
          None \<Rightarrow> Inr start
        | Some nd \<Rightarrow> if nd_timestamp nd < cutoff then Inr start else node_window_start n s cutoff nd
      else Inr start)"

definition next_bits_for_node ::
    "chain_params \<Rightarrow> storage \<Rightarrow> chain_node \<Rightarrow> int \<Rightarrow> int option \<Rightarrow> int \<Rightarrow> int result" where
  "next_bits_for_node p s parent height child_timestamp now =
     (let interval = pm_retarget_interval p in
      if \<not> pm_per_block_retarget p \<or> height < pm_retarget_fork_height p
      then
        if interval = 0 then Inl ZeroDivisionError
        else if height mod interval \<noteq> 0 then Inr (nd_bits parent)
        else bnd (node_at_height s (nd_prev_hash parent) (height - interval)) (\<lambda>first.
          case first of
            None \<Rightarrow> Inr (nd_bits parent)
          | Some f \<Rightarrow> bnd (pow_limit p) (\<lambda>limit.
              next_bits (nd_bits parent) (nd_timestamp parent - nd_timestamp f) (target_timespan p)
                limit (pm_max_adjustment_factor p)))
      else
        let child_timestamp = (case child_timestamp of None \<Rightarrow> now | Some t \<Rightarrow> t) in
        if child_timestamp - nd_timestamp parent > pm_max_future_time p then Inr (pm_pow_limit_bits p)
        else if height < pm_retarget_measure_fork_height p
        then next_bits_for_node_time_ratio p s parent height child_timestamp
        else
          let duration = pm_target_spacing p * interval;
              cutoff = nd_timestamp parent - duration
          in bnd (node_window_start (walk_fuel s) s cutoff parent) (\<lambda>start.
             let before = get_node s (nd_prev_hash start);
                 work = nd_chainwork parent - (case before of None \<Rightarrow> 0 | Some nd \<Rightarrow> nd_chainwork nd)
             in bnd (pow_limit p) (\<lambda>limit.
                bits_from_work work (child_timestamp - nd_timestamp start) (pm_target_spacing p) limit
                  (nd_bits parent) (pm_max_adjustment_factor p))))"

section \<open>A well-formed block index\<close>

text \<open>
  Every stored block above height 0 has its parent stored, one height below, and on the active chain
  if it is; and the active chain has one block per height.
\<close>

definition stored :: "storage \<Rightarrow> block_index_entry \<Rightarrow> bool" where
  "stored s e \<longleftrightarrow> get_entry s (be_hash e) = Some e"

definition index_ok :: "storage \<Rightarrow> bool" where
  "index_ok s \<longleftrightarrow> keys_distinct (st_blocks s) \<and>
     (\<forall>e. stored s e \<longrightarrow> 0 \<le> be_height e \<and>
        (0 < be_height e \<longrightarrow> (\<exists>e'. get_entry s (be_prev_hash e) = Some e' \<and> be_height e' = be_height e - 1 \<and>
           (be_in_chain e \<longrightarrow> be_in_chain e')))) \<and>
     (\<forall>e e'. stored s e \<and> stored s e' \<and> be_in_chain e \<and> be_in_chain e' \<and> be_height e = be_height e' \<longrightarrow> e = e')"

lemma get_entry_stored: "get_entry s h = Some e \<longleftrightarrow> stored s e \<and> be_hash e = h"
  by (auto simp: stored_def get_entry_def entry_of_def)

lemma index_okD:
  assumes "index_ok s"
  shows "keys_distinct (st_blocks s)"
    and "stored s e \<Longrightarrow> 0 \<le> be_height e"
    and "stored s e \<Longrightarrow> 0 < be_height e \<Longrightarrow> \<exists>e'. get_entry s (be_prev_hash e) = Some e' \<and> stored s e' \<and>
      be_height e' = be_height e - 1 \<and> (be_in_chain e \<longrightarrow> be_in_chain e')"
    and "stored s e \<Longrightarrow> stored s e' \<Longrightarrow> be_in_chain e \<Longrightarrow> be_in_chain e' \<Longrightarrow> be_height e = be_height e' \<Longrightarrow> e = e'"
proof -
  show "keys_distinct (st_blocks s)" using assms by (simp add: index_ok_def)
  show "0 \<le> be_height e" if "stored s e" using assms that by (simp add: index_ok_def)
  show "\<exists>e'. get_entry s (be_prev_hash e) = Some e' \<and> stored s e' \<and> be_height e' = be_height e - 1 \<and>
      (be_in_chain e \<longrightarrow> be_in_chain e')" if "stored s e" "0 < be_height e"
    using assms that unfolding index_ok_def by (metis get_entry_stored)
  show "e = e'" if "stored s e" "stored s e'" "be_in_chain e" "be_in_chain e'" "be_height e = be_height e'"
    using assms that unfolding index_ok_def by blast
qed

text \<open>The reference notion of an ancestor: so many steps towards genesis.\<close>

fun up :: "storage \<Rightarrow> nat \<Rightarrow> block_index_entry \<Rightarrow> block_index_entry" where
  "up s 0 e = e"
| "up s (Suc n) e = up s n (the (get_entry s (be_prev_hash e)))"

lemma up_stored:
  assumes "index_ok s" "stored s e" "int n \<le> be_height e"
  shows "stored s (up s n e) \<and> be_height (up s n e) = be_height e - int n \<and>
    (be_in_chain e \<longrightarrow> be_in_chain (up s n e))"
  using assms(2,3)
proof (induction n arbitrary: e)
  case (Suc n)
  then obtain e' where "get_entry s (be_prev_hash e) = Some e'" "stored s e'"
      "be_height e' = be_height e - 1" "be_in_chain e \<longrightarrow> be_in_chain e'"
    using index_okD(3) [OF assms(1) Suc.prems(1)] by auto
  then show ?case using Suc.IH [of e'] Suc.prems by auto
qed simp

text \<open>A block is at most as high as there are blocks.\<close>

lemma height_less_blocks:
  assumes "index_ok s" "stored s e"
  shows "be_height e < int (length (st_blocks s))"
proof -
  let ?n = "nat (be_height e)"
  have h: "0 \<le> be_height e" by (rule index_okD(2) [OF assms])
  have up: "stored s (up s i e)" "be_height (up s i e) = be_height e - int i" if "i \<le> ?n" for i
    using up_stored [OF assms, of i] that h by auto
  have "inj_on (\<lambda>i. be_hash (up s i e)) {..?n}"
  proof (rule inj_onI)
    fix i j assume ij: "i \<in> {..?n}" "j \<in> {..?n}" "be_hash (up s i e) = be_hash (up s j e)"
    then have "up s i e = up s j e" using up(1) [of i] up(1) [of j] by (simp add: stored_def)
    then have "be_height e - int i = be_height e - int j"
      using up(2) [of i] up(2) [of j] ij by (metis atMost_iff)
    then show "i = j" by simp
  qed
  moreover have "(\<lambda>i. be_hash (up s i e)) ` {..?n} \<subseteq> fst ` set (st_blocks s)"
  proof
    fix h assume "h \<in> (\<lambda>i. be_hash (up s i e)) ` {..?n}"
    then obtain i where "get_entry s h = Some (up s i e)" using up(1) by (auto simp: stored_def)
    then obtain r where "map_of (st_blocks s) h = Some r" by (auto simp: get_entry_def)
    then show "h \<in> fst ` set (st_blocks s)" by (force dest: map_of_SomeD)
  qed
  ultimately have "card {..?n} \<le> card (fst ` set (st_blocks s))"
    by (metis card_inj_on_le finite_imageI finite_set)
  also have "\<dots> \<le> length (st_blocks s)"
    by (metis card_image_le card_length finite_set le_trans)
  finally show ?thesis using h by simp
qed

lemma get_chain_entry_unique:
  assumes "index_ok s" "stored s e" "be_in_chain e"
  shows "get_chain_entry s (be_height e) = Some e"
proof -
  have mem: "x \<in> set (all_entries s) \<longleftrightarrow> stored s x" for x
    using set_all_entries [OF index_okD(1) [OF assms(1)]] by (simp add: stored_def)
  then obtain e' where e': "get_chain_entry s (be_height e) = Some e'"
    using assms(2,3) by (fastforce simp: get_chain_entry_def find_None_iff)
  then have "stored s e'" "be_in_chain e'" "be_height e' = be_height e"
    using get_chain_entry_Some [OF index_okD(1) [OF assms(1)] e'] by (simp_all add: stored_def)
  then show ?thesis using e' index_okD(4) [OF assms(1)] assms(2,3) by metis
qed

lemma ancestor_walk_eq:
  assumes "index_ok s" "stored s e" "0 \<le> k" "k \<le> be_height e" "nat (be_height e - k) \<le> n"
  shows "ancestor_walk n s k (Some e) = Inr (Some (up s (nat (be_height e - k)) e))"
  using assms(2,4,5)
proof (induction n arbitrary: e)
  case (Suc n)
  show ?case
  proof (cases "be_height e > k")
    case True
    then obtain e' where e': "get_entry s (be_prev_hash e) = Some e'" "stored s e'" "be_height e' = be_height e - 1"
      using index_okD(3) [OF assms(1) Suc.prems(1)] assms(3) by auto
    have steps: "nat (be_height e - k) = Suc (nat (be_height e' - k))" using True e'(3) by simp
    show ?thesis
    proof (cases "be_in_chain e")
      case chain: True
      let ?a = "up s (nat (be_height e - k)) e"
      have "stored s ?a" "be_height ?a = k" "be_in_chain ?a"
        using up_stored [OF assms(1) Suc.prems(1), of "nat (be_height e - k)"] Suc.prems(2) assms(3) chain by auto
      then have "get_chain_entry s k = Some ?a"
        using get_chain_entry_unique [OF assms(1)] by metis
      then show ?thesis using True chain by simp
    next
      case False
      have "ancestor_walk n s k (Some e') = Inr (Some (up s (nat (be_height e' - k)) e'))"
        using Suc.prems True e'(3) by (intro Suc.IH [OF e'(2)]) auto
      then show ?thesis using True False e'(1) unfolding steps by simp
    qed
  qed (use Suc.prems in auto)
qed auto

lemma ancestor_at_eq:
  assumes "index_ok s" "stored s e" "0 \<le> k" "k \<le> be_height e"
  shows "ancestor_at s e k = Inr (Some (up s (nat (be_height e - k)) e))"
proof (cases "be_in_chain e")
  case True
  let ?a = "up s (nat (be_height e - k)) e"
  have "stored s ?a" "be_height ?a = k" "be_in_chain ?a"
    using up_stored [OF assms(1,2), of "nat (be_height e - k)"] assms(3,4) True by auto
  then have "get_chain_entry s k = Some ?a"
    using get_chain_entry_unique [OF assms(1)] by metis
  then show ?thesis using True assms by (simp add: ancestor_at_def)
next
  case False
  have "nat (be_height e - k) \<le> walk_fuel s"
    using height_less_blocks [OF assms(1,2)] assms(3) by (simp add: walk_fuel_def)
  then show ?thesis
    using False assms ancestor_walk_eq [OF assms] by (simp add: ancestor_at_def)
qed

section \<open>Nodes\<close>

lemma node_of_entry_simps [simp]:
  "nd_height (node_of_entry e) = be_height e" "nd_prev_hash (node_of_entry e) = be_prev_hash e"
  "nd_chainwork (node_of_entry e) = be_chainwork e" "nd_bits (node_of_entry e) = be_bits e"
  "nd_timestamp (node_of_entry e) = be_timestamp e" "nd_hash (node_of_entry e) = be_hash e"
  by (simp_all add: node_of_entry_def)

lemma get_node_entry: "get_entry s h = Some e \<Longrightarrow> get_node s h = Some (node_of_entry e)"
  by (simp add: get_node_def)

lemma node_walk_eq:
  assumes "index_ok s" "stored s e" "0 \<le> k" "k \<le> be_height e" "nat (be_height e - k) \<le> n"
  shows "node_walk n s k (Some (node_of_entry e)) = Inr (Some (node_of_entry (up s (nat (be_height e - k)) e)))"
  using assms(2,4,5)
proof (induction n arbitrary: e)
  case (Suc n)
  show ?case
  proof (cases "be_height e > k")
    case True
    then obtain e' where e': "get_entry s (be_prev_hash e) = Some e'" "stored s e'" "be_height e' = be_height e - 1"
      using index_okD(3) [OF assms(1) Suc.prems(1)] assms(3) by auto
    have steps: "nat (be_height e - k) = Suc (nat (be_height e' - k))" using True e'(3) by simp
    have "node_walk n s k (Some (node_of_entry e')) = Inr (Some (node_of_entry (up s (nat (be_height e' - k)) e')))"
      using Suc.prems True e'(3) by (intro Suc.IH [OF e'(2)]) auto
    then show ?thesis using True e'(1) unfolding steps by (simp add: get_node_entry)
  qed (use Suc.prems in auto)
qed auto

lemma node_at_height_eq:
  assumes "index_ok s" "stored s e" "0 \<le> k" "k < be_height e"
  shows "node_at_height s (be_prev_hash e) k = Inr (Some (node_of_entry (up s (nat (be_height e - k)) e)))"
proof -
  obtain e' where e': "get_entry s (be_prev_hash e) = Some e'" "stored s e'" "be_height e' = be_height e - 1"
    using index_okD(3) [OF assms(1,2)] assms(3,4) by auto
  have "nat (be_height e' - k) \<le> walk_fuel s"
    using height_less_blocks [OF assms(1) e'(2)] assms(3) by (simp add: walk_fuel_def)
  moreover have "nat (be_height e - k) = Suc (nat (be_height e' - k))" using assms(4) e'(3) by simp
  ultimately show ?thesis
    using node_walk_eq [OF assms(1) e'(2) assms(3)] assms(4) e' by (simp add: node_at_height_def get_node_entry)
qed

text \<open>Both loops find the same start of the window.\<close>

lemma window_start_eq:
  assumes "index_ok s" "stored s e" "nat (be_height e) \<le> n" "nat (be_height e) \<le> m"
  shows "\<exists>e'. window_start n s cutoff e = Inr e' \<and> stored s e' \<and>
    node_window_start m s cutoff (node_of_entry e) = Inr (node_of_entry e')"
  using assms(2-4)
proof (induction n arbitrary: e m)
  case 0
  then show ?case by (cases m) auto
next
  case (Suc n)
  show ?case
  proof (cases "be_height e > 0")
    case True
    then obtain e' where e': "get_entry s (be_prev_hash e) = Some e'" "stored s e'" "be_height e' = be_height e - 1"
      using index_okD(3) [OF assms(1) Suc.prems(1)] by auto
    obtain m' where m: "m = Suc m'" using True Suc.prems(3) by (cases m) auto
    have "ancestor_at s e (be_height e - 1) = Inr (Some e')"
      using ancestor_at_eq [OF assms(1) Suc.prems(1), of "be_height e - 1"] True e'(1) by simp
    moreover have "\<exists>e''. window_start n s cutoff e' = Inr e'' \<and> stored s e'' \<and>
        node_window_start m' s cutoff (node_of_entry e') = Inr (node_of_entry e'')"
      using Suc.prems e'(3) m by (intro Suc.IH [OF e'(2)]) auto
    ultimately show ?thesis
      using True Suc.prems(1) e'(1) by (auto simp: m get_node_entry)
  next
    case False
    then show ?thesis using Suc.prems by (cases m) auto
  qed
qed

lemma window_agrees:
  assumes "index_ok s" "stored s parent"
    and "\<forall>e. stored s e \<and> be_height e = 0 \<longrightarrow> get_node s (be_prev_hash e) = None"
  shows "bnd (node_window_start (walk_fuel s) s cutoff (node_of_entry parent)) (\<lambda>start.
      f (case get_node s (nd_prev_hash start) of None \<Rightarrow> 0 | Some nd \<Rightarrow> nd_chainwork nd) (nd_timestamp start)) =
    bnd (window_start (nat (be_height parent)) s cutoff parent) (\<lambda>start.
      bnd (ancestor_at s start (be_height start - 1)) (\<lambda>before.
      f (case before of None \<Rightarrow> 0 | Some e \<Rightarrow> be_chainwork e) (be_timestamp start)))"
proof -
  have fuel: "nat (be_height parent) \<le> walk_fuel s"
    using height_less_blocks [OF assms(1,2)] by (simp add: walk_fuel_def)
  obtain e where e: "window_start (nat (be_height parent)) s cutoff parent = Inr e" "stored s e"
    "node_window_start (walk_fuel s) s cutoff (node_of_entry parent) = Inr (node_of_entry e)"
    using window_start_eq [OF assms(1,2) order_refl fuel] by blast
  show ?thesis
  proof (cases "be_height e = 0")
    case True
    then have "get_node s (be_prev_hash e) = None" using e(2) assms(3) by blast
    then show ?thesis using e True by (simp add: ancestor_at_def)
  next
    case False
    then obtain e' where e': "get_entry s (be_prev_hash e) = Some e'"
      using index_okD(2,3) [OF assms(1) e(2)] by force
    moreover have "ancestor_at s e (be_height e - 1) = Inr (Some e')"
      using ancestor_at_eq [OF assms(1) e(2), of "be_height e - 1"] False index_okD(2) [OF assms(1) e(2)] e' by simp
    ultimately show ?thesis using e by (simp add: get_node_entry)
  qed
qed

section \<open>Properties\<close>

text \<open>
  C28. Header-first sync and block validation ask for the same difficulty. On a well-formed index, the
  target computed for a header on top of a stored block is the target that the block itself will
  be checked against, by each of the retargeting rules, although one walks the parent links and the
  other uses the active chain. (The rule needs a lookback of two blocks: at height 1, or with a
  retargeting interval of one block, the two walks start at different blocks.)
\<close>
theorem header_target_agrees:
  assumes "index_ok s" "stored s parent" "1 \<le> be_height parent" "2 \<le> pm_retarget_interval p"
    and "\<forall>e. stored s e \<and> be_height e = 0 \<longrightarrow> get_node s (be_prev_hash e) = None"
  shows "next_bits_for_node p s (node_of_entry parent) (be_height parent + 1) ts now =
    next_bits_after p s parent ts now"
proof -
  let ?h = "be_height parent + 1" and ?i = "pm_retarget_interval p"
  have first: "ancestor_at s parent k = Inr (Some (up s (nat (be_height parent - k)) parent))"
      "node_at_height s (be_prev_hash parent) k = Inr (Some (node_of_entry (up s (nat (be_height parent - k)) parent)))"
    if "0 \<le> k" "k < be_height parent" for k
    using ancestor_at_eq [OF assms(1,2)] node_at_height_eq [OF assms(1,2)] that by simp_all
  have periodic: "0 \<le> ?h - ?i \<and> ?h - ?i < be_height parent" if "?h mod ?i = 0"
    using that assms(3,4) by (auto dest: zdvd_imp_le)
  have ratio: "next_bits_for_node_time_ratio p s (node_of_entry parent) ?h t = next_bits_time_ratio p s parent ?h t" for t
    using first [of "?h - min ?h ?i"] assms(3,4)
    by (simp add: next_bits_for_node_time_ratio_def next_bits_time_ratio_def Let_def)
  have work: "bnd (node_window_start (walk_fuel s) s cutoff (node_of_entry parent)) (\<lambda>start.
        bnd (pow_limit p) (\<lambda>limit. bits_from_work
          (be_chainwork parent - (case get_node s (nd_prev_hash start) of None \<Rightarrow> 0 | Some nd \<Rightarrow> nd_chainwork nd))
          (t - nd_timestamp start) (pm_target_spacing p) limit (be_bits parent) (pm_max_adjustment_factor p))) =
      bnd (window_start (nat (be_height parent)) s cutoff parent) (\<lambda>start.
        bnd (ancestor_at s start (be_height start - 1)) (\<lambda>before.
        bnd (pow_limit p) (\<lambda>limit. bits_from_work
          (be_chainwork parent - (case before of None \<Rightarrow> 0 | Some e \<Rightarrow> be_chainwork e))
          (t - be_timestamp start) (pm_target_spacing p) limit (be_bits parent) (pm_max_adjustment_factor p))))"
    for cutoff t
    by (rule window_agrees [OF assms(1,2,5), of cutoff "\<lambda>w u. bnd (pow_limit p) (\<lambda>limit. bits_from_work
        (be_chainwork parent - w) (t - u) (pm_target_spacing p) limit (be_bits parent) (pm_max_adjustment_factor p))"])
  show ?thesis
    using first [of "?h - ?i"] periodic ratio assms(4)
    by (auto simp: next_bits_for_node_def next_bits_after_def next_bits_from_work_def window_work_def Let_def
        bnd_assoc work)
qed

text \<open>
  The difficulty rule is total and bounded. On a well-formed index, with sound parameters, every
  stored block whose own target is valid and within the limit has a target for its children, under
  each of the retargeting rules and for every claimed timestamp: the walks end, nothing is raised,
  and the result is again a valid compact target within the limit.
\<close>
theorem next_bits_after_valid:
  assumes "params_ok p" "pow_limit p = Inr limit" "index_ok s" "stored s parent"
    and "bits_to_target (be_bits parent) = Inr t" "t \<le> limit"
  shows "\<exists>b t'. next_bits_after p s parent ts now = Inr b \<and> bits_to_target b = Inr t' \<and> t' \<le> limit"
proof -
  let ?ok = "\<lambda>r. \<exists>b t'. r = Inr b \<and> bits_to_target b = Inr t' \<and> t' \<le> limit"
  have p: "0 < pm_target_spacing p" "0 < pm_retarget_interval p" "1 \<le> pm_max_adjustment_factor p" "0 < limit"
    using assms(1,2) by (auto simp: params_ok_def)
  have limit: "bits_to_target (pm_pow_limit_bits p) = Inr limit" "limit < 2 ^ 255"
    using assms(2) bits_to_target_bounds by (auto simp: pow_limit_def)
  have h: "0 \<le> be_height parent" by (rule index_okD(2) [OF assms(3,4)])
  have keep: "?ok (Inr (be_bits parent))" using assms(5,6) by simp
  have step: "?ok (next_bits (be_bits parent) a span limit (pm_max_adjustment_factor p))" if "0 < span" for a span
    using next_bits_valid [OF assms(5) that p(3,4) limit(2)] by blast
  have ratio: "?ok (next_bits_time_ratio p s parent (be_height parent + 1) a)" for a
    using ancestor_at_eq [OF assms(3,4), of "be_height parent + 1 - min (be_height parent + 1) (pm_retarget_interval p)"]
      step [of "pm_target_spacing p * min (be_height parent + 1) (pm_retarget_interval p)"] h p assms(2)
    by (simp add: next_bits_time_ratio_def Let_def)
  have work: "?ok (next_bits_from_work p s parent a)" for a
  proof -
    obtain start where "window_start (nat (be_height parent)) s
        (be_timestamp parent - pm_target_spacing p * pm_retarget_interval p) parent = Inr start" "stored s start"
      using window_start_eq [OF assms(3,4) order_refl order_refl] by blast
    moreover from this obtain before where "ancestor_at s start (be_height start - 1) = Inr before"
      using ancestor_at_eq [OF assms(3), of start "be_height start - 1"]
      by (cases "be_height start - 1 < 0") (auto simp: ancestor_at_def)
    ultimately show ?thesis
      using bits_from_work_valid [OF assms(5,6) p(4) limit(2) p(1,3)] assms(2)
      by (simp add: next_bits_from_work_def window_work_def Let_def) blast
  qed
  have periodic: "?ok (bnd (ancestor_at s parent (be_height parent + 1 - pm_retarget_interval p)) (\<lambda>first.
      case first of None \<Rightarrow> Inr (be_bits parent) | Some f \<Rightarrow> next_bits (be_bits parent)
        (be_timestamp parent - be_timestamp f) (target_timespan p) limit (pm_max_adjustment_factor p)))"
    using ancestor_at_eq [OF assms(3,4), of "be_height parent + 1 - pm_retarget_interval p"] step [of "target_timespan p"] keep p
    by (cases "be_height parent + 1 - pm_retarget_interval p < 0") (auto simp: ancestor_at_def target_timespan_def)
  have "?ok (Inr (pm_pow_limit_bits p))" using limit by simp
  then show ?thesis
    using keep periodic ratio work p assms(2) unfolding next_bits_after_def Let_def
    by (simp split: option.splits)
qed

section \<open>Witnesses\<close>

text \<open>An active chain of two blocks.\<close>

definition demo_header :: "int \<Rightarrow> bytes \<Rightarrow> block_header" where
  "demo_header time prev = \<lparr>bh_version = 1, bh_prev_hash = prev, bh_merkle_root = replicate 32 9,
     bh_timestamp = time, bh_bits = 0x1d00ffff, bh_nonce = 0\<rparr>"

definition demo_index_row :: "int \<Rightarrow> bytes \<Rightarrow> block_row" where
  "demo_index_row height prev = \<lparr>br_height = height, br_prev_hash = prev, br_chainwork = 5 * (height + 1),
     br_in_chain = True, br_timestamp = 100 + 60 * height, br_header = demo_header (100 + 60 * height) prev,
     br_body = None, br_tx_count = 1\<rparr>"

definition demo_index :: storage where
  "demo_index = empty_storage\<lparr>st_blocks := [([1], demo_index_row 0 (replicate 32 0)), ([2], demo_index_row 1 [1])]\<rparr>"

lemma demo_stored:
  "stored demo_index e \<longleftrightarrow>
     e = entry_of [1] (demo_index_row 0 (replicate 32 0)) \<or> e = entry_of [2] (demo_index_row 1 [1])"
  by (auto simp: stored_def get_entry_def demo_index_def entry_of_def split: if_splits)

lemma demo_index_ok: "index_ok demo_index"
  unfolding index_ok_def demo_stored
  by (auto simp: entry_of_def demo_index_row_def get_entry_def) (auto simp: demo_index_def demo_index_row_def)

theorem header_target_agrees_witness:
  "stored demo_index (entry_of [2] (demo_index_row 1 [1])) \<and>
   next_bits_for_node TESTNET demo_index (node_of_entry (entry_of [2] (demo_index_row 1 [1]))) 2 (Some 300) 0 =
     next_bits_after TESTNET demo_index (entry_of [2] (demo_index_row 1 [1])) (Some 300) 0"
proof -
  let ?e = "entry_of [2] (demo_index_row 1 [1])"
  have none: "get_node demo_index (replicate 32 0) = None"
    by (simp add: get_node_def get_entry_def header_entry_def demo_index_def empty_storage_def numeral_eq_Suc)
  have "be_height ?e = 1" "stored demo_index ?e"
    by (simp_all add: entry_of_def demo_index_row_def demo_stored)
  moreover have "\<forall>e. stored demo_index e \<and> be_height e = 0 \<longrightarrow> get_node demo_index (be_prev_hash e) = None"
    unfolding demo_stored using none by (auto simp: entry_of_def demo_index_row_def)
  moreover have "2 \<le> pm_retarget_interval TESTNET" by (simp add: TESTNET_def)
  ultimately show ?thesis
    using header_target_agrees [of demo_index ?e TESTNET "Some 300" 0] demo_index_ok by simp
qed

theorem next_bits_after_valid_witness:
  "\<exists>b t. next_bits_after TESTNET demo_index (entry_of [2] (demo_index_row 1 [1])) (Some 300) 0 = Inr b \<and>
     bits_to_target b = Inr t \<and> t \<le> 0x0FFFFF * 256 ^ 27"
proof (rule next_bits_after_valid [OF networks_ok(2) network_limits(2) demo_index_ok, of _ "0xffff * 2 ^ 208"])
  show "bits_to_target (be_bits (entry_of [2] (demo_index_row 1 [1]))) = Inr (0xffff * 2 ^ 208)"
    using demo_target by (simp add: be_bits_def entry_of_def demo_index_row_def demo_header_def)
qed (simp_all add: demo_stored)

end
