(* ===== verification/Chain.thy ===== *)
theory Chain
  imports Connect Retarget
begin

text \<open>
  \<^verbatim>\<open>core/chain.py\<close>: the block tree and its active chain. \<open>add_block\<close> is the whole of block acceptance,
  with every outcome the source reports and every exception it lets through; \<open>switch_to\<close> is a
  reorganisation, inside one database transaction.

  \<open>bc_events\<close> logs the calls of the listeners; the lock, the statistics cache and the JSON reports
  (\<^verbatim>\<open>network_stats\<close>, \<^verbatim>\<open>hashrate_history\<close>, \<^verbatim>\<open>stats\<close>) are not modelled. The loop of
  \<^verbatim>\<open>_activate_best_chain\<close> may really run forever, so it takes its fuel as an argument; the walks
  through the index use the fuel of \<open>Retarget\<close>.
\<close>

section \<open>Data\<close>

definition MAX_CANDIDATES :: nat where
  "MAX_CANDIDATES = 64"

definition MAX_REMEMBERED_INVALID :: nat where
  "MAX_REMEMBERED_INVALID = 5000"

definition MIN_PRUNE_KEEP :: int where
  "MIN_PRUNE_KEEP = 2880"

datatype block_status = CONNECTED | SIDE_BRANCH | DUPLICATE | ORPHAN | PREMATURE | INVALID

record add_block_result =
  ar_status :: block_status
  ar_block_hash :: bytes
  ar_height :: "int option"
  ar_reason :: string
  ar_reorganised :: bool

definition accepted :: "add_block_result \<Rightarrow> bool" where
  "accepted r \<longleftrightarrow> ar_status r = CONNECTED \<or> ar_status r = SIDE_BRANCH"

datatype chain_event = BlockConnected block int | BlockDisconnected block int

fun is_disconnect :: "chain_event \<Rightarrow> bool" where
  "is_disconnect (BlockDisconnected _ _) = True"
| "is_disconnect (BlockConnected _ _) = False"

text \<open>\<open>bc_invalid\<close> is the ordered dictionary \<^verbatim>\<open>_invalid\<close>, oldest entry first.\<close>

record blockchain =
  bc_storage :: storage
  bc_tip :: block_index_entry
  bc_invalid :: "(bytes \<times> string) list"
  bc_events :: "chain_event list"

definition is_invalid :: "blockchain \<Rightarrow> bytes \<Rightarrow> bool" where
  "is_invalid ch h \<longleftrightarrow> map_of (bc_invalid ch) h \<noteq> None"

definition remember_invalid :: "bytes \<Rightarrow> string \<Rightarrow> blockchain \<Rightarrow> blockchain" where
  "remember_invalid h why ch = ch\<lparr>bc_invalid := AList.update h why (bc_invalid ch)\<rparr>"

section \<open>Opening the chain\<close>

definition load_or_create_genesis :: "crypto \<Rightarrow> chain_params \<Rightarrow> storage \<Rightarrow> (block_index_entry \<times> storage) result" where
  "load_or_create_genesis c p s =
     (case st_tip s of
        Some tip_hash \<Rightarrow>
          (case get_entry s tip_hash of
             None \<Rightarrow> Inl (ValidationError ''database records a tip that is not stored'')
           | Some e \<Rightarrow>
               (case get_chain_entry s 0 of
                  None \<Rightarrow> Inl (ValidationError ''this database belongs to a different network'')
                | Some g \<Rightarrow> bnd (genesis_hash c p) (\<lambda>gh.
                    if be_hash g \<noteq> gh then Inl (ValidationError ''this database belongs to a different network'')
                    else Inr (e, s))))
      | None \<Rightarrow>
          bnd (genesis_block c p) (\<lambda>g.
          bnd (pow_limit p) (\<lambda>limit.
          bnd (block_check_sanity c limit (pm_max_block_size p) 0 False g) (\<lambda>_.
          bnd (block_work (bh_bits (bk_header g))) (\<lambda>work.
          bnd (put_block c g 0 work True s) (\<lambda>(e, s).
          let s = apply_block_state c g 0 [] s in
          bnd (put_undo (block_hash c g) [] s) (\<lambda>s.
          Inr (e, set_tip (block_hash c g) s))))))))"

definition open_chain :: "crypto \<Rightarrow> chain_params \<Rightarrow> storage \<Rightarrow> blockchain result" where
  "open_chain c p s = bnd (load_or_create_genesis c p s) (\<lambda>(tip, s).
     Inr \<lparr>bc_storage = s, bc_tip = tip, bc_invalid = [], bc_events = []\<rparr>)"

section \<open>Reads\<close>

definition get_block_by_height :: "blockchain \<Rightarrow> int \<Rightarrow> block option" where
  "get_block_by_height ch height =
     Option.bind (get_chain_entry (bc_storage ch) height) (\<lambda>e. get_block (bc_storage ch) (be_hash e))"

definition get_transaction :: "blockchain \<Rightarrow> bytes \<Rightarrow> (transaction \<times> tx_location) option" where
  "get_transaction ch i =
     (case get_tx_location (bc_storage ch) i of
        None \<Rightarrow> None
      | Some l \<Rightarrow>
          (case get_block (bc_storage ch) (tl_block_hash l) of
             None \<Rightarrow> None
           | Some b \<Rightarrow>
               if tl_position l \<ge> length (bk_transactions b) then None
               else Some (bk_transactions b ! tl_position l, l)))"

definition confirmations :: "blockchain \<Rightarrow> int \<Rightarrow> int" where
  "confirmations ch height = max 0 (be_height (bc_tip ch) - height + 1)"

definition chain_next_bits :: "chain_params \<Rightarrow> blockchain \<Rightarrow> int option \<Rightarrow> int \<Rightarrow> int result" where
  "chain_next_bits p ch timestamp now = next_bits_after p (bc_storage ch) (bc_tip ch) timestamp now"

definition total_supply :: "blockchain \<Rightarrow> int" where
  "total_supply ch = snd (utxo_stats (bc_storage ch))"

section \<open>Context\<close>

text \<open>The clauses \<^verbatim>\<open>except (BlockError, TransactionError)\<close> and \<^verbatim>\<open>except PrematureBlockError\<close>.\<close>

fun is_block_error :: "exn \<Rightarrow> bool" where
  "is_block_error (BlockError _) = True"
| "is_block_error (TransactionError _) = True"
| "is_block_error _ = False"

fun is_premature :: "exn \<Rightarrow> bool" where
  "is_premature (PrematureBlockError _) = True"
| "is_premature _ = False"

definition auxpow_active_at :: "chain_params \<Rightarrow> int \<Rightarrow> bool" where
  "auxpow_active_at p height =
     (if pm_auxpow_chain_id p = 0 then False
      else case pm_auxpow_activation_height p of None \<Rightarrow> False | Some a \<Rightarrow> height \<ge> a)"

definition check_context ::
    "chain_params \<Rightarrow> storage \<Rightarrow> block \<Rightarrow> block_index_entry \<Rightarrow> int \<Rightarrow> int \<Rightarrow> unit result" where
  "check_context p s b parent height now =
     (let t = bh_timestamp (bk_header b) in
      bnd (next_bits_after p s parent (Some t) now) (\<lambda>expected.
      if bh_bits (bk_header b) \<noteq> expected then Inl (ValidationError ''wrong difficulty'')
      else
        bnd (median_time_past p s parent) (\<lambda>median.
        if t \<le> median then Inl (ValidationError ''timestamp is not newer than the median'')
        else if t > now + pm_max_future_time p
        then Inl (PrematureBlockError ''timestamp is ahead of this clock'')
        else
          case bnd (block_coinbase b) coinbase_height of
            Inl e \<Rightarrow> if is_block_error e then Inl (ValidationError (exn_message e)) else Inl e
          | Inr claimed \<Rightarrow>
              if claimed \<noteq> height then Inl (ValidationError ''coinbase claims another height'') else Inr ())))"

definition validate_block_auxpow :: "crypto \<Rightarrow> chain_params \<Rightarrow> block \<Rightarrow> auxpow \<Rightarrow> unit result" where
  "validate_block_auxpow c p b a =
     bnd (bits_to_target (bh_bits (bk_header b))) (\<lambda>target.
     case validate_auxpow c a (header_hash c (bk_header b)) target (pm_auxpow_chain_id p) of
       Inl (AuxPoWError m) \<Rightarrow> Inl (ValidationError m)
     | r \<Rightarrow> r)"

section \<open>Reorganisation\<close>

fun first_candidate :: "blockchain \<Rightarrow> block_index_entry list \<Rightarrow> block_index_entry option" where
  "first_candidate ch [] = None"
| "first_candidate ch (e # es) =
     (if be_chainwork e \<le> be_chainwork (bc_tip ch) then None
      else if is_invalid ch (be_hash e) then first_candidate ch es
      else Some e)"

definition best_candidate :: "blockchain \<Rightarrow> block_index_entry option" where
  "best_candidate ch = first_candidate ch (best_entries (bc_storage ch) MAX_CANDIDATES)"

text \<open>\<^verbatim>\<open>popitem(last=False)\<close> until there is room.\<close>

fun evict :: "(bytes \<times> string) list \<Rightarrow> (bytes \<times> string) list" where
  "evict [] = []"
| "evict (x # xs) = (if Suc (length xs) \<ge> MAX_REMEMBERED_INVALID then evict xs else x # xs)"

text \<open>The loop of \<^verbatim>\<open>_invalidate\<close>, its stack kept top first. Every round that goes on marks a new block.\<close>

function invalidate_loop ::
    "storage \<Rightarrow> (bytes \<times> string) list \<Rightarrow> (bytes \<times> string) list \<Rightarrow> (bytes \<times> string) list" where
  "invalidate_loop s [] bad = bad"
| "invalidate_loop s ((current, why) # pending) bad =
     (if map_of bad current \<noteq> None then invalidate_loop s pending bad
      else invalidate_loop s
        (rev (map (\<lambda>e. (be_hash e, ''builds on an invalid block: '' @ why)) (children_of s current)) @ pending)
        (AList.update current why bad))"
  by pat_completeness auto
termination
proof (relation "measures [\<lambda>(s, pending, bad).
    card ((fst ` set (st_blocks s) \<union> fst ` set pending) - dom (map_of bad)), \<lambda>(s, pending, bad). length pending]",
    goal_cases)
  case (2 s current why pending bad)
  let ?A = "fst ` set (st_blocks s) \<union> fst ` set pending"
  have "card (?A - dom (map_of bad)) \<le> card (insert current ?A - dom (map_of bad))"
    by (intro card_mono) auto
  then show ?case by (auto simp: insert_commute)
next
  case (3 s current why pending bad)
  let ?U = "insert current (fst ` set (st_blocks s) \<union> fst ` set pending)"
  have "be_hash ` set (children_of s current) \<subseteq> fst ` set (st_blocks s)"
    by (force simp: children_of_def all_entries_def entry_of_def)
  then have "card ((fst ` set (st_blocks s) \<union> fst ` set (rev (map (\<lambda>e. (be_hash e, ''builds on an invalid block: '' @ why))
        (children_of s current)) @ pending)) - dom (map_of (AList.update current why bad))) \<le>
      card (?U - dom (map_of bad) - {current})"
    by (intro card_mono) (auto simp: image_image split: if_splits)
  also have "\<dots> < card (?U - dom (map_of bad))"
    using 3 by (intro card_Diff1_less) auto
  finally show ?case by (simp add: Un_commute Un_left_commute)
qed auto

definition invalidate :: "bytes \<Rightarrow> string \<Rightarrow> blockchain \<Rightarrow> blockchain" where
  "invalidate h why ch =
     ch\<lparr>bc_invalid := invalidate_loop (bc_storage ch) [(h, why)] (evict (bc_invalid ch))\<rparr>"

text \<open>The walk from the candidate to the active chain; the branch is returned in ascending order.\<close>

fun branch_walk ::
    "nat \<Rightarrow> blockchain \<Rightarrow> block_index_entry \<Rightarrow> block_index_entry list \<Rightarrow>
     (block_index_entry \<times> block_index_entry list) result" where
  "branch_walk 0 ch walker branch = (if be_in_chain walker then Inr (walker, branch) else Inl Nonterminating)"
| "branch_walk (Suc n) ch walker branch =
     (if be_in_chain walker then Inr (walker, branch)
      else if is_invalid ch (be_hash walker)
      then Inl (ConnectError (be_hash walker) ''branch contains an invalid block'')
      else case get_entry (bc_storage ch) (be_prev_hash walker) of
        None \<Rightarrow> Inl (ConnectError (be_hash walker) ''branch is missing its parent'')
      | Some parent \<Rightarrow> branch_walk n ch parent (walker # branch))"

text \<open>The local variables of the two loops that follow: \<^verbatim>\<open>tip\<close>, \<^verbatim>\<open>events\<close> and the database.\<close>

type_synonym switch_state = "block_index_entry \<times> chain_event list \<times> storage"

fun rollback :: "nat \<Rightarrow> crypto \<Rightarrow> bytes \<Rightarrow> switch_state \<Rightarrow> switch_state result" where
  "rollback 0 c fork (tip, events, s) =
     (if be_hash tip = fork then Inr (tip, events, s) else Inl Nonterminating)"
| "rollback (Suc n) c fork (tip, events, s) =
     (if be_hash tip = fork then Inr (tip, events, s)
      else bnd (disconnect_block c tip s) (\<lambda>(b, s).
        case get_entry s (be_prev_hash tip) of
          None \<Rightarrow> Inl (ConnectError (be_hash tip) ''active chain is missing a parent block'')
        | Some parent \<Rightarrow> rollback n c fork (parent, events @ [BlockDisconnected b (be_height tip)], s)))"

definition connect_entry ::
    "crypto \<Rightarrow> chain_params \<Rightarrow> block_index_entry \<Rightarrow> switch_state \<Rightarrow> switch_state result" where
  "connect_entry c p e st =
     (case st of (tip, events, s) \<Rightarrow>
      case get_block s (be_hash e) of
        None \<Rightarrow> Inl (ConnectError (be_hash e) ''block data is missing'')
      | Some b \<Rightarrow> bnd (connect_block c p b e s) (\<lambda>s.
          Inr (e\<lparr>be_in_chain := True\<rparr>, events @ [BlockConnected b (be_height e)], s)))"

definition switch_to :: "crypto \<Rightarrow> chain_params \<Rightarrow> block_index_entry \<Rightarrow> blockchain \<Rightarrow> switch_state result" where
  "switch_to c p candidate ch =
     bnd (branch_walk (walk_fuel (bc_storage ch)) ch candidate []) (\<lambda>(fork, branch).
     bnd (rollback (walk_fuel (bc_storage ch)) c (be_hash fork) (bc_tip ch, [], bc_storage ch)) (\<lambda>st.
     bnd (foldR (connect_entry c p) branch st) (\<lambda>(tip, events, s).
     Inr (tip, events, set_tip (be_hash tip) s))))"

fun activate_best_chain ::
    "nat \<Rightarrow> crypto \<Rightarrow> chain_params \<Rightarrow> bool \<Rightarrow> blockchain \<Rightarrow> bool result \<times> blockchain" where
  "activate_best_chain 0 c p reorganised ch = (Inl Nonterminating, ch)"
| "activate_best_chain (Suc n) c p reorganised ch =
     (case best_candidate ch of
        None \<Rightarrow> (Inr reorganised, ch)
      | Some candidate \<Rightarrow>
          (case switch_to c p candidate ch of
             Inl (ConnectError h why) \<Rightarrow> activate_best_chain n c p reorganised (invalidate h why ch)
           | Inl e \<Rightarrow> (Inl e, ch)
           | Inr (tip, events, s) \<Rightarrow>
               activate_best_chain n c p (reorganised \<or> list_ex is_disconnect events)
                 (ch\<lparr>bc_storage := s, bc_tip := tip, bc_events := bc_events ch @ events\<rparr>)))"

section \<open>Block acceptance\<close>

definition invalid_result :: "bytes \<Rightarrow> int option \<Rightarrow> string \<Rightarrow> add_block_result" where
  "invalid_result h height why = \<lparr>ar_status = INVALID, ar_block_hash = h, ar_height = height,
     ar_reason = why, ar_reorganised = False\<rparr>"

text \<open>The last part of \<open>add_block\<close>: store the block and let the best chain win.\<close>

definition store_block ::
    "nat \<Rightarrow> crypto \<Rightarrow> chain_params \<Rightarrow> block \<Rightarrow> block_index_entry \<Rightarrow> blockchain \<Rightarrow>
     add_block_result result \<times> blockchain" where
  "store_block fuel c p b parent ch =
     (let h = block_hash c b; height = be_height parent + 1 in
      case bnd (block_work (bh_bits (bk_header b))) (\<lambda>work.
          put_block c b height (be_chainwork parent + work) False (bc_storage ch)) of
        Inl e \<Rightarrow> (Inl e, ch)
      | Inr (_, s) \<Rightarrow>
          (case activate_best_chain fuel c p False (ch\<lparr>bc_storage := s\<rparr>) of
             (Inl e, ch') \<Rightarrow> (Inl e, ch')
           | (Inr reorganised, ch') \<Rightarrow>
               (case map_of (bc_invalid ch') h of
                  Some why \<Rightarrow> (Inr (invalid_result h (Some height) why), ch')
                | None \<Rightarrow>
                    let status = (case get_entry (bc_storage ch') h of
                        None \<Rightarrow> SIDE_BRANCH
                      | Some e \<Rightarrow> if be_in_chain e then CONNECTED else SIDE_BRANCH)
                    in (Inr \<lparr>ar_status = status, ar_block_hash = h, ar_height = Some height,
                          ar_reason = [], ar_reorganised = reorganised\<rparr>, ch'))))"

definition add_block ::
    "nat \<Rightarrow> crypto \<Rightarrow> chain_params \<Rightarrow> int \<Rightarrow> block \<Rightarrow> blockchain \<Rightarrow> add_block_result result \<times> blockchain" where
  "add_block fuel c p now b ch =
     (let h = block_hash c b; s = bc_storage ch;
          refuse = (\<lambda>height why. (Inr (invalid_result h height why), remember_invalid h why ch))
      in
      case map_of (bc_invalid ch) h of Some why \<Rightarrow> (Inr (invalid_result h None why), ch) | None \<Rightarrow>
      if has_block s h
      then (Inr \<lparr>ar_status = DUPLICATE, ar_block_hash = h, ar_height = map_option be_height (get_entry s h),
              ar_reason = [], ar_reorganised = False\<rparr>, ch)
      else case get_entry s (bh_prev_hash (bk_header b)) of
        None \<Rightarrow> (Inr \<lparr>ar_status = ORPHAN, ar_block_hash = h, ar_height = None,
              ar_reason = ''parent block is unknown'', ar_reorganised = False\<rparr>, ch)
      | Some parent \<Rightarrow>
      let height = be_height parent + 1; auxpow_active = auxpow_active_at p height in
      if has_auxpow b \<and> \<not> auxpow_active then refuse (Some height) ''AuxPoW is not active''
      else case bnd (pow_limit p) (\<lambda>limit.
          block_check_sanity c limit (pm_max_block_size p) (pm_min_output_value p) auxpow_active b) of
        Inl e \<Rightarrow> if is_block_error e then refuse None (exn_message e) else (Inl e, ch)
      | Inr _ \<Rightarrow>
      if is_invalid ch (be_hash parent) then refuse None ''the parent block is invalid''
      else if (case map_of (pm_checkpoints p) height of None \<Rightarrow> False | Some cp \<Rightarrow> block_hash_hex c b \<noteq> cp)
      then refuse (Some height) ''block does not match the checkpoint''
      else case check_context p s b parent height now of
        Inl e \<Rightarrow>
          if is_premature e
          then (Inr \<lparr>ar_status = PREMATURE, ar_block_hash = h, ar_height = Some height,
                  ar_reason = exn_message e, ar_reorganised = False\<rparr>, ch)
          else if is_ValidationError e then refuse (Some height) (exn_message e) else (Inl e, ch)
      | Inr _ \<Rightarrow>
      case (case bk_auxpow b of None \<Rightarrow> Inr () | Some a \<Rightarrow> validate_block_auxpow c p b a) of
        Inl e \<Rightarrow> if is_ValidationError e then refuse (Some height) (exn_message e) else (Inl e, ch)
      | Inr _ \<Rightarrow> store_block fuel c p b parent ch)"

section \<open>Pruning\<close>

definition min_prune_keep :: "chain_params \<Rightarrow> int" where
  "min_prune_keep p =
     (if pm_name p = ''regtest'' then max 2 (pm_coinbase_maturity p) else MIN_PRUNE_KEEP)"

definition prune :: "crypto \<Rightarrow> chain_params \<Rightarrow> int \<Rightarrow> blockchain \<Rightarrow> prune_result \<times> blockchain" where
  "prune c p keep_blocks ch =
     (let keep = max (min_prune_keep p) keep_blocks; horizon = be_height (bc_tip ch) - keep in
      if horizon < 1
      then (\<lparr>pr_blocks = 0, pr_transactions = 0, pr_freed_bytes = 0,
             pr_prune_height = prune_height (bc_storage ch)\<rparr>, ch)
      else case prune_to c horizon (bc_storage ch) of (res, s) \<Rightarrow> (res, ch\<lparr>bc_storage := s\<rparr>))"

end
