(* ===== verification/Reorg.thy ===== *)
theory Reorg
  imports Chain
begin

text \<open>
  The invariant of the block tree and its proof: whatever blocks arrive, and however often the chain
  reorganises, the coins in the database are those of the abstract ledger of the active chain.
\<close>

section \<open>The invariant\<close>

definition works_ok :: "storage \<Rightarrow> bool" where
  "works_ok s \<longleftrightarrow> (\<forall>e e'. stored s e \<and> 0 < be_height e \<and> get_entry s (be_prev_hash e) = Some e' \<longrightarrow>
     be_chainwork e' \<le> be_chainwork e)"

text \<open>The header of a block commits to its transactions.\<close>

definition body_committed :: "crypto \<Rightarrow> block \<Rightarrow> bool" where
  "body_committed c b \<longleftrightarrow> computed_merkle_root c b = Inr (bh_merkle_root (bk_header b))"

text \<open>
  Stored bodies have the hash they are stored under and the Merkle root of their header, passed the stateless checks,
  and consist of known transactions.
\<close>

definition bodies_ok :: "crypto \<Rightarrow> transaction set \<Rightarrow> storage \<Rightarrow> bool" where
  "bodies_ok c T s \<longleftrightarrow> (\<forall>h b e. get_entry s h = Some e \<and> get_block s h = Some b \<longrightarrow>
     block_hash c b = h \<and> body_committed c b \<and> block_shape (be_height e) b \<and> set (bk_transactions b) \<subseteq> T)"

text \<open>The active chain consists of the blocks \<open>bs\<close>, genesis first; their bodies may be pruned.\<close>

definition on_chain :: "crypto \<Rightarrow> storage \<Rightarrow> block list \<Rightarrow> bool" where
  "on_chain c s bs \<longleftrightarrow>
     (\<forall>i < length bs. \<exists>e. stored s e \<and> be_in_chain e \<and> be_height e = int i \<and> be_hash e = block_hash c (bs ! i)) \<and>
     (\<forall>e. stored s e \<and> be_in_chain e \<longrightarrow> be_height e < int (length bs)) \<and>
     (\<forall>e. stored s e \<and> \<not> be_in_chain e \<longrightarrow> 0 < be_height e) \<and>
     (\<forall>i < length bs. get_block s (block_hash c (bs ! i)) \<in> {None, Some (bs ! i)}) \<and>
     (\<forall>b \<in> set bs. body_committed c b)"

definition undo_ok :: "crypto \<Rightarrow> chain_params \<Rightarrow> storage \<Rightarrow> block list \<Rightarrow> bool" where
  "undo_ok c p s bs \<longleftrightarrow>
     (\<forall>i data. i < length bs \<and> map_of (st_undo s) (block_hash c (bs ! i)) = Some data \<longrightarrow>
        (\<exists>us v v'. ledger_chain c p 0 (take i bs) (\<lambda>_. None) = Some v \<and>
           ledger_chain c p 0 (take (Suc i) bs) (\<lambda>_. None) = Some v' \<and>
           undo_encode us = Inr data \<and> length us < 2 ^ 32 \<and> undo_for c (bs ! i) v v' us))"

definition active ::
    "crypto \<Rightarrow> chain_params \<Rightarrow> transaction set \<Rightarrow> storage \<Rightarrow> block_index_entry \<Rightarrow> block list \<Rightarrow> bool" where
  "active c p T s tip bs \<longleftrightarrow> index_ok s \<and> works_ok s \<and> bodies_ok c T s \<and> on_chain c s bs \<and> undo_ok c p s bs \<and>
     keys_distinct (st_utxo s) \<and> stored s tip \<and> be_in_chain tip \<and> int (length bs) = be_height tip + 1 \<and>
     chain_shape 0 bs \<and> set (chain_txs bs) \<subseteq> T \<and>
     ledger_chain c p 0 bs (\<lambda>_. None) = Some (get_coin s)"

definition chain_ok :: "crypto \<Rightarrow> chain_params \<Rightarrow> transaction set \<Rightarrow> blockchain \<Rightarrow> bool" where
  "chain_ok c p T ch \<longleftrightarrow> st_tip (bc_storage ch) = Some (be_hash (bc_tip ch)) \<and>
     (\<exists>bs. active c p T (bc_storage ch) (bc_tip ch) bs)"

section \<open>Changing the flag of one block\<close>

lemma stored_flag:
  assumes "st_blocks s' = st_blocks (set_in_chain h v s)"
  shows "stored s' e' \<longleftrightarrow> (\<exists>e. stored s e \<and> e' = (if be_hash e = h then e\<lparr>be_in_chain := v\<rparr> else e))"
proof -
  have "stored s' e' \<longleftrightarrow> get_entry (set_in_chain h v s) (be_hash e') = Some e'"
    by (simp add: stored_def get_entry_cong [OF assms])
  also have "\<dots> \<longleftrightarrow> (\<exists>e. get_entry s (be_hash e') = Some e \<and> e' = (if be_hash e' = h then e\<lparr>be_in_chain := v\<rparr> else e))"
    by (auto simp: get_entry_set_in_chain)
  also have "\<dots> \<longleftrightarrow> (\<exists>e. stored s e \<and> e' = (if be_hash e = h then e\<lparr>be_in_chain := v\<rparr> else e))"
    by (auto simp: get_entry_stored)
  finally show ?thesis .
qed

lemma get_entry_flag:
  assumes "st_blocks s' = st_blocks (set_in_chain h v s)"
  shows "get_entry s' k = map_option (\<lambda>e. if k = h then e\<lparr>be_in_chain := v\<rparr> else e) (get_entry s k)"
  by (simp add: get_entry_cong [OF assms] get_entry_set_in_chain)

lemma index_ok_flag:
  assumes "index_ok s" "st_blocks s' = st_blocks (set_in_chain (be_hash e) v s)" "stored s e"
    and "v \<Longrightarrow> 0 < be_height e \<Longrightarrow> \<exists>t. get_entry s (be_prev_hash e) = Some t \<and> be_in_chain t"
    and "v \<Longrightarrow> \<forall>x. stored s x \<and> be_in_chain x \<longrightarrow> be_height x < be_height e"
    and "\<not> v \<Longrightarrow> \<forall>x. stored s x \<and> be_in_chain x \<longrightarrow> be_height x \<le> be_height e"
  shows "index_ok s'"
proof -
  let ?f = "\<lambda>x. if be_hash x = be_hash e then x\<lparr>be_in_chain := v\<rparr> else x"
  have self: "x = e" if "stored s x" "be_hash x = be_hash e" for x
    using that assms(3) by (simp add: stored_def)
  have par: "\<exists>y. get_entry s' (be_prev_hash x) = Some y \<and> be_height y = be_height x - 1 \<and>
      (be_in_chain (?f x) \<longrightarrow> be_in_chain y)" if x: "stored s x" "0 < be_height x" for x
  proof -
    obtain y where y: "get_entry s (be_prev_hash x) = Some y" "stored s y" "be_height y = be_height x - 1"
      "be_in_chain x \<longrightarrow> be_in_chain y"
      using index_okD(3) [OF assms(1) x] by blast
    have "be_in_chain (?f y)" if "be_in_chain (?f x)"
    proof (cases "be_hash x = be_hash e")
      case True
      then have "v" using that by simp
      moreover have "x = e" using self x True by simp
      ultimately show ?thesis using assms(4) x y(1) by auto
    next
      case False
      then have "be_in_chain x" using that by simp
      moreover have "v" if "be_hash y = be_hash e"
        using self [OF y(2) that] y(3) x(1) assms(6) \<open>be_in_chain x\<close> by fastforce
      ultimately show ?thesis using y(4) by auto
    qed
    moreover have "get_entry s' (be_prev_hash x) = Some (?f y)"
      using get_entry_flag [OF assms(2)] y(1) by (auto simp: get_entry_stored)
    ultimately show ?thesis using y(3) by auto
  qed
  have uniq: "?f x = ?f y" if xy: "stored s x" "stored s y" "be_in_chain (?f x)" "be_in_chain (?f y)" "be_height x = be_height y" for x y
  proof (cases "be_hash x = be_hash e \<or> be_hash y = be_hash e")
    case True
    then have v using xy by auto
    then have "be_hash x = be_hash e \<and> be_hash y = be_hash e"
      using True xy self assms(5) by (metis less_irrefl)
    then show ?thesis using self xy by metis
  next
    case False
    then show ?thesis using index_okD(4) [OF assms(1)] xy by auto
  qed
  have "keys_distinct (st_blocks s')"
    using index_okD(1) [OF assms(1)] by (simp add: assms(2))
  moreover have "0 \<le> be_height e' \<and> (0 < be_height e' \<longrightarrow> (\<exists>y. get_entry s' (be_prev_hash e') = Some y \<and>
      be_height y = be_height e' - 1 \<and> (be_in_chain e' \<longrightarrow> be_in_chain y)))" if "stored s' e'" for e'
  proof -
    obtain x where x: "stored s x" "e' = ?f x" using \<open>stored s' e'\<close> stored_flag [OF assms(2)] by blast
    then have "be_height e' = be_height x" "be_prev_hash e' = be_prev_hash x" by simp_all
    then show ?thesis using index_okD(2) [OF assms(1) x(1)] par [OF x(1)] x(2) by simp
  qed
  moreover have "e' = e''"
    if that': "stored s' e'" "stored s' e''" "be_in_chain e'" "be_in_chain e''" "be_height e' = be_height e''" for e' e''
  proof -
    obtain x y where x: "stored s x" "e' = ?f x" and y: "stored s y" "e'' = ?f y"
      using that'(1,2) stored_flag [OF assms(2)] by blast
    have "be_height x = be_height y" using that'(5) unfolding x(2) y(2) by (simp split: if_splits)
    with uniq [OF x(1) y(1)] show ?thesis using that'(3,4) unfolding x(2) y(2) by blast
  qed
  ultimately show ?thesis
    unfolding index_ok_def by blast
qed

lemma works_ok_flag:
  assumes "works_ok s" "st_blocks s' = st_blocks (set_in_chain h v s)"
  shows "works_ok s'"
  unfolding works_ok_def stored_flag [OF assms(2)] get_entry_flag [OF assms(2)]
  using assms(1) by (auto simp: works_ok_def split: if_splits)

lemma bodies_ok_flag:
  assumes "bodies_ok c T s" "st_blocks s' = st_blocks (set_in_chain h v s)"
  shows "bodies_ok c T s'"
  using assms(1) unfolding bodies_ok_def get_entry_flag [OF assms(2)] get_block_cong [OF assms(2)]
  by (auto split: if_splits)

section \<open>One block off the chain, one block onto it\<close>

lemma activeD:
  assumes "active c p T s tip bs"
  shows "index_ok s" "works_ok s" "bodies_ok c T s" "on_chain c s bs" "undo_ok c p s bs"
    "keys_distinct (st_utxo s)" "stored s tip" "be_in_chain tip" "int (length bs) = be_height tip + 1"
    "chain_shape 0 bs" "set (chain_txs bs) \<subseteq> T" "ledger_chain c p 0 bs (\<lambda>_. None) = Some (get_coin s)"
  using assms by (simp_all add: active_def)

lemma on_chainD:
  assumes "on_chain c s bs"
  shows "i < length bs \<Longrightarrow> \<exists>e. stored s e \<and> be_in_chain e \<and> be_height e = int i \<and> be_hash e = block_hash c (bs ! i)"
    and "stored s e \<Longrightarrow> be_in_chain e \<Longrightarrow> be_height e < int (length bs)"
    and "i < length bs \<Longrightarrow> get_block s (block_hash c (bs ! i)) = Some b \<Longrightarrow> b = bs ! i"
    and "stored s e \<Longrightarrow> \<not> be_in_chain e \<Longrightarrow> 0 < be_height e"
    and "\<forall>b \<in> set bs. body_committed c b"
  using assms unfolding on_chain_def by (blast, blast, force, blast, blast)

lemma stored_same_hash: "stored s e \<Longrightarrow> stored s e' \<Longrightarrow> be_hash e = be_hash e' \<Longrightarrow> e = e'"
  by (simp add: stored_def)

lemma active_last:
  assumes "active c p T s tip (bs @ [b])"
  shows "be_hash tip = block_hash c b" "be_height tip = int (length bs)"
proof -
  note a = activeD [OF assms]
  show h: "be_height tip = int (length bs)" using a(9) by simp
  obtain e where "stored s e" "be_in_chain e" "be_height e = int (length bs)" "be_hash e = block_hash c b"
    using on_chainD(1) [OF a(4), of "length bs"] by auto
  then show "be_hash tip = block_hash c b"
    using index_okD(4) [OF a(1) a(7) _ a(8)] h by metis
qed

lemma undo_ok_prefix:
  assumes "undo_ok c p s (bs @ bs')" "st_undo s' = st_undo s"
  shows "undo_ok c p s' bs"
  unfolding undo_ok_def
proof (intro allI impI, elim conjE)
  fix i data assume i: "i < length bs" "map_of (st_undo s') (block_hash c (bs ! i)) = Some data"
  then have "i < length (bs @ bs')" "map_of (st_undo s) (block_hash c ((bs @ bs') ! i)) = Some data"
    by (simp_all add: assms(2) nth_append)
  then show "\<exists>us v v'. ledger_chain c p 0 (take i bs) (\<lambda>_. None) = Some v \<and>
      ledger_chain c p 0 (take (Suc i) bs) (\<lambda>_. None) = Some v' \<and>
      undo_encode us = Inr data \<and> length us < 2 ^ 32 \<and> undo_for c (bs ! i) v v' us"
    using assms(1) i(1) unfolding undo_ok_def by (fastforce simp: nth_append)
qed

lemma on_chain_off:
  assumes "active c p T s tip (bs @ [b])" "bs \<noteq> []" "st_blocks s' = st_blocks (set_in_chain (be_hash tip) False s)"
  shows "on_chain c s' bs"
proof -
  note a = activeD [OF assms(1)] and last = active_last [OF assms(1)]
  note flag = stored_flag [OF assms(3)]
  have "\<exists>e. stored s' e \<and> be_in_chain e \<and> be_height e = int i \<and> be_hash e = block_hash c (bs ! i)"
    if i: "i < length bs" for i
  proof -
    obtain e where e: "stored s e" "be_in_chain e" "be_height e = int i" "be_hash e = block_hash c (bs ! i)"
      using on_chainD(1) [OF a(4), of i] i by (auto simp: nth_append)
    then have "be_hash e \<noteq> be_hash tip"
      using stored_same_hash [OF e(1) a(7)] last(2) i by auto
    then have "stored s' e" unfolding flag using e(1) by auto
    then show ?thesis using e by blast
  qed
  moreover have "be_height e < int (length bs)" if e: "stored s' e" "be_in_chain e" for e
  proof -
    obtain x where x: "stored s x" "e = (if be_hash x = be_hash tip then x\<lparr>be_in_chain := False\<rparr> else x)"
      using e(1) flag by blast
    then have ex: "e = x" "be_hash x \<noteq> be_hash tip" using e(2) by (auto split: if_splits)
    then have "x \<noteq> tip" by blast
    then have "be_height x \<noteq> int (length bs)"
      using index_okD(4) [OF a(1) x(1) a(7) _ a(8)] e(2) ex(1) last(2) by auto
    then show ?thesis
      using on_chainD(2) [OF a(4) x(1)] e(2) ex(1) by simp
  qed
  moreover have "get_block s' (block_hash c (bs ! i)) \<in> {None, Some (bs ! i)}" if "i < length bs" for i
    using on_chainD(3) [OF a(4), of i] that
    by (cases "get_block s (block_hash c (bs ! i))") (auto simp: get_block_cong [OF assms(3)] nth_append)
  moreover have "0 < be_height e" if e: "stored s' e" "\<not> be_in_chain e" for e
  proof -
    obtain x where x: "stored s x" "e = (if be_hash x = be_hash tip then x\<lparr>be_in_chain := False\<rparr> else x)"
      using e(1) flag by blast
    then show ?thesis
      using on_chainD(4) [OF a(4) x(1)] stored_same_hash [OF x(1) a(7)] e(2) last(2) assms(2)
      by (auto split: if_splits)
  qed
  moreover have "\<forall>b \<in> set bs. body_committed c b" using on_chainD(5) [OF a(4)] by simp
  ultimately show ?thesis unfolding on_chain_def by blast
qed

lemma disconnect_active:
  assumes "active c p T s tip (bs @ [b])" "bs \<noteq> []" "crypto_ok c" "params_ok p" "\<not> colliding c (body_bytes ` T)"
    and "disconnect_block c tip s = Inr (b', s')" "get_entry s' (be_prev_hash tip) = Some parent"
  shows "active c p T s' parent bs" "b' = b"
proof -
  note a = activeD [OF assms(1)] and last = active_last [OF assms(1)] and eff = disconnect_block_effect [OF assms(6)]
  show "b' = b"
    using on_chainD(3) [OF a(4), of "length bs" b'] eff(1) last(1) by simp
  then have b: "get_block s (be_hash tip) = Some b" using eff(1) by simp
  obtain t where t: "get_entry s (be_prev_hash tip) = Some t" "stored s t" "be_height t = be_height tip - 1" "be_in_chain t"
    using index_okD(3) [OF a(1) a(7)] last(2) assms(2) a(8) by auto
  then have "be_hash t \<noteq> be_hash tip" using stored_same_hash [OF t(2) a(7)] by auto
  then have parent: "parent = t"
    using assms(7) t(1,2) get_entry_flag [OF eff(3)] by (auto simp: get_entry_stored)
  have st: "stored s' parent"
    using assms(7) by (simp add: get_entry_stored)
  have off: "\<forall>x. stored s x \<and> be_in_chain x \<longrightarrow> be_height x \<le> be_height tip"
    using on_chainD(2) [OF a(4)] last(2) by fastforce
  have idx: "index_ok s'" by (rule index_ok_flag [OF a(1) eff(3) a(7)]) (use off in auto)
  obtain data where data: "map_of (st_undo s) (block_hash c b) = Some data"
    using eff(2) last(1) by (auto simp: get_undo_def split: option.splits)
  then obtain us v where us: "ledger_chain c p 0 bs (\<lambda>_. None) = Some v" "undo_encode us = Inr data"
      "length us < 2 ^ 32" "undo_for c b v (get_coin s) us"
    using a(5,12) unfolding undo_ok_def by (fastforce dest: spec [of _ "length bs"])
  have shape: "chain_shape 0 bs" using a(10) by (simp add: chain_shape_append)
  have "get_undo s (be_hash tip) = Inr us"
    using undo_for_wf [OF us(4) genesis_chain_supply(1) [OF us(1) shape assms(3,4)] us(2,3)] data last(1) by simp
  then have "get_coin s' = (get_coin s |` (- block_outpoints c b)) ++ map_of (rev us)"
    using eff(2) \<open>b' = b\<close> by auto
  also have "\<dots> = v"
  proof (rule undo_for_restores [OF us(4)])
    have "\<not> colliding c (body_bytes ` set (chain_txs (bs @ [b])))"
      using assms(5) a(11) unfolding colliding_def by (meson image_mono in_mono)
    then show "\<forall>op \<in> block_outpoints c b. v op = None"
      using genesis_chain_fresh [OF us(1) a(12) a(10) assms(3,4)] by (auto simp: block_outpoints_def)
  qed
  finally have "ledger_chain c p 0 bs (\<lambda>_. None) = Some (get_coin s')" using us(1) by simp
  then show "active c p T s' parent bs"
    unfolding active_def
    using idx works_ok_flag [OF a(2) eff(3)] bodies_ok_flag [OF a(3) eff(3)] on_chain_off [OF assms(1,2) eff(3)]
      undo_ok_prefix [OF a(5) eff(5)] eff(7) a(6) st parent t(3,4) last(2) shape a(11) by simp
qed

lemma on_chain_on:
  assumes "active c p T s tip bs" "st_blocks s' = st_blocks (set_in_chain (be_hash e) True s)"
    and "stored s e" "\<not> be_in_chain e" "be_height e = be_height tip + 1"
    and "get_block s (be_hash e) = Some b" "block_hash c b = be_hash e" "body_committed c b"
  shows "on_chain c s' (bs @ [b])"
proof -
  note a = activeD [OF assms(1)] and flag = stored_flag [OF assms(2)]
  have new: "stored s' (e\<lparr>be_in_chain := True\<rparr>)" unfolding flag using assms(3) by auto
  have old: "stored s' x" if "stored s x" "be_in_chain x" for x
  proof -
    have "be_hash x \<noteq> be_hash e" using stored_same_hash [OF that(1) assms(3)] that(2) assms(4) by blast
    then show ?thesis unfolding flag using that(1) by auto
  qed
  have "\<exists>x. stored s' x \<and> be_in_chain x \<and> be_height x = int i \<and> be_hash x = block_hash c ((bs @ [b]) ! i)"
    if i: "i < length (bs @ [b])" for i
  proof (cases "i < length bs")
    case True
    then show ?thesis using on_chainD(1) [OF a(4) True] old by (force simp: nth_append)
  next
    case False
    then have "i = length bs" using i by simp
    then show ?thesis
      using new a(9) assms(5,7) by (intro exI [of _ "e\<lparr>be_in_chain := True\<rparr>"]) simp
  qed
  moreover have "be_height x < int (length (bs @ [b]))" if x: "stored s' x" "be_in_chain x" for x
  proof -
    obtain y where y: "stored s y" "x = (if be_hash y = be_hash e then y\<lparr>be_in_chain := True\<rparr> else y)"
      using x(1) flag by blast
    show ?thesis
    proof (cases "be_hash y = be_hash e")
      case True
      then have "y = e" using stored_same_hash [OF y(1) assms(3)] by simp
      then show ?thesis using y(2) a(9) assms(5) by simp
    next
      case False
      then show ?thesis using on_chainD(2) [OF a(4) y(1)] y(2) x(2) by simp
    qed
  qed
  moreover have "0 < be_height x" if x: "stored s' x" "\<not> be_in_chain x" for x
  proof -
    obtain y where y: "stored s y" "x = (if be_hash y = be_hash e then y\<lparr>be_in_chain := True\<rparr> else y)"
      using x(1) flag by blast
    then have "x = y" using x(2) by (simp split: if_splits)
    then show ?thesis using on_chainD(4) [OF a(4) y(1)] x(2) by simp
  qed
  moreover have "get_block s' (block_hash c ((bs @ [b]) ! i)) \<in> {None, Some ((bs @ [b]) ! i)}"
    if "i < length (bs @ [b])" for i
    using on_chainD(3) [OF a(4), of i] that assms(6,7)
    by (cases "get_block s (block_hash c ((bs @ [b]) ! i))")
      (auto simp: get_block_cong [OF assms(2)] nth_append less_Suc_eq)
  moreover have "\<forall>x \<in> set (bs @ [b]). body_committed c x" using on_chainD(5) [OF a(4)] assms(8) by simp
  ultimately show ?thesis unfolding on_chain_def by blast
qed

lemma undo_ok_on:
  assumes "undo_ok c p s bs" "ledger_chain c p 0 bs (\<lambda>_. None) = Some v"
    "ledger_chain c p 0 (bs @ [b]) (\<lambda>_. None) = Some v'"
    and "undo_for c b v v' us" "undo_encode us = Inr data" "length us < 2 ^ 32"
    and "\<And>h. map_of (st_undo s') h = undo_after e s data h"
    and "undo_after e s data (block_hash c b) = Some data" "\<forall>i < length bs. block_hash c (bs ! i) \<noteq> be_hash e"
  shows "undo_ok c p s' (bs @ [b])"
  unfolding undo_ok_def
proof (intro allI impI, elim conjE)
  fix i d assume i: "i < length (bs @ [b])" and d: "map_of (st_undo s') (block_hash c ((bs @ [b]) ! i)) = Some d"
  show "\<exists>us v v'. ledger_chain c p 0 (take i (bs @ [b])) (\<lambda>_. None) = Some v \<and>
      ledger_chain c p 0 (take (Suc i) (bs @ [b])) (\<lambda>_. None) = Some v' \<and>
      undo_encode us = Inr d \<and> length us < 2 ^ 32 \<and> undo_for c ((bs @ [b]) ! i) v v' us"
  proof (cases "i < length bs")
    case True
    then have "map_of (st_undo s) (block_hash c (bs ! i)) = Some d"
      using d assms(7,9) by (auto simp: nth_append undo_after_def split: if_splits)
    then show ?thesis using assms(1) True unfolding undo_ok_def by (fastforce simp: nth_append)
  next
    case False
    then have "i = length bs" using i by simp
    then show ?thesis using assms(2-8) d by auto
  qed
qed

lemma connect_active:
  assumes "active c p T s tip bs" "crypto_ok c" "params_ok p"
    and "stored s e" "\<not> be_in_chain e" "be_prev_hash e = be_hash tip" "be_height e = be_height tip + 1"
    and "get_block s (be_hash e) = Some b" "connect_block c p b e s = Inr s'"
  shows "active c p T s' (e\<lparr>be_in_chain := True\<rparr>) (bs @ [b])"
proof -
  note a = activeD [OF assms(1)] and eff = connect_block_effect [OF assms(9)]
  have entry: "get_entry s (be_hash e) = Some e" using assms(4) by (simp add: stored_def)
  then have b: "block_hash c b = be_hash e" "block_shape (be_height e) b" "set (bk_transactions b) \<subseteq> T" "body_committed c b"
    using a(3) assms(8) unfolding bodies_ok_def by blast+
  have run: "ledger_chain c p 0 (bs @ [b]) (\<lambda>_. None) = Some (get_coin s')"
    using eff(1) a(9,12) assms(7) by (simp add: ledger_chain_append)
  have shape: "chain_shape 0 (bs @ [b])"
    using a(9,10) b(2) assms(7) by (simp add: chain_shape_append)
  obtain us data where us: "undo_for c b (get_coin s) (get_coin s') us" "undo_encode us = Inr data"
      "length us \<le> length (concat (map tx_inputs (bk_transactions b)))"
    and undo: "\<And>h. map_of (st_undo s') h = undo_after e s data h"
    using eff(6) by blast
  have len: "length us < 2 ^ 32" using us(3) b(2) by (simp add: block_shape_def)
  have "\<forall>i < length bs. block_hash c (bs ! i) \<noteq> be_hash e"
    using on_chainD(1) [OF a(4)] stored_same_hash [OF _ assms(4)] assms(5) by metis
  then have undos: "undo_ok c p s' (bs @ [b])"
    using undo_ok_on [OF a(5) a(12) run us(1,2) len undo] undo_after_self [OF index_okD(1) [OF a(1)] entry] b(1) by simp
  have idx: "index_ok s'"
  proof (rule index_ok_flag [OF a(1) eff(2) assms(4)])
    show "\<exists>t. get_entry s (be_prev_hash e) = Some t \<and> be_in_chain t"
      using a(7,8) assms(6) by (auto simp: stored_def)
    show "\<forall>x. stored s x \<and> be_in_chain x \<longrightarrow> be_height x < be_height e"
      using on_chainD(2) [OF a(4)] a(9) assms(7) by simp
  qed simp
  have "stored s' (e\<lparr>be_in_chain := True\<rparr>)"
    unfolding stored_flag [OF eff(2)] using assms(4) by auto
  then show ?thesis
    unfolding active_def
    using idx works_ok_flag [OF a(2) eff(2)] bodies_ok_flag [OF a(3) eff(2)] undos shape run a(6,9,11) b(3) eff(5) assms(7)
      on_chain_on [OF assms(1) eff(2) assms(4,5,7,8) b(1,4)] by simp
qed

section \<open>A reorganisation\<close>

lemma rollback_active:
  assumes "active c p T s tip bs" "crypto_ok c" "params_ok p" "\<not> colliding c (body_bytes ` T)"
    and "stored s fork" "be_in_chain fork" "rollback n c (be_hash fork) (tip, evs, s) = Inr (tip', evs', s')"
  shows "tip' = fork \<and> (\<exists>bs'. active c p T s' fork bs') \<and> st_tip s' = st_tip s \<and>
    (\<forall>e. stored s e \<and> \<not> be_in_chain e \<longrightarrow> stored s' e)"
  using assms(1,5,7)
proof (induction n arbitrary: s tip bs evs)
  case 0
  then have "be_hash tip = be_hash fork" "tip' = tip" "s' = s" by (auto split: if_splits)
  then show ?case
    using stored_same_hash [OF activeD(7) [OF 0(1)] 0(2)] 0(1) by blast
next
  case (Suc n)
  note a = activeD [OF Suc.prems(1)]
  show ?case
  proof (cases "be_hash tip = be_hash fork")
    case True
    then have "tip' = tip" "s' = s" using Suc.prems(3) by auto
    then show ?thesis using stored_same_hash [OF a(7) Suc.prems(2) True] Suc.prems(1) by blast
  next
    case False
    then obtain b s1 parent where dis: "disconnect_block c tip s = Inr (b, s1)"
      and par: "get_entry s1 (be_prev_hash tip) = Some parent"
      and rest: "rollback n c (be_hash fork) (parent, evs @ [BlockDisconnected b (be_height tip)], s1) = Inr (tip', evs', s')"
      using Suc.prems(3) by (auto simp: bnd_eq_Inr split: option.splits)
    note eff = disconnect_block_effect [OF dis]
    have "fork \<noteq> tip" using False by blast
    then have "be_height fork < be_height tip"
      using on_chainD(2) [OF a(4) Suc.prems(2) assms(6)] index_okD(4) [OF a(1) Suc.prems(2) a(7) assms(6) a(8)] a(9)
      by fastforce
    then have "1 < length bs" using index_okD(2) [OF a(1) Suc.prems(2)] a(9) by simp
    then obtain bs0 b0 where bs: "bs = bs0 @ [b0]" "bs0 \<noteq> []"
      by (cases bs rule: rev_cases) auto
    have act: "active c p T s1 parent bs0"
      using disconnect_active(1) [OF Suc.prems(1) [unfolded bs(1)] bs(2) assms(2-4) dis par] .
    have keep: "stored s1 e" if "stored s e" "be_hash e \<noteq> be_hash tip" for e
      unfolding stored_flag [OF eff(3)] using that by auto
    have others: "be_hash e \<noteq> be_hash tip" if "stored s e" "\<not> be_in_chain e" for e
      using stored_same_hash [OF that(1) a(7)] that(2) a(8) by blast
    show ?thesis
      using Suc.IH [OF act keep [OF Suc.prems(2)] rest] False keep others eff(4) by auto
  qed
qed

text \<open>A chain of stored blocks off the active chain, on top of \<open>f\<close>.\<close>

fun linked :: "storage \<Rightarrow> block_index_entry \<Rightarrow> block_index_entry list \<Rightarrow> bool" where
  "linked s f [] \<longleftrightarrow> True"
| "linked s f (e # es) \<longleftrightarrow> stored s e \<and> \<not> be_in_chain e \<and> be_prev_hash e = be_hash f \<and>
     be_height e = be_height f + 1 \<and> linked s e es"

lemma linked_above: "linked s f es \<Longrightarrow> x \<in> set es \<Longrightarrow> be_height f < be_height x"
  by (induction s f es rule: linked.induct) fastforce+

lemma linked_cong: "be_hash f = be_hash f' \<Longrightarrow> be_height f = be_height f' \<Longrightarrow> linked s f es = linked s f' es"
  by (cases es) simp_all

lemma linked_mono:
  "linked s f es \<Longrightarrow> (\<And>x. x \<in> set es \<Longrightarrow> stored s x \<Longrightarrow> stored s' x) \<Longrightarrow> linked s' f es"
  by (induction s f es rule: linked.induct) auto

lemma linked_stored: "linked s f es \<Longrightarrow> x \<in> set es \<Longrightarrow> stored s x \<and> \<not> be_in_chain x"
  by (induction s f es rule: linked.induct) auto

lemma branch_walk_linked:
  assumes "index_ok (bc_storage ch)" "on_chain c (bc_storage ch) bs"
    and "stored (bc_storage ch) walker" "linked (bc_storage ch) walker branch"
    and "branch_walk n ch walker branch = Inr (fork, branch')"
  shows "stored (bc_storage ch) fork \<and> be_in_chain fork \<and> linked (bc_storage ch) fork branch' \<and>
    last (fork # branch') = last (walker # branch)"
  using assms(3-5)
proof (induction n arbitrary: walker branch)
  case 0
  then show ?case by (auto split: if_splits)
next
  case (Suc n)
  show ?case
  proof (cases "be_in_chain walker")
    case True
    then show ?thesis using Suc.prems by auto
  next
    case False
    then obtain parent where par: "get_entry (bc_storage ch) (be_prev_hash walker) = Some parent"
      and rest: "branch_walk n ch parent (walker # branch) = Inr (fork, branch')"
      using Suc.prems(3) by (auto split: if_splits option.splits)
    have "0 < be_height walker" using on_chainD(4) [OF assms(2) Suc.prems(1) False] .
    then have p: "stored (bc_storage ch) parent" "be_height parent = be_height walker - 1" "be_hash parent = be_prev_hash walker"
      using index_okD(3) [OF assms(1) Suc.prems(1)] par by (auto simp: get_entry_stored)
    show ?thesis
      using Suc.IH [OF p(1) _ rest] Suc.prems(1,2) False p(2,3) by simp
  qed
qed

lemma connect_entry_Inr:
  "connect_entry c p e (tip, evs, s) = Inr st \<longleftrightarrow> (\<exists>b s1. get_block s (be_hash e) = Some b \<and>
     connect_block c p b e s = Inr s1 \<and> st = (e\<lparr>be_in_chain := True\<rparr>, evs @ [BlockConnected b (be_height e)], s1))"
  by (auto simp: connect_entry_def lookup_eq_Inr bnd_eq_Inr)

lemma connect_branch_active:
  assumes "active c p T s tip bs" "crypto_ok c" "params_ok p" "linked s tip branch"
    and "foldR (connect_entry c p) branch (tip, evs, s) = Inr (tip', evs', s')"
  shows "(\<exists>bs'. active c p T s' tip' bs') \<and> st_tip s' = st_tip s \<and>
    tip' = (if branch = [] then tip else (last branch)\<lparr>be_in_chain := True\<rparr>)"
  using assms(1,4,5)
proof (induction branch arbitrary: s tip bs evs)
  case (Cons e es)
  obtain b s1 where b: "get_block s (be_hash e) = Some b" and con: "connect_block c p b e s = Inr s1"
    and rest: "foldR (connect_entry c p) es (e\<lparr>be_in_chain := True\<rparr>, evs @ [BlockConnected b (be_height e)], s1) =
      Inr (tip', evs', s')"
    using Cons.prems(3) unfolding foldR.simps bnd_eq_Inr connect_entry_Inr by blast
  note eff = connect_block_effect [OF con]
  have e: "stored s e" "\<not> be_in_chain e" "be_prev_hash e = be_hash tip" "be_height e = be_height tip + 1" "linked s e es"
    using Cons.prems(2) by simp_all
  have act: "active c p T s1 (e\<lparr>be_in_chain := True\<rparr>) (bs @ [b])"
    by (rule connect_active [OF Cons.prems(1) assms(2,3) e(1-4) b con])
  have "stored s1 x" if "x \<in> set es" "stored s x" for x
  proof -
    have "be_hash x \<noteq> be_hash e"
      using stored_same_hash [OF that(2) e(1)] linked_above [OF e(5) that(1)] by auto
    then show ?thesis unfolding stored_flag [OF eff(2)] using that(2) by auto
  qed
  then have "linked s1 e es" by (rule linked_mono [OF e(5)])
  then have "linked s1 (e\<lparr>be_in_chain := True\<rparr>) es" using linked_cong [of e "e\<lparr>be_in_chain := True\<rparr>"] by simp
  then show ?case
    using Cons.IH [OF act _ rest] eff(3) by auto
qed auto

section \<open>The best chain wins\<close>

lemma up_work:
  assumes "index_ok s" "works_ok s" "stored s e" "int n \<le> be_height e"
  shows "be_chainwork (up s n e) \<le> be_chainwork e"
  using assms(3,4)
proof (induction n arbitrary: e)
  case (Suc n)
  then obtain e' where e': "get_entry s (be_prev_hash e) = Some e'" "stored s e'" "be_height e' = be_height e - 1"
    using index_okD(3) [OF assms(1) Suc.prems(1)] by auto
  then have "be_chainwork e' \<le> be_chainwork e"
    using assms(2) Suc.prems unfolding works_ok_def by auto
  then show ?case using Suc.IH [OF e'(2)] e' Suc.prems(2) by simp
qed simp

text \<open>No block of the active chain has more work than its tip.\<close>

lemma active_work_le:
  assumes "active c p T s tip bs" "stored s e" "be_in_chain e"
  shows "be_chainwork e \<le> be_chainwork tip"
proof -
  note a = activeD [OF assms(1)]
  let ?n = "nat (be_height tip - be_height e)"
  have le: "be_height e \<le> be_height tip" using on_chainD(2) [OF a(4) assms(2,3)] a(9) by simp
  then have n: "int ?n \<le> be_height tip" using index_okD(2) [OF a(1) assms(2)] by simp
  then have "e = up s ?n tip"
    using up_stored [OF a(1,7) n] index_okD(4) [OF a(1) assms(2) _ assms(3)] a(8) le by auto
  then show ?thesis using up_work [OF a(1,2,7) n] by simp
qed

lemma first_candidate_Some:
  "first_candidate ch es = Some e \<Longrightarrow> e \<in> set es \<and> be_chainwork (bc_tip ch) < be_chainwork e \<and> \<not> is_invalid ch (be_hash e)"
  by (induction es) (auto split: if_splits)

lemma best_candidate_Some:
  assumes "best_candidate ch = Some e" "index_ok (bc_storage ch)"
  shows "stored (bc_storage ch) e" "be_chainwork (bc_tip ch) < be_chainwork e" "\<not> is_invalid ch (be_hash e)"
proof -
  have e: "e \<in> set (best_entries (bc_storage ch) MAX_CANDIDATES)" "be_chainwork (bc_tip ch) < be_chainwork e"
    "\<not> is_invalid ch (be_hash e)"
    using first_candidate_Some assms(1) unfolding best_candidate_def by blast+
  then have "e \<in> set (all_entries (bc_storage ch))"
    by (auto simp: best_entries_def dest!: in_set_takeD)
  then show "stored (bc_storage ch) e"
    using set_all_entries [OF index_okD(1) [OF assms(2)]] by (simp add: stored_def)
  show "be_chainwork (bc_tip ch) < be_chainwork e" "\<not> is_invalid ch (be_hash e)" using e by simp_all
qed

lemma active_set_tip: "active c p T (set_tip h s) tip bs \<longleftrightarrow> active c p T s tip bs"
proof -
  have "get_entry (set_tip h s) = get_entry s" "get_block (set_tip h s) = get_block s" "get_coin (set_tip h s) = get_coin s"
    by (simp_all add: get_entry_def get_block_def get_coin_def set_tip_def fun_eq_iff)
  then show ?thesis
    by (simp add: active_def index_ok_def works_ok_def bodies_ok_def on_chain_def undo_ok_def stored_def)
      (simp add: set_tip_def)
qed

lemma switch_to_active:
  assumes "active c p T (bc_storage ch) (bc_tip ch) bs" "crypto_ok c" "params_ok p" "\<not> colliding c (body_bytes ` T)"
    and "best_candidate ch = Some cand" "switch_to c p cand ch = Inr (tip, events, s)"
  shows "\<exists>bs'. active c p T s tip bs'" "st_tip s = Some (be_hash tip)" "tip = cand\<lparr>be_in_chain := True\<rparr>"
proof -
  note a = activeD [OF assms(1)] and cand = best_candidate_Some [OF assms(5) a(1)]
  obtain fork branch st tip2 ev2 s2 where walk: "branch_walk (walk_fuel (bc_storage ch)) ch cand [] = Inr (fork, branch)"
    and roll: "rollback (walk_fuel (bc_storage ch)) c (be_hash fork) (bc_tip ch, [], bc_storage ch) = Inr st"
    and conn: "foldR (connect_entry c p) branch st = Inr (tip, events, s2)" and s: "s = set_tip (be_hash tip) s2"
    using assms(6) by (auto simp: switch_to_def bnd_eq_Inr)
  have path: "stored (bc_storage ch) fork" "be_in_chain fork" "linked (bc_storage ch) fork branch"
      "last (fork # branch) = cand"
    using branch_walk_linked [OF a(1,4) cand(1) _ walk] by simp_all
  obtain tip1 ev1 s1 where st: "st = (tip1, ev1, s1)" by (cases st)
  have rolled: "tip1 = fork" "\<exists>bs1. active c p T s1 fork bs1" "\<forall>e. stored (bc_storage ch) e \<and> \<not> be_in_chain e \<longrightarrow> stored s1 e"
    using rollback_active [OF assms(1-4) path(1,2) roll [unfolded st]] by blast+
  have "linked s1 fork branch"
    using linked_mono [OF path(3)] linked_stored [OF path(3)] rolled(3) by blast
  then have fwd: "\<exists>bs2. active c p T s2 tip bs2" "tip = (if branch = [] then fork else (last branch)\<lparr>be_in_chain := True\<rparr>)"
    using rolled(2) connect_branch_active [OF _ assms(2,3) _ conn [unfolded st rolled(1)]] by blast+
  show "\<exists>bs'. active c p T s tip bs'" using fwd(1) by (simp add: s active_set_tip)
  show "st_tip s = Some (be_hash tip)" by (simp add: s set_tip_def)
  have "branch \<noteq> []"
    using path(1,2,4) active_work_le [OF assms(1) path(1,2)] cand(2) by auto
  then show "tip = cand\<lparr>be_in_chain := True\<rparr>" using fwd(2) path(4) by simp
qed

lemma chain_ok_invalidate: "chain_ok c p T (invalidate h why ch) \<longleftrightarrow> chain_ok c p T ch"
  by (simp add: chain_ok_def invalidate_def)

lemma activate_best_chain_ok:
  assumes "chain_ok c p T ch" "crypto_ok c" "params_ok p" "\<not> colliding c (body_bytes ` T)"
    and "activate_best_chain n c p r ch = (res, ch')"
  shows "chain_ok c p T ch' \<and> (bc_tip ch' = bc_tip ch \<or> be_chainwork (bc_tip ch) < be_chainwork (bc_tip ch'))"
  using assms(1,5)
proof (induction n arbitrary: r ch)
  case (Suc n)
  show ?case
  proof (cases "best_candidate ch")
    case None
    then show ?thesis using Suc.prems by simp
  next
    case (Some cand)
    obtain bs where act: "active c p T (bc_storage ch) (bc_tip ch) bs" using Suc.prems(1) by (auto simp: chain_ok_def)
    show ?thesis
    proof (cases "switch_to c p cand ch")
      case (Inr st)
      obtain tip events s where st: "st = (tip, events, s)" by (cases st)
      let ?ch = "ch\<lparr>bc_storage := s, bc_tip := tip, bc_events := bc_events ch @ events\<rparr>"
      note sw = switch_to_active [OF act assms(2-4) Some Inr [unfolded st]]
      have "chain_ok c p T ?ch" using sw(1,2) by (simp add: chain_ok_def)
      moreover have "activate_best_chain n c p (r \<or> list_ex is_disconnect events) ?ch = (res, ch')"
        using Suc.prems(2) Some Inr st by simp
      moreover have "be_chainwork (bc_tip ch) < be_chainwork tip"
        using best_candidate_Some(2) [OF Some activeD(1) [OF act]] sw(3) by simp
      ultimately show ?thesis using Suc.IH [of ?ch] by fastforce
    next
      case (Inl e)
      show ?thesis
      proof (cases "\<exists>h why. e = ConnectError h why")
        case True
        then obtain h why where e: "e = ConnectError h why" by blast
        have "activate_best_chain n c p r (invalidate h why ch) = (res, ch')"
          using Suc.prems(2) Some Inl e by simp
        then show ?thesis
          using Suc.IH [of "invalidate h why ch"] Suc.prems(1) chain_ok_invalidate by (fastforce simp: invalidate_def)
      next
        case False
        then have "ch' = ch" using Suc.prems(2) Some Inl by (cases e) auto
        then show ?thesis using Suc.prems(1) by simp
      qed
    qed
  qed
qed simp

section \<open>Accepting a block\<close>

text \<open>
  The outcomes of \<open>add_block\<close>: nothing changes, or only the block is remembered as invalid, or it
  passed every check that needs no coins and is stored.
\<close>

lemma add_block_cases:
  assumes "add_block fuel c p now b ch = (r, ch')"
  shows "ch' = ch \<and> (\<forall>a. r = Inr a \<longrightarrow> \<not> accepted a) \<or>
    (\<exists>why height. ch' = remember_invalid (block_hash c b) why ch \<and> r = Inr (invalid_result (block_hash c b) height why)) \<or>
    (\<exists>parent limit. map_of (bc_invalid ch) (block_hash c b) = None \<and> \<not> has_block (bc_storage ch) (block_hash c b) \<and>
       get_entry (bc_storage ch) (bh_prev_hash (bk_header b)) = Some parent \<and> pow_limit p = Inr limit \<and>
       block_check_sanity c limit (pm_max_block_size p) (pm_min_output_value p)
         (auxpow_active_at p (be_height parent + 1)) b = Inr () \<and>
       check_context p (bc_storage ch) b parent (be_height parent + 1) now = Inr () \<and>
       (\<forall>a. bk_auxpow b = Some a \<longrightarrow> validate_block_auxpow c p b a = Inr ()) \<and>
       store_block fuel c p b parent ch = (r, ch'))" (is "?same \<or> ?refused \<or> ?stored")
proof (rule ccontr)
  assume no: "\<not> ?thesis"
  obtain parent where 1: "map_of (bc_invalid ch) (block_hash c b) = None" "\<not> has_block (bc_storage ch) (block_hash c b)"
    "get_entry (bc_storage ch) (bh_prev_hash (bk_header b)) = Some parent" "\<not> (has_auxpow b \<and> \<not> auxpow_active_at p (be_height parent + 1))"
    using assms no unfolding add_block_def Let_def
    by (auto simp: accepted_def invalid_result_def split: option.splits if_splits)
  obtain limit where 2: "pow_limit p = Inr limit" "block_check_sanity c limit (pm_max_block_size p) (pm_min_output_value p)
         (auxpow_active_at p (be_height parent + 1)) b = Inr ()" "\<not> is_invalid ch (be_hash parent)"
    "\<not> (case map_of (pm_checkpoints p) (be_height parent + 1) of None \<Rightarrow> False | Some cp \<Rightarrow> block_hash_hex c b \<noteq> cp)"
    using assms no 1 unfolding add_block_def Let_def
    by (auto simp: bnd_eq_Inr split: sum.splits if_splits)
  have 3: "check_context p (bc_storage ch) b parent (be_height parent + 1) now = Inr ()"
    using assms no 1 2 unfolding add_block_def Let_def
    by (cases "check_context p (bc_storage ch) b parent (be_height parent + 1) now") (auto simp: accepted_def split: if_splits)
  show False
    using assms no 1 2 3 unfolding add_block_def Let_def
    by (auto split: sum.splits if_splits option.splits)
qed

lemma put_block_active:
  assumes "active c p T s tip bs" "put_block c b height work False s = Inr (e, s')"
    and "\<not> has_block s (block_hash c b)" "get_entry s (bh_prev_hash (bk_header b)) = Some parent"
    and "height = be_height parent + 1" "be_chainwork parent \<le> work"
    and "block_shape height b" "set (bk_transactions b) \<subseteq> T" "body_committed c b"
  shows "active c p T s' tip bs"
proof -
  note a = activeD [OF assms(1)] and eff = put_block_effect [OF assms(2)]
  have fresh: "get_entry s (block_hash c b) = None"
    using assms(3) by (simp add: has_block_def get_entry_def)
  have st: "stored s' x \<longleftrightarrow> x = e \<or> stored s x" for x
    using eff(1) [of "be_hash x"] eff(6) fresh by (auto simp: stored_def)
  have neq: "be_hash x \<noteq> block_hash c b" if "stored s x" for x
    using that fresh by (auto simp: stored_def)
  have par: "stored s parent" "be_hash parent = be_prev_hash e" "get_entry s' (be_prev_hash e) = Some parent"
    using assms(4) fresh eff(1) eff(11) by (auto simp: get_entry_stored) (auto simp: stored_def)
  have old: "get_entry s' (be_prev_hash x) = get_entry s (be_prev_hash x)" if "stored s x" "0 < be_height x" for x
    using index_okD(3) [OF a(1) that] fresh eff(1) by auto
  have "keys_distinct (st_blocks s')"
    using index_okD(1) [OF a(1)] assms(2) by (auto simp: put_block_def bnd_eq_Inr Let_def)
  then have idx: "index_ok s'"
    unfolding index_ok_def st
    using index_okD(2-4) [OF a(1)] index_okD(2) [OF a(1) par(1)] old par(3) eff(8,9) assms(5) by fastforce
  have "works_ok s'"
    using a(2) old par(3) eff(7) assms(6) unfolding works_ok_def st by auto
  moreover have "bodies_ok c T s'"
    using a(3) assms(7-9) unfolding bodies_ok_def eff(1,2) by (auto simp: eff(8))
  moreover have "on_chain c s' bs"
    unfolding on_chain_def st
  proof (intro conjI allI impI)
    fix i assume i: "i < length bs"
    then obtain x where x: "stored s x" "be_in_chain x" "be_height x = int i" "be_hash x = block_hash c (bs ! i)"
      using on_chainD(1) [OF a(4)] by blast
    then show "\<exists>x. (x = e \<or> stored s x) \<and> be_in_chain x \<and> be_height x = int i \<and> be_hash x = block_hash c (bs ! i)"
      by blast
    show "get_block s' (block_hash c (bs ! i)) \<in> {None, Some (bs ! i)}"
      using on_chainD(3) [OF a(4) i] neq [OF x(1)] x(4) eff(2)
      by (cases "get_block s (block_hash c (bs ! i))") auto
  qed (use on_chainD(2,4,5) [OF a(4)] index_okD(2) [OF a(1) par(1)] eff(8,9) assms(5) in auto)
  moreover have "undo_ok c p s' bs"
    using undo_ok_prefix [of c p s bs "[]" s'] a(5) eff(4) by simp
  ultimately show ?thesis
    unfolding active_def using idx a eff(3) st get_coin_cong [OF eff(3)] by simp
qed

text \<open>Parameters for which the sizes and subsidies fit the record formats.\<close>

definition consensus_ok :: "chain_params \<Rightarrow> bool" where
  "consensus_ok p \<longleftrightarrow> params_ok p \<and> pm_max_block_size p < 2 ^ 32"

lemma check_context_coinbase:
  assumes "check_context p s b parent height now = Inr ()"
  shows "\<exists>cb. block_coinbase b = Inr cb \<and> coinbase_height cb = Inr height"
  using assms unfolding check_context_def Let_def bnd_eq_Inr guard_eq_Inr
  by (auto simp: bnd_eq_Inr split: sum.splits if_splits)

lemma store_block_ok:
  assumes "chain_ok c p T ch" "crypto_ok c" "params_ok p" "\<not> colliding c (body_bytes ` T)"
    and "\<not> has_block (bc_storage ch) (block_hash c b)"
    and "get_entry (bc_storage ch) (bh_prev_hash (bk_header b)) = Some parent"
    and "block_shape (be_height parent + 1) b" "set (bk_transactions b) \<subseteq> T" "body_committed c b"
    and "store_block fuel c p b parent ch = (r, ch')"
  shows "chain_ok c p T ch' \<and> (bc_tip ch' = bc_tip ch \<or> be_chainwork (bc_tip ch) < be_chainwork (bc_tip ch'))"
proof (cases "bnd (block_work (bh_bits (bk_header b))) (\<lambda>work.
    put_block c b (be_height parent + 1) (be_chainwork parent + work) False (bc_storage ch))")
  case (Inl e)
  then have "ch' = ch" using assms(10) by (simp add: store_block_def Let_def)
  then show ?thesis using assms(1) by simp
next
  case (Inr es)
  obtain e s where es: "es = (e, s)" by (cases es)
  obtain work where work: "block_work (bh_bits (bk_header b)) = Inr work"
    and put: "put_block c b (be_height parent + 1) (be_chainwork parent + work) False (bc_storage ch) = Inr (e, s)"
    using Inr es by (auto simp: bnd_eq_Inr)
  have "0 \<le> work" using work by (auto simp: block_work_def bnd_eq_Inr pos_imp_zdiv_nonneg_iff split: if_splits)
  moreover obtain bs where act: "active c p T (bc_storage ch) (bc_tip ch) bs"
    using assms(1) by (auto simp: chain_ok_def)
  ultimately have "active c p T s (bc_tip ch) bs"
    using put_block_active [OF act put assms(5,6) refl _ assms(7-9)] by simp
  then have "chain_ok c p T (ch\<lparr>bc_storage := s\<rparr>)"
    using assms(1) put_block_effect(5) [OF put] by (auto simp: chain_ok_def)
  moreover obtain res where "activate_best_chain fuel c p False (ch\<lparr>bc_storage := s\<rparr>) = (res, ch')"
    using assms(10) Inr es by (auto simp: store_block_def Let_def split: prod.splits sum.splits option.splits)
  ultimately show ?thesis using activate_best_chain_ok [OF _ assms(2-4)] by fastforce
qed

lemma add_block_ok:
  assumes "chain_ok c p T ch" "crypto_ok c" "consensus_ok p" "\<not> colliding c (body_bytes ` T)"
    and "block_ok b" "set (bk_transactions b) \<subseteq> T" "add_block fuel c p now b ch = (r, ch')"
  shows "chain_ok c p T ch' \<and> (bc_tip ch' = bc_tip ch \<or> be_chainwork (bc_tip ch) < be_chainwork (bc_tip ch'))"
  using add_block_cases [OF assms(7)]
proof (elim disjE exE conjE)
  fix why height assume "ch' = remember_invalid (block_hash c b) why ch"
  then show ?thesis using assms(1) by (simp add: chain_ok_def remember_invalid_def)
next
  fix parent limit
  assume fresh: "\<not> has_block (bc_storage ch) (block_hash c b)"
    and parent: "get_entry (bc_storage ch) (bh_prev_hash (bk_header b)) = Some parent"
    and sane: "block_check_sanity c limit (pm_max_block_size p) (pm_min_output_value p)
         (auxpow_active_at p (be_height parent + 1)) b = Inr ()"
    and ctx: "check_context p (bc_storage ch) b parent (be_height parent + 1) now = Inr ()"
    and store: "store_block fuel c p b parent ch = (r, ch')"
  have p: "params_ok p" "pm_max_block_size p < 2 ^ 32" using assms(3) by (simp_all add: consensus_ok_def)
  have "block_shape (be_height parent + 1) b"
    using sane_block_shape [OF assms(5) sane p(2)] check_context_coinbase [OF ctx] by blast
  moreover have "body_committed c b"
    using sane by (simp add: block_check_sanity_iff body_committed_def computed_merkle_root_def)
  ultimately show ?thesis
    using store_block_ok [OF assms(1,2) p(1) assms(4) fresh parent _ assms(6) _ store] by simp
qed (use assms(1) in simp)

section \<open>Genesis\<close>

lemma genesis_shape:
  assumes "genesis_block c p = Inr g" "crypto_ok c"
  shows "block_shape 0 g" "\<exists>t reward. bk_transactions g = [t] \<and> subsidy p 0 = Inr reward \<and>
    total_output t = reward \<and> is_coinbase t \<and> check_transaction_final t 0 \<and> tx_shape t" "body_committed c g"
proof -
  obtain t reward where t: "build_coinbase 0 reward UNSPENDABLE_HASH (pm_genesis_message p) 0 = Inr t"
    and reward: "subsidy p 0 = Inr reward" and g: "bk_transactions g = [t]"
    using assms(1) by (auto simp: genesis_block_def genesis_coinbase_def block_create_def bnd_eq_Inr guard_eq_Inr)
  have shape: "tx_shape t" "length (tx_inputs t) = 1" "check_transaction_final t 0"
    using t built_coinbase(1) [OF t] by (auto simp: build_coinbase_iff tx_shape_def check_transaction_final_def)
  then show "block_shape 0 g" using built_coinbase(2,3) [OF t] by (simp add: block_shape_def g)
  show "\<exists>t reward. bk_transactions g = [t] \<and> subsidy p 0 = Inr reward \<and>
      total_output t = reward \<and> is_coinbase t \<and> check_transaction_final t 0 \<and> tx_shape t"
    using g reward built_coinbase(2,4) [OF t] shape by blast
  show "body_committed c g"
    using assms(1)
    by (auto simp: genesis_block_def block_create_def bnd_eq_Inr guard_eq_Inr body_committed_def computed_merkle_root_def
        block_txids_def mk_block_header_def Let_def split: if_splits)
qed

lemma open_chain_effect:
  assumes "open_chain c p empty_storage = Inr ch" "crypto_ok c"
  shows "\<exists>g t e. genesis_block c p = Inr g \<and> bk_transactions g = [t] \<and> bc_tip ch = e \<and>
    st_tip (bc_storage ch) = Some (block_hash c g) \<and> be_hash e = block_hash c g \<and> be_height e = 0 \<and> be_in_chain e \<and>
    keys_distinct (st_blocks (bc_storage ch)) \<and> keys_distinct (st_utxo (bc_storage ch)) \<and>
    get_entry (bc_storage ch) = [block_hash c g \<mapsto> e] \<and> get_block (bc_storage ch) = [block_hash c g \<mapsto> g] \<and>
    get_coin (bc_storage ch) = map_of (created_coins c 0 t) \<and>
    map_of (st_undo (bc_storage ch)) = [block_hash c g \<mapsto> varint_bytes 0]"
proof -
  obtain g work e s1 s2 where g: "genesis_block c p = Inr g"
    and put: "put_block c g 0 work True empty_storage = Inr (e, s1)"
    and undo: "put_undo (block_hash c g) [] (apply_block_state c g 0 [] s1) = Inr s2"
    and ch: "ch = \<lparr>bc_storage = set_tip (block_hash c g) s2, bc_tip = e, bc_invalid = [], bc_events = []\<rparr>"
    using assms(1) unfolding open_chain_def load_or_create_genesis_def
    by (auto simp: empty_storage_def bnd_eq_Inr Let_def)
  note eff = put_block_effect [OF put]
  obtain t where t: "bk_transactions g = [t]"
    using genesis_shape(2) [OF g assms(2)] by blast
  let ?kvs = "created_coins c 0 t" and ?s = "set_tip (block_hash c g) s2"
  have s2: "st_blocks ?s = st_blocks s1" "st_undo ?s = AList.update (block_hash c g) (varint_bytes 0) []"
      "st_utxo ?s = st_utxo (fold (\<lambda>(op, k). add_coin op k) ?kvs s1)"
    using undo eff(4) by (auto simp: put_undo_def bnd_eq_Inr undo_encode_wf fits_def apply_block_state_def t
        empty_storage_def set_tip_def)
  have "get_coin ?s = get_coin s1 ++ map_of ?kvs"
    using get_coin_cong [OF s2(3)] by (simp add: db.get_add_all map_of_rev_distinct)
  moreover have "get_coin s1 = (\<lambda>_. None)"
    using eff(3) by (simp add: get_coin_def empty_storage_def fun_eq_iff)
  ultimately have coins: "get_coin ?s = map_of ?kvs" by simp
  have keys: "keys_distinct (st_blocks ?s)"
    using put by (auto simp: s2(1) put_block_def bnd_eq_Inr Let_def empty_storage_def)
  have "get_entry ?s = [block_hash c g \<mapsto> e]"
    using eff(1) get_entry_cong [OF s2(1)] by (auto simp: get_entry_def empty_storage_def fun_eq_iff)
  moreover have "get_block ?s = [block_hash c g \<mapsto> g]"
    using eff(2) get_block_cong [OF s2(1)] by (auto simp: get_block_def empty_storage_def fun_eq_iff)
  moreover have "keys_distinct (st_utxo ?s)"
    using keys_distinct_coins(1) [of s1 ?kvs] eff(3) s2(3) by (simp add: empty_storage_def)
  moreover have "map_of (st_undo ?s) = [block_hash c g \<mapsto> varint_bytes 0]"
    by (simp add: s2(2))
  ultimately show ?thesis
    using g t ch eff(6,8,9) keys coins by (simp add: set_tip_def)
qed

lemma open_chain_ok:
  assumes "open_chain c p empty_storage = Inr ch" "crypto_ok c"
    and "\<And>g. genesis_block c p = Inr g \<Longrightarrow> set (bk_transactions g) \<subseteq> T"
  shows "chain_ok c p T ch"
proof -
  let ?s = "bc_storage ch"
  obtain g t e where g: "genesis_block c p = Inr g" "bk_transactions g = [t]" "bc_tip ch = e"
      "st_tip ?s = Some (block_hash c g)" and e: "be_hash e = block_hash c g" "be_height e = 0" "be_in_chain e"
    and keys: "keys_distinct (st_blocks ?s)" "keys_distinct (st_utxo ?s)"
    and tables: "get_entry ?s = [block_hash c g \<mapsto> e]" "get_block ?s = [block_hash c g \<mapsto> g]"
      "get_coin ?s = map_of (created_coins c 0 t)" "map_of (st_undo ?s) = [block_hash c g \<mapsto> varint_bytes 0]"
    using open_chain_effect [OF assms(1,2)] by blast
  obtain reward where t: "subsidy p 0 = Inr reward" "total_output t = reward" "is_coinbase t" "check_transaction_final t 0"
    using genesis_shape(2) [OF g(1) assms(2)] g(2) by auto
  have run: "ledger_chain c p 0 [g] (\<lambda>_. None) = Some (get_coin ?s)"
    using t g(2) by (simp add: ledger_block_def tx_fee_def ledger_tx_def tables(3))
  have st: "stored ?s x \<longleftrightarrow> x = e" for x
    using e(1) by (auto simp: stored_def tables(1) split: if_splits)
  have "index_ok ?s" "works_ok ?s"
    unfolding index_ok_def works_ok_def st using e keys by simp_all
  moreover have "bodies_ok c T ?s"
    unfolding bodies_ok_def tables using genesis_shape(1,3) [OF g(1) assms(2)] assms(3) [OF g(1)] e
    by (auto split: if_splits)
  moreover have "on_chain c ?s [g]"
    unfolding on_chain_def st tables using e genesis_shape(3) [OF g(1) assms(2)] by auto
  moreover have "undo_ok c p ?s [g]"
  proof -
    have "map_of (created_coins c 0 t) op = None" if "op \<notin> block_outpoints c g" for op
      using that by (simp add: map_of_eq_None_iff block_outpoints_def g(2) flip: list.set_map)
    then have "undo_for c g (\<lambda>_. None) (get_coin ?s) []" by (auto simp: undo_for_def tables(3))
    moreover have "undo_encode [] = Inr (varint_bytes 0)" by (simp add: undo_encode_wf fits_def)
    ultimately show ?thesis
      using run unfolding undo_ok_def tables(4) by auto
  qed
  ultimately have "active c p T ?s e [g]"
    unfolding active_def using st e genesis_shape(1) [OF g(1) assms(2)] run assms(3) [OF g(1)] keys by simp
  then show ?thesis using g e by (auto simp: chain_ok_def)
qed

section \<open>Pruning\<close>

text \<open>A change of the index entries that keeps everything but the mark of a pruned body.\<close>

definition relabel :: "storage \<Rightarrow> storage \<Rightarrow> (block_index_entry \<Rightarrow> block_index_entry) \<Rightarrow> bool" where
  "relabel s s' f \<longleftrightarrow> (\<forall>h. get_entry s' h = map_option f (get_entry s h)) \<and>
     (\<forall>e. be_hash (f e) = be_hash e \<and> be_height (f e) = be_height e \<and> be_prev_hash (f e) = be_prev_hash e \<and>
        be_chainwork (f e) = be_chainwork e \<and> be_in_chain (f e) = be_in_chain e)"

lemma relabelD:
  assumes "relabel s s' f"
  shows "get_entry s' h = map_option f (get_entry s h)" "be_hash (f e) = be_hash e" "be_height (f e) = be_height e"
    "be_prev_hash (f e) = be_prev_hash e" "be_chainwork (f e) = be_chainwork e" "be_in_chain (f e) = be_in_chain e"
  using assms by (simp_all add: relabel_def)

lemma stored_relabel:
  assumes "relabel s s' f"
  shows "stored s' x \<longleftrightarrow> (\<exists>e. stored s e \<and> x = f e)"
proof -
  have "stored s' x \<longleftrightarrow> (\<exists>e. get_entry s (be_hash x) = Some e \<and> x = f e)"
    unfolding stored_def relabelD(1) [OF assms] by auto
  then show ?thesis using relabelD(2) [OF assms] by (auto simp: get_entry_stored)
qed

lemma index_ok_relabel:
  assumes "relabel s s' f" "index_ok s" "keys_distinct (st_blocks s')"
  shows "index_ok s'"
proof -
  note f = relabelD [OF assms(1)]
  have par: "\<exists>y. get_entry s' (be_prev_hash (f e)) = Some y \<and> be_height y = be_height (f e) - 1 \<and>
      (be_in_chain (f e) \<longrightarrow> be_in_chain y)" if "stored s e" "0 < be_height (f e)" for e
    using index_okD(3) [OF assms(2) that(1)] that(2) f by auto
  have uniq: "f e = f d" if "stored s e" "stored s d" "be_in_chain (f e)" "be_in_chain (f d)"
      "be_height (f e) = be_height (f d)" for e d
    using index_okD(4) [OF assms(2) that(1,2)] that(3-5) f by simp
  show ?thesis
    unfolding index_ok_def stored_relabel [OF assms(1)]
    using assms(3) par uniq index_okD(2) [OF assms(2)] f(3) by auto
qed

lemma works_ok_relabel:
  assumes "relabel s s' f" "works_ok s"
  shows "works_ok s'"
  using assms(2) relabelD [OF assms(1)] unfolding works_ok_def stored_relabel [OF assms(1)] by auto

lemma on_chain_relabel:
  assumes "relabel s s' f" "on_chain c s bs" "\<And>h b. get_block s' h = Some b \<Longrightarrow> get_block s h = Some b"
  shows "on_chain c s' bs"
  unfolding on_chain_def stored_relabel [OF assms(1)]
proof (intro conjI allI impI)
  note f = relabelD [OF assms(1)]
  fix i assume i: "i < length bs"
  show "\<exists>x. (\<exists>e. stored s e \<and> x = f e) \<and> be_in_chain x \<and> be_height x = int i \<and> be_hash x = block_hash c (bs ! i)"
    using on_chainD(1) [OF assms(2) i] f by metis
  show "get_block s' (block_hash c (bs ! i)) \<in> {None, Some (bs ! i)}"
    using on_chainD(3) [OF assms(2) i] assms(3) by (cases "get_block s' (block_hash c (bs ! i))") auto
qed (use on_chainD(2,4,5) [OF assms(2)] relabelD [OF assms(1)] in auto)

lemma prune_active:
  assumes "active c p T s tip bs" "prune_to c horizon s = (res, s')" "horizon < be_height tip"
  shows "active c p T s' tip bs"
proof -
  note a = activeD [OF assms(1)] and weak = prune_to_weaker [OF assms(2)]
  define f :: "block_index_entry \<Rightarrow> block_index_entry"
    where "f = (\<lambda>e. if 1 \<le> be_height e \<and> be_height e \<le> horizon then e\<lparr>be_pruned := True\<rparr> else e)"
  have f: "relabel s s' f"
    using prune_to_effect [OF index_okD(1) [OF a(1)] assms(2)] by (simp add: relabel_def f_def)
  have "index_ok s'"
    using index_ok_relabel [OF f a(1)] weak(1) index_okD(1) [OF a(1)] by simp
  moreover have "bodies_ok c T s'"
    using a(3) weak(3) relabelD(1,3) [OF f] unfolding bodies_ok_def by fastforce
  moreover have "undo_ok c p s' bs"
    using a(5) weak(2) unfolding undo_ok_def by blast
  moreover have "tip = f tip" using assms(3) by (simp add: f_def)
  then have "stored s' tip" using stored_relabel [OF f] a(7) by blast
  ultimately show ?thesis
    unfolding active_def
    using a works_ok_relabel [OF f a(2)] on_chain_relabel [OF f a(4) weak(3)] weak(4) get_coin_cong [OF weak(4)] by simp
qed

lemma prune_ok:
  assumes "chain_ok c p T ch" "prune c p keep ch = (res, ch')"
  shows "chain_ok c p T ch'"
proof -
  have keep: "0 < min_prune_keep p" by (simp add: min_prune_keep_def MIN_PRUNE_KEEP_def less_max_iff_disj)
  obtain bs where act: "active c p T (bc_storage ch) (bc_tip ch) bs" using assms(1) by (auto simp: chain_ok_def)
  show ?thesis
  proof (cases "be_height (bc_tip ch) - max (min_prune_keep p) keep < 1")
    case True
    then show ?thesis using assms(1,2) by (simp add: prune_def)
  next
    case False
    then obtain s' where s': "prune_to c (be_height (bc_tip ch) - max (min_prune_keep p) keep) (bc_storage ch) = (res, s')"
      "ch' = ch\<lparr>bc_storage := s'\<rparr>"
      using assms(2) by (auto simp: prune_def Let_def split: prod.splits)
    have "active c p T s' (bc_tip ch) bs"
      using keep by (intro prune_active [OF act s'(1)]) simp
    moreover have "st_tip s' = st_tip (bc_storage ch)"
      using prune_to_effect [OF index_okD(1) [OF activeD(1) [OF act]] s'(1)] by blast
    ultimately show ?thesis using assms(1) s'(2) by (auto simp: chain_ok_def)
  qed
qed


end
