(* ===== verification/Headers.thy ===== *)
theory Headers
  imports Chain
begin

text \<open>
  The synchronisation half of \<^verbatim>\<open>core/chain.py\<close>: locators, the header chain, and the lists of hashes and
  headers a node serves to its peers. Walks through the header chain use the fuel of \<open>Retarget\<close>.
\<close>

section \<open>Locators over the active chain\<close>

text \<open>The loop of \<^verbatim>\<open>locator\<close>, with the step written as \<open>2 ^ k\<close>: it starts at one and is only ever doubled.\<close>

function locator_loop :: "storage \<Rightarrow> int \<Rightarrow> nat \<Rightarrow> bytes list \<Rightarrow> bytes list" where
  "locator_loop s height k hashes =
     (if height < 0 then hashes
      else
        let hashes = (case get_chain_entry s height of None \<Rightarrow> hashes | Some e \<Rightarrow> hashes @ [be_hash e]);
            k = (if length hashes \<ge> 10 then Suc k else k)
        in locator_loop s (height - 2 ^ k) k hashes)"
  by pat_completeness auto
termination
  by (relation "measure (\<lambda>(s, height, k, hashes). nat (height + 1))") (auto simp: Let_def)

definition with_genesis :: "bytes \<Rightarrow> bytes list \<Rightarrow> bytes list" where
  "with_genesis g hashes = (if hashes = [] \<or> last hashes \<noteq> g then hashes @ [g] else hashes)"

definition locator :: "crypto \<Rightarrow> chain_params \<Rightarrow> blockchain \<Rightarrow> bytes list result" where
  "locator c p ch = bnd (genesis_hash c p) (\<lambda>g.
     Inr (with_genesis g (locator_loop (bc_storage ch) (be_height (bc_tip ch)) 0 [])))"

fun find_fork_height :: "blockchain \<Rightarrow> bytes list \<Rightarrow> int" where
  "find_fork_height ch [] = 0"
| "find_fork_height ch (h # hs) =
     (case get_entry (bc_storage ch) h of
        None \<Rightarrow> find_fork_height ch hs
      | Some e \<Rightarrow> if be_in_chain e then be_height e else find_fork_height ch hs)"

fun chain_hashes :: "storage \<Rightarrow> int list \<Rightarrow> bytes list" where
  "chain_hashes s [] = []"
| "chain_hashes s (height # heights) =
     (case get_chain_entry s height of None \<Rightarrow> [] | Some e \<Rightarrow> be_hash e # chain_hashes s heights)"

definition active_hashes_after :: "blockchain \<Rightarrow> int \<Rightarrow> int \<Rightarrow> bytes list" where
  "active_hashes_after ch height limit =
     chain_hashes (bc_storage ch) [height + 1 .. min (be_height (bc_tip ch)) (height + limit)]"

section \<open>The header chain\<close>

definition add_header ::
    "crypto \<Rightarrow> chain_params \<Rightarrow> int \<Rightarrow> block_header \<Rightarrow> blockchain \<Rightarrow> (string option \<times> blockchain) result" where
  "add_header c p now hdr ch =
     (let h = header_hash c hdr; s = bc_storage ch in
      if has_block s h \<or> has_header s h then Inr (None, ch)
      else
        let parent = get_node s (bh_prev_hash hdr);
            auxpow_active = (case parent of None \<Rightarrow> False | Some nd \<Rightarrow> auxpow_active_at p (nd_height nd + 1))
        in bnd (if auxpow_active then Inr True
                else bnd (pow_limit p) (\<lambda>limit. header_check_proof_of_work c limit hdr)) (\<lambda>ok.
           if \<not> ok then Inr (Some ''header proof of work is invalid'', ch)
           else case parent of
             None \<Rightarrow> Inr (None, ch)
           | Some nd \<Rightarrow>
               let height = nd_height nd + 1 in
               bnd (next_bits_for_node p s nd height (Some (bh_timestamp hdr)) now) (\<lambda>expected.
               if bh_bits hdr \<noteq> expected then Inr (Some ''wrong difficulty'', ch)
               else
                 bnd (block_work (bh_bits hdr)) (\<lambda>work.
                 bnd (put_header c hdr height (nd_chainwork nd + work) s) (\<lambda>s.
                 Inr (None, ch\<lparr>bc_storage := s\<rparr>))))))"

definition header_tip :: "blockchain \<Rightarrow> chain_node option" where
  "header_tip ch =
     (let s = bc_storage ch;
          header_node = (case best_header s of None \<Rightarrow> None | Some e \<Rightarrow> get_node s (he_hash e));
          block_node = get_node s (be_hash (bc_tip ch))
      in case header_node of
           None \<Rightarrow> block_node
         | Some hn \<Rightarrow>
             (case block_node of
                None \<Rightarrow> header_node
              | Some bn \<Rightarrow> if nd_chainwork hn > nd_chainwork bn then header_node else block_node))"

definition header_height :: "blockchain \<Rightarrow> int" where
  "header_height ch =
     (case header_tip ch of None \<Rightarrow> be_height (bc_tip ch) | Some nd \<Rightarrow> max (be_height (bc_tip ch)) (nd_height nd))"

text \<open>The missing bodies, collected towards genesis: \<open>hashes\<close> grows at the front, which is the final reversal.\<close>

fun missing_loop :: "nat \<Rightarrow> storage \<Rightarrow> chain_node option \<Rightarrow> bytes list \<Rightarrow> bytes list" where
  "missing_loop n s None hashes = hashes"
| "missing_loop 0 s (Some nd) hashes = hashes"
| "missing_loop (Suc n) s (Some nd) hashes =
     (if has_block s (nd_hash nd) then hashes
      else missing_loop n s (get_node s (nd_prev_hash nd)) (nd_hash nd # hashes))"

definition headers_to_download :: "blockchain \<Rightarrow> int \<Rightarrow> bytes list" where
  "headers_to_download ch limit = missing_loop (nat limit) (bc_storage ch) (header_tip ch) []"

fun header_fork_loop :: "nat \<Rightarrow> storage \<Rightarrow> bytes list \<Rightarrow> chain_node option \<Rightarrow> int result" where
  "header_fork_loop n s known None = Inr 0"
| "header_fork_loop 0 s known (Some nd) = Inl Nonterminating"
| "header_fork_loop (Suc n) s known (Some nd) =
     (if nd_hash nd \<in> set known then Inr (nd_height nd)
      else header_fork_loop n s known (get_node s (nd_prev_hash nd)))"

definition find_header_fork_height :: "blockchain \<Rightarrow> bytes list \<Rightarrow> int result" where
  "find_header_fork_height ch known =
     header_fork_loop (walk_fuel (bc_storage ch)) (bc_storage ch) known (header_tip ch)"

definition header_bytes_of :: "storage \<Rightarrow> bytes \<Rightarrow> bytes option result" where
  "header_bytes_of s h =
     (case get_entry s h of
        Some e \<Rightarrow> bnd (header_serialize (be_header e)) (\<lambda>b. Inr (Some b))
      | None \<Rightarrow>
          (case header_entry s h of
             Some e \<Rightarrow> bnd (header_serialize (he_header e)) (\<lambda>b. Inr (Some b))
           | None \<Rightarrow> Inr None))"

text \<open>The hashes above a height, ascending (the list \<^verbatim>\<open>chain\<close> of the source is descending).\<close>

fun hashes_above :: "nat \<Rightarrow> storage \<Rightarrow> int \<Rightarrow> chain_node option \<Rightarrow> bytes list \<Rightarrow> bytes list result" where
  "hashes_above n s height None hashes = Inr hashes"
| "hashes_above 0 s height (Some nd) hashes =
     (if nd_height nd > height then Inl Nonterminating else Inr hashes)"
| "hashes_above (Suc n) s height (Some nd) hashes =
     (if nd_height nd > height
      then hashes_above n s height (get_node s (nd_prev_hash nd)) (nd_hash nd # hashes)
      else Inr hashes)"

text \<open>\<^verbatim>\<open>chain[-limit:]\<close> reversed, on the ascending list; a slice from \<^verbatim>\<open>-0\<close> is the whole list.\<close>

definition first_hashes :: "int \<Rightarrow> bytes list \<Rightarrow> bytes list" where
  "first_hashes limit hashes =
     (if limit > 0 then take (nat limit) hashes
      else take (length hashes - nat (- limit)) hashes)"

fun collect_headers :: "storage \<Rightarrow> bytes list \<Rightarrow> bytes list result" where
  "collect_headers s [] = Inr []"
| "collect_headers s (h # hs) = bnd (header_bytes_of s h) (\<lambda>r.
     case r of None \<Rightarrow> Inr [] | Some b \<Rightarrow> bnd (collect_headers s hs) (\<lambda>bs. Inr (b # bs)))"

fun up_to_hash :: "crypto \<Rightarrow> bytes \<Rightarrow> bytes list \<Rightarrow> bytes list option" where
  "up_to_hash c stop [] = None"
| "up_to_hash c stop (raw # raws) =
     (if hash256 c raw = stop then Some [raw] else map_option ((#) raw) (up_to_hash c stop raws))"

definition serialized_headers_after ::
    "crypto \<Rightarrow> blockchain \<Rightarrow> int \<Rightarrow> int \<Rightarrow> bytes option \<Rightarrow> bytes list result" where
  "serialized_headers_after c ch height limit stop_hash =
     (let s = bc_storage ch in
      case header_tip ch of
        None \<Rightarrow> Inr []
      | Some tip \<Rightarrow>
          bnd (hashes_above (walk_fuel s) s height (Some tip) []) (\<lambda>hashes.
          bnd (collect_headers s (first_hashes limit hashes)) (\<lambda>headers.
          case stop_hash of
            None \<Rightarrow> Inr headers
          | Some stop \<Rightarrow>
              if stop = replicate 32 0 then Inr headers
              else case up_to_hash c stop headers of None \<Rightarrow> Inr headers | Some hs \<Rightarrow> Inr hs)))"

text \<open>The loop of \<^verbatim>\<open>header_locator\<close>; the step is \<open>2 ^ k\<close> again.\<close>

fun header_locator_loop ::
    "nat \<Rightarrow> storage \<Rightarrow> nat \<Rightarrow> nat \<Rightarrow> bytes list \<Rightarrow> chain_node option \<Rightarrow> bytes list result" where
  "header_locator_loop n s k distance hashes None = Inr hashes"
| "header_locator_loop 0 s k distance hashes (Some nd) = Inl Nonterminating"
| "header_locator_loop (Suc n) s k distance hashes (Some nd) =
     (let hashes' = (if distance = 0 then hashes @ [nd_hash nd] else hashes);
          k = (if distance = 0 \<and> length hashes' \<ge> 10 then Suc k else k);
          distance = (if distance + 1 \<ge> 2 ^ k then 0 else distance + 1)
      in header_locator_loop n s k distance hashes'
           (if nd_prev_hash nd \<noteq> replicate 32 0 then get_node s (nd_prev_hash nd) else None))"

definition header_locator :: "crypto \<Rightarrow> chain_params \<Rightarrow> blockchain \<Rightarrow> bytes list result" where
  "header_locator c p ch =
     (case header_tip ch of
        None \<Rightarrow> locator c p ch
      | Some tip \<Rightarrow>
          if nd_height tip \<le> be_height (bc_tip ch) then locator c p ch
          else
            bnd (header_locator_loop (walk_fuel (bc_storage ch)) (bc_storage ch) 0 0 [] (Some tip)) (\<lambda>hashes.
            bnd (genesis_hash c p) (\<lambda>g. Inr (with_genesis g hashes))))"

end
