(* ===== verification/Consensus.thy ===== *)
theory Consensus
  imports Reorg Headers
begin

text \<open>
  Whole runs of a node's chain: it is opened on an empty database, blocks and headers arrive, bodies
  are pruned, the node restarts. The theorems of this theory hold in every state such a run reaches.
\<close>

section \<open>Runs\<close>

text \<open>
  \<open>T\<close> is the set of all transactions that occur in the run. \<open>block_ok\<close> is what decoding a block
  from the wire guarantees.
\<close>

inductive reachable :: "crypto \<Rightarrow> chain_params \<Rightarrow> transaction set \<Rightarrow> blockchain \<Rightarrow> bool" for c p T where
  opened: "reachable c p T ch"
    if "open_chain c p empty_storage = Inr ch" "\<forall>g. genesis_block c p = Inr g \<longrightarrow> set (bk_transactions g) \<subseteq> T"
| block: "reachable c p T ch'"
    if "reachable c p T ch" "block_ok b" "set (bk_transactions b) \<subseteq> T" "add_block fuel c p now b ch = (r, ch')"
| header: "reachable c p T ch'"
    if "reachable c p T ch" "add_header c p now hdr ch = Inr (why, ch')"
| pruned: "reachable c p T ch'"
    if "reachable c p T ch" "prune c p keep ch = (res, ch')"
| reopened: "reachable c p T ch'"
    if "reachable c p T ch" "open_chain c p (bc_storage ch) = Inr ch'"

lemma active_headers: "active c p T (s\<lparr>st_headers := hs\<rparr>) tip bs \<longleftrightarrow> active c p T s tip bs"
proof -
  have "get_entry (s\<lparr>st_headers := hs\<rparr>) = get_entry s" "get_block (s\<lparr>st_headers := hs\<rparr>) = get_block s"
      "get_coin (s\<lparr>st_headers := hs\<rparr>) = get_coin s"
    by (simp_all add: get_entry_def get_block_def get_coin_def fun_eq_iff)
  then show ?thesis
    by (simp add: active_def index_ok_def works_ok_def bodies_ok_def on_chain_def undo_ok_def stored_def)
qed

text \<open>A header that is accepted changes nothing but the table of headers.\<close>

lemma add_header_effect:
  assumes "add_header c p now hdr ch = Inr (why, ch')"
  shows "\<exists>hs. ch' = ch\<lparr>bc_storage := bc_storage ch\<lparr>st_headers := hs\<rparr>\<rparr>"
proof (cases "ch' = ch")
  case True
  then show ?thesis by (intro exI [of _ "st_headers (bc_storage ch)"]) simp
next
  case False
  then obtain height work s where "put_header c hdr height work (bc_storage ch) = Inr s" "ch' = ch\<lparr>bc_storage := s\<rparr>"
    using assms unfolding add_header_def Let_def bnd_eq_Inr
    by (auto simp: bnd_eq_Inr split: if_splits option.splits)
  then show ?thesis by (auto simp: put_header_def bnd_eq_Inr)
qed

lemma reopen_ok:
  assumes "chain_ok c p T ch" "open_chain c p (bc_storage ch) = Inr ch'"
  shows "chain_ok c p T ch'" "bc_storage ch' = bc_storage ch" "bc_tip ch' = bc_tip ch"
proof -
  obtain bs where bs: "active c p T (bc_storage ch) (bc_tip ch) bs" and tip: "st_tip (bc_storage ch) = Some (be_hash (bc_tip ch))"
    using assms(1) by (auto simp: chain_ok_def)
  have "get_entry (bc_storage ch) (be_hash (bc_tip ch)) = Some (bc_tip ch)"
    using activeD(7) [OF bs] by (simp add: stored_def)
  then show "bc_storage ch' = bc_storage ch" "bc_tip ch' = bc_tip ch"
    using assms(2) tip unfolding open_chain_def load_or_create_genesis_def
    by (auto simp: bnd_eq_Inr guard_eq_Inr split: option.splits)
  then show "chain_ok c p T ch'" using assms(1) by (simp add: chain_ok_def)
qed

lemma reachable_ok:
  assumes "reachable c p T ch" "crypto_ok c" "consensus_ok p" "\<not> colliding c (body_bytes ` T)"
  shows "chain_ok c p T ch"
  using assms(1)
proof induction
  case (opened ch)
  then show ?case using open_chain_ok [OF _ assms(2)] by blast
next
  case (block ch b fuel now r ch')
  then show ?case using add_block_ok [OF _ assms(2-4)] by blast
next
  case (header ch now hdr why ch')
  then show ?case using add_header_effect [OF header(2)] by (auto simp: chain_ok_def active_headers)
next
  case (pruned ch keep res ch')
  then show ?case using prune_ok by blast
next
  case (reopened ch ch')
  then show ?case using reopen_ok(1) by blast
qed

section \<open>What holds in every run\<close>

text \<open>
  The active chain, read from the index by height, consists of the blocks \<open>bs\<close>: the entry of every height has the hash
  of its block, the body that the database holds under that hash, if it has not been pruned, is that of the block, and
  the header of the block, whose hash this is, carries the Merkle root of the block's transactions.
\<close>

definition active_blocks :: "crypto \<Rightarrow> blockchain \<Rightarrow> block list \<Rightarrow> bool" where
  "active_blocks c ch bs \<longleftrightarrow> int (length bs) = be_height (bc_tip ch) + 1 \<and>
     map (\<lambda>i. map_option be_hash (get_chain_entry (bc_storage ch) (int i))) [0..<length bs] =
     map (\<lambda>b. Some (block_hash c b)) bs \<and>
     (\<forall>b \<in> set bs. get_block (bc_storage ch) (block_hash c b) \<in> {None, Some b} \<and>
        computed_merkle_root c b = Inr (bh_merkle_root (bk_header b)))"

lemma active_blocks:
  assumes "active c p T (bc_storage ch) (bc_tip ch) bs"
  shows "active_blocks c ch bs"
proof -
  note a = activeD [OF assms]
  have "map_option be_hash (get_chain_entry (bc_storage ch) (int i)) = Some (block_hash c (bs ! i))" if "i < length bs" for i
    using on_chainD(1) [OF a(4) that] get_chain_entry_unique [OF a(1)] by fastforce
  moreover have "get_block (bc_storage ch) (block_hash c b) \<in> {None, Some b}" if "b \<in> set bs" for b
    using that on_chainD(3) [OF a(4)] by (cases "get_block (bc_storage ch) (block_hash c b)") (auto simp: in_set_conv_nth)
  ultimately show ?thesis
    using a(9) on_chainD(5) [OF a(4)] by (auto simp: active_blocks_def body_committed_def intro: nth_equalityI)
qed

lemma reachable_active:
  assumes "reachable c p T ch" "crypto_ok c" "consensus_ok p" "\<not> colliding c (body_bytes ` T)"
  obtains bs where "active c p T (bc_storage ch) (bc_tip ch) bs" "seen_ok c (chain_txs bs) (get_coin (bc_storage ch))"
proof -
  obtain bs where bs: "active c p T (bc_storage ch) (bc_tip ch) bs"
    using reachable_ok [OF assms] by (auto simp: chain_ok_def)
  note a = activeD [OF bs]
  have "\<not> colliding c (body_bytes ` set (chain_txs bs))"
    using assms(4) a(11) by (auto simp: colliding_def)
  then show thesis
    using that [OF bs] genesis_chain_seen [OF a(12,10) assms(2)] assms(3) by (simp add: consensus_ok_def)
qed

text \<open>
  C1. The ledger. In every state a run reaches, the coins in the database are those that the abstract
  ledger computes from the blocks of the active chain, in order and from nothing: every reorganisation,
  refusal, pruning and restart in between has left no trace in them. The blocks are those of the database,
  with their bodies wherever these are still stored, and every one carries the Merkle root of its transactions.
\<close>
theorem active_chain_is_ledger:
  assumes "reachable c p T ch" "crypto_ok c" "consensus_ok p" "\<not> colliding c (body_bytes ` T)"
  shows "\<exists>bs. active_blocks c ch bs \<and> chain_shape 0 bs \<and> set (chain_txs bs) \<subseteq> T \<and>
    ledger_chain c p 0 bs (\<lambda>_. None) = Some (get_coin (bc_storage ch))"
proof -
  obtain bs where bs: "active c p T (bc_storage ch) (bc_tip ch) bs" using reachable_active [OF assms] .
  then show ?thesis using active_blocks [OF bs] activeD(10-12) [OF bs] by blast
qed

text \<open>
  C2. The supply. In every state a run reaches, the unspent outputs sum up to at most the subsidies of
  the blocks up to the tip, and never to more than \<open>MAX_MONEY\<close>.
\<close>
theorem supply_is_bounded:
  assumes "reachable c p T ch" "crypto_ok c" "consensus_ok p" "\<not> colliding c (body_bytes ` T)"
  shows "total_supply ch \<le> total_subsidy p (nat (be_height (bc_tip ch) + 1)) \<and> total_supply ch \<le> MAX_MONEY"
proof -
  obtain bs where bs: "active c p T (bc_storage ch) (bc_tip ch) bs" using reachable_active [OF assms] .
  note a = activeD [OF bs]
  have "params_ok p" using assms(3) by (simp add: consensus_ok_def)
  note sum = genesis_chain_supply [OF a(12,10) assms(2) this]
  have "ledger_sum (get_coin (bc_storage ch)) = total_supply ch"
    using ledger_sum_map_of [OF a(6)] by (simp add: total_supply_def utxo_stats_def get_coin_def [abs_def])
  moreover have "nat (be_height (bc_tip ch) + 1) = length bs" using a(9) by simp
  ultimately show ?thesis using sum(2,3) by simp
qed

lemma distinct_concat_nth:
  assumes "distinct (concat xss)" "i < length xss" "j < length xss" "k < length (xss ! i)" "l < length (xss ! j)"
    and "xss ! i ! k = xss ! j ! l"
  shows "i = j \<and> k = l"
proof -
  have "i = j"
  proof (rule ccontr)
    assume ne: "i \<noteq> j"
    have sub: "set (xss ! i) \<inter> set (xss ! j) = {}"
      using assms(1-3) ne
    proof (induction xss arbitrary: i j)
      case (Cons xs xss)
      moreover have "set (xss ! n) \<subseteq> (\<Union>ys \<in> set xss. set ys)" if "n < length xss" for n
        using that by (auto intro: nth_mem)
      ultimately show ?case by (cases i; cases j) (auto, blast+)
    qed simp
    have "xss ! i ! k \<in> set (xss ! i)" "xss ! i ! k \<in> set (xss ! j)"
      using nth_mem [OF assms(4)] nth_mem [OF assms(5)] by (simp_all add: assms(6))
    then show False using sub by blast
  qed
  moreover have "distinct (xss ! i)" using assms(1,2) by (auto simp: distinct_concat_iff)
  ultimately show ?thesis using assms(4-6) by (auto simp: nth_eq_iff_index_eq)
qed

text \<open>
  C4. No transaction is confirmed twice: two positions of the active chain that hold a transaction with
  the same id are the same position, so neither a coinbase nor a payment can be replayed.
\<close>
theorem confirmed_once:
  assumes "reachable c p T ch" "crypto_ok c" "consensus_ok p" "\<not> colliding c (body_bytes ` T)"
    and "get_block_by_height ch i = Some b" "get_block_by_height ch j = Some b'"
    and "k < length (bk_transactions b)" "l < length (bk_transactions b')"
    and "txid c (bk_transactions b ! k) = txid c (bk_transactions b' ! l)"
  shows "i = j \<and> k = l"
proof -
  obtain bs where bs: "active c p T (bc_storage ch) (bc_tip ch) bs"
    and seen: "seen_ok c (chain_txs bs) (get_coin (bc_storage ch))" using reachable_active [OF assms(1-4)] .
  note a = activeD [OF bs]
  have pos: "0 \<le> n \<and> nat n < length bs \<and> b = bs ! nat n" if get: "get_block_by_height ch n = Some b" for n b
  proof -
    obtain e where e: "get_chain_entry (bc_storage ch) n = Some e" and b: "get_block (bc_storage ch) (be_hash e) = Some b"
      using get by (auto simp: get_block_by_height_def Option.bind_eq_Some_conv)
    note ce = get_chain_entry_Some [OF index_okD(1) [OF a(1)] e]
    have st: "stored (bc_storage ch) e" using ce(1) by (simp add: stored_def)
    have n: "0 \<le> n" "nat n < length bs"
      using index_okD(2) [OF a(1) st] on_chainD(2) [OF a(4) st ce(2)] ce(3) by simp_all
    obtain d where d: "stored (bc_storage ch) d" "be_in_chain d" "be_height d = n" "be_hash d = block_hash c (bs ! nat n)"
      using on_chainD(1) [OF a(4) n(2)] n(1) by auto
    then have "e = d" using index_okD(4) [OF a(1) st d(1) ce(2)] ce(3) by simp
    then show ?thesis using on_chainD(3) [OF a(4) n(2)] b d(4) n by simp
  qed
  let ?xss = "map (\<lambda>b. map (txid c) (bk_transactions b)) bs"
  have "distinct (concat ?xss)"
    using seen by (simp add: seen_ok_def chain_txs_def map_concat comp_def)
  then have "nat i = nat j \<and> k = l"
    using distinct_concat_nth [of ?xss "nat i" "nat j" k l] pos [OF assms(5)] pos [OF assms(6)] assms(7-9) by auto
  then show ?thesis using pos [OF assms(5)] pos [OF assms(6)] by auto
qed

section \<open>Accepting a block\<close>

text \<open>
  C5. The best chain only ever gets better: handing a block to the chain, whatever the block is and
  whatever the outcome, keeps the tip or moves it to a block with strictly more accumulated work.
\<close>
theorem tip_work_grows:
  assumes "reachable c p T ch" "crypto_ok c" "consensus_ok p" "\<not> colliding c (body_bytes ` T)"
    and "block_ok b" "set (bk_transactions b) \<subseteq> T" "add_block fuel c p now b ch = (r, ch')"
  shows "bc_tip ch' = bc_tip ch \<or> be_chainwork (bc_tip ch) < be_chainwork (bc_tip ch')"
  using add_block_ok [OF reachable_ok [OF assms(1-4)] assms(2-7)] by blast

lemma activate_best_chain_done:
  "activate_best_chain n c p r ch = (Inr r', ch') \<Longrightarrow> best_candidate ch' = None"
proof (induction n c p r ch rule: activate_best_chain.induct)
  case (2 n c p r ch)
  then show ?case by (auto split: option.splits sum.splits exn.splits)
qed simp

text \<open>What each status that \<open>add_block\<close> reports says about the state.\<close>

definition outcome_ok :: "crypto \<Rightarrow> block \<Rightarrow> blockchain \<Rightarrow> add_block_result \<Rightarrow> blockchain \<Rightarrow> bool" where
  "outcome_ok c b ch r ch' \<longleftrightarrow> ar_block_hash r = block_hash c b \<and>
     (case ar_status r of
        DUPLICATE \<Rightarrow> ch' = ch \<and> has_block (bc_storage ch) (block_hash c b)
      | ORPHAN \<Rightarrow> ch' = ch \<and> get_entry (bc_storage ch) (bh_prev_hash (bk_header b)) = None
      | PREMATURE \<Rightarrow> ch' = ch
      | INVALID \<Rightarrow> is_invalid ch' (block_hash c b)
      | CONNECTED \<Rightarrow> \<not> is_invalid ch' (block_hash c b) \<and> best_candidate ch' = None \<and>
          map_option be_in_chain (get_entry (bc_storage ch') (block_hash c b)) = Some True
      | SIDE_BRANCH \<Rightarrow> \<not> is_invalid ch' (block_hash c b) \<and> best_candidate ch' = None \<and>
          map_option be_in_chain (get_entry (bc_storage ch') (block_hash c b)) \<noteq> Some True)"

lemma store_block_outcome:
  assumes "store_block fuel c p b parent ch = (Inr r, ch')"
  shows "outcome_ok c b ch r ch'"
proof -
  obtain s reorg where act: "activate_best_chain fuel c p False (ch\<lparr>bc_storage := s\<rparr>) = (Inr reorg, ch')"
    using assms by (auto simp: store_block_def Let_def split: sum.splits prod.splits option.splits)
  show ?thesis
    using assms activate_best_chain_done [OF act]
    by (auto simp: store_block_def Let_def outcome_ok_def invalid_result_def is_invalid_def
        split: sum.splits prod.splits option.splits if_splits)
qed


section \<open>Witnesses\<close>

text \<open>
  A run with a reorganisation on the regression-test network: two competing blocks of height one, and a
  block on top of the second. The digest of this run is the tail of the message, so that block hashes
  are nonces and the whole run can be evaluated.
\<close>

definition tail_digest :: "bytes \<Rightarrow> bytes" where
  "tail_digest d = (if length d = 32 then d
     else let t = drop (length d - 4) d in t @ replicate (32 - length t) 0)"

definition tail_crypto :: crypto where
  "tail_crypto = \<lparr>sha256_fn = tail_digest, on_curve = (\<lambda>_. True),
     ecdsa_verify = (\<lambda>k r s d. r = from_le (take 1 k) \<and> s = 1)\<rparr>"

interpretation tail: digest32 tail_digest
  by unfold_locales (simp add: tail_digest_def Let_def)

lemma tail_crypto_ok [simp]: "crypto_ok tail_crypto"
  by (simp add: crypto_ok_def tail_crypto_def tail.digest32_axioms)

definition demo_mine :: "int \<Rightarrow> bytes \<Rightarrow> int \<Rightarrow> block result" where
  "demo_mine height prev nonce =
     bnd (build_coinbase height 5000000000 (replicate 20 1) (to_le 4 nonce) 0) (\<lambda>t.
     block_create tail_crypto 0 prev [t] 0x207FFFFF (Some (1700000002 + 10 * height)) 1 nonce None)"

definition demo_add :: "block \<Rightarrow> blockchain \<Rightarrow> (add_block_result \<times> blockchain) result" where
  "demo_add b ch =
     (case add_block 5 tail_crypto REGTEST 1700000100 b ch of (Inl e, ch') \<Rightarrow> Inl e | (Inr r, ch') \<Rightarrow> Inr (r, ch'))"

definition demo_run :: "(block list \<times> blockchain \<times> add_block_result \<times> blockchain) result" where
  "demo_run =
     bnd (genesis_block tail_crypto REGTEST) (\<lambda>g.
     bnd (open_chain tail_crypto REGTEST empty_storage) (\<lambda>ch0.
     bnd (demo_mine 1 (be_hash (bc_tip ch0)) 9) (\<lambda>b1.
     bnd (demo_mine 1 (be_hash (bc_tip ch0)) 10) (\<lambda>b2.
     bnd (demo_mine 2 (block_hash tail_crypto b2) 11) (\<lambda>b3.
     bnd (demo_add b1 ch0) (\<lambda>(_, ch1).
     bnd (demo_add b2 ch1) (\<lambda>(_, ch2).
     bnd (demo_add b3 ch2) (\<lambda>(r, ch3).
     Inr ([g, b1, b2, b3], ch2, r, ch3)))))))))"

text \<open>The state in which the block is stored and the search for the best chain starts.\<close>

definition before_switch :: "block \<Rightarrow> blockchain \<Rightarrow> (bytes \<times> string) list \<times> nat \<times> bool \<times> int option" where
  "before_switch b ch =
     (case add_block 0 tail_crypto REGTEST 1700000100 b ch of (r, ch) \<Rightarrow>
      (bc_invalid ch, length (st_blocks (bc_storage ch)),
       list_all (\<lambda>(h, r). br_body r \<noteq> None) (st_blocks (bc_storage ch)), map_option be_height (best_candidate ch)))"

lemma demo_run_eval:
  "map_sum id (\<lambda>(bs, ch, r, ch').
     (list_all block_ok bs, colliding tail_crypto (body_bytes ` set (concat (map bk_transactions bs))),
      ar_status r, ar_reorganised r, be_height (bc_tip ch'), total_supply ch',
      map_option (length \<circ> bk_transactions) (get_block_by_height ch' 2), before_switch (bs ! 3) ch)) demo_run =
   Inr (True, False, CONNECTED, True, 2, 15000000000, Some 1, [], 4, True, Some 2)"
  by code_simp

lemma map_sum_Inr: "map_sum id f x = Inr y \<Longrightarrow> \<exists>z. x = Inr z \<and> f z = y"
  by (cases x) auto

definition demo_txs :: "block list \<Rightarrow> transaction set" where
  "demo_txs bs = set (concat (map bk_transactions bs))"

lemma demo_add_Inr: "demo_add b ch = Inr (r, ch') \<longleftrightarrow> add_block 5 tail_crypto REGTEST 1700000100 b ch = (Inr r, ch')"
  by (auto simp: demo_add_def split: prod.splits sum.splits)

lemma demo_run_reaches:
  obtains bs b ch r ch' where "demo_run = Inr (bs, ch, r, ch')"
    "reachable tail_crypto REGTEST (demo_txs bs) ch" "reachable tail_crypto REGTEST (demo_txs bs) ch'"
    "block_ok b" "set (bk_transactions b) \<subseteq> demo_txs bs"
    "add_block 5 tail_crypto REGTEST 1700000100 b ch = (Inr r, ch')"
    "\<not> colliding tail_crypto (body_bytes ` demo_txs bs)"
    "ar_status r = CONNECTED" "ar_reorganised r" "be_height (bc_tip ch') = 2" "total_supply ch' = 15000000000"
    "map_option (length \<circ> bk_transactions) (get_block_by_height ch' 2) = Some 1"
    "before_switch b ch = ([], 4, True, Some 2)"
proof -
  obtain bs ch r ch' where run: "demo_run = Inr (bs, ch, r, ch')"
    using map_sum_Inr [OF demo_run_eval] by fast
  obtain g ch0 b1 b2 b3 r1 ch1 r2 where g: "genesis_block tail_crypto REGTEST = Inr g"
    and ch0: "open_chain tail_crypto REGTEST empty_storage = Inr ch0"
    and add: "demo_add b1 ch0 = Inr (r1, ch1)" "demo_add b2 ch1 = Inr (r2, ch)" "demo_add b3 ch = Inr (r, ch')"
    and bs: "bs = [g, b1, b2, b3]"
    using run unfolding demo_run_def by (auto simp: bnd_eq_Inr)
  have ok: "list_all block_ok bs" "\<not> colliding tail_crypto (body_bytes ` demo_txs bs)"
      "ar_status r = CONNECTED" "ar_reorganised r" "be_height (bc_tip ch') = 2" "total_supply ch' = 15000000000"
      "map_option (length \<circ> bk_transactions) (get_block_by_height ch' 2) = Some 1"
      "before_switch b3 ch = ([], 4, True, Some 2)"
    using demo_run_eval by (simp_all add: run demo_txs_def) (simp add: bs)
  have sub: "set (bk_transactions b) \<subseteq> demo_txs bs" if "b \<in> set bs" for b
    using that by (auto simp: demo_txs_def)
  note step = reachable.block [where c = tail_crypto and p = REGTEST and T = "demo_txs bs"]
  have "reachable tail_crypto REGTEST (demo_txs bs) ch0"
    using reachable.opened [OF ch0] g sub [of g] bs by simp
  then have "reachable tail_crypto REGTEST (demo_txs bs) ch1"
    using step [OF _ _ sub add(1) [unfolded demo_add_Inr]] ok(1) bs by simp
  then have ch: "reachable tail_crypto REGTEST (demo_txs bs) ch"
    using step [OF _ _ sub add(2) [unfolded demo_add_Inr]] ok(1) bs by simp
  then have "reachable tail_crypto REGTEST (demo_txs bs) ch'"
    using step [OF _ _ sub add(3) [unfolded demo_add_Inr]] ok(1) bs by simp
  then show thesis
    using that [OF run ch _ _ sub add(3) [unfolded demo_add_Inr] ok(2-8)] ok(1) bs by simp
qed

lemma regtest_ok [simp]: "consensus_ok REGTEST"
  using networks_ok(3) by (simp add: consensus_ok_def REGTEST_def)

theorem active_chain_is_ledger_witness:
  "\<exists>bs ch r ch' chain. demo_run = Inr (bs, ch, r, ch') \<and> ar_reorganised r \<and> length chain = 3 \<and>
     active_blocks tail_crypto ch' chain \<and>
     ledger_chain tail_crypto REGTEST 0 chain (\<lambda>_. None) = Some (get_coin (bc_storage ch'))"
proof -
  obtain bs b ch r ch' where run: "demo_run = Inr (bs, ch, r, ch')" "reachable tail_crypto REGTEST (demo_txs bs) ch'"
      "\<not> colliding tail_crypto (body_bytes ` demo_txs bs)" "ar_reorganised r" "be_height (bc_tip ch') = 2"
    by (rule demo_run_reaches)
  then obtain chain where chain: "active_blocks tail_crypto ch' chain"
      "ledger_chain tail_crypto REGTEST 0 chain (\<lambda>_. None) = Some (get_coin (bc_storage ch'))"
    using active_chain_is_ledger [OF run(2) _ _ run(3)] by auto
  then have "length chain = 3" using run(5) by (simp add: active_blocks_def)
  then show ?thesis using chain run(1,4) by blast
qed

theorem supply_is_bounded_witness:
  "\<exists>bs ch r ch'. demo_run = Inr (bs, ch, r, ch') \<and> ar_reorganised r \<and>
     total_supply ch' = 15000000000 \<and> total_supply ch' \<le> total_subsidy REGTEST 3 \<and> total_supply ch' \<le> MAX_MONEY"
proof -
  obtain bs b ch r ch' where run: "demo_run = Inr (bs, ch, r, ch')" "reachable tail_crypto REGTEST (demo_txs bs) ch'"
      "\<not> colliding tail_crypto (body_bytes ` demo_txs bs)" "ar_reorganised r" "be_height (bc_tip ch') = 2"
      "total_supply ch' = 15000000000"
    by (rule demo_run_reaches)
  have "nat (be_height (bc_tip ch') + 1) = 3" using run(5) by simp
  then have "total_supply ch' \<le> total_subsidy REGTEST 3" "total_supply ch' \<le> MAX_MONEY"
    using supply_is_bounded [OF run(2) _ _ run(3)] by simp_all
  then show ?thesis using run(1,4,6) by blast
qed

theorem confirmed_once_witness:
  "\<exists>bs ch r ch' b. demo_run = Inr (bs, ch, r, ch') \<and> get_block_by_height ch' 2 = Some b \<and>
     length (bk_transactions b) = 1 \<and> (2 :: int) = 2 \<and> (0 :: nat) = 0"
proof -
  obtain bs b' ch r ch' where run: "demo_run = Inr (bs, ch, r, ch')" "reachable tail_crypto REGTEST (demo_txs bs) ch'"
      "\<not> colliding tail_crypto (body_bytes ` demo_txs bs)"
      "map_option (length \<circ> bk_transactions) (get_block_by_height ch' 2) = Some 1"
    by (rule demo_run_reaches)
  then obtain b where b: "get_block_by_height ch' 2 = Some b" "length (bk_transactions b) = 1" by auto
  then have "(2 :: int) = 2 \<and> (0 :: nat) = 0"
    using confirmed_once [OF run(2) _ _ run(3) b(1) b(1), of 0 0] by simp
  then show ?thesis using run(1) b by blast
qed

theorem tip_work_grows_witness:
  "\<exists>bs ch r ch'. demo_run = Inr (bs, ch, r, ch') \<and> ar_reorganised r \<and>
     (bc_tip ch' = bc_tip ch \<or> be_chainwork (bc_tip ch) < be_chainwork (bc_tip ch'))"
proof -
  obtain bs b ch r ch' where run: "demo_run = Inr (bs, ch, r, ch')" "reachable tail_crypto REGTEST (demo_txs bs) ch"
      "block_ok b" "set (bk_transactions b) \<subseteq> demo_txs bs"
      "add_block 5 tail_crypto REGTEST 1700000100 b ch = (Inr r, ch')"
      "\<not> colliding tail_crypto (body_bytes ` demo_txs bs)" "ar_reorganised r"
    by (rule demo_run_reaches)
  then have "bc_tip ch' = bc_tip ch \<or> be_chainwork (bc_tip ch) < be_chainwork (bc_tip ch')"
    using tip_work_grows [OF run(2) _ _ run(6,3,4,5)] by simp
  then show ?thesis using run(1,7) by blast
qed


end
