(* ===== verification/Raises.thy ===== *)
theory Raises
  imports Serialize
begin

text \<open>
  Which exceptions a call may raise: \<open>raises P r\<close> says that \<open>r\<close> is a value or an exception of the kind \<open>P\<close>. The
  rules in \<open>raises_intros\<close> take a sequence of calls apart, so that the exceptions of an operation are found from those
  it raises itself and those of the operations it calls.
\<close>

definition raises :: "(exn \<Rightarrow> bool) \<Rightarrow> 'a result \<Rightarrow> bool" where
  "raises P r \<longleftrightarrow> (case r of Inl e \<Rightarrow> P e | Inr _ \<Rightarrow> True)"

named_theorems raises_intros \<open>the exceptions of a sequence of calls\<close>

lemma raises_simps [simp]:
  "raises P (Inl e) \<longleftrightarrow> P e" "raises P (Inr x)"
  by (simp_all add: raises_def)

lemma raises_bnd [raises_intros]: "raises P m \<Longrightarrow> (\<And>x. raises P (f x)) \<Longrightarrow> raises P (bnd m f)"
  by (cases m) auto

lemma raises_if [raises_intros]: "raises P x \<Longrightarrow> raises P y \<Longrightarrow> raises P (if b then x else y)"
  by simp

lemma raises_prod [raises_intros]: "(\<And>a b. raises P (f a b)) \<Longrightarrow> raises P (case_prod f x)"
  by (cases x) auto

lemma raises_foldR [raises_intros]: "(\<And>x s. raises P (f x s)) \<Longrightarrow> raises P (foldR f xs s)"
  by (induction xs arbitrary: s) (auto intro!: raises_intros)

lemma raises_mapR [raises_intros]: "(\<And>x. raises P (f x)) \<Longrightarrow> raises P (mapR f xs)"
  by (induction xs) (auto intro!: raises_intros)

lemma raises_r_times [raises_intros]: "(\<And>s. raises P (p s)) \<Longrightarrow> raises P (r_times n p s)"
  by (induction n arbitrary: s) (auto intro!: raises_intros)

lemma raises_mono: "raises P r \<Longrightarrow> (\<And>e. P e \<Longrightarrow> Q e) \<Longrightarrow> raises Q r"
  by (cases r) auto

lemma raises_Inl: "raises P r \<Longrightarrow> r = Inl e \<Longrightarrow> P e"
  by simp

lemma not_raises: "\<not> raises P r \<Longrightarrow> \<exists>e. r = Inl e \<and> \<not> P e"
  by (cases r) auto

text \<open>Every reader raises a \<open>SerializationError\<close> only.\<close>

lemma readers_raise:
  assumes "\<And>m. P (SerializationError m)"
  shows "raises P (r_raw n s)" "raises P (r_uint8 s)" "raises P (r_uint16 s)" "raises P (r_uint32 s)" "raises P (r_uint64 s)"
    "raises P (r_varint s)" "raises P (r_varbytes k s)" "raises P (r_hash32 s)" "raises P (expect_end s)"
proof -
  show raw: "raises P (r_raw n s)" for n s using assms by (auto simp: r_raw_def)
  show ints: "raises P (r_uint8 s)" "raises P (r_uint16 s)" "raises P (r_uint32 s)" "raises P (r_uint64 s)" for s
    by (auto simp: r_uint8_def r_uint16_def r_uint32_def r_uint64_def intro!: raises_intros raw)
  show vint: "raises P (r_varint s)" for s
    using assms by (auto simp: r_varint_def intro!: raises_intros ints)
  show "raises P (r_varbytes k s)" "raises P (r_hash32 s)" "raises P (expect_end s)"
    using assms by (auto simp: r_varbytes_def r_hash32_def expect_end_def intro!: raises_intros raw vint)
qed

end
