(* ===== verification/Activation.thy ===== *)
theory Activation
  imports Consensus Raises
begin

text \<open>
  Whether \<^verbatim>\<open>_activate_best_chain\<close> comes to an end. It does, with an explicit bound on its rounds, as long
  as the bodies of the active chain are kept and the cache of invalid blocks is not evicted; a reorganisation
  below the pruning horizon makes it repeat the same round forever.
\<close>

section \<open>The exceptions of validation\<close>

text \<open>Everything a switch may raise from below, apart from \<^verbatim>\<open>_ConnectError\<close>, ends the loop.\<close>

fun plain :: "exn \<Rightarrow> bool" where
  "plain (ConnectError _ _) \<longleftrightarrow> False"
| "plain Nonterminating \<longleftrightarrow> False"
| "plain _ \<longleftrightarrow> True"

abbreviation raises_plain :: "'a result \<Rightarrow> bool" where
  "raises_plain \<equiv> raises plain"

lemma writers_plain [raises_intros]:
  "raises_plain (pack n v)" "raises_plain (w_raw d w)" "raises_plain (w_uint8 v w)" "raises_plain (w_uint32 v w)" "raises_plain (w_uint64 v w)"
  "raises_plain (w_varint v w)" "raises_plain (w_varbytes d w)" "raises_plain (w_hash32 d w)"
  by (auto simp: pack_def w_raw_def w_uint8_def w_uint32_def w_uint64_def w_varint_def w_varbytes_def w_hash32_def intro!: raises_intros)

lemma readers_plain [raises_intros]:
  "raises_plain (r_raw n s)" "raises_plain (r_uint8 s)" "raises_plain (r_uint32 s)" "raises_plain (r_uint64 s)"
  "raises_plain (r_varint s)" "raises_plain (r_hash32 s)" "raises_plain (expect_end s)" "raises_plain (mk_outpoint t i)"
  by (auto simp: readers_raise mk_outpoint_def)

lemma undo_plain [raises_intros]: "raises_plain (undo_encode us)" "raises_plain (get_undo s h)"
  by (auto simp: undo_encode_def w_undo_item_def coin_serialize_def get_undo_def r_undo_item_def coin_read_def
      intro!: raises_intros split: option.split)

lemma signing_plain [raises_intros]:
  "raises_plain (mk_signature_hasher t)" "raises_plain (hasher_digest c h i v code)"
  by (auto simp: mk_signature_hasher_def hasher_digest_def hasher_suffix_def serialize_body_def w_input_def w_output_def
      intro!: raises_intros)

lemma verify_input_signature_plain [raises_intros]:
  "raises_plain (verify_input_signature c t i v k h)"
  by (auto simp: verify_input_signature_def public_key_from_bytes_def public_key_verify_def Let_def intro!: raises_intros
    split: list.split sum.split option.split)

lemma pops_plain [raises_intros]: "raises_plain (pop_item st)" "raises_plain (pop_items n st)"
proof -
  show pop: "raises_plain (pop_item st)" for st by (cases st) auto
  show "raises_plain (pop_items n st)" by (induction n arbitrary: st) (auto intro!: raises_intros pop)
qed

lemma script_op_plain [raises_intros]: "raises_plain (script_op c d op st)"
  by (auto simp: script_op_def check_multisig_def Let_def intro!: raises_intros split: list.split option.split)

lemma decode_loop_plain [raises_intros]: "raises_plain (decode_loop s)"
proof (induction s rule: length_induct)
  case (1 s)
  then have rec: "raises_plain (decode_loop (drop n s'))" if "length s' < length s" for n s'
    using that by simp
  show ?case
  proof (cases s)
    case (Cons b s')
    then have "length (drop m s') < length s" for m by simp
    note recs = rec [OF this] rec [OF this [of 0], of 0, simplified] rec [OF this [of 0], simplified]
    show ?thesis
      unfolding Cons decode_loop.simps(2) Let_def
      by (intro raises_if raises_bnd recs) (simp_all (no_asm))
  qed simp
qed

lemma run_ops_plain [raises_intros]: "raises_plain (run_ops c d i ops st)"
  by (induction ops arbitrary: i st) (auto intro!: raises_intros split: option.split)

lemma evaluate_script_plain [raises_intros]: "raises_plain (evaluate_script c script args d)"
proof -
  have "raises_plain (bnd (decode_ops script) (\<lambda>ops. run_ops c d 1 ops (rev args)))"
    by (auto simp: decode_ops_def intro!: raises_intros)
  then show ?thesis
    by (auto simp: evaluate_script_def split: sum.splits exn.splits option.splits list.splits)
qed

lemma verify_p2sh_plain [raises_intros]: "raises_plain (verify_p2sh c t i v h)"
proof -
  have "raises_plain (case evaluate_script c script args d of Inl (ScriptError _) \<Rightarrow> Inr False | r \<Rightarrow> r)" for script args d
    using evaluate_script_plain [of c script args d] by (auto split: sum.splits exn.splits)
  then show ?thesis
   by (auto simp: verify_p2sh_def intro!: raises_intros split: list.split)
qed

lemma inputs_loop_plain [raises_intros]: "raises_plain (inputs_loop c t view height m h i tis acc)"
  by (induction tis arbitrary: i acc) (auto simp: unlocks_def intro!: raises_intros split: option.split)

lemma check_transaction_inputs_plain [raises_intros]: "raises_plain (check_transaction_inputs c t view height p v)"
  by (auto simp: check_transaction_inputs_def intro!: raises_intros)

section \<open>The exceptions of a switch\<close>

text \<open>Connecting a block blames that block or raises an exception that leaves the loop.\<close>

definition blames :: "bytes \<Rightarrow> 'a result \<Rightarrow> bool" where
  "blames h r \<longleftrightarrow> (case r of Inl (ConnectError h' _) \<Rightarrow> h' = h | Inl e \<Rightarrow> plain e | Inr _ \<Rightarrow> True)"

lemma blames_simps [simp]: "blames h (Inr x)" "blames h (Inl (ConnectError h w))"
  by (simp_all add: blames_def)

lemma blames_plain: "raises_plain r \<Longrightarrow> blames h r"
  by (cases r) (auto simp: blames_def split: exn.splits)

lemma blames_bnd: "blames h m \<Longrightarrow> (\<And>x. blames h (f x)) \<Longrightarrow> blames h (bnd m f)"
  by (cases m) (auto simp: blames_def split: exn.splits)

lemma blames_foldR: "(\<And>x s. blames h (f x s)) \<Longrightarrow> blames h (foldR f xs s)"
  by (induction xs arbitrary: s) (auto intro: blames_bnd)

lemma connect_tx_blames: "blames h (connect_tx c p h height t cs)"
proof -
  have spend: "raises_plain (foldR spend_input tis cs)" for tis cs
    by (auto simp: spend_input_def ov_spend_def intro!: raises_intros split: option.split)
  have "blames h (case check_transaction_inputs c t v height p True of
      Inl e \<Rightarrow> if is_ValidationError e then Inl (ConnectError h (exn_message e)) else Inl e
    | Inr fee \<Rightarrow> foldR spend_input (tx_inputs t) (cs\<lparr>cs_fees := cs_fees cs + fee\<rparr>))" for v
    using check_transaction_inputs_plain [of c t v height p True]
    by (auto intro: blames_plain spend split: sum.splits)
  then show ?thesis
    by (auto simp: connect_tx_def intro!: blames_bnd)
qed

lemma connect_block_blames: "blames (be_hash e) (connect_block c p b e s)"
proof -
  have plain: "raises_plain (subsidy p (be_height e))" "raises_plain (block_coinbase b)"
    by (auto simp: subsidy_def block_coinbase_def Let_def split: list.split)
  show ?thesis
    unfolding connect_block_def Let_def put_undo_def
    by (auto intro!: blames_bnd blames_foldR connect_tx_blames plain [THEN blames_plain] undo_plain [THEN blames_plain])
qed

text \<open>What a switch leaves alone: the rows of the block table, apart from the flags.\<close>

definition same_rows :: "storage \<Rightarrow> storage \<Rightarrow> bool" where
  "same_rows s s' \<longleftrightarrow> fst ` set (st_blocks s') = fst ` set (st_blocks s) \<and> get_block s' = get_block s \<and>
     (\<forall>h. map_option (\<lambda>e. e\<lparr>be_in_chain := True\<rparr>) (get_entry s' h) =
        map_option (\<lambda>e. e\<lparr>be_in_chain := True\<rparr>) (get_entry s h))"

lemma same_rows_refl [simp]: "same_rows s s"
  by (simp add: same_rows_def)

lemma same_rows_trans: "same_rows s s' \<Longrightarrow> same_rows s' s'' \<Longrightarrow> same_rows s s''"
  by (simp add: same_rows_def)

lemma same_rows_flag:
  assumes "st_blocks s' = st_blocks (set_in_chain h v s)"
  shows "same_rows s s'"
proof -
  have "fst ` set (st_blocks s') = fst ` set (st_blocks s)"
    by (force simp: assms set_in_chain_def)
  then show ?thesis
    by (auto simp: same_rows_def get_block_cong [OF assms] fun_eq_iff get_entry_flag [OF assms] option.map_comp comp_def
        intro!: option.map_cong0)
qed

lemma rollback_rows:
  "rollback n c fork (tip, evs, s) = Inr (tip', evs', s') \<Longrightarrow> same_rows s s'"
proof (induction n arbitrary: tip evs s)
  case (Suc n)
  show ?case
  proof (cases "be_hash tip = fork")
    case False
    then obtain b s1 parent where dis: "disconnect_block c tip s = Inr (b, s1)"
      and rest: "rollback n c fork (parent, evs @ [BlockDisconnected b (be_height tip)], s1) = Inr (tip', evs', s')"
      using Suc.prems by (auto simp: bnd_eq_Inr split: option.splits)
    show ?thesis
      using same_rows_trans [OF same_rows_flag [OF disconnect_block_effect(3) [OF dis]] Suc.IH [OF rest]] .
  qed (use Suc.prems in simp)
qed (auto split: if_splits)

lemma connect_rows:
  "foldR (connect_entry c p) es (tip, evs, s) = Inr (tip', evs', s') \<Longrightarrow> same_rows s s'"
proof (induction es arbitrary: tip evs s)
  case (Cons e es)
  then obtain b s1 where con: "connect_block c p b e s = Inr s1"
    and rest: "foldR (connect_entry c p) es (e\<lparr>be_in_chain := True\<rparr>, evs @ [BlockConnected b (be_height e)], s1) =
      Inr (tip', evs', s')"
    unfolding foldR.simps bnd_eq_Inr connect_entry_Inr by blast
  show ?case
    using same_rows_trans [OF same_rows_flag [OF connect_block_effect(2) [OF con]] Cons.IH [OF rest]] .
qed simp

lemma switch_to_rows:
  assumes "switch_to c p cand ch = Inr (tip, events, s)"
  shows "same_rows (bc_storage ch) s"
proof -
  obtain fork :: block_index_entry and branch tip1 ev1 s1 s2 where
      roll: "rollback (walk_fuel (bc_storage ch)) c (be_hash fork) (bc_tip ch, [], bc_storage ch) = Inr (tip1, ev1, s1)"
    and conn: "foldR (connect_entry c p) branch (tip1, ev1, s1) = Inr (tip, events, s2)" and s: "s = set_tip (be_hash tip) s2"
    using assms by (auto simp: switch_to_def bnd_eq_Inr)
  have "same_rows s2 s"
    by (simp add: s same_rows_def set_tip_def get_block_def get_entry_def fun_eq_iff)
  then show ?thesis
    using rollback_rows [OF roll] connect_rows [OF conn] same_rows_trans by blast
qed


section \<open>The conditions\<close>

text \<open>Every stored block still has its body, and a block built on an invalid one is invalid.\<close>

definition unpruned :: "storage \<Rightarrow> bool" where
  "unpruned s \<longleftrightarrow> (\<forall>h e. get_entry s h = Some e \<longrightarrow> get_block s h \<noteq> None)"

definition invalid_closed :: "blockchain \<Rightarrow> bool" where
  "invalid_closed ch \<longleftrightarrow> (\<forall>e. stored (bc_storage ch) e \<and> is_invalid ch (be_prev_hash e) \<longrightarrow> is_invalid ch (be_hash e))"

definition known_hashes :: "blockchain \<Rightarrow> bytes set" where
  "known_hashes ch = dom (map_of (bc_invalid ch)) \<union> fst ` set (st_blocks (bc_storage ch))"

text \<open>The cache of invalid blocks is large enough for every block that is known.\<close>

definition cache_suffices :: "blockchain \<Rightarrow> bool" where
  "cache_suffices ch \<longleftrightarrow> keys_distinct (bc_invalid ch) \<and> card (known_hashes ch) < MAX_REMEMBERED_INVALID"

lemma stored_hash: "stored s e \<Longrightarrow> be_hash e \<in> fst ` set (st_blocks s)"
  by (force simp: stored_def get_entry_def dest: map_of_SomeD)

section \<open>A switch fails because of a block not yet known to be invalid\<close>

lemma branch_walk_ends:
  assumes "index_ok (bc_storage ch)" "on_chain c (bc_storage ch) bs" "invalid_closed ch"
    and "stored (bc_storage ch) w" "\<not> is_invalid ch (be_hash w)" "be_height w < int n"
  shows "\<exists>r. branch_walk n ch w es = Inr r \<and>
    (\<forall>x \<in> set (snd r). x \<in> set es \<or> stored (bc_storage ch) x \<and> \<not> is_invalid ch (be_hash x))"
  using assms(4-6)
proof (induction n arbitrary: w es)
  case 0
  then show ?case using index_okD(2) [OF assms(1)] by force
next
  case (Suc n)
  show ?case
  proof (cases "be_in_chain w")
    case False
    have "0 < be_height w" using on_chainD(4) [OF assms(2) Suc.prems(1) False] .
    then obtain e where e: "get_entry (bc_storage ch) (be_prev_hash w) = Some e" "stored (bc_storage ch) e"
        "be_height e = be_height w - 1"
      using index_okD(3) [OF assms(1) Suc.prems(1)] by blast
    then have "\<not> is_invalid ch (be_hash e)"
      using assms(3) Suc.prems(1,2) by (auto simp: invalid_closed_def get_entry_stored)
    then show ?thesis
      using Suc.IH [OF e(2), of "w # es"] Suc.prems False e by fastforce
  qed simp
qed

lemma rollback_plain:
  assumes "crypto_ok c" "params_ok p" "\<not> colliding c (body_bytes ` T)" "be_in_chain fork"
    and "active c p T s tip bs" "unpruned s" "stored s fork" "be_height tip - be_height fork < int n"
  shows "raises_plain (rollback n c (be_hash fork) (tip, evs, s))"
  using assms(5-8)
proof (induction n arbitrary: s tip bs evs)
  case 0
  note a = activeD [OF 0(1)]
  have "be_height fork < be_height tip + 1" using on_chainD(2) [OF a(4) 0(3) assms(4)] a(9) by simp
  then show ?case using 0 by simp
next
  case (Suc n)
  note a = activeD [OF Suc.prems(1)]
  show ?case
  proof (cases "be_hash tip = be_hash fork")
    case False
    then have "fork \<noteq> tip" by blast
    then have low: "be_height fork < be_height tip"
      using on_chainD(2) [OF a(4) Suc.prems(3) assms(4)] index_okD(4) [OF a(1) Suc.prems(3) a(7) assms(4) a(8)] a(9)
      by fastforce
    then have "1 < length bs" using index_okD(2) [OF a(1) Suc.prems(3)] a(9) by simp
    then obtain bs0 b0 where bs: "bs = bs0 @ [b0]" "bs0 \<noteq> []" by (cases bs rule: rev_cases) auto
    obtain b where b: "get_block s (be_hash tip) = Some b"
      using Suc.prems(2) a(7) by (auto simp: unpruned_def stored_def)
    have plain: "raises_plain (disconnect_block c tip s)"
      by (auto simp: disconnect_block_def b Let_def intro!: raises_intros)
    show ?thesis
    proof (cases "disconnect_block c tip s")
      case (Inl e)
      then show ?thesis using plain False by simp
    next
      case (Inr r)
      obtain b' s1 where r: "r = (b', s1)" by (cases r)
      note eff = disconnect_block_effect [OF Inr [unfolded r]]
      have "0 < be_height tip" using low index_okD(2) [OF a(1) Suc.prems(3)] by simp
      then obtain t where t: "get_entry s (be_prev_hash tip) = Some t" "be_height t = be_height tip - 1"
        using index_okD(3) [OF a(1) a(7)] by blast
      then obtain parent where par: "get_entry s1 (be_prev_hash tip) = Some parent" "be_height parent = be_height tip - 1"
        by (simp add: get_entry_flag [OF eff(3)] split: if_splits)
      have act: "active c p T s1 parent bs0"
        using disconnect_active(1) [OF Suc.prems(1) [unfolded bs(1)] bs(2) assms(1-3) Inr [unfolded r] par(1)] .
      have "unpruned s1"
        using Suc.prems(2) unfolding unpruned_def get_block_cong [OF eff(3)] get_entry_flag [OF eff(3)] by auto
      moreover have "stored s1 fork"
        unfolding stored_flag [OF eff(3)] using Suc.prems(3) False by auto
      ultimately show ?thesis
        using Suc.IH [OF act] Suc.prems(4) par False Inr r by simp
    qed
  qed simp
qed

lemma connect_entries_blame:
  assumes "foldR (connect_entry c p) es st = Inl e"
  shows "plain e \<or> (\<exists>x \<in> set es. \<exists>why. e = ConnectError (be_hash x) why)"
  using assms
proof (induction es arbitrary: st)
  case (Cons x es)
  have "blames (be_hash x) (connect_entry c p x st)"
    by (auto simp: connect_entry_def intro!: blames_bnd connect_block_blames split: prod.split option.split)
  then show ?case
    using Cons by (cases "connect_entry c p x st") (auto simp: blames_def split: exn.splits)
qed simp

lemma switch_to_blames:
  assumes "active c p T (bc_storage ch) (bc_tip ch) bs" "crypto_ok c" "params_ok p" "\<not> colliding c (body_bytes ` T)"
    and "unpruned (bc_storage ch)" "invalid_closed ch" "best_candidate ch = Some cand" "switch_to c p cand ch = Inl e"
  shows "plain e \<or> (\<exists>x why. e = ConnectError (be_hash x) why \<and> stored (bc_storage ch) x \<and> \<not> is_invalid ch (be_hash x))"
proof -
  note a = activeD [OF assms(1)] and cand = best_candidate_Some [OF assms(7) a(1)]
  have fuel: "be_height x < int (walk_fuel (bc_storage ch))" if "stored (bc_storage ch) x" for x
    using height_less_blocks [OF a(1) that] by (simp add: walk_fuel_def)
  obtain fork branch where walk: "branch_walk (walk_fuel (bc_storage ch)) ch cand [] = Inr (fork, branch)"
    and ok: "\<forall>x \<in> set branch. stored (bc_storage ch) x \<and> \<not> is_invalid ch (be_hash x)"
    using branch_walk_ends [OF a(1,4) assms(6) cand(1,3) fuel [OF cand(1)], of "[]"] by auto
  have fork: "stored (bc_storage ch) fork" "be_in_chain fork"
    using branch_walk_linked [OF a(1,4) cand(1) _ walk] by simp_all
  have "be_height (bc_tip ch) - be_height fork < int (walk_fuel (bc_storage ch))"
    using fuel [OF a(7)] index_okD(2) [OF a(1) fork(1)] by simp
  then have roll: "raises_plain (rollback (walk_fuel (bc_storage ch)) c (be_hash fork) (bc_tip ch, [], bc_storage ch))"
    using rollback_plain [OF assms(2-4) fork(2) assms(1,5) fork(1)] by blast
  then show ?thesis
    using assms(8) walk connect_entries_blame [of c p branch] ok
    by (cases "rollback (walk_fuel (bc_storage ch)) c (be_hash fork) (bc_tip ch, [], bc_storage ch)")
      (fastforce simp: switch_to_def bnd_eq_Inl)+
qed

section \<open>Marking blocks as invalid\<close>

definition marked_children :: "storage \<Rightarrow> bytes \<Rightarrow> string \<Rightarrow> (bytes \<times> string) list" where
  "marked_children s current why =
     rev (map (\<lambda>e. (be_hash e, ''builds on an invalid block: '' @ why)) (children_of s current))"

lemma invalidate_round:
  "invalidate_loop s ((current, why) # pending) bad =
     (if map_of bad current \<noteq> None then invalidate_loop s pending bad
      else invalidate_loop s (marked_children s current why @ pending) (AList.update current why bad))"
  by (simp add: marked_children_def)

lemma marked_keys: "fst ` set (marked_children s current why) = be_hash ` {e \<in> set (all_entries s). be_prev_hash e = current}"
  by (force simp: marked_children_def children_of_def)

lemma update_keys: "dom (map_of (AList.update k v t)) = insert k (dom (map_of t))"
  by auto

lemma invalidate_induct:
  assumes "\<And>bad. P [] bad"
    and "\<And>current why pending bad. map_of bad current \<noteq> None \<Longrightarrow> P pending bad \<Longrightarrow> P ((current, why) # pending) bad"
    and "\<And>current why pending bad. map_of bad current = None \<Longrightarrow>
      P (marked_children s current why @ pending) (AList.update current why bad) \<Longrightarrow> P ((current, why) # pending) bad"
  shows "P pending bad"
  using assms
proof (induction s pending bad rule: invalidate_loop.induct)
  case (2 s current why pending bad)
  show ?case
  proof (cases "map_of bad current = None")
    case True
    have "P (marked_children s current why @ pending) (AList.update current why bad)"
      unfolding marked_children_def using True by (intro 2(2) 2(3-)) simp_all
    then show ?thesis by (rule 2(5) [OF True])
  next
    case False
    have "P pending bad" using False by (intro 2(1) 2(3-)) simp_all
    then show ?thesis by (rule 2(4) [OF False])
  qed
qed

lemma invalidate_loop_keys:
  "dom (map_of bad) \<union> fst ` set pending \<subseteq> dom (map_of (invalidate_loop s pending bad)) \<and>
   dom (map_of (invalidate_loop s pending bad)) \<subseteq> dom (map_of bad) \<union> fst ` set pending \<union> fst ` set (st_blocks s) \<and>
   (keys_distinct bad \<longrightarrow> keys_distinct (invalidate_loop s pending bad))"
proof (induction pending bad rule: invalidate_induct [where s = s])
  case (3 current why pending bad)
  have "be_hash e \<in> fst ` set (st_blocks s)" if "e \<in> set (all_entries s)" for e
    using that by (force simp: all_entries_def entry_of_def)
  then have "fst ` set (marked_children s current why) \<subseteq> fst ` set (st_blocks s)"
    by (auto simp: marked_keys)
  moreover have "keys_distinct bad \<Longrightarrow> keys_distinct (AList.update current why bad)" by simp
  moreover have "invalidate_loop s ((current, why) # pending) bad =
      invalidate_loop s (marked_children s current why @ pending) (AList.update current why bad)"
    using 3(1) by (simp only: invalidate_round) simp
  moreover have "fst ` set ((current, why) # pending) = insert current (fst ` set pending)" by simp
  ultimately show ?case
    using 3(2) [unfolded update_keys set_append image_Un] by (simp only:) blast
next
  case (2 current why pending bad)
  then have "current \<in> dom (map_of bad)" by auto
  moreover have "invalidate_loop s ((current, why) # pending) bad = invalidate_loop s pending bad"
    using 2(1) by (simp only: invalidate_round) simp
  ultimately show ?case using 2(2) by (simp only: list.set image_insert fst_conv) blast
qed simp

lemma invalidate_loop_closed:
  assumes "\<forall>e \<in> set (all_entries s). be_prev_hash e \<in> dom (map_of bad) \<longrightarrow>
      be_hash e \<in> dom (map_of bad) \<union> fst ` set pending"
  shows "\<forall>e \<in> set (all_entries s). be_prev_hash e \<in> dom (map_of (invalidate_loop s pending bad)) \<longrightarrow>
      be_hash e \<in> dom (map_of (invalidate_loop s pending bad))"
  using assms
proof (induction pending bad rule: invalidate_induct [where s = s])
  case (2 current why pending bad)
  then have "current \<in> dom (map_of bad)" by auto
  then have "dom (map_of bad) \<union> fst ` set ((current, why) # pending) = dom (map_of bad) \<union> fst ` set pending" by auto
  then show ?case
    using 2 unfolding invalidate_round by simp
next
  case (3 current why pending bad)
  have "\<forall>e \<in> set (all_entries s). be_prev_hash e \<in> dom (map_of (AList.update current why bad)) \<longrightarrow>
      be_hash e \<in> dom (map_of (AList.update current why bad)) \<union> fst ` set (marked_children s current why @ pending)"
    unfolding update_keys set_append image_Un marked_keys using 3(3) by auto
  from 3(2) [OF this] show ?case
    using 3(1) by (simp only: invalidate_round) simp
qed simp

lemma evict_room: "length bad < MAX_REMEMBERED_INVALID \<Longrightarrow> evict bad = bad"
  by (cases bad) auto

lemma cache_length:
  assumes "cache_suffices ch"
  shows "length (bc_invalid ch) < MAX_REMEMBERED_INVALID"
proof -
  have "length (bc_invalid ch) = card (dom (map_of (bc_invalid ch)))"
    using assms by (metis cache_suffices_def distinct_card dom_map_of_conv_image_fst length_map list.set_map)
  also have "\<dots> \<le> card (known_hashes ch)"
    by (intro card_mono) (auto simp: known_hashes_def finite_dom_map_of)
  finally show ?thesis using assms by (simp add: cache_suffices_def)
qed

text \<open>How much is left to do: blocks not known to be invalid, and blocks with more work than the tip.\<close>

definition weight :: "blockchain \<Rightarrow> nat" where
  "weight ch = card {h \<in> fst ` set (st_blocks (bc_storage ch)). \<not> is_invalid ch h} +
     card {h. \<exists>e. get_entry (bc_storage ch) h = Some e \<and> be_chainwork (bc_tip ch) < be_chainwork e}"

lemma finite_better: "finite {h. \<exists>e. get_entry s h = Some e \<and> w < be_chainwork e}"
proof (rule finite_subset)
  show "{h. \<exists>e. get_entry s h = Some e \<and> w < be_chainwork e} \<subseteq> fst ` set (st_blocks s)"
    using stored_hash by (fastforce simp: get_entry_stored)
qed simp

lemma weight_bound: "weight ch \<le> 2 * length (st_blocks (bc_storage ch))"
proof -
  let ?H = "fst ` set (st_blocks (bc_storage ch))"
  have "card ?H \<le> length (st_blocks (bc_storage ch))"
    by (metis card_length length_map list.set_map)
  moreover have "card {h \<in> ?H. \<not> is_invalid ch h} \<le> card ?H" by (intro card_mono) auto
  moreover have "card {h. \<exists>e. get_entry (bc_storage ch) h = Some e \<and> be_chainwork (bc_tip ch) < be_chainwork e} \<le> card ?H"
    using stored_hash by (intro card_mono) (fastforce simp: get_entry_stored)+
  ultimately show ?thesis by (simp add: weight_def)
qed

lemma invalidate_step:
  assumes "cache_suffices ch" "invalid_closed ch" "index_ok (bc_storage ch)" "stored (bc_storage ch) x"
    and "\<not> is_invalid ch (be_hash x)"
  shows "cache_suffices (invalidate (be_hash x) why ch)" "invalid_closed (invalidate (be_hash x) why ch)"
    and "weight (invalidate (be_hash x) why ch) < weight ch"
proof -
  let ?s = "bc_storage ch" and ?ch = "invalidate (be_hash x) why ch" and ?H = "fst ` set (st_blocks (bc_storage ch))"
  have new: "bc_invalid ?ch = invalidate_loop ?s [(be_hash x, why)] (bc_invalid ch)" "bc_storage ?ch = ?s" "bc_tip ?ch = bc_tip ch"
    by (simp_all add: invalidate_def evict_room [OF cache_length [OF assms(1)]])
  note keys = invalidate_loop_keys [of "bc_invalid ch" "[(be_hash x, why)]" ?s, folded new(1)]
  have xH: "be_hash x \<in> ?H" using stored_hash [OF assms(4)] .
  have "known_hashes ?ch = known_hashes ch" using keys xH new(2) by (auto simp: known_hashes_def)
  then show "cache_suffices ?ch" using assms(1) keys by (simp add: cache_suffices_def)
  have mem: "e \<in> set (all_entries ?s) \<longleftrightarrow> stored ?s e" for e
    using set_all_entries [OF index_okD(1) [OF assms(3)]] by (simp add: stored_def)
  have "\<forall>e \<in> set (all_entries ?s). be_prev_hash e \<in> dom (map_of (bc_invalid ch)) \<longrightarrow>
      be_hash e \<in> dom (map_of (bc_invalid ch)) \<union> fst ` set [(be_hash x, why)]"
    using assms(2) mem by (auto simp: invalid_closed_def is_invalid_def)
  from invalidate_loop_closed [OF this, folded new(1)] show "invalid_closed ?ch"
    unfolding invalid_closed_def is_invalid_def new(2) using mem by (simp add: dom_def)
  have "{h \<in> ?H. \<not> is_invalid ?ch h} \<subset> {h \<in> ?H. \<not> is_invalid ch h}"
  proof (rule psubsetI)
    show "{h \<in> ?H. \<not> is_invalid ?ch h} \<subseteq> {h \<in> ?H. \<not> is_invalid ch h}"
      using keys by (auto simp: is_invalid_def)
    have "be_hash x \<notin> {h \<in> ?H. \<not> is_invalid ?ch h}" using keys by (auto simp: is_invalid_def)
    moreover have "be_hash x \<in> {h \<in> ?H. \<not> is_invalid ch h}" using assms(5) xH by simp
    ultimately show "{h \<in> ?H. \<not> is_invalid ?ch h} \<noteq> {h \<in> ?H. \<not> is_invalid ch h}" by blast
  qed
  then have "card {h \<in> ?H. \<not> is_invalid ?ch h} < card {h \<in> ?H. \<not> is_invalid ch h}"
    by (intro psubset_card_mono) simp_all
  then show "weight ?ch < weight ch" by (simp add: weight_def new(2,3))
qed

section \<open>The loop\<close>

lemma switch_step:
  assumes "cache_suffices ch" "invalid_closed ch" "unpruned (bc_storage ch)" "same_rows (bc_storage ch) s"
    and "stored (bc_storage ch) cand" "be_chainwork (bc_tip ch) < be_chainwork cand" "be_chainwork tip = be_chainwork cand"
    and "ch' = ch\<lparr>bc_storage := s, bc_tip := tip, bc_events := evs\<rparr>"
  shows "cache_suffices ch'" "invalid_closed ch'" "unpruned s" "weight ch' < weight ch"
proof -
  have rows: "fst ` set (st_blocks s) = fst ` set (st_blocks (bc_storage ch))" "get_block s = get_block (bc_storage ch)"
    and on: "map_option (\<lambda>e. e\<lparr>be_in_chain := True\<rparr>) (get_entry s h) =
      map_option (\<lambda>e. e\<lparr>be_in_chain := True\<rparr>) (get_entry (bc_storage ch) h)" for h
    using assms(4) by (simp_all add: same_rows_def)
  have entry: "\<exists>e'. get_entry (bc_storage ch) h = Some e' \<and> be_hash e' = be_hash e \<and> be_prev_hash e' = be_prev_hash e \<and>
      be_chainwork e' = be_chainwork e" if new: "get_entry s h = Some e" for e h
  proof -
    obtain e' where e': "get_entry (bc_storage ch) h = Some e'" "e'\<lparr>be_in_chain := True\<rparr> = e\<lparr>be_in_chain := True\<rparr>"
      using on [of h] new by (cases "get_entry (bc_storage ch) h") simp_all
    have "be_hash e' = be_hash (e'\<lparr>be_in_chain := True\<rparr>)" "be_prev_hash e' = be_prev_hash (e'\<lparr>be_in_chain := True\<rparr>)"
      "be_chainwork e' = be_chainwork (e'\<lparr>be_in_chain := True\<rparr>)" by simp_all
    then show ?thesis using e' by simp
  qed
  show "cache_suffices ch'" using assms(1) by (simp add: assms(8) cache_suffices_def known_hashes_def rows)
  have same: "is_invalid ch' h = is_invalid ch h" for h by (simp add: assms(8) is_invalid_def)
  show "invalid_closed ch'"
    unfolding invalid_closed_def
  proof (intro allI impI, elim conjE)
    fix e assume e: "stored (bc_storage ch') e" "is_invalid ch' (be_prev_hash e)"
    then obtain e' where "stored (bc_storage ch) e'" "be_hash e' = be_hash e" "be_prev_hash e' = be_prev_hash e"
      using entry [of "be_hash e" e] by (auto simp: assms(8) stored_def)
    then show "is_invalid ch' (be_hash e)"
      using assms(2) e(2) same by (metis invalid_closed_def)
  qed
  show "unpruned s" using assms(3) entry unfolding unpruned_def rows(2) by blast
  have "{h. \<exists>e. get_entry s h = Some e \<and> be_chainwork cand < be_chainwork e} \<subset>
      {h. \<exists>e. get_entry (bc_storage ch) h = Some e \<and> be_chainwork (bc_tip ch) < be_chainwork e}" (is "?A \<subset> ?B")
  proof (rule psubsetI)
    show "?A \<subseteq> ?B" using entry assms(6) by fastforce
    have "be_hash cand \<in> ?B" using assms(5,6) by (auto simp: stored_def)
    moreover have "be_hash cand \<notin> ?A" using entry assms(5) by (fastforce simp: stored_def)
    ultimately show "?A \<noteq> ?B" by blast
  qed
  then have "card ?A < card ?B" by (intro psubset_card_mono finite_better)
  then show "weight ch' < weight ch" by (simp add: weight_def assms(7,8) rows is_invalid_def)
qed

lemma activate_best_chain_ends:
  assumes "crypto_ok c" "params_ok p" "\<not> colliding c (body_bytes ` T)"
    and "chain_ok c p T ch" "unpruned (bc_storage ch)" "invalid_closed ch" "cache_suffices ch" "weight ch < n"
  shows "raises_plain (fst (activate_best_chain n c p r ch))"
  using assms(4-8)
proof (induction n arbitrary: r ch)
  case (Suc n)
  obtain bs where act: "active c p T (bc_storage ch) (bc_tip ch) bs" using Suc.prems(1) by (auto simp: chain_ok_def)
  note a = activeD [OF act]
  show ?case
  proof (cases "best_candidate ch")
    case (Some cand)
    note cand = best_candidate_Some [OF Some a(1)]
    show ?thesis
    proof (cases "switch_to c p cand ch")
      case (Inr st)
      obtain tip events s where st: "st = (tip, events, s)" by (cases st)
      let ?ch = "ch\<lparr>bc_storage := s, bc_tip := tip, bc_events := bc_events ch @ events\<rparr>"
      note sw = switch_to_active [OF act assms(1-3) Some Inr [unfolded st]]
      have "be_chainwork tip = be_chainwork cand" by (simp add: sw(3))
      note step = switch_step [OF Suc.prems(4,3,2) switch_to_rows [OF Inr [unfolded st]] cand(1,2) this refl]
      have "chain_ok c p T ?ch" using sw(1,2) by (simp add: chain_ok_def)
      moreover have "weight ?ch < n" using step(4) [of "bc_events ch @ events"] Suc.prems(5) by simp
      ultimately show ?thesis
        using Suc.IH [of ?ch] step(1-3) Some Inr st by simp
    next
      case (Inl e)
      from switch_to_blames [OF act assms(1-3) Suc.prems(2,3) Some Inl] show ?thesis
      proof (elim disjE exE conjE)
        assume "plain e"
        then show ?thesis using Some Inl by (cases e) simp_all
      next
        fix x why assume x: "e = ConnectError (be_hash x) why" "stored (bc_storage ch) x" "\<not> is_invalid ch (be_hash x)"
        note step = invalidate_step [OF Suc.prems(4,3) a(1) x(2,3), of why]
        have "chain_ok c p T (invalidate (be_hash x) why ch)" "unpruned (bc_storage (invalidate (be_hash x) why ch))"
          using Suc.prems(1,2) by (simp_all add: chain_ok_invalidate) (simp add: invalidate_def)
        then show ?thesis using Suc.IH step Suc.prems(5) Some Inl x(1) by simp
      qed
    qed
  qed simp
qed simp

text \<open>
  C8. The search for the best chain ends. As long as no body was pruned and the cache of invalid blocks has room
  for every known block, \<^verbatim>\<open>_activate_best_chain\<close> needs at most two rounds for each stored block: it returns, or
  one of the exceptions below \<^verbatim>\<open>_ConnectError\<close> leaves it, whatever invalid blocks it meets on the way.
\<close>
theorem activation_terminates:
  assumes "crypto_ok c" "params_ok p" "\<not> colliding c (body_bytes ` T)" "chain_ok c p T ch"
    and "unpruned (bc_storage ch)" "invalid_closed ch" "cache_suffices ch" "2 * length (st_blocks (bc_storage ch)) < fuel"
  shows "raises_plain (fst (activate_best_chain fuel c p r ch))"
  using activate_best_chain_ends [OF assms(1-7)] weight_bound [of ch] assms(8) by simp

section \<open>A reorganisation below the pruning horizon\<close>

text \<open>The candidate cannot be connected because of a block that is already marked: the next round is the same.\<close>

definition stuck :: "crypto \<Rightarrow> chain_params \<Rightarrow> blockchain \<Rightarrow> bool" where
  "stuck c p ch =
     (case best_candidate ch of
        None \<Rightarrow> False
      | Some cand \<Rightarrow>
          (case switch_to c p cand ch of
             Inl (ConnectError h why) \<Rightarrow> is_invalid ch h \<and> length (bc_invalid ch) < MAX_REMEMBERED_INVALID
           | _ \<Rightarrow> False))"

lemma invalidate_marked:
  "is_invalid ch h \<Longrightarrow> length (bc_invalid ch) < MAX_REMEMBERED_INVALID \<Longrightarrow> invalidate h why ch = ch"
  by (auto simp: invalidate_def is_invalid_def evict_room)

lemma stuck_forever: "stuck c p ch \<Longrightarrow> fst (activate_best_chain n c p r ch) = Inl Nonterminating"
proof (induction n)
  case (Suc n)
  then obtain cand h why where "best_candidate ch = Some cand" "switch_to c p cand ch = Inl (ConnectError h why)"
      "is_invalid ch h" "length (bc_invalid ch) < MAX_REMEMBERED_INVALID"
    by (auto simp: stuck_def split: option.splits sum.splits exn.splits)
  then show ?case using Suc invalidate_marked [of ch h why] by simp
qed simp

text \<open>One round of the loop that ends in \<^verbatim>\<open>continue\<close>.\<close>

definition blamed :: "crypto \<Rightarrow> chain_params \<Rightarrow> blockchain \<Rightarrow> (bytes \<times> string) option" where
  "blamed c p ch =
     (case best_candidate ch of
        None \<Rightarrow> None
      | Some cand \<Rightarrow>
          (case switch_to c p cand ch of Inl (ConnectError h why) \<Rightarrow> Some (h, why) | _ \<Rightarrow> None))"

lemma stuck_after_blame:
  assumes "blamed c p ch = Some (h, why)" "stuck c p (invalidate h why ch)"
  shows "fst (activate_best_chain n c p r ch) = Inl Nonterminating"
proof (cases n)
  case (Suc m)
  obtain cand where "best_candidate ch = Some cand" "switch_to c p cand ch = Inl (ConnectError h why)"
    using assms(1) by (auto simp: blamed_def split: option.splits sum.splits exn.splits)
  then show ?thesis using Suc stuck_forever [OF assms(2)] by simp
qed simp

text \<open>The fuel reaches \<open>add_block\<close> only through \<open>store_block\<close>.\<close>

definition uniform :: "crypto \<Rightarrow> chain_params \<Rightarrow> block \<Rightarrow> blockchain \<Rightarrow> (nat \<Rightarrow> add_block_result result \<times> blockchain) \<Rightarrow> bool" where
  "uniform c p b ch f \<longleftrightarrow> (\<forall>n. f n = f 0) \<or> (\<exists>parent. \<forall>n. f n = store_block n c p b parent ch)"

lemma uniform_intros:
  "uniform c p b ch (\<lambda>n. x)" "uniform c p b ch (\<lambda>n. store_block n c p b parent ch)"
  "uniform c p b ch f \<Longrightarrow> uniform c p b ch g \<Longrightarrow> uniform c p b ch (\<lambda>n. if d then f n else g n)"
  "uniform c p b ch f \<Longrightarrow> (\<And>x. uniform c p b ch (h x)) \<Longrightarrow> uniform c p b ch (\<lambda>n. case r of None \<Rightarrow> f n | Some x \<Rightarrow> h x n)"
  "(\<And>e. uniform c p b ch (k e)) \<Longrightarrow> (\<And>x. uniform c p b ch (h x)) \<Longrightarrow> uniform c p b ch (\<lambda>n. case s of Inl e \<Rightarrow> k e n | Inr x \<Rightarrow> h x n)"
  by (auto simp: uniform_def split: option.split sum.split)

lemma add_block_uniform: "uniform c p b ch (\<lambda>n. add_block n c p now b ch)"
  unfolding add_block_def Let_def by (intro uniform_intros)

lemma add_block_fuel:
  assumes "add_block 0 c p now b ch = (Inl Nonterminating, ch0)"
    and "\<And>n. fst (activate_best_chain n c p False ch0) = Inl Nonterminating"
  shows "fst (add_block n c p now b ch) = Inl Nonterminating"
proof (cases "\<exists>parent. \<forall>n. add_block n c p now b ch = store_block n c p b parent ch")
  case True
  then obtain parent where eq: "store_block 0 c p b parent ch = (Inl Nonterminating, ch0)"
      "add_block n c p now b ch = store_block n c p b parent ch"
    using assms(1) by metis
  show ?thesis
  proof (cases "bnd (block_work (bh_bits (bk_header b))) (\<lambda>work.
      put_block c b (be_height parent + 1) (be_chainwork parent + work) False (bc_storage ch))")
    case (Inr es)
    then have "ch0 = ch\<lparr>bc_storage := snd es\<rparr>"
      using eq(1) by (cases es) (simp add: store_block_def Let_def)
    then show ?thesis
      using Inr eq(2) assms(2) [of n] by (cases es) (auto simp: store_block_def Let_def split: prod.splits)
  qed (use eq in \<open>simp add: store_block_def Let_def\<close>)
next
  case False
  then have "add_block n c p now b ch = add_block 0 c p now b ch"
    using add_block_uniform [of c p b ch now] unfolding uniform_def by blast
  then show ?thesis using assms(1) by simp
qed

text \<open>
  A chain of three blocks whose first one is pruned, next to a branch of equal length, and the block that makes
  the branch the better one.
\<close>

fun demo_branch :: "int \<Rightarrow> bytes \<Rightarrow> int list \<Rightarrow> blockchain \<Rightarrow> blockchain result" where
  "demo_branch height prev [] ch = Inr ch"
| "demo_branch height prev (nonce # ns) ch = bnd (demo_mine height prev nonce) (\<lambda>b.
     bnd (demo_add b ch) (\<lambda>(_, ch). demo_branch (height + 1) (block_hash tail_crypto b) ns ch))"

definition demo_pruned :: "(block \<times> blockchain) result" where
  "demo_pruned =
     bnd (genesis_hash tail_crypto REGTEST) (\<lambda>g.
     bnd (open_chain tail_crypto REGTEST empty_storage) (\<lambda>ch.
     bnd (demo_branch 1 g [9, 10, 11] ch) (\<lambda>ch.
     bnd (demo_branch 1 g [12, 13, 14] (snd (prune tail_crypto REGTEST 0 ch))) (\<lambda>ch.
     bnd (demo_mine 4 (tail_digest (to_le 4 14)) 15) (\<lambda>b. Inr (b, ch))))))"

definition hangs :: "block \<Rightarrow> blockchain \<Rightarrow> bool" where
  "hangs b ch =
     (case add_block 0 tail_crypto REGTEST 1700000100 b ch of
        (Inl Nonterminating, ch0) \<Rightarrow>
          (case blamed tail_crypto REGTEST ch0 of
             None \<Rightarrow> False
           | Some (h, why) \<Rightarrow> stuck tail_crypto REGTEST (invalidate h why ch0))
      | _ \<Rightarrow> False)"

lemma demo_pruned_eval: "map_sum id (\<lambda>(b, ch). (be_height (bc_tip ch), hangs b ch)) demo_pruned = Inr (3, True)"
  by code_simp

lemma demo_mine_ok:
  assumes "demo_mine height prev nonce = Inr b"
  shows "block_ok b"
proof -
  obtain t where "build_coinbase height 5000000000 (replicate 20 1) (to_le 4 nonce) 0 = Inr t"
      "block_create tail_crypto 0 prev [t] 0x207FFFFF (Some (1700000002 + 10 * height)) 1 nonce None = Inr b"
    using assms by (auto simp: demo_mine_def bnd_eq_Inr)
  then show ?thesis
    using built_coinbase(1) [of height 5000000000 "replicate 20 1" "to_le 4 nonce" 0 t]
    by (auto simp: block_create_def bnd_eq_Inr mk_block_header_iff block_ok_def fits_def)
qed

lemma demo_branch_reachable:
  "reachable tail_crypto REGTEST UNIV ch \<Longrightarrow> demo_branch height prev ns ch = Inr ch' \<Longrightarrow>
   reachable tail_crypto REGTEST UNIV ch'"
proof (induction ns arbitrary: height prev ch)
  case (Cons nonce ns)
  then obtain b r ch1 where b: "demo_mine height prev nonce = Inr b" and add: "demo_add b ch = Inr (r, ch1)"
    and rest: "demo_branch (height + 1) (block_hash tail_crypto b) ns ch1 = Inr ch'"
    by (auto simp: bnd_eq_Inr)
  have "reachable tail_crypto REGTEST UNIV ch1"
    using reachable.block [OF Cons.prems(1) demo_mine_ok [OF b] _ add [unfolded demo_add_Inr]] by simp
  then show ?case using Cons.IH rest by blast
qed simp

text \<open>
  C9. A pruned node can be made to hang. There is a run of a pruning node on the regression-test network after
  which handing it one more valid block never returns: the reorganisation needs the body of a pruned block, the
  failure is blamed on that block of the active chain, and the same candidate is tried again, forever.
\<close>
theorem pruned_reorg_hangs:
  "\<exists>b ch. demo_pruned = Inr (b, ch) \<and> reachable tail_crypto REGTEST UNIV ch \<and> block_ok b \<and>
     (\<forall>fuel. fst (add_block fuel tail_crypto REGTEST 1700000100 b ch) = Inl Nonterminating)"
proof -
  obtain b ch where run: "demo_pruned = Inr (b, ch)" and hang: "hangs b ch"
    using map_sum_Inr [OF demo_pruned_eval] by fast
  obtain g ch1 ch2 where "open_chain tail_crypto REGTEST empty_storage = Inr ch1"
    and steps: "demo_branch 1 g [9, 10, 11] ch1 = Inr ch2"
      "demo_branch 1 g [12, 13, 14] (snd (prune tail_crypto REGTEST 0 ch2)) = Inr ch"
      "demo_mine 4 (tail_digest (to_le 4 14)) 15 = Inr b"
    using run unfolding demo_pruned_def by (auto simp: bnd_eq_Inr simp del: demo_branch.simps)
  then have "reachable tail_crypto REGTEST UNIV ch1" using reachable.opened by blast
  then have "reachable tail_crypto REGTEST UNIV ch2" by (rule demo_branch_reachable [OF _ steps(1)])
  then have "reachable tail_crypto REGTEST UNIV (snd (prune tail_crypto REGTEST 0 ch2))"
    by (rule reachable.pruned) (rule surjective_pairing)
  then have "reachable tail_crypto REGTEST UNIV ch" by (rule demo_branch_reachable [OF _ steps(2)])
  moreover obtain ch0 h why where zero: "add_block 0 tail_crypto REGTEST 1700000100 b ch = (Inl Nonterminating, ch0)"
      "blamed tail_crypto REGTEST ch0 = Some (h, why)" "stuck tail_crypto REGTEST (invalidate h why ch0)"
    using hang by (auto simp: hangs_def split: prod.splits sum.splits exn.splits option.splits)
  have "fst (add_block fuel tail_crypto REGTEST 1700000100 b ch) = Inl Nonterminating" for fuel
    by (rule add_block_fuel [OF zero(1) stuck_after_blame [OF zero(2,3)]])
  ultimately show ?thesis using run demo_mine_ok [OF steps(3)] by blast
qed

section \<open>Witness\<close>

lemma no_invalid: "bc_invalid ch = [] \<Longrightarrow> length (st_blocks (bc_storage ch)) < 5000 \<Longrightarrow> invalid_closed ch \<and> cache_suffices ch"
proof -
  assume a: "bc_invalid ch = []" "length (st_blocks (bc_storage ch)) < 5000"
  have "card (fst ` set (st_blocks (bc_storage ch))) \<le> length (st_blocks (bc_storage ch))"
    by (metis card_length length_map list.set_map)
  then show ?thesis
    using a by (simp add: invalid_closed_def is_invalid_def cache_suffices_def known_hashes_def MAX_REMEMBERED_INVALID_def)
qed

lemma all_bodies: "list_all (\<lambda>(h, r). br_body r \<noteq> None) (st_blocks s) \<Longrightarrow> unpruned s"
  by (fastforce simp: unpruned_def get_entry_def get_block_def list_all_iff dest: map_of_SomeD)

theorem activation_terminates_witness:
  "\<exists>bs b ch r ch' r0 ch0. demo_run = Inr (bs, ch, r, ch') \<and>
     add_block 0 tail_crypto REGTEST 1700000100 b ch = (r0, ch0) \<and>
     map_option be_height (best_candidate ch0) = Some 2 \<and>
     raises_plain (fst (activate_best_chain 9 tail_crypto REGTEST False ch0))"
proof -
  obtain bs b ch r ch' where run: "demo_run = Inr (bs, ch, r, ch')" "reachable tail_crypto REGTEST (demo_txs bs) ch"
      "block_ok b" "set (bk_transactions b) \<subseteq> demo_txs bs" "\<not> colliding tail_crypto (body_bytes ` demo_txs bs)"
      "before_switch b ch = ([], 4, True, Some 2)"
    by (rule demo_run_reaches)
  obtain r0 ch0 where zero: "add_block 0 tail_crypto REGTEST 1700000100 b ch = (r0, ch0)" by fastforce
  have facts: "bc_invalid ch0 = []" "length (st_blocks (bc_storage ch0)) = 4" "unpruned (bc_storage ch0)"
      "map_option be_height (best_candidate ch0) = Some 2"
    using run(6) zero all_bodies by (auto simp: before_switch_def)
  have "chain_ok tail_crypto REGTEST (demo_txs bs) ch0"
    using add_block_ok [OF reachable_ok [OF run(2) _ _ run(5)] _ _ run(5,3,4) zero] by simp
  then have "raises_plain (fst (activate_best_chain 9 tail_crypto REGTEST False ch0))"
    using activation_terminates [of tail_crypto REGTEST "demo_txs bs" ch0 9 False] run(5) facts no_invalid [of ch0]
      networks_ok(3) by simp
  then show ?thesis using run(1) zero facts(4) by blast
qed

end
