(* ===== verification/Base58.thy ===== *)
theory Base58
  imports Pow Hashing
begin

text \<open>
  \<^verbatim>\<open>crypto/base58.py\<close>: Base58 and Base58Check. Text is a \<open>string\<close>. Both directions convert between
  positional numerals that keep their leading zeros, bytes on one side and letters on the other, so the
  proofs are about \<open>numeral_be\<close>: a list of digits is its number of leading zeros and its value.
\<close>

section \<open>Positional numerals\<close>

text \<open>Least significant digit first, without trailing zeros.\<close>

function digits :: "int \<Rightarrow> int \<Rightarrow> int list" where
  "digits B n = (if B \<le> 1 \<or> n \<le> 0 then [] else n mod B # digits B (n div B))"
  by auto
termination
  by (relation "measure (\<lambda>(B, n). nat n)") (auto intro: int_div_less_self simp: nat_mono_iff)

declare digits.simps [simp del]

fun digit_value :: "int \<Rightarrow> int list \<Rightarrow> int" where
  "digit_value B [] = 0"
| "digit_value B (d # ds) = d + B * digit_value B ds"

definition digits_ok :: "int \<Rightarrow> int list \<Rightarrow> bool" where
  "digits_ok B ds \<longleftrightarrow> list_all (\<lambda>d. 0 \<le> d \<and> d < B) ds"

lemma digits_ok_simps [simp]:
  "digits_ok B []" "digits_ok B (d # ds) \<longleftrightarrow> 0 \<le> d \<and> d < B \<and> digits_ok B ds"
  "digits_ok B (ds @ es) \<longleftrightarrow> digits_ok B ds \<and> digits_ok B es" "digits_ok B (rev ds) \<longleftrightarrow> digits_ok B ds"
  by (auto simp: digits_ok_def list_all_iff)

lemma digits_ok_digits [simp]: "digits_ok B (digits B n)"
  by (induction B n rule: digits.induct) (simp add: digits.simps)

lemma digit_value_nonneg: "0 \<le> B \<Longrightarrow> digits_ok B ds \<Longrightarrow> 0 \<le> digit_value B ds"
  by (induction ds) simp_all

lemma digit_value_digits: "1 < B \<Longrightarrow> 0 \<le> n \<Longrightarrow> digit_value B (digits B n) = n"
proof (induction B n rule: digits.induct)
  case (1 B n)
  then show ?case by (subst digits.simps) (auto simp: pos_imp_zdiv_nonneg_iff)
qed

lemma digit_value_zeros: "digit_value B (ds @ replicate z 0) = digit_value B ds"
  by (induction ds) (simp_all, induction z, simp_all)

lemma digit_value_pos: "1 < B \<Longrightarrow> digits_ok B ds \<Longrightarrow> ds \<noteq> [] \<Longrightarrow> last ds \<noteq> 0 \<Longrightarrow> 0 < digit_value B ds"
proof (induction ds)
  case (Cons d ds)
  then show ?case
    by (cases "ds = []") (auto simp: add_nonneg_pos)
qed simp

lemma digits_digit_value:
  "1 < B \<Longrightarrow> digits_ok B ds \<Longrightarrow> ds = [] \<or> last ds \<noteq> 0 \<Longrightarrow> digits B (digit_value B ds) = ds"
proof (induction ds)
  case (Cons d ds)
  have "digits B (digit_value B ds) = ds" using Cons by (auto split: if_splits)
  moreover have "0 < digit_value B (d # ds)" using digit_value_pos [of B "d # ds"] Cons.prems by simp
  ultimately show ?case using Cons.prems by (subst digits.simps) simp
qed (simp add: digits.simps)

lemma last_digits: "digits B n \<noteq> [] \<Longrightarrow> last (digits B n) \<noteq> 0"
proof (induction B n rule: digits.induct)
  case (1 B n)
  then have big: "\<not> (B \<le> 1 \<or> n \<le> 0)" by (auto simp: digits.simps)
  show ?case
  proof (cases "digits B (n div B) = []")
    case True
    then have "n div B \<le> 0" using big by (subst (asm) digits.simps) (auto split: if_splits)
    then have "n < B" using big pos_imp_zdiv_pos_iff [of B n] by simp
    then show ?thesis using big True by (subst digits.simps) simp
  next
    case False
    then show ?thesis using big 1 by (subst digits.simps) simp
  qed
qed

text \<open>Most significant digit first, with \<open>z\<close> leading zeros.\<close>

definition numeral_be :: "int \<Rightarrow> nat \<Rightarrow> int \<Rightarrow> int list" where
  "numeral_be B z n = replicate z 0 @ rev (digits B n)"

definition zeros_of :: "int list \<Rightarrow> nat" where
  "zeros_of ds = length (takeWhile (\<lambda>d. d = 0) ds)"

lemma takeWhile_zeros: "takeWhile (\<lambda>d. d = 0) ds = replicate (zeros_of ds) 0"
  unfolding zeros_of_def by (rule replicate_eqI) (auto dest: set_takeWhileD)

lemma numeral_be_split:
  assumes "1 < B" "digits_ok B ds"
  shows "numeral_be B (zeros_of ds) (digit_value B (rev ds)) = ds"
proof -
  let ?es = "dropWhile (\<lambda>d. d = 0) ds"
  have ds: "ds = replicate (zeros_of ds) 0 @ ?es"
    using takeWhile_dropWhile_id [of "\<lambda>d. d = 0" ds] by (simp add: takeWhile_zeros)
  have es: "digits_ok B ?es" using assms(2) by (subst (asm) ds) simp
  have "?es \<noteq> [] \<Longrightarrow> hd ?es \<noteq> 0" using hd_dropWhile by fast
  then have "digits B (digit_value B (rev ?es)) = rev ?es"
    using assms(1) es by (intro digits_digit_value) (auto simp: last_rev)
  moreover have "digit_value B (rev ds) = digit_value B (rev ?es)"
    by (subst ds) (simp add: digit_value_zeros)
  ultimately show ?thesis using ds by (simp add: numeral_be_def)
qed

lemma numeral_be_parts:
  assumes "1 < B" "0 \<le> n"
  shows "zeros_of (numeral_be B z n) = z" "digit_value B (rev (numeral_be B z n)) = n" "digits_ok B (numeral_be B z n)"
proof -
  have "takeWhile (\<lambda>d. d = 0) (rev (digits B n)) = []"
    using last_digits [of B n] by (cases "rev (digits B n)") (auto simp: last_rev dest: sym)
  then show "zeros_of (numeral_be B z n) = z"
    by (simp add: zeros_of_def numeral_be_def takeWhile_append)
  show "digit_value B (rev (numeral_be B z n)) = n"
    using assms by (simp add: numeral_be_def digit_value_zeros digit_value_digits)
  show "digits_ok B (numeral_be B z n)"
    using assms by (simp add: numeral_be_def) (simp add: digits_ok_def list_all_iff)
qed

section \<open>Base58\<close>

definition ALPHABET :: string where
  "ALPHABET = ''123456789ABCDEFGHJKLMNPQRSTUVWXYZabcdefghijkmnopqrstuvwxyz''"

definition b58_index :: "char \<Rightarrow> int option" where
  "b58_index = map_of (zip ALPHABET (map int [0..<length ALPHABET]))"

definition CHECKSUM_LENGTH :: nat where
  "CHECKSUM_LENGTH = 4"

text \<open>The loop of \<^verbatim>\<open>b58encode\<close>: the list \<^verbatim>\<open>digits\<close> in the order it grows.\<close>

function b58_letters :: "int \<Rightarrow> string" where
  "b58_letters number = (if number > 0 then ALPHABET ! nat (number mod 58) # b58_letters (number div 58) else [])"
  by auto
termination
  by (relation "measure nat") (auto intro: int_div_less_self simp: nat_mono_iff)

declare b58_letters.simps [simp del]

definition b58encode :: "bytes \<Rightarrow> string" where
  "b58encode data =
     (let leading_zeros = length data - length (dropWhile (\<lambda>b. b = 0) data)
      in replicate leading_zeros (ALPHABET ! 0) @ rev (b58_letters (from_be data)))"

fun b58_number :: "string \<Rightarrow> int \<Rightarrow> int result" where
  "b58_number [] number = Inr number"
| "b58_number (ch # text) number =
     (case b58_index ch of
        None \<Rightarrow> Inl (Base58Error ''invalid Base58 character'')
      | Some d \<Rightarrow> b58_number text (number * 58 + d))"

definition b58decode :: "string \<Rightarrow> bytes result" where
  "b58decode text =
     (if text = [] then Inr []
      else bnd (b58_number text 0) (\<lambda>number.
        let leading_zeros = length text - length (dropWhile (\<lambda>ch. ch = ALPHABET ! 0) text);
            body = (if number \<noteq> 0 then to_be ((bit_length number + 7) div 8) number else [])
        in Inr (replicate leading_zeros 0 @ body)))"

definition b58check_encode :: "crypto \<Rightarrow> int \<Rightarrow> bytes \<Rightarrow> string result" where
  "b58check_encode c version payload =
     (if \<not> (0 \<le> version \<and> version \<le> 0xFF) then Inl (Base58Error ''version byte out of range'')
      else let body = word_of_int version # payload
           in Inr (b58encode (body @ take CHECKSUM_LENGTH (hash256 c body))))"

definition b58check_decode :: "crypto \<Rightarrow> string \<Rightarrow> int option \<Rightarrow> (int \<times> bytes) result" where
  "b58check_decode c text expected_version =
     bnd (b58decode text) (\<lambda>raw.
     if length raw < 1 + CHECKSUM_LENGTH then Inl (Base58Error ''Base58Check string is too short'')
     else
       let body = take (length raw - CHECKSUM_LENGTH) raw; checksum = drop (length raw - CHECKSUM_LENGTH) raw
       in if take CHECKSUM_LENGTH (hash256 c body) \<noteq> checksum
          then Inl (Base58Error ''bad checksum: the string was mistyped or corrupted'')
          else
            let version = uint (hd body); payload = tl body
            in if expected_version \<noteq> None \<and> expected_version \<noteq> Some version
               then Inl (Base58Error ''unexpected version byte'')
               else Inr (version, payload))"

section \<open>Letters and bytes as digits\<close>

lemma length_ALPHABET: "length ALPHABET = 58" and distinct_ALPHABET: "distinct ALPHABET"
  by (simp_all add: ALPHABET_def)

lemma b58_index_iff: "b58_index ch = Some d \<longleftrightarrow> 0 \<le> d \<and> d < 58 \<and> ch = ALPHABET ! nat d"
proof -
  have "b58_index ch = Some d \<longleftrightarrow> (ch, d) \<in> set (zip ALPHABET (map int [0..<58]))"
    unfolding b58_index_def length_ALPHABET
    by (intro map_of_eq_Some_iff) (simp add: distinct_ALPHABET length_ALPHABET)
  also have "\<dots> \<longleftrightarrow> (\<exists>i<58. ch = ALPHABET ! i \<and> d = int i)"
    by (auto simp: set_zip length_ALPHABET)
  also have "\<dots> \<longleftrightarrow> 0 \<le> d \<and> d < 58 \<and> ch = ALPHABET ! nat d"
    by (auto intro: exI [of _ "nat d"])
  finally show ?thesis .
qed

definition b58_letter :: "int \<Rightarrow> char" where
  "b58_letter d = ALPHABET ! nat d"

lemma b58_letter_zero: "0 \<le> d \<Longrightarrow> d < 58 \<Longrightarrow> b58_letter d = ALPHABET ! 0 \<longleftrightarrow> d = 0"
  using nth_eq_iff_index_eq [OF distinct_ALPHABET, of "nat d" 0] by (auto simp: b58_letter_def length_ALPHABET)

lemma b58_letters_digits: "b58_letters n = map b58_letter (digits 58 n)"
proof (induction n rule: b58_letters.induct)
  case (1 n)
  then show ?case by (subst b58_letters.simps, subst digits.simps) (simp add: b58_letter_def)
qed

lemma b58_number_iff:
  "b58_number s n = Inr m \<longleftrightarrow>
     (\<exists>ds. digits_ok 58 ds \<and> s = map b58_letter ds \<and> m = n * 58 ^ length ds + digit_value 58 (rev ds))"
proof (induction s arbitrary: n)
  case (Cons ch s)
  have split: "digit_value 58 (es @ [d]) = digit_value 58 es + 58 ^ length es * d" for es d
    by (induction es) (simp_all add: algebra_simps)
  show ?case (is "?l \<longleftrightarrow> ?r")
  proof
    assume ?l
    then obtain d where d: "b58_index ch = Some d" "b58_number s (n * 58 + d) = Inr m"
      by (auto split: option.splits)
    then obtain ds where "digits_ok 58 ds" "s = map b58_letter ds"
        "m = (n * 58 + d) * 58 ^ length ds + digit_value 58 (rev ds)"
      using Cons.IH by blast
    then show ?r using d(1) by (intro exI [of _ "d # ds"]) (auto simp: b58_index_iff b58_letter_def split algebra_simps)
  next
    assume ?r
    then obtain d ds where ds: "digits_ok 58 (d # ds)" "ch = b58_letter d" "s = map b58_letter ds"
        "m = n * 58 ^ length (d # ds) + digit_value 58 (rev (d # ds))"
      by (auto simp: Cons_eq_map_conv)
    then have "b58_index ch = Some d" by (simp add: b58_index_iff b58_letter_def)
    moreover have "b58_number s (n * 58 + d) = Inr m"
      unfolding Cons.IH using ds by (intro exI [of _ ds]) (simp add: split algebra_simps)
    ultimately show ?l by simp
  qed
qed auto

lemma from_be_digits: "from_be bs = digit_value 256 (rev (map uint bs))"
proof -
  have "from_le bs = digit_value 256 (map uint bs)" for bs by (induction bs) simp_all
  then show ?thesis by (simp add: from_be_def rev_map)
qed

lemma digits_ok_bytes: "digits_ok 256 (map uint (bs :: bytes))"
  using uint_byte_bounds by (simp add: digits_ok_def list_all_iff)

lemma bit_length_shift: "2 ^ k \<le> n \<Longrightarrow> bit_length n = bit_length (n div 2 ^ k) + k"
proof (induction k)
  case (Suc k)
  have "(2::int) ^ k \<le> 2 ^ Suc k" by simp
  then have "bit_length n = bit_length (n div 2 ^ k) + k" using Suc by linarith
  moreover have "2 \<le> n div 2 ^ k" using zdiv_mono1 [OF Suc.prems, of "2 ^ k"] by simp
  then have "bit_length (n div 2 ^ k) = Suc (bit_length (n div 2 ^ k div 2))"
    by (subst bit_length.simps) simp
  ultimately show ?case by (simp add: zdiv_zmult2_eq [symmetric] mult.commute)
qed simp

lemma bit_length_step: "256 \<le> n \<Longrightarrow> bit_length n = bit_length (n div 256) + 8"
  using bit_length_shift [of 8 n] by simp

lemma to_le_digits: "0 \<le> n \<Longrightarrow> to_le ((bit_length n + 7) div 8) n = map word_of_int (digits 256 n)"
proof (induction "256 :: int" n rule: digits.induct)
  case (1 n)
  show ?case
  proof (cases "n = 0")
    case True
    then show ?thesis by (simp add: bit_length.simps digits.simps)
  next
    case False
    then have pos: "0 < n" using 1 by simp
    have len: "(bit_length n + 7) div 8 = Suc ((bit_length (n div 256) + 7) div 8)"
    proof (cases "n < 256")
      case True
      have "1 \<le> bit_length n" "2 ^ (bit_length n - 1) \<le> n" using bit_length_bounds [OF pos] by auto
      moreover have "bit_length n \<le> 8"
      proof (rule ccontr)
        assume "\<not> bit_length n \<le> 8"
        then have "(2::int) ^ 8 \<le> 2 ^ (bit_length n - 1)" by (intro power_increasing) auto
        then show False using calculation True by simp
      qed
      ultimately show ?thesis using True pos by (simp add: bit_length.simps [of 0])
    next
      case False
      then show ?thesis using bit_length_step [of n] by simp
    qed
    have "to_le ((bit_length (n div 256) + 7) div 8) (n div 256) = map word_of_int (digits 256 (n div 256))"
      using 1 pos by (simp add: pos_imp_zdiv_nonneg_iff)
    then show ?thesis using pos unfolding len by (subst digits.simps) (simp add: to_le.simps(2))
  qed
qed

section \<open>The two directions\<close>

lemma length_lstrip: "length xs - length (dropWhile P xs) = length (takeWhile P xs)"
proof -
  have "length (takeWhile P xs) + length (dropWhile P xs) = length xs"
    by (metis length_append takeWhile_dropWhile_id)
  then show ?thesis by simp
qed

lemma zeros_of_bytes: "zeros_of (map uint (bs :: bytes)) = length (takeWhile (\<lambda>b. b = 0) bs)"
  by (simp add: zeros_of_def takeWhile_map comp_def uint_0_iff)

lemma zeros_of_letters:
  "digits_ok 58 ds \<Longrightarrow> length (takeWhile (\<lambda>ch. ch = ALPHABET ! 0) (map b58_letter ds)) = zeros_of ds"
  by (induction ds) (simp_all add: zeros_of_def b58_letter_zero)

lemma from_be_nonneg: "0 \<le> from_be bs"
  by (simp add: from_be_def)

lemma b58encode_numeral: "b58encode d = map b58_letter (numeral_be 58 (zeros_of (map uint d)) (from_be d))"
  by (simp add: b58encode_def length_lstrip zeros_of_bytes numeral_be_def b58_letters_digits rev_map b58_letter_def)

lemma b58decode_numeral:
  "b58decode s = Inr d \<longleftrightarrow> (\<exists>z n. 0 \<le> n \<and> s = map b58_letter (numeral_be 58 z n) \<and> d = map word_of_int (numeral_be 256 z n))"
proof
  assume l: "b58decode s = Inr d"
  show "\<exists>z n. 0 \<le> n \<and> s = map b58_letter (numeral_be 58 z n) \<and> d = map word_of_int (numeral_be 256 z n)"
  proof (cases "s = []")
    case True
    then have "d = []" using l by (simp add: b58decode_def)
    then show ?thesis using True by (intro exI [of _ 0]) (simp add: numeral_be_def digits.simps)
  next
    case False
    then obtain n where n: "b58_number s 0 = Inr n"
        "d = replicate (length s - length (dropWhile (\<lambda>ch. ch = ALPHABET ! 0) s)) 0 @
          (if n \<noteq> 0 then to_be ((bit_length n + 7) div 8) n else [])"
      using l by (auto simp: b58decode_def bnd_eq_Inr Let_def)
    then obtain ds where ds: "digits_ok 58 ds" "s = map b58_letter ds" "n = digit_value 58 (rev ds)"
      unfolding b58_number_iff by auto
    have nonneg: "0 \<le> n" using ds by (simp add: digit_value_nonneg)
    have "(if n \<noteq> 0 then to_be ((bit_length n + 7) div 8) n else []) = map word_of_int (rev (digits 256 n))"
      using to_le_digits [OF nonneg] by (simp add: to_be_def rev_map digits.simps [of 256 0])
    then have "d = map word_of_int (numeral_be 256 (zeros_of ds) n)"
      unfolding n(2) length_lstrip ds(2) zeros_of_letters [OF ds(1)] by (simp add: numeral_be_def)
    moreover have "s = map b58_letter (numeral_be 58 (zeros_of ds) n)"
      unfolding ds(2,3) using ds(1) by (simp add: numeral_be_split)
    ultimately show ?thesis using nonneg by blast
  qed
next
  assume "\<exists>z n. 0 \<le> n \<and> s = map b58_letter (numeral_be 58 z n) \<and> d = map word_of_int (numeral_be 256 z n)"
  then obtain z n where zn: "0 \<le> n" "s = map b58_letter (numeral_be 58 z n)" "d = map word_of_int (numeral_be 256 z n)" by blast
  note parts = numeral_be_parts [of 58 n z] and zn(1)
  have num: "b58_number s 0 = Inr n"
    unfolding b58_number_iff using parts zn(1,2) by (intro exI [of _ "numeral_be 58 z n"]) simp
  have lead: "length s - length (dropWhile (\<lambda>ch. ch = ALPHABET ! 0) s) = z"
    unfolding length_lstrip zn(2) using parts zn(1) by (simp add: zeros_of_letters)
  have body: "(if n \<noteq> 0 then to_be ((bit_length n + 7) div 8) n else []) = map word_of_int (rev (digits 256 n))"
    using to_le_digits [OF zn(1)] by (simp add: to_be_def rev_map digits.simps [of 256 0])
  show "b58decode s = Inr d"
  proof (cases "s = []")
    case True
    then have "z = 0" "digits 58 n = []" using zn(2) by (auto simp: numeral_be_def)
    then have "n = 0" using zn(1) digit_value_digits [of 58 n] by simp
    then show ?thesis using True zn(3) \<open>z = 0\<close> by (simp add: b58decode_def numeral_be_def digits.simps)
  next
    case False
    then show ?thesis using num lead body zn(3) by (simp add: b58decode_def Let_def numeral_be_def del: dropWhile_eq_Nil_conv)
  qed
qed

lemma b58decode_iff: "b58decode s = Inr d \<longleftrightarrow> s = b58encode d"
proof
  assume "s = b58encode d"
  moreover have "map word_of_int (numeral_be 256 (zeros_of (map uint d)) (from_be d)) = d"
    unfolding from_be_digits by (simp add: numeral_be_split digits_ok_bytes comp_def)
  ultimately show "b58decode s = Inr d"
    unfolding b58decode_numeral b58encode_numeral using from_be_nonneg by metis
next
  assume "b58decode s = Inr d"
  then obtain z n where zn: "0 \<le> n" "s = map b58_letter (numeral_be 58 z n)" "d = map word_of_int (numeral_be 256 z n)"
    unfolding b58decode_numeral by blast
  have "map uint (map word_of_int ds :: bytes) = ds" if "digits_ok 256 ds" for ds
    using that by (induction ds) (simp_all add: uint_word_of_int)
  then have "map uint d = numeral_be 256 z n" using zn numeral_be_parts(3) [of 256 n z] by simp
  then show "s = b58encode d"
    unfolding b58encode_numeral from_be_digits using zn numeral_be_parts [of 256 n z] by simp
qed

text \<open>Base58Check: the decoder accepts exactly the encodings of a version and a payload.\<close>

lemma b58check_decode_iff:
  assumes "crypto_ok c"
  shows "b58check_decode c s expected = Inr (v, payload) \<longleftrightarrow>
    b58check_encode c v payload = Inr s \<and> (expected = None \<or> expected = Some v)"
proof
  assume l: "b58check_decode c s expected = Inr (v, payload)"
  then obtain raw where raw: "s = b58encode raw" "5 \<le> length raw" "v = uint (hd (take (length raw - 4) raw))"
      "payload = tl (take (length raw - 4) raw)" "drop (length raw - 4) raw = take 4 (hash256 c (take (length raw - 4) raw))"
      "expected = None \<or> expected = Some v"
    by (auto simp: b58check_decode_def bnd_eq_Inr guard_eq_Inr Let_def b58decode_iff CHECKSUM_LENGTH_def not_less)
  let ?body = "take (length raw - 4) raw"
  have "?body \<noteq> []" using raw(2) by auto
  then have body: "word_of_int v # payload = ?body" using raw(3,4) by (cases ?body) simp_all
  have "raw = ?body @ take 4 (hash256 c ?body)" by (metis append_take_drop_id raw(5))
  then have "b58check_encode c v payload = Inr s"
    unfolding raw(1) b58check_encode_def Let_def body CHECKSUM_LENGTH_def
    using uint_byte_bounds [of "hd ?body"] raw(3) by simp
  then show "b58check_encode c v payload = Inr s \<and> (expected = None \<or> expected = Some v)" using raw(6) by simp
next
  assume r: "b58check_encode c v payload = Inr s \<and> (expected = None \<or> expected = Some v)"
  then have v: "0 \<le> v" "v \<le> 255" and s: "s = b58encode ((word_of_int v # payload) @ take 4 (hash256 c (word_of_int v # payload)))"
    by (auto simp: b58check_encode_def guard_eq_Inr CHECKSUM_LENGTH_def Let_def)
  have len: "length (hash256 c (word_of_int v # payload)) = 32" using assms by simp
  have "uint (word_of_int v :: byte) = v" using v by (simp add: uint_word_of_int)
  then show "b58check_decode c s expected = Inr (v, payload)"
    using r s len by (auto simp: b58check_decode_def b58decode_iff [THEN iffD2] CHECKSUM_LENGTH_def Let_def)
qed

end
