(* ===== verification/Keys.thy ===== *)
theory Keys
  imports Base58
begin

text \<open>
  The rest of \<^verbatim>\<open>crypto/keys.py\<close>: addresses, private keys, their text formats, and signing.

  The operations on the curve that the \<^verbatim>\<open>cryptography\<close> package performs with a secret are the record
  argument \<open>sg\<close>: the compressed public point of a secret, and the pair \<open>(r, s)\<close> of a deterministic ECDSA
  signature. \<open>signer_ok\<close> is what is documented of them, together with the verifying side of \<open>crypto\<close>:
  the point is a valid compressed key, and both \<open>(r, s)\<close> and \<open>(r, n - s)\<close> verify under it.
\<close>

section \<open>Text\<close>

text \<open>\<^verbatim>\<open>str.isspace\<close> on the characters up to 255, and \<^verbatim>\<open>str.strip\<close>.\<close>

definition is_space :: "char \<Rightarrow> bool" where
  "is_space ch \<longleftrightarrow> (of_char ch :: int) \<in> {9, 10, 11, 12, 13, 28, 29, 30, 31, 32, 133, 160}"

definition strip :: "string \<Rightarrow> string" where
  "strip s = rev (dropWhile is_space (rev (dropWhile is_space s)))"

section \<open>Addresses\<close>

record address =
  ad_version :: int
  ad_hash :: bytes

definition mk_address :: "int \<Rightarrow> bytes \<Rightarrow> address result" where
  "mk_address version h =
     (if \<not> (0 \<le> version \<and> version \<le> 0xFF) then Inl (InvalidKeyError ''address version out of range'')
      else if length h \<noteq> PUBKEY_HASH_LENGTH then Inl (InvalidKeyError ''address hash must be 20 bytes'')
      else Inr \<lparr>ad_version = version, ad_hash = h\<rparr>)"

definition address_str :: "crypto \<Rightarrow> address \<Rightarrow> string result" where
  "address_str c a = b58check_encode c (ad_version a) (ad_hash a)"

text \<open>The clause \<^verbatim>\<open>except Base58Error\<close>.\<close>

definition as_key_error :: "string \<Rightarrow> 'a result \<Rightarrow> 'a result" where
  "as_key_error why r = (case r of Inl (Base58Error m) \<Rightarrow> Inl (InvalidKeyError (why @ m)) | _ \<Rightarrow> r)"

definition address_decode :: "crypto \<Rightarrow> string \<Rightarrow> int option \<Rightarrow> address result" where
  "address_decode c s expected_version =
     bnd (as_key_error ''invalid address: '' (b58check_decode c (strip s) expected_version)) (\<lambda>(version, payload).
     if length payload \<noteq> PUBKEY_HASH_LENGTH then Inl (InvalidKeyError ''invalid address: wrong payload length'')
     else mk_address version payload)"

definition address_is_valid :: "crypto \<Rightarrow> string \<Rightarrow> int option \<Rightarrow> bool result" where
  "address_is_valid c s expected_version =
     (case address_decode c s expected_version of
        Inl (InvalidKeyError _) \<Rightarrow> Inr False
      | Inl e \<Rightarrow> Inl e
      | Inr _ \<Rightarrow> Inr True)"

definition public_key_address :: "crypto \<Rightarrow> public_key \<Rightarrow> int \<Rightarrow> address result" where
  "public_key_address c k version = mk_address version (public_key_hash160 c k)"

section \<open>Private keys\<close>

definition PRIVATE_KEY_LENGTH :: nat where
  "PRIVATE_KEY_LENGTH = 32"

record signer =
  derive_public :: "int \<Rightarrow> bytes"
  ecdsa_sign :: "int \<Rightarrow> bytes \<Rightarrow> int \<times> int"

record private_key =
  sk_secret :: bytes

definition mk_private_key :: "bytes \<Rightarrow> private_key result" where
  "mk_private_key secret =
     (if length secret \<noteq> PRIVATE_KEY_LENGTH then Inl (InvalidKeyError ''private key must be 32 bytes'')
      else if \<not> (1 \<le> from_be secret \<and> from_be secret < CURVE_ORDER)
      then Inl (InvalidKeyError ''private key is out of the valid secp256k1 range'')
      else Inr \<lparr>sk_secret = secret\<rparr>)"

text \<open>\<^verbatim>\<open>PrivateKey.generate\<close>, given what \<^verbatim>\<open>os.urandom\<close> returns in its rounds.\<close>

fun generate_key :: "bytes list \<Rightarrow> private_key result" where
  "generate_key [] = Inl Nonterminating"
| "generate_key (candidate # rounds) =
     (if 1 \<le> from_be candidate \<and> from_be candidate < CURVE_ORDER then mk_private_key candidate
      else generate_key rounds)"

definition from_wif :: "crypto \<Rightarrow> string \<Rightarrow> int option \<Rightarrow> private_key result" where
  "from_wif c wif expected_version =
     bnd (as_key_error ''invalid private key: '' (b58check_decode c (strip wif) expected_version)) (\<lambda>(_, payload).
     let payload = (if length payload = PRIVATE_KEY_LENGTH + 1 \<and> last payload = 0x01 then butlast payload else payload)
     in if length payload \<noteq> PRIVATE_KEY_LENGTH then Inl (InvalidKeyError ''invalid private key: wrong payload length'')
        else mk_private_key payload)"

definition to_wif :: "crypto \<Rightarrow> private_key \<Rightarrow> int \<Rightarrow> string result" where
  "to_wif c k version = b58check_encode c version (sk_secret k @ [0x01])"

definition private_key_public_key :: "crypto \<Rightarrow> signer \<Rightarrow> private_key \<Rightarrow> public_key result" where
  "private_key_public_key c sg k = public_key_from_bytes c (derive_public sg (from_be (sk_secret k)))"

definition private_key_address :: "crypto \<Rightarrow> signer \<Rightarrow> private_key \<Rightarrow> int \<Rightarrow> address result" where
  "private_key_address c sg k version =
     bnd (private_key_public_key c sg k) (\<lambda>pk. public_key_address c pk version)"

definition private_key_sign :: "signer \<Rightarrow> private_key \<Rightarrow> bytes \<Rightarrow> bytes result" where
  "private_key_sign sg k digest =
     (if length digest \<noteq> 32 then Inl (ValueError ''expected a 32-byte digest'')
      else case ecdsa_sign sg (from_be (sk_secret k)) digest of (r, s) \<Rightarrow>
        let s = (if s > HALF_ORDER then CURVE_ORDER - s else s)
        in if fits 32 r \<and> fits 32 s then Inr (to_be 32 r @ to_be 32 s) else Inl OverflowError)"

section \<open>What is known of the signer\<close>

definition signer_ok :: "crypto \<Rightarrow> signer \<Rightarrow> bool" where
  "signer_ok c sg \<longleftrightarrow> (\<forall>x. 1 \<le> x \<and> x < CURVE_ORDER \<longrightarrow>
     length (derive_public sg x) = PUBLIC_KEY_LENGTH \<and> hd (derive_public sg x) \<in> {0x02, 0x03} \<and>
     on_curve c (derive_public sg x) \<and>
     (\<forall>d r s. length d = 32 \<and> ecdsa_sign sg x d = (r, s) \<longrightarrow>
        1 \<le> r \<and> r < CURVE_ORDER \<and> 1 \<le> s \<and> s < CURVE_ORDER \<and>
        ecdsa_verify c (derive_public sg x) r s d \<and> ecdsa_verify c (derive_public sg x) r (CURVE_ORDER - s) d))"

definition wf_private_key :: "private_key \<Rightarrow> bool" where
  "wf_private_key k \<longleftrightarrow> length (sk_secret k) = PRIVATE_KEY_LENGTH \<and> 1 \<le> from_be (sk_secret k) \<and>
     from_be (sk_secret k) < CURVE_ORDER"

lemma mk_private_key_iff [result_simps]: "mk_private_key b = Inr k \<longleftrightarrow> wf_private_key k \<and> k = \<lparr>sk_secret = b\<rparr>"
  by (auto simp: mk_private_key_def wf_private_key_def)

definition wf_address :: "address \<Rightarrow> bool" where
  "wf_address a \<longleftrightarrow> 0 \<le> ad_version a \<and> ad_version a \<le> 0xFF \<and> length (ad_hash a) = PUBKEY_HASH_LENGTH"

lemma mk_address_iff [result_simps]:
  "mk_address v h = Inr a \<longleftrightarrow> wf_address a \<and> a = \<lparr>ad_version = v, ad_hash = h\<rparr>"
  by (auto simp: mk_address_def wf_address_def)

lemma as_key_error_Inr [simp]: "as_key_error why r = Inr x \<longleftrightarrow> r = Inr x"
  by (auto simp: as_key_error_def split: sum.splits exn.splits)

lemma as_key_error_Inl:
  assumes "as_key_error why r = Inl e" "\<And>e. r = Inl e \<Longrightarrow> \<exists>m. e = Base58Error m"
  shows "\<exists>m. e = InvalidKeyError m"
proof (cases r)
  case (Inl e')
  then obtain m where "e' = Base58Error m" using assms(2) by blast
  then show ?thesis using assms(1) Inl by (auto simp: as_key_error_def)
next
  case (Inr x)
  then show ?thesis using assms(1) by (simp add: as_key_error_def)
qed

lemma signer_okD:
  assumes "signer_ok c sg" "wf_private_key k" "P = derive_public sg (from_be (sk_secret k))"
  shows "length P = PUBLIC_KEY_LENGTH" "hd P \<in> {0x02, 0x03}" "on_curve c P"
    and "length d = 32 \<Longrightarrow> ecdsa_sign sg (from_be (sk_secret k)) d = (r, s) \<Longrightarrow>
      1 \<le> r \<and> r < CURVE_ORDER \<and> 1 \<le> s \<and> s < CURVE_ORDER \<and> ecdsa_verify c P r s d \<and> ecdsa_verify c P r (CURVE_ORDER - s) d"
proof -
  have x: "1 \<le> from_be (sk_secret k)" "from_be (sk_secret k) < CURVE_ORDER"
    using assms(2) by (simp_all add: wf_private_key_def)
  note all = assms(1) [unfolded signer_ok_def, rule_format, OF conjI [OF x], folded assms(3)]
  show "length P = PUBLIC_KEY_LENGTH" "hd P \<in> {0x02, 0x03}" "on_curve c P" using all by blast+
  show "length d = 32 \<Longrightarrow> ecdsa_sign sg (from_be (sk_secret k)) d = (r, s) \<Longrightarrow>
      1 \<le> r \<and> r < CURVE_ORDER \<and> 1 \<le> s \<and> s < CURVE_ORDER \<and> ecdsa_verify c P r s d \<and> ecdsa_verify c P r (CURVE_ORDER - s) d"
    using all by blast
qed

text \<open>A key has a public key of the right form.\<close>

lemma public_key_exists:
  assumes "signer_ok c sg" "wf_private_key k"
  shows "private_key_public_key c sg k = Inr \<lparr>pk_data = derive_public sg (from_be (sk_secret k))\<rparr>"
  using signer_okD(1-3) [OF assms refl] by (simp only: private_key_public_key_def public_key_from_bytes_def) simp

lemma HALF_ORDER_bounds: "0 < CURVE_ORDER" "CURVE_ORDER < 256 ^ 32" "CURVE_ORDER - HALF_ORDER \<le> HALF_ORDER + 1"
  by (simp_all add: CURVE_ORDER_def HALF_ORDER_def)

text \<open>The canonical form of a signature verifies.\<close>

lemma sign_verifies:
  assumes "signer_ok c sg" "wf_private_key k" "length d = 32"
  shows "\<exists>sig. private_key_sign sg k d = Inr sig \<and> length sig = SIGNATURE_LENGTH \<and>
    public_key_verify c \<lparr>pk_data = derive_public sg (from_be (sk_secret k))\<rparr> d sig = Inr True"
proof -
  obtain r s where rs: "ecdsa_sign sg (from_be (sk_secret k)) d = (r, s)" by fastforce
  define s' where "s' = (if s > HALF_ORDER then CURVE_ORDER - s else s)"
  note all = signer_okD(4) [OF assms(1,2) refl assms(3) rs]
  then have ok: "1 \<le> r" "r < CURVE_ORDER" "1 \<le> s" "s < CURVE_ORDER" by blast+
  have ver: "ecdsa_verify c (derive_public sg (from_be (sk_secret k))) r s' d" using all by (simp add: s'_def)
  have s': "1 \<le> s'" "s' \<le> HALF_ORDER" using ok(3,4) HALF_ORDER_bounds by (auto simp: s'_def)
  have fit: "fits 32 r" "fits 32 s'"
    using ok s' HALF_ORDER_bounds by (auto simp: fits_def HALF_ORDER_def)
  have "from_be (take 32 (to_be 32 r @ to_be 32 s')) = r" "from_be (drop 32 (to_be 32 r @ to_be 32 s')) = s'"
    using fit by (simp_all add: from_be_def to_be_def)
  then have "public_key_verify c \<lparr>pk_data = derive_public sg (from_be (sk_secret k))\<rparr> d (to_be 32 r @ to_be 32 s') = Inr True"
    using ok ver s' assms(3) by (simp add: public_key_verify_def SIGNATURE_LENGTH_def Let_def)
  moreover have "private_key_sign sg k d = Inr (to_be 32 r @ to_be 32 s')"
    using rs assms(3) fit by (simp add: private_key_sign_def Let_def s'_def)
  ultimately show ?thesis by (simp add: SIGNATURE_LENGTH_def)
qed

section \<open>Properties\<close>

lemma b58check_decode_raises:
  assumes "b58check_decode c s expected = Inl e"
  shows "\<exists>m. e = Base58Error m"
proof -
  have num: "b58_number s n = Inl e \<Longrightarrow> \<exists>m. e = Base58Error m" for s n e
    by (induction s arbitrary: n) (auto split: option.splits)
  then have "b58decode s = Inl e \<Longrightarrow> \<exists>m. e = Base58Error m" for e
    by (auto simp: b58decode_def bnd_eq_Inl split: if_splits)
  then show ?thesis
    using assms by (auto simp: b58check_decode_def bnd_eq_Inl Let_def split: if_splits)
qed

lemma address_decode_iff:
  assumes "crypto_ok c"
  shows "address_decode c s expected = Inr a \<longleftrightarrow>
    wf_address a \<and> address_str c a = Inr (strip s) \<and> (expected = None \<or> expected = Some (ad_version a))"
  by (cases a) (auto simp: address_decode_def bnd_eq_Inr guard_eq_Inr b58check_decode_iff [OF assms] mk_address_iff
      address_str_def wf_address_def)

lemma address_decode_raises: "address_decode c s expected = Inl e \<Longrightarrow> \<exists>m. e = InvalidKeyError m"
  using as_key_error_Inl [of "''invalid address: ''" "b58check_decode c (strip s) expected" e, OF _ b58check_decode_raises]
  by (auto simp: address_decode_def bnd_eq_Inl mk_address_def split: if_splits)

text \<open>
  C39. An address has one text. A string decodes to an address exactly when, apart from white space around it, it is
  the text of that address, which is then well-formed (a version of one byte, a hash of 20), and of the expected
  version if one was given. \<^verbatim>\<open>is_valid\<close> never raises and tells whether there is such an address.
\<close>
theorem address_text:
  assumes "crypto_ok c"
  shows "(address_decode c s expected = Inr a \<longleftrightarrow>
       wf_address a \<and> address_str c a = Inr (strip s) \<and> (expected = None \<or> expected = Some (ad_version a))) \<and>
    address_is_valid c s expected = Inr (\<exists>a. wf_address a \<and> address_str c a = Inr (strip s) \<and>
       (expected = None \<or> expected = Some (ad_version a)))"
proof
  show "address_decode c s expected = Inr a \<longleftrightarrow>
      wf_address a \<and> address_str c a = Inr (strip s) \<and> (expected = None \<or> expected = Some (ad_version a))"
    by (rule address_decode_iff [OF assms])
  show "address_is_valid c s expected = Inr (\<exists>a. wf_address a \<and> address_str c a = Inr (strip s) \<and>
       (expected = None \<or> expected = Some (ad_version a)))"
  proof (cases "address_decode c s expected")
    case (Inl e)
    then obtain m where "e = InvalidKeyError m" using address_decode_raises by blast
    then have "address_is_valid c s expected = Inr False" by (simp add: address_is_valid_def Inl)
    moreover have "\<nexists>a. address_decode c s expected = Inr a" using Inl by simp
    ultimately show ?thesis by (simp only: address_decode_iff [OF assms])
  next
    case (Inr b)
    then have "address_is_valid c s expected = Inr True" by (simp add: address_is_valid_def)
    moreover have "\<exists>a. address_decode c s expected = Inr a" using Inr by simp
    ultimately show ?thesis by (simp only: address_decode_iff [OF assms])
  qed
qed

text \<open>
  Private keys come back from their export. A string imports as a key exactly when, apart from white space,
  it is the Base58Check text of the 32 bytes of a secret in range, with the marker byte of compressed keys, as
  \<^verbatim>\<open>to_wif\<close> writes it, or without.
\<close>
theorem wif_text:
  assumes "crypto_ok c"
  shows "from_wif c s expected = Inr k \<longleftrightarrow> wf_private_key k \<and>
    (\<exists>v. (expected = None \<or> expected = Some v) \<and>
       (to_wif c k v = Inr (strip s) \<or> b58check_encode c v (sk_secret k) = Inr (strip s)))"
proof
  assume "from_wif c s expected = Inr k"
  then obtain v payload where p: "b58check_encode c v payload = Inr (strip s)" "expected = None \<or> expected = Some v"
    and k: "wf_private_key k" "sk_secret k = (if length payload = 33 \<and> last payload = 1 then butlast payload else payload)"
    by (auto simp: from_wif_def bnd_eq_Inr guard_eq_Inr b58check_decode_iff [OF assms] mk_private_key_iff Let_def
        PRIVATE_KEY_LENGTH_def split: if_splits)
  have "payload = sk_secret k @ [1] \<or> payload = sk_secret k"
  proof (cases "length payload = 33 \<and> last payload = 1")
    case True
    then have "payload \<noteq> []" by auto
    then show ?thesis using True k(2) append_butlast_last_id [of payload] by simp
  next
    case False
    then show ?thesis using k(2) by auto
  qed
  then show "wf_private_key k \<and> (\<exists>v. (expected = None \<or> expected = Some v) \<and>
       (to_wif c k v = Inr (strip s) \<or> b58check_encode c v (sk_secret k) = Inr (strip s)))"
    using p k(1) by (auto simp: to_wif_def)
next
  assume "wf_private_key k \<and> (\<exists>v. (expected = None \<or> expected = Some v) \<and>
       (to_wif c k v = Inr (strip s) \<or> b58check_encode c v (sk_secret k) = Inr (strip s)))"
  then obtain v payload where p: "b58check_decode c (strip s) expected = Inr (v, payload)" "wf_private_key k"
      "payload = sk_secret k @ [1] \<or> payload = sk_secret k"
    unfolding b58check_decode_iff [OF assms] to_wif_def by auto
  moreover have "length (sk_secret k) = 32" using p(2) by (simp add: wf_private_key_def PRIVATE_KEY_LENGTH_def)
  ultimately show "from_wif c s expected = Inr k"
    by (auto simp: from_wif_def bnd_eq_Inr guard_eq_Inr mk_private_key_iff Let_def PRIVATE_KEY_LENGTH_def)
qed

text \<open>
  C40. What a key signs verifies. Every private key has a valid public key, and the signature it makes of a
  digest is 64 bytes long, canonical (its second half at most half the order) and accepted by that public key.
\<close>
theorem signature_verifies:
  assumes "signer_ok c sg" "mk_private_key secret = Inr k" "length d = 32"
  shows "\<exists>pk sig. private_key_public_key c sg k = Inr pk \<and> private_key_sign sg k d = Inr sig \<and>
    length sig = SIGNATURE_LENGTH \<and> from_be (drop 32 sig) \<le> HALF_ORDER \<and> public_key_verify c pk d sig = Inr True"
proof -
  have k: "wf_private_key k" using assms(2) unfolding mk_private_key_iff by blast
  obtain sig where sig: "private_key_sign sg k d = Inr sig" "length sig = SIGNATURE_LENGTH"
      "public_key_verify c \<lparr>pk_data = derive_public sg (from_be (sk_secret k))\<rparr> d sig = Inr True"
    using sign_verifies [OF assms(1) k assms(3)] by blast
  moreover from this have "from_be (drop 32 sig) \<le> HALF_ORDER"
    by (auto simp: public_key_verify_def Let_def split: if_splits)
  ultimately show ?thesis using public_key_exists [OF assms(1) k] by blast
qed

section \<open>Witnesses\<close>

text \<open>A signer and a verifier that fit: the first half of a signature is the first byte of the key.\<close>

definition keys_crypto :: crypto where
  "keys_crypto = demo_crypto\<lparr>ecdsa_verify := (\<lambda>k r s d. r = from_le (take 1 k) \<and> (s = 1 \<or> s = CURVE_ORDER - 1))\<rparr>"

definition demo_signer :: signer where
  "demo_signer = \<lparr>derive_public = (\<lambda>x. 0x02 # to_be 32 x), ecdsa_sign = (\<lambda>x d. (2, CURVE_ORDER - 1))\<rparr>"

lemma keys_crypto_ok: "crypto_ok keys_crypto" "signer_ok keys_crypto demo_signer"
proof -
  show "crypto_ok keys_crypto" using demo_crypto_ok by (simp add: keys_crypto_def crypto_ok_def)
  show "signer_ok keys_crypto demo_signer"
    by (simp add: signer_ok_def demo_signer_def keys_crypto_def demo_crypto_def PUBLIC_KEY_LENGTH_def CURVE_ORDER_def)
qed

definition demo_secret :: bytes where
  "demo_secret = replicate 31 0 @ [7]"

lemma demo_secret_ok: "mk_private_key demo_secret = Inr \<lparr>sk_secret = demo_secret\<rparr>"
  by code_simp

theorem address_text_witness:
  "\<exists>s a. address_decode demo_crypto s (Some 30) = Inr a \<and> ad_hash a = replicate 20 1 \<and>
     address_is_valid demo_crypto s (Some 31) = Inr False"
proof -
  define a where "a = \<lparr>ad_version = 30, ad_hash = replicate 20 (1 :: byte)\<rparr>"
  have "(case address_str demo_crypto a of Inl _ \<Rightarrow> False | Inr s \<Rightarrow> strip s = s)" unfolding a_def by code_simp
  then obtain s where s: "address_str demo_crypto a = Inr s" "strip s = s" by (auto split: sum.splits)
  have wf: "wf_address a" by (simp add: wf_address_def a_def PUBKEY_HASH_LENGTH_def)
  note dec = address_text [OF demo_crypto_ok, of s]
  have "address_decode demo_crypto s (Some 30) = Inr a" using dec [of "Some 30" a] s wf by (simp add: a_def)
  moreover have "b58check_decode demo_crypto s None = Inr (30, ad_hash a)"
    using s(1) by (simp add: address_str_def b58check_decode_iff a_def)
  then have "ad_version b = 30" if "address_str demo_crypto b = Inr s" for b
    using that by (simp add: address_str_def b58check_decode_iff [OF demo_crypto_ok, of s None, simplified, symmetric])
  then have "address_is_valid demo_crypto s (Some 31) = Inr False"
    using dec [of "Some 31" a] s(2) by auto
  moreover have "ad_hash a = replicate 20 1" by (simp add: a_def)
  ultimately show ?thesis by blast
qed

theorem wif_text_witness:
  "\<exists>s. to_wif demo_crypto \<lparr>sk_secret = demo_secret\<rparr> 158 = Inr s \<and> from_wif demo_crypto s (Some 158) = Inr \<lparr>sk_secret = demo_secret\<rparr>"
proof -
  have "(case to_wif demo_crypto \<lparr>sk_secret = demo_secret\<rparr> 158 of Inl _ \<Rightarrow> False | Inr s \<Rightarrow> strip s = s)" by code_simp
  then obtain s where s: "to_wif demo_crypto \<lparr>sk_secret = demo_secret\<rparr> 158 = Inr s" "strip s = s" by (auto split: sum.splits)
  have "wf_private_key \<lparr>sk_secret = demo_secret\<rparr>" using demo_secret_ok by (simp add: mk_private_key_iff)
  then show ?thesis using s wif_text [OF demo_crypto_ok, of s "Some 158" "\<lparr>sk_secret = demo_secret\<rparr>"] by auto
qed

theorem signature_verifies_witness:
  "\<exists>pk sig. private_key_public_key keys_crypto demo_signer \<lparr>sk_secret = demo_secret\<rparr> = Inr pk \<and>
     private_key_sign demo_signer \<lparr>sk_secret = demo_secret\<rparr> (replicate 32 5) = Inr sig \<and>
     public_key_verify keys_crypto pk (replicate 32 5) sig = Inr True"
  using signature_verifies [OF keys_crypto_ok(2) demo_secret_ok, of "replicate 32 5"] by auto

end
