(* ===== verification/Builder.thy ===== *)
theory Builder
  imports Keys Validation
begin

text \<open>
  \<^verbatim>\<open>wallet/builder.py\<close>: sizes and fees, coin selection, and the transactions a wallet builds and signs.
  A mapping of keys is an association list from public-key hashes to private keys; the signer is the record
  argument \<open>sg\<close> of \<open>Keys\<close>.
\<close>

section \<open>Sizes and fees\<close>

definition PER_INPUT_BYTES :: int where "PER_INPUT_BYTES = 140"
definition PER_OUTPUT_BYTES :: int where "PER_OUTPUT_BYTES = 29"
definition DEFAULT_MAX_SWEEP_INPUTS :: int where "DEFAULT_MAX_SWEEP_INPUTS = 1000"

definition varint_size :: "int \<Rightarrow> int" where
  "varint_size v = (if v < 0xFD then 1 else if v \<le> 0xFFFF then 3 else if v \<le> 0xFFFFFFFF then 5 else 9)"

definition estimate_size :: "int \<Rightarrow> int \<Rightarrow> int" where
  "estimate_size input_count output_count =
     4 + varint_size input_count + input_count * PER_INPUT_BYTES
       + varint_size output_count + output_count * PER_OUTPUT_BYTES + 4 + 1"

definition fee_for_size :: "int \<Rightarrow> int \<Rightarrow> int" where
  "fee_for_size sz fee_per_kb = (if fee_per_kb > 0 then max 1 ((sz * fee_per_kb + 999) div 1000) else 0)"

definition dust_threshold :: "int \<Rightarrow> int" where
  "dust_threshold fee_per_kb = fee_for_size PER_INPUT_BYTES fee_per_kb * 3"

definition multisig_address :: "crypto \<Rightarrow> bytes list \<Rightarrow> int \<Rightarrow> chain_params \<Rightarrow> (bytes \<times> address) result" where
  "multisig_address c pubkeys threshold p =
     bnd (multisig_redeem pubkeys threshold) (\<lambda>script.
     bnd (mk_address (pm_script_address_version p) (take 20 (hash256 c script))) (\<lambda>a. Inr (script, a)))"

section \<open>Coin selection\<close>

type_synonym funded = "outpoint \<times> coin"

definition funded_value :: "funded \<Rightarrow> int" where
  "funded_value x = co_value (snd x)"

record built_transaction =
  bu_transaction :: transaction
  bu_fee :: int
  bu_change :: int
  bu_total_input :: int
  bu_coins :: "funded list"

definition required :: "int \<Rightarrow> int \<Rightarrow> int \<Rightarrow> int \<Rightarrow> int" where
  "required amount fee_per_kb output_count count =
     amount + fee_for_size (estimate_size count (output_count + 1)) fee_per_kb"

text \<open>The loop that takes the largest coins first; \<open>None\<close> when they run out.\<close>

fun accumulate :: "(int \<Rightarrow> int) \<Rightarrow> funded list \<Rightarrow> funded list \<Rightarrow> int \<Rightarrow> funded list option" where
  "accumulate need [] chosen total_in = None"
| "accumulate need (x # usable) chosen total_in =
     (if total_in + funded_value x \<ge> need (int (length (chosen @ [x]))) then Some (chosen @ [x])
      else accumulate need usable (chosen @ [x]) (total_in + funded_value x))"

definition select_coins :: "funded list \<Rightarrow> int \<Rightarrow> int \<Rightarrow> int \<Rightarrow> (funded list \<times> int) result" where
  "select_coins coins amount fee_per_kb output_count =
     (if amount < 0 then Inl (ValueError ''amount must not be negative'')
      else
        let need = required amount fee_per_kb output_count;
            usable = sort_key (\<lambda>x. - funded_value x) coins;
            exact = filter (\<lambda>x. funded_value x \<ge> need 1) usable
        in if exact \<noteq> []
           then Inr ([hd (sort_key funded_value exact)], fee_for_size (estimate_size 1 (output_count + 1)) fee_per_kb)
           else case accumulate need usable [] 0 of
             Some chosen \<Rightarrow> Inr (chosen, fee_for_size (estimate_size (int (length chosen)) (output_count + 1)) fee_per_kb)
           | None \<Rightarrow> Inl (InsufficientFundsError ''need more scar than is available''))"

datatype destination = ToAddress address | ToHash bytes

definition resolve :: "chain_params \<Rightarrow> destination \<Rightarrow> bytes result" where
  "resolve p d =
     (case d of
        ToAddress a \<Rightarrow>
          if ad_version a \<noteq> pm_address_version p then Inl (ValueError ''address does not belong to the network'')
          else Inr (ad_hash a)
      | ToHash h \<Rightarrow>
          if length h \<noteq> 20 then Inl (ValueError ''a destination must be an Address or a 20-byte public-key hash'')
          else Inr h)"

section \<open>Signing\<close>

type_synonym key_table = "(bytes \<times> private_key) list"

text \<open>The state of the loop of \<^verbatim>\<open>_sign_inputs\<close>: the witnesses and the two caches.\<close>

record signing =
  sg_witnesses :: "(nat \<times> bytes list) list"
  sg_pubkeys :: "(bytes \<times> bytes) list"
  sg_scripts :: "(bytes \<times> bytes) list"

definition sign_step ::
    "crypto \<Rightarrow> signer \<Rightarrow> key_table \<Rightarrow> signature_hasher \<Rightarrow> nat \<times> funded \<Rightarrow> signing \<Rightarrow> signing result" where
  "sign_step c sg keys hasher = (\<lambda>(index, op, k) st.
     case map_of keys (co_payload k) of
       None \<Rightarrow> Inl (ValueError ''no private key for coin'')
     | Some key \<Rightarrow>
         bnd (case map_of (sg_pubkeys st) (co_payload k) of
                Some pubkey \<Rightarrow> Inr (pubkey, sg_pubkeys st)
              | None \<Rightarrow> bnd (private_key_public_key c sg key) (\<lambda>pk.
                  Inr (pk_data pk, (co_payload k, pk_data pk) # sg_pubkeys st))) (\<lambda>(pubkey, pubkeys).
         case (case map_of (sg_scripts st) (co_payload k) of
                 Some script \<Rightarrow> (script, sg_scripts st)
               | None \<Rightarrow> (p2pkh_script_code (co_payload k), (co_payload k, p2pkh_script_code (co_payload k)) # sg_scripts st)) of
           (script, scripts) \<Rightarrow>
         bnd (hasher_digest c hasher (int index) (co_value k) script) (\<lambda>digest.
         bnd (private_key_sign sg key digest) (\<lambda>signature.
         Inr \<lparr>sg_witnesses = sg_witnesses st @ [(index, [pubkey, signature])],
              sg_pubkeys = pubkeys, sg_scripts = scripts\<rparr>))))"

definition sign_inputs :: "crypto \<Rightarrow> signer \<Rightarrow> transaction \<Rightarrow> funded list \<Rightarrow> key_table \<Rightarrow> transaction result" where
  "sign_inputs c sg u coins keys =
     bnd (mk_signature_hasher u) (\<lambda>hasher.
     bnd (foldR (sign_step c sg keys hasher) (enumerate 0 coins)
            \<lparr>sg_witnesses = [], sg_pubkeys = [], sg_scripts = []\<rparr>) (\<lambda>st.
     signed_with (sg_witnesses st) u))"

section \<open>Sweeping\<close>

definition bare_input :: "funded \<Rightarrow> txinput result" where
  "bare_input x = mk_txinput (fst x) SEQUENCE_FINAL []"

definition build_sweep_transaction ::
    "crypto \<Rightarrow> signer \<Rightarrow> funded list \<Rightarrow> key_table \<Rightarrow> destination \<Rightarrow> int \<Rightarrow> chain_params \<Rightarrow> int \<Rightarrow>
     built_transaction result" where
  "build_sweep_transaction c sg spendable_coins keys dest fee_per_kb p lock_time =
     (if spendable_coins = [] then Inl (InsufficientFundsError ''there are no coins to spend'')
      else
        bnd (resolve p dest) (\<lambda>pubkey_hash.
        let total_in = sum_list (map funded_value spendable_coins);
            fee = fee_for_size (estimate_size (int (length spendable_coins)) 1) fee_per_kb;
            amount = total_in - fee
        in if amount \<le> 0 then Inl (InsufficientFundsError ''the coins do not cover the fee'')
           else
             bnd (mapR bare_input spendable_coins) (\<lambda>ins.
             bnd (txoutput_p2pkh amount pubkey_hash) (\<lambda>out.
             bnd (mk_transaction 1 ins [out] lock_time []) (\<lambda>u.
             bnd (sign_inputs c sg u spendable_coins keys) (\<lambda>signed.
             Inr \<lparr>bu_transaction = signed, bu_fee = fee, bu_change = 0, bu_total_input = total_in,
                  bu_coins = spendable_coins\<rparr>))))))"

text \<open>The binary search for the largest count whose transaction fits.\<close>

function inputs_search :: "int \<Rightarrow> int \<Rightarrow> int \<Rightarrow> int" where
  "inputs_search byte_budget low high =
     (if low < high
      then let mid = (low + high + 1) div 2
           in if estimate_size mid 1 \<le> byte_budget then inputs_search byte_budget mid high
              else inputs_search byte_budget low (mid - 1)
      else low)"
  by auto
termination
  by (relation "measure (\<lambda>(_, low, high). nat (high - low))") auto

definition max_inputs_for_budget :: "int \<Rightarrow> int" where
  "max_inputs_for_budget byte_budget =
     (if byte_budget \<le> 0 then 0 else inputs_search byte_budget 0 (byte_budget div PER_INPUT_BYTES + 1))"

text \<open>\<^verbatim>\<open>range(0, len(coins), per_transaction)\<close> and the slices.\<close>

function batches :: "nat \<Rightarrow> 'a list \<Rightarrow> 'a list list" where
  "batches n xs = (if n = 0 \<or> xs = [] then [] else take n xs # batches n (drop n xs))"
  by auto
termination
  by (relation "measure (\<lambda>(n, xs). length xs)") (auto intro!: diff_less)

definition build_sweep_transactions ::
    "crypto \<Rightarrow> signer \<Rightarrow> funded list \<Rightarrow> key_table \<Rightarrow> destination \<Rightarrow> int \<Rightarrow> chain_params \<Rightarrow> int \<Rightarrow> int option \<Rightarrow>
     built_transaction list result" where
  "build_sweep_transactions c sg spendable_coins keys dest fee_per_kb p lock_time max_inputs_per_tx =
     (if spendable_coins = [] then Inl (InsufficientFundsError ''there are no coins to spend'')
      else
        let budget = pm_max_block_size p div 2;
            fitting = max 1 (max_inputs_for_budget budget);
            per_transaction = (case max_inputs_per_tx of None \<Rightarrow> fitting | Some n \<Rightarrow> min fitting (max 1 n))
        in mapR (\<lambda>batch. build_sweep_transaction c sg batch keys dest fee_per_kb p lock_time)
             (batches (nat per_transaction) spendable_coins))"

section \<open>Paying\<close>

definition resolve_target :: "chain_params \<Rightarrow> destination \<times> int \<Rightarrow> (bytes \<times> int) result" where
  "resolve_target p = (\<lambda>(d, amount). bnd (resolve p d) (\<lambda>h. Inr (h, amount)))"

definition build_transaction ::
    "crypto \<Rightarrow> signer \<Rightarrow> funded list \<Rightarrow> key_table \<Rightarrow> (destination \<times> int) list \<Rightarrow> bytes \<Rightarrow> int \<Rightarrow> chain_params \<Rightarrow>
     int \<Rightarrow> built_transaction result" where
  "build_transaction c sg spendable_coins keys outputs change_hash fee_per_kb p lock_time =
     (if outputs = [] then Inl (ValueError ''a transaction must pay at least one output'')
      else
        bnd (mapR (resolve_target p) outputs) (\<lambda>targets.
        if list_ex (\<lambda>(_, amount). amount \<le> 0) targets then Inl (ValueError ''output amounts must be positive'')
        else
          let amount = sum_list (map snd targets) in
          bnd (select_coins spendable_coins amount fee_per_kb (int (length targets))) (\<lambda>(chosen, fee).
          let total_input = sum_list (map funded_value chosen); change = total_input - amount - fee in
          if change < 0 then Inl (InsufficientFundsError ''selected coins do not cover the fee'')
          else
            bnd (mapR (\<lambda>(pubkey_hash, value). txoutput_p2pkh value pubkey_hash) targets) (\<lambda>outs.
            bnd (if change > dust_threshold fee_per_kb
                 then bnd (txoutput_p2pkh change change_hash) (\<lambda>out. Inr (outs @ [out], fee, change))
                 else Inr (outs, fee + change, 0)) (\<lambda>(outs, fee, change).
            bnd (mapR bare_input chosen) (\<lambda>ins.
            bnd (mk_transaction 1 ins outs lock_time []) (\<lambda>u.
            bnd (sign_inputs c sg u chosen keys) (\<lambda>signed.
            Inr \<lparr>bu_transaction = signed, bu_fee = fee, bu_change = change, bu_total_input = total_input,
                 bu_coins = chosen\<rparr>))))))))"

end
