(* ===== verification/Payment.thy ===== *)
theory Payment
  imports Builder "HOL-Library.Multiset"
begin

text \<open>
  What the wallet's transactions are worth: the coins chosen are as few as possible, and the signed payment is
  accepted by the consensus rules with the fee the wallet computed.
\<close>

section \<open>Coin selection\<close>

definition funds :: "funded multiset \<Rightarrow> int" where
  "funds S = (\<Sum>x \<in># S. funded_value x)"

lemma funds_simps [simp]: "funds {#} = 0" "funds (add_mset x S) = funded_value x + funds S"
  by (simp_all add: funds_def)

lemma funds_mset: "funds (mset xs) = sum_list (map funded_value xs)"
  by (simp add: funds_def flip: sum_mset_sum_list)

lemma accumulate_Some:
  assumes "accumulate need usable chosen acc = Some r" "acc = funds (mset chosen)"
  shows "\<exists>k. 0 < k \<and> k \<le> length usable \<and> r = chosen @ take k usable \<and> need (int (length r)) \<le> funds (mset r) \<and>
    (\<forall>j. 0 < j \<and> j < k \<longrightarrow> funds (mset (chosen @ take j usable)) < need (int (length chosen + j)))"
  using assms
proof (induction usable arbitrary: chosen acc)
  case (Cons x usable)
  show ?case
  proof (cases "need (int (length (chosen @ [x]))) \<le> acc + funded_value x")
    case True
    then show ?thesis using Cons.prems by (intro exI [of _ 1]) auto
  next
    case False
    then obtain k where k: "0 < k" "k \<le> length usable" "r = (chosen @ [x]) @ take k usable" "need (int (length r)) \<le> funds (mset r)"
        "\<forall>j. 0 < j \<and> j < k \<longrightarrow> funds (mset ((chosen @ [x]) @ take j usable)) < need (int (length (chosen @ [x]) + j))"
      using Cons.IH [of "chosen @ [x]" "acc + funded_value x"] Cons.prems by auto
    have "funds (mset (chosen @ take j (x # usable))) < need (int (length chosen + j))" if "0 < j" "j < Suc k" for j
    proof (cases "j = 1")
      case True
      then show ?thesis using False Cons.prems(2) by simp
    next
      case False
      then show ?thesis using k(5) [rule_format, of "j - 1"] that by (cases j) auto
    qed
    then show ?thesis using k by (intro exI [of _ "Suc k"]) auto
  qed
qed simp

lemma accumulate_None:
  assumes "accumulate need usable chosen acc = None" "acc = funds (mset chosen)" "0 < j" "j \<le> length usable"
  shows "funds (mset (chosen @ take j usable)) < need (int (length chosen + j))"
  using assms
proof (induction usable arbitrary: chosen acc j)
  case (Cons x usable)
  have x: "acc + funded_value x < need (int (length (chosen @ [x])))" "accumulate need usable (chosen @ [x]) (acc + funded_value x) = None"
    using Cons.prems(1) by (auto split: if_splits)
  show ?case
  proof (cases "j = 1")
    case True
    then show ?thesis using x(1) Cons.prems(2) by simp
  next
    case False
    then show ?thesis
      using Cons.IH [OF x(2), of "j - 1"] Cons.prems(2-4) by (cases j) auto
  qed
qed simp

text \<open>No other coins of the same number are worth more than the largest ones.\<close>

lemma largest_dominate:
  assumes "sorted (map (\<lambda>x. - funded_value x) xs)" "S \<subseteq># mset xs"
  shows "funds S \<le> funds (mset (take (size S) xs))"
  using assms
proof (induction xs arbitrary: S)
  case (Cons x xs)
  show ?case
  proof (cases "S = {#}")
    case False
    obtain y T where y: "S = add_mset y T" "T \<subseteq># mset xs" "funded_value y \<le> funded_value x"
    proof (cases "x \<in># S")
      case True
      then obtain T where "S = add_mset x T" by (metis insert_DiffM)
      moreover from this have "T \<subseteq># mset xs" using Cons.prems(2) by simp
      ultimately show ?thesis using that by blast
    next
      case False
      have S: "S \<subseteq># mset xs"
      proof (rule mset_subset_eqI)
        fix a
        show "count S a \<le> count (mset xs) a"
          using mset_subset_eq_count [OF Cons.prems(2), of a] False by (cases "a = x") (auto simp: not_in_iff)
      qed
      obtain y T where T: "S = add_mset y T" using \<open>S \<noteq> {#}\<close> by (metis multiset_cases)
      then have "y \<in> set xs" using S by (metis in_multiset_in_set mset_subset_eqD union_single_eq_member)
      then have "funded_value y \<le> funded_value x" using Cons.prems(1) by auto
      moreover have "T \<subseteq># mset xs" using S T by (metis mset_subset_eq_insertD subset_mset.less_imp_le)
      ultimately show ?thesis using T that by blast
    qed
    then have "funds T \<le> funds (mset (take (size T) xs))" using Cons by simp
    then show ?thesis using y by simp
  qed simp
qed simp

lemma smallest_exact:
  assumes "xs \<noteq> []"
  shows "hd (sort_key f xs) \<in> set xs"
  using assms by (metis list.set_sel(1) set_sort length_greater_0_conv length_sort)

lemma select_coins_ok:
  assumes "select_coins coins amount rate outs = Inr (chosen, fee)"
  shows "mset chosen \<subseteq># mset coins" "chosen \<noteq> []"
    and "fee = fee_for_size (estimate_size (int (length chosen)) (outs + 1)) rate"
    and "amount + fee \<le> funds (mset chosen)" "0 \<le> amount"
    and "S \<subseteq># mset coins \<Longrightarrow> S \<noteq> {#} \<Longrightarrow> required amount rate outs (int (size S)) \<le> funds S \<Longrightarrow> length chosen \<le> size S"
proof -
  define usable where "usable = sort_key (\<lambda>x. - funded_value x) coins"
  define exact where "exact = filter (\<lambda>x. funded_value x \<ge> required amount rate outs 1) usable"
  have mset: "mset usable = mset coins" and srt: "sorted (map (\<lambda>x. - funded_value x) usable)" by (simp_all add: usable_def)
  have sel: "if exact \<noteq> [] then chosen = [hd (sort_key funded_value exact)] \<and> fee = fee_for_size (estimate_size 1 (outs + 1)) rate
      else accumulate (required amount rate outs) usable [] 0 = Some chosen \<and>
        fee = fee_for_size (estimate_size (int (length chosen)) (outs + 1)) rate" and "0 \<le> amount"
    using assms by (auto simp: select_coins_def Let_def usable_def exact_def split: if_splits option.splits)
  show "0 \<le> amount" by fact
  have "mset chosen \<subseteq># mset coins \<and> chosen \<noteq> [] \<and> fee = fee_for_size (estimate_size (int (length chosen)) (outs + 1)) rate \<and>
      amount + fee \<le> funds (mset chosen) \<and>
      (\<forall>S. S \<subseteq># mset coins \<and> S \<noteq> {#} \<and> required amount rate outs (int (size S)) \<le> funds S \<longrightarrow> length chosen \<le> size S)"
  proof (cases "exact = []")
    case False
    define x where "x = hd (sort_key funded_value exact)"
    have "x \<in> set exact" unfolding x_def by (rule smallest_exact [OF False])
    then have x: "x \<in># mset coins" "required amount rate outs 1 \<le> funded_value x"
      by (simp_all add: exact_def usable_def)
    moreover have "1 \<le> size S" if "S \<noteq> {#}" for S :: "funded multiset" using that by (cases S) simp_all
    ultimately show ?thesis using False sel by (simp add: x_def [symmetric] required_def)
  next
    case True
    then have acc: "accumulate (required amount rate outs) usable [] 0 = Some chosen"
      and fee: "fee = fee_for_size (estimate_size (int (length chosen)) (outs + 1)) rate" using sel by auto
    obtain k where k: "0 < k" "k \<le> length usable" "chosen = take k usable" "required amount rate outs (int (length chosen)) \<le> funds (mset chosen)"
        "\<forall>j. 0 < j \<and> j < k \<longrightarrow> funds (mset (take j usable)) < required amount rate outs (int j)"
      using accumulate_Some [OF acc] by auto
    have "length chosen \<le> size S" if S: "S \<subseteq># mset coins" "S \<noteq> {#}" "required amount rate outs (int (size S)) \<le> funds S" for S
    proof (rule ccontr)
      assume "\<not> length chosen \<le> size S"
      then have "funds (mset (take (size S) usable)) < required amount rate outs (int (size S))"
        using k S(2) by (simp add: size_eq_0_iff_empty [symmetric] del: size_eq_0_iff_empty)
      then show False using largest_dominate [OF srt, of S] S by (simp add: mset)
    qed
    moreover have "mset (take k usable) \<subseteq># mset coins"
      using mset by (metis append_take_drop_id mset_append mset_subset_eq_add_left)
    ultimately show ?thesis using k fee by (auto simp: required_def)
  qed
  then show "mset chosen \<subseteq># mset coins" "chosen \<noteq> []"
      "fee = fee_for_size (estimate_size (int (length chosen)) (outs + 1)) rate" "amount + fee \<le> funds (mset chosen)"
      "S \<subseteq># mset coins \<Longrightarrow> S \<noteq> {#} \<Longrightarrow> required amount rate outs (int (size S)) \<le> funds S \<Longrightarrow> length chosen \<le> size S"
    by blast+
qed

lemma select_coins_fails:
  assumes "select_coins coins amount rate outs = Inl e" "0 \<le> amount" "S \<subseteq># mset coins" "S \<noteq> {#}"
  shows "funds S < required amount rate outs (int (size S))"
proof -
  define usable where "usable = sort_key (\<lambda>x. - funded_value x) coins"
  have mset: "mset usable = mset coins" and srt: "sorted (map (\<lambda>x. - funded_value x) usable)" by (simp_all add: usable_def)
  have "accumulate (required amount rate outs) usable [] 0 = None"
    using assms(1,2) by (auto simp: select_coins_def Let_def usable_def split: if_splits option.splits)
  moreover have "size S \<le> length usable" "0 < size S"
    using assms(3,4) mset size_mset_mono [OF assms(3)] by (simp_all add: nonempty_has_size) (metis size_mset)
  ultimately have "funds (mset (take (size S) usable)) < required amount rate outs (int (size S))"
    using accumulate_None [of _ usable "[]" 0 "size S"] by simp
  then show ?thesis using largest_dominate [OF srt, of S] assms(3) by (simp add: mset)
qed

text \<open>
  C26. Coin selection succeeds whenever it can, with as few inputs as possible. For an amount that is not negative,
  \<^verbatim>\<open>select_coins\<close> returns coins exactly when some of the given coins cover the amount and the fee for their number of
  inputs; it then returns some of the given coins that do, together with that fee, and no others that do are fewer.
\<close>
theorem select_coins_optimal:
  assumes "0 \<le> amount"
  shows "((\<exists>chosen fee. select_coins coins amount rate outs = Inr (chosen, fee)) \<longleftrightarrow>
       (\<exists>S. S \<subseteq># mset coins \<and> S \<noteq> {#} \<and> required amount rate outs (int (size S)) \<le> funds S)) \<and>
    (\<forall>chosen fee. select_coins coins amount rate outs = Inr (chosen, fee) \<longrightarrow>
       mset chosen \<subseteq># mset coins \<and> fee = fee_for_size (estimate_size (int (length chosen)) (outs + 1)) rate \<and>
       amount + fee \<le> sum_list (map funded_value chosen) \<and>
       (\<forall>S. S \<subseteq># mset coins \<and> S \<noteq> {#} \<and> required amount rate outs (int (size S)) \<le> funds S \<longrightarrow> length chosen \<le> size S))"
proof (intro conjI allI impI)
  show "(\<exists>chosen fee. select_coins coins amount rate outs = Inr (chosen, fee)) \<longleftrightarrow>
       (\<exists>S. S \<subseteq># mset coins \<and> S \<noteq> {#} \<and> required amount rate outs (int (size S)) \<le> funds S)" (is "?l \<longleftrightarrow> ?r")
  proof
    assume ?l
    then obtain chosen fee where sel: "select_coins coins amount rate outs = Inr (chosen, fee)" by blast
    then show ?r using select_coins_ok(1-4) [OF sel] by (intro exI [of _ "mset chosen"]) (simp add: required_def)
  next
    assume ?r
    then obtain S where S: "S \<subseteq># mset coins" "S \<noteq> {#}" "required amount rate outs (int (size S)) \<le> funds S" by blast
    then show ?l using select_coins_fails [OF _ assms S(1,2), of rate outs] by (cases "select_coins coins amount rate outs") fastforce+
  qed
next
  fix chosen fee assume sel: "select_coins coins amount rate outs = Inr (chosen, fee)"
  note ok = select_coins_ok [OF sel]
  show "mset chosen \<subseteq># mset coins" "fee = fee_for_size (estimate_size (int (length chosen)) (outs + 1)) rate"
      "amount + fee \<le> sum_list (map funded_value chosen)"
    using ok(1,3,4) by (simp_all add: funds_mset)
  fix S assume "S \<subseteq># mset coins \<and> S \<noteq> {#} \<and> required amount rate outs (int (size S)) \<le> funds S"
  then show "length chosen \<le> size S" using ok(6) by blast
qed

section \<open>Signing\<close>

text \<open>The witness \<open>w\<close> that signing coin \<open>k\<close> at input \<open>i\<close> gives.\<close>

definition signed_by :: "crypto \<Rightarrow> signer \<Rightarrow> key_table \<Rightarrow> signature_hasher \<Rightarrow> nat \<Rightarrow> coin \<Rightarrow> bytes list \<Rightarrow> bool" where
  "signed_by c sg keys hasher i k w \<longleftrightarrow> (\<exists>key digest sig. map_of keys (co_payload k) = Some key \<and>
     hasher_digest c hasher (int i) (co_value k) (p2pkh_script_code (co_payload k)) = Inr digest \<and>
     private_key_sign sg key digest = Inr sig \<and> w = [derive_public sg (from_be (sk_secret key)), sig])"

text \<open>The caches hold what would be computed again.\<close>

definition caches_ok :: "signer \<Rightarrow> key_table \<Rightarrow> signing \<Rightarrow> bool" where
  "caches_ok sg keys st \<longleftrightarrow>
     (\<forall>h pub. map_of (sg_pubkeys st) h = Some pub \<longrightarrow>
        (\<exists>key. map_of keys h = Some key \<and> pub = derive_public sg (from_be (sk_secret key)))) \<and>
     (\<forall>h script. map_of (sg_scripts st) h = Some script \<longrightarrow> script = p2pkh_script_code h)"

lemma sign_step_Inr:
  assumes "sign_step c sg keys hasher (i, op, k) st = Inr st'" "caches_ok sg keys st"
  shows "caches_ok sg keys st' \<and> (\<exists>w. signed_by c sg keys hasher i k w \<and> sg_witnesses st' = sg_witnesses st @ [(i, w)])"
proof -
  obtain key where key: "map_of keys (co_payload k) = Some key"
    using assms(1) by (auto simp: sign_step_def split: option.splits)
  define P where "P = derive_public sg (from_be (sk_secret key))"
  obtain pubkey pubkeys where pub: "(case map_of (sg_pubkeys st) (co_payload k) of
        Some pubkey \<Rightarrow> Inr (pubkey, sg_pubkeys st)
      | None \<Rightarrow> bnd (private_key_public_key c sg key) (\<lambda>pk. Inr (pk_data pk, (co_payload k, pk_data pk) # sg_pubkeys st))) =
      (Inr (pubkey, pubkeys) :: (bytes \<times> (bytes \<times> bytes) list) result)"
    using assms(1) key by (auto simp: sign_step_def bnd_eq_Inr)
  define ss where "ss = (case map_of (sg_scripts st) (co_payload k) of
        Some script \<Rightarrow> (script, sg_scripts st)
      | None \<Rightarrow> (p2pkh_script_code (co_payload k), (co_payload k, p2pkh_script_code (co_payload k)) # sg_scripts st))"
  have script: "fst ss = p2pkh_script_code (co_payload k)"
      "\<forall>h s. map_of (snd ss) h = Some s \<longrightarrow> s = p2pkh_script_code h"
    using assms(2) by (auto simp: ss_def caches_ok_def split: option.splits if_splits)
  have "private_key_public_key c sg key = Inr pk \<Longrightarrow> pk_data pk = P" for pk
    by (auto simp: private_key_public_key_def public_key_from_bytes_def P_def split: if_splits)
  moreover have "map_of (sg_pubkeys st) (co_payload k) = Some q \<Longrightarrow> q = P" for q
    using assms(2) key unfolding caches_ok_def P_def by (metis option.inject)
  ultimately have pubkey: "pubkey = P" "\<forall>h pub. map_of pubkeys h = Some pub \<longrightarrow>
      (\<exists>key. map_of keys h = Some key \<and> pub = derive_public sg (from_be (sk_secret key)))"
    using pub assms(2) key by (auto simp: caches_ok_def bnd_eq_Inr P_def split: option.splits if_splits)
  obtain digest sig where "hasher_digest c hasher (int i) (co_value k) (fst ss) = Inr digest" "private_key_sign sg key digest = Inr sig"
      "st' = \<lparr>sg_witnesses = sg_witnesses st @ [(i, [pubkey, sig])], sg_pubkeys = pubkeys, sg_scripts = snd ss\<rparr>"
    using assms(1) by (auto simp: sign_step_def key pub ss_def [symmetric] bnd_eq_Inr split: prod.splits)
  then show ?thesis using key script pubkey by (auto simp: caches_ok_def signed_by_def P_def)
qed

lemma sign_loop:
  assumes "foldR (sign_step c sg keys hasher) (enumerate n coins) st = Inr st'" "caches_ok sg keys st"
  shows "\<exists>ws. length ws = length coins \<and> sg_witnesses st' = sg_witnesses st @ zip [n..<n + length coins] ws \<and>
    (\<forall>j < length coins. signed_by c sg keys hasher (n + j) (snd (coins ! j)) (ws ! j))"
  using assms
proof (induction coins arbitrary: n st)
  case (Cons x coins)
  obtain op k where x: "x = (op, k)" by (cases x)
  obtain st1 where st1: "sign_step c sg keys hasher (n, op, k) st = Inr st1"
      "foldR (sign_step c sg keys hasher) (enumerate (Suc n) coins) st1 = Inr st'"
    using Cons.prems(1) x by (auto simp: bnd_eq_Inr)
  obtain w where w: "caches_ok sg keys st1" "signed_by c sg keys hasher n k w" "sg_witnesses st1 = sg_witnesses st @ [(n, w)]"
    using sign_step_Inr [OF st1(1) Cons.prems(2)] by blast
  obtain ws where ws: "length ws = length coins" "sg_witnesses st' = sg_witnesses st1 @ zip [Suc n..<Suc n + length coins] ws"
      "\<forall>j < length coins. signed_by c sg keys hasher (Suc n + j) (snd (coins ! j)) (ws ! j)"
    using Cons.IH [OF st1(2) w(1)] by blast
  have "[n..<n + length (x # coins)] = n # [Suc n..<Suc n + length coins]" by (subst upt_conv_Cons) simp_all
  moreover have "signed_by c sg keys hasher (n + j) (snd ((x # coins) ! j)) ((w # ws) ! j)" if "j < length (x # coins)" for j
    using that ws(3) w(2) x by (cases j) auto
  ultimately show ?case using ws(1,2) w(3) by (intro exI [of _ "w # ws"]) simp
qed simp

lemma signed_with_all:
  "length (tx_inputs t) = n + length ws \<Longrightarrow> signed_with (zip [n..<length (tx_inputs t)] ws) t =
     Inr (t\<lparr>tx_inputs := take n (tx_inputs t) @ map2 (\<lambda>ti w. ti\<lparr>in_witness := w\<rparr>) (drop n (tx_inputs t)) ws\<rparr>)"
proof (induction ws arbitrary: n t)
  case (Cons w ws)
  let ?t = "t\<lparr>tx_inputs := (tx_inputs t)[n := (tx_inputs t ! n)\<lparr>in_witness := w\<rparr>]\<rparr>"
  have n: "n < length (tx_inputs t)" using Cons.prems by simp
  then have "[n..<length (tx_inputs t)] = n # [Suc n..<length (tx_inputs t)]" by (simp add: upt_conv_Cons)
  then have "signed_with (zip [n..<length (tx_inputs t)] (w # ws)) t = signed_with (zip [Suc n..<length (tx_inputs ?t)] ws) ?t"
    using n by simp
  also have "\<dots> = Inr (?t\<lparr>tx_inputs := take (Suc n) (tx_inputs ?t) @ map2 (\<lambda>ti w. ti\<lparr>in_witness := w\<rparr>) (drop (Suc n) (tx_inputs ?t)) ws\<rparr>)"
    using Cons.prems by (intro Cons.IH) simp
  finally show ?case
    using n by (simp add: take_Suc_conv_app_nth Cons_nth_drop_Suc [symmetric])
qed simp

section \<open>Signed transactions are accepted\<close>

definition keys_match :: "crypto \<Rightarrow> signer \<Rightarrow> key_table \<Rightarrow> bool" where
  "keys_match c sg keys \<longleftrightarrow> (\<forall>h key. map_of keys h = Some key \<longrightarrow>
     wf_private_key key \<and> hash160 c (derive_public sg (from_be (sk_secret key))) = h)"

text \<open>Distinct mature P2PKH coins of the view.\<close>

definition spendable_coins :: "coin_view \<Rightarrow> int \<Rightarrow> chain_params \<Rightarrow> funded list \<Rightarrow> bool" where
  "spendable_coins view height p coins \<longleftrightarrow> distinct (map fst coins) \<and>
     (\<forall>(op, k) \<in> set coins. wf_outpoint op \<and> \<not> is_null op \<and> view op = Some k \<and> co_output_type k = OUTPUT_P2PKH \<and>
        is_spendable_at height (pm_coinbase_maturity p) k)"

lemma signed_by_verifies:
  assumes "signed_by c sg keys hasher i k w" "crypto_ok c" "signer_ok c sg" "keys_match c sg keys"
    and "i < length (tx_inputs t)" "in_witness (tx_inputs t ! i) = w"
  shows "verify_input_signature c t i (co_value k) (co_payload k) (Some hasher) = Inr True"
    and "map length w = [33, 64]"
proof -
  obtain key digest sig where s: "map_of keys (co_payload k) = Some key"
      "hasher_digest c hasher (int i) (co_value k) (p2pkh_script_code (co_payload k)) = Inr digest"
      "private_key_sign sg key digest = Inr sig" "w = [derive_public sg (from_be (sk_secret key)), sig]"
    using assms(1) by (auto simp: signed_by_def)
  have key: "wf_private_key key" "hash160 c (derive_public sg (from_be (sk_secret key))) = co_payload k"
    using assms(4) s(1) by (auto simp: keys_match_def)
  have "length digest = 32"
    using s(2) assms(2) length_hash256 [OF assms(2)] by (auto simp: hasher_digest_def bnd_eq_Inr hash256_def)
  from sign_verifies [OF assms(3) key(1) this]
  have sig: "length sig = 64" "public_key_verify c \<lparr>pk_data = derive_public sg (from_be (sk_secret key))\<rparr> digest sig = Inr True"
    using s(3) by (auto simp: SIGNATURE_LENGTH_def)
  note pub = signer_okD(1-3) [OF assms(3) key(1) refl]
  show "map length w = [33, 64]" using s(4) sig(1) pub(1) by (simp add: PUBLIC_KEY_LENGTH_def)
  have "public_key_from_bytes c (derive_public sg (from_be (sk_secret key))) = Inr \<lparr>pk_data = derive_public sg (from_be (sk_secret key))\<rparr>"
    using pub by (simp only: public_key_from_bytes_def) simp
  then show "verify_input_signature c t i (co_value k) (co_payload k) (Some hasher) = Inr True"
    using assms(5,6) s sig pub(1) key(2)
    by (simp add: verify_input_signature_def SIGNATURE_LENGTH_def public_key_hash160_def)
qed

lemma inputs_ok_nth:
  "length ks = length tis \<Longrightarrow> (\<And>j. j < length ks \<Longrightarrow> input_ok c t view height m hs (i + j) (ks ! j) (tis ! j)) \<Longrightarrow>
     inputs_ok c t view height m hs i ks tis"
proof (induction ks arbitrary: i tis)
  case (Cons k ks)
  then obtain ti tis' where tis: "tis = ti # tis'" by (cases tis) auto
  have "input_ok c t view height m hs (Suc i + j) (ks ! j) (tis' ! j)" if "j < length ks" for j
    using Cons.prems(2) [of "Suc j"] that tis by simp
  then show ?case using Cons.prems(2) [of 0] Cons.IH [of tis' "Suc i"] Cons.prems(1) tis by simp
qed simp

lemma mapR_bare_input: "mapR bare_input coins = Inr ins \<longleftrightarrow>
    ins = map (\<lambda>x. \<lparr>in_prevout = fst x, in_sequence = SEQUENCE_FINAL, in_witness = []\<rparr>) coins"
  by (induction coins arbitrary: ins) (auto simp: bare_input_def result_simps SEQUENCE_FINAL_def fits_def)

lemma varint_size: "int (length (varint_bytes v)) = varint_size v"
  by (simp add: varint_bytes_def varint_size_def)

lemma p2pkh_tx_size:
  assumes "tx_ok t" "tx_coinbase_data t = []" "\<forall>ti \<in> set (tx_inputs t). map length (in_witness ti) = [33, 64]"
  shows "tx_size t = estimate_size (int (length (tx_inputs t))) (int (length (tx_outputs t)))"
proof -
  have wf: "list_all wf_txinput (tx_inputs t)" "list_all wf_txoutput (tx_outputs t)"
    using assms(1) by (simp_all add: tx_ok_def wf_transaction_def)
  have ins: "list_all wf_txinput tis \<Longrightarrow> length (concat (map input_bytes tis)) = 40 * length tis" for tis
    by (induction tis) (simp_all add: input_bytes_def wf_txinput_def wf_outpoint_def)
  have outs: "list_all wf_txoutput tos \<Longrightarrow> length (concat (map output_bytes tos)) = 29 * length tos" for tos
    by (induction tos) (simp_all add: output_bytes_def wf_txoutput_def PUBKEY_HASH_LENGTH_def)
  have stack: "length (stack_bytes w) = 100" if w: "map length w = [33, 64]" for w
  proof -
    obtain a b where "w = [a, b]" "length a = 33" "length b = 64" using w by (auto simp: map_eq_Cons_conv)
    then show ?thesis by (simp add: stack_bytes_def varbytes_bytes_def varint_bytes_def)
  qed
  have wits: "\<forall>ti \<in> set tis. map length (in_witness ti) = [33, 64] \<Longrightarrow>
      length (concat (map (\<lambda>ti. stack_bytes (in_witness ti)) tis)) = 100 * length tis" for tis
    by (induction tis) (simp_all add: stack)
  have "tx_size t = int (length (tx_bytes t))" by (simp add: tx_size_def tx_ok_serialize [OF assms(1)] written_def)
  also have "\<dots> = estimate_size (int (length (tx_inputs t))) (int (length (tx_outputs t)))"
    using ins [OF wf(1)] outs [OF wf(2)] wits [OF assms(3)]
    by (simp add: tx_bytes_def body_bytes_def assms(2) varint_size varbytes_bytes_def estimate_size_def
        PER_INPUT_BYTES_def PER_OUTPUT_BYTES_def varint_bytes_def [of 0] del: length_concat)
  finally show ?thesis .
qed

lemma signed_accepted:
  assumes u: "u = \<lparr>tx_version = 1, tx_inputs = map (\<lambda>x. \<lparr>in_prevout = fst x, in_sequence = SEQUENCE_FINAL, in_witness = []\<rparr>) coins,
      tx_outputs = outs, tx_lock_time = lock_time, tx_coinbase_data = []\<rparr>"
    and "sign_inputs c sg u coins keys = Inr t" "crypto_ok c" "signer_ok c sg" "keys_match c sg keys"
    and "spendable_coins view height p coins" "coins_nonneg view"
    and "coins \<noteq> []" "length coins < 2 ^ 32" "outs \<noteq> []" "length outs < 2 ^ 32" "list_all wf_txoutput outs" "fits 4 lock_time"
    and "sum_list (map out_value outs) \<le> sum_list (map funded_value coins)" "sum_list (map funded_value coins) \<le> MAX_MONEY"
    and "\<forall>out \<in> set outs. m \<le> out_value out"
  shows "tx_ok t" "tx_check_sanity m t = Inr ()" "tx_outputs t = outs" "map in_prevout (tx_inputs t) = map fst coins"
    and "check_transaction_inputs c t view height p True = Inr (sum_list (map funded_value coins) - sum_list (map out_value outs))"
    and "tx_size t = estimate_size (int (length coins)) (int (length outs))"
proof -
  obtain hasher st where sign: "mk_signature_hasher u = Inr hasher" "foldR (sign_step c sg keys hasher) (enumerate 0 coins)
        \<lparr>sg_witnesses = [], sg_pubkeys = [], sg_scripts = []\<rparr> = Inr st" "signed_with (sg_witnesses st) u = Inr t"
    using assms(2) by (auto simp: sign_inputs_def bnd_eq_Inr)
  obtain ws where ws: "length ws = length coins" "sg_witnesses st = zip [0..<length coins] ws"
      "\<forall>j < length coins. signed_by c sg keys hasher j (snd (coins ! j)) (ws ! j)"
    using sign_loop [OF sign(2)] by (auto simp: caches_ok_def)
  have ins_u: "length (tx_inputs u) = length ws" using ws(1) by (simp add: u)
  have t: "t = u\<lparr>tx_inputs := map2 (\<lambda>ti w. ti\<lparr>in_witness := w\<rparr>) (tx_inputs u) ws\<rparr>"
    using sign(3) signed_with_all [of u 0 ws] ws(2) ins_u by (simp add: u)
  then have fields: "tx_version t = 1" "tx_lock_time t = lock_time" "tx_coinbase_data t = []" "length (tx_inputs t) = length coins"
    using ws(1) by (simp_all add: u)
  show out: "tx_outputs t = outs" using t by (simp add: u)
  have inp: "tx_inputs t ! j = \<lparr>in_prevout = fst (coins ! j), in_sequence = SEQUENCE_FINAL, in_witness = ws ! j\<rparr>"
    if "j < length coins" for j
    using that ws(1) by (simp add: t u)
  show prevouts: "map in_prevout (tx_inputs t) = map fst coins"
    using inp fields(4) by (intro nth_equalityI) simp_all
  have idx: "\<exists>j < length coins. ti = tx_inputs t ! j" if "ti \<in> set (tx_inputs t)" for ti
    using that unfolding in_set_conv_nth fields(4) by blast
  have lens: "map length (in_witness ti) = [33, 64]" if ti: "ti \<in> set (tx_inputs t)" for ti
  proof -
    obtain j where j: "j < length coins" "ti = tx_inputs t ! j" using idx [OF ti] by blast
    then show ?thesis using signed_by_verifies(2) [of c sg keys hasher j "snd (coins ! j)" "ws ! j" t] assms(3-5) ws(3) inp fields(4) by simp
  qed
  have coin: "wf_outpoint (fst x) \<and> \<not> is_null (fst x) \<and> view (fst x) = Some (snd x) \<and> co_output_type (snd x) = OUTPUT_P2PKH \<and>
      is_spendable_at height (pm_coinbase_maturity p) (snd x)" if "x \<in> set coins" for x
    using assms(6) that unfolding spendable_coins_def by (cases x) auto
  have wf_in: "wf_txinput ti \<and> \<not> is_null (in_prevout ti) \<and> stack_ok (in_witness ti)" if ti: "ti \<in> set (tx_inputs t)" for ti
  proof -
    obtain j where j: "j < length coins" "ti = tx_inputs t ! j" using idx [OF ti] by blast
    obtain a b where "in_witness ti = [a, b]" "length a = 33" "length b = 64" using lens [OF ti] by (auto simp: map_eq_Cons_conv)
    then have "stack_ok (in_witness ti)" by (simp add: stack_ok_def fits_def MAX_WITNESS_ITEM_SIZE_def)
    then show ?thesis using j inp coin [of "coins ! j"] by (simp add: wf_txinput_def SEQUENCE_FINAL_def fits_def)
  qed
  have fit8: "fits 8 (int n)" if "n < 2 ^ 32" for n :: nat
  proof -
    have "int n < 2 ^ 32" using that by (metis of_nat_less_iff of_nat_numeral of_nat_power)
    then show ?thesis by (simp add: fits_def)
  qed
  show ok: "tx_ok t"
    using wf_in assms(8-13) fields out fit8
    by (auto simp: tx_ok_def wf_transaction_def list_all_iff fits_def MAX_COINBASE_DATA_def)
  have nocb: "\<not> is_coinbase t"
    using wf_in by (auto simp: is_coinbase_def split: list.splits)
  have total: "total_output t = sum_list (map out_value outs)" by (simp add: total_output_def out)
  have shape: "check_witness_shape ti = Inr ()" if "ti \<in> set (tx_inputs t)" for ti
    using lens [OF that] by (auto simp: check_witness_shape_def map_eq_Cons_conv tx_constants)
  show "tx_check_sanity m t = Inr ()"
    using nocb assms(6,8,10,14,15,16) fields out total wf_in shape
    by (auto simp: tx_check_sanity_def check_inputs_distinct_iff list_ex_iff prevouts spendable_coins_def)
  have "inputs_ok c t view height (pm_coinbase_maturity p) (Some hasher) 0 (map snd coins) (tx_inputs t)"
  proof (rule inputs_ok_nth)
    fix j assume "j < length (map snd coins)"
    then have j: "j < length coins" by simp
    have "unlocks c t (Some hasher) j (snd (coins ! j)) = Inr True"
      using signed_by_verifies(1) [of c sg keys hasher j "snd (coins ! j)" "ws ! j" t] assms(3-5) ws(3) j inp fields(4) coin [of "coins ! j"]
      by (simp add: unlocks_def)
    then show "input_ok c t view height (pm_coinbase_maturity p) (Some hasher) (0 + j) (map snd coins ! j) (tx_inputs t ! j)"
      using j inp coin [of "coins ! j"] by (simp add: input_ok_def)
  qed (simp add: fields)
  moreover have "strip_witness t = strip_witness u"
    using inp fields(4) by (auto simp: strip_witness_def t u intro!: nth_equalityI)
  then have "serialize_body u = serialize_body t" by (metis serialize_body_strip)
  then have "mk_signature_hasher u = mk_signature_hasher t" by (simp add: mk_signature_hasher_def)
  then have "hasher = \<lparr>sh_state = varbytes_bytes SIGHASH_TAG @ body_bytes t\<rparr>"
    using sign(1) mk_signature_hasher_ok [OF ok] by simp
  moreover have "coin_sum (map snd coins) = sum_list (map funded_value coins)"
    by (simp add: coin_sum_def funded_value_def [abs_def] comp_def)
  ultimately show "check_transaction_inputs c t view height p True =
      Inr (sum_list (map funded_value coins) - sum_list (map out_value outs))"
    unfolding check_transaction_inputs_iff [OF assms(7) ok] using nocb assms(14,15) total
    by (intro conjI exI [of _ "map snd coins"]) simp_all
  show "tx_size t = estimate_size (int (length coins)) (int (length outs))"
    using p2pkh_tx_size [OF ok fields(3)] lens fields(4) out by simp
qed

lemma spendable_sub:
  assumes "spendable_coins view height p coins" "mset chosen \<subseteq># mset coins"
  shows "spendable_coins view height p chosen"
proof -
  have "mset (map fst chosen) \<subseteq># mset (map fst coins)"
    unfolding mset_map by (rule image_mset_subseteq_mono [OF assms(2)])
  then have le: "count (mset (map fst chosen)) a \<le> count (mset (map fst coins)) a" for a by (rule mset_subset_eq_count)
  have "count (mset (map fst coins)) a \<le> 1" for a
    using assms(1) distinct_count_atmost_1 [of "map fst coins"] by (simp add: spendable_coins_def)
  then have "count (mset (map fst chosen)) a \<le> 1" for a using le order_trans by blast
  then have "distinct (map fst chosen)"
    unfolding distinct_count_atmost_1 by (metis count_eq_zero_iff le_neq_implies_less less_one set_mset_mset)
  moreover have "set chosen \<subseteq> set coins" using set_mset_mono [OF assms(2)] by simp
  ultimately show ?thesis using assms(1) by (auto simp: spendable_coins_def)
qed

lemma funds_nonneg: "(\<And>x. x \<in># S \<Longrightarrow> 0 \<le> funded_value x) \<Longrightarrow> 0 \<le> funds S"
  by (induction S) simp_all

lemma funds_sub:
  assumes "spendable_coins view height p coins" "coins_nonneg view" "mset chosen \<subseteq># mset coins"
  shows "sum_list (map funded_value chosen) \<le> sum_list (map funded_value coins)"
proof -
  have "0 \<le> funded_value x" if "x \<in># mset coins" for x
    using assms(1,2) that by (cases x) (auto simp: spendable_coins_def coins_nonneg_def funded_value_def)
  moreover obtain R where R: "mset coins = mset chosen + R" using assms(3) by (metis subset_mset.add_diff_inverse)
  ultimately have "0 \<le> funds R" by (intro funds_nonneg) simp
  then have "funds (mset chosen) \<le> funds (mset coins)" by (simp add: R funds_def)
  then show ?thesis by (simp add: funds_mset)
qed

lemma fee_mono: "a \<le> b \<Longrightarrow> fee_for_size a rate \<le> fee_for_size b rate"
proof -
  assume "a \<le> b"
  then have "0 < rate \<Longrightarrow> (a * rate + 999) div 1000 \<le> (b * rate + 999) div 1000"
    by (intro zdiv_mono1) (simp_all add: mult_right_mono)
  then show ?thesis by (auto simp: fee_for_size_def)
qed

lemma fewer_outputs: "estimate_size n m \<le> estimate_size n (m + 1)"
  by (simp add: estimate_size_def varint_size_def PER_OUTPUT_BYTES_def)

definition pay_output :: "bytes \<times> int \<Rightarrow> txoutput" where
  "pay_output x = \<lparr>out_type = OUTPUT_P2PKH, out_value = snd x, out_payload = fst x\<rparr>"

lemma p2pkh_pay: "txoutput_p2pkh v h = Inr out \<longleftrightarrow> out = pay_output (h, v) \<and> wf_txoutput out"
  by (auto simp: txoutput_p2pkh_def mk_txoutput_iff pay_output_def)

lemma mapR_pay: "mapR (\<lambda>(h, v). txoutput_p2pkh v h) targets = Inr outs \<longleftrightarrow>
    outs = map pay_output targets \<and> list_all wf_txoutput outs"
proof (induction targets arbitrary: outs)
  case (Cons x targets)
  have "mapR (\<lambda>(h, v). txoutput_p2pkh v h) (x # targets) = Inr outs \<longleftrightarrow>
      (\<exists>out outs'. outs = out # outs' \<and> (case x of (h, v) \<Rightarrow> txoutput_p2pkh v h) = Inr out \<and>
        mapR (\<lambda>(h, v). txoutput_p2pkh v h) targets = Inr outs')"
    by (simp only: mapR.simps bnd_eq_Inr) blast
  moreover have "(case x of (h, v) \<Rightarrow> txoutput_p2pkh v h) = Inr out \<longleftrightarrow> out = pay_output x \<and> wf_txoutput out" for out
    by (cases x) (simp add: p2pkh_pay)
  ultimately show ?case using Cons.IH by auto
qed auto

lemma mapR_targets: "mapR (resolve_target p) outputs = Inr targets \<Longrightarrow> map snd targets = map snd outputs"
  by (induction outputs arbitrary: targets) (auto simp: resolve_target_def bnd_eq_Inr)

lemma build_transactionD:
  assumes "build_transaction c sg coins keys outputs change_hash rate p lock_time = Inr b"
  shows "\<exists>targets fee outs u. mapR (resolve_target p) outputs = Inr targets \<and> outputs \<noteq> [] \<and>
    select_coins coins (sum_list (map snd outputs)) rate (int (length outputs)) = Inr (bu_coins b, fee) \<and>
    bu_total_input b = sum_list (map funded_value (bu_coins b)) \<and>
    outs = map pay_output (targets @ (if bu_change b = 0 then [] else [(change_hash, bu_change b)])) \<and> list_all wf_txoutput outs \<and>
    bu_fee b = bu_total_input b - sum_list (map snd outputs) - bu_change b \<and> fee \<le> bu_fee b \<and>
    (bu_change b = 0 \<or> dust_threshold rate < bu_change b) \<and> fits 4 lock_time \<and>
    u = \<lparr>tx_version = 1, tx_inputs = map (\<lambda>x. \<lparr>in_prevout = fst x, in_sequence = SEQUENCE_FINAL, in_witness = []\<rparr>) (bu_coins b),
      tx_outputs = outs, tx_lock_time = lock_time, tx_coinbase_data = []\<rparr> \<and>
    sign_inputs c sg u (bu_coins b) keys = Inr (bu_transaction b)"
proof -
  obtain targets where targets: "mapR (resolve_target p) outputs = Inr targets" "outputs \<noteq> []"
    using assms by (auto simp: build_transaction_def bnd_eq_Inr guard_eq_Inr)
  have amount: "map snd targets = map snd outputs" "length targets = length outputs"
    using mapR_targets [OF targets(1)] mapR_length [OF targets(1)] by simp_all
  have "0 \<le> dust_threshold rate" by (simp add: dust_threshold_def fee_for_size_def le_max_iff_disj)
  then show ?thesis
    using assms targets amount(2)
    by (auto simp: build_transaction_def bnd_eq_Inr guard_eq_Inr Let_def mapR_bare_input mapR_pay amount(1)
        mk_transaction_iff p2pkh_pay split: if_splits)
qed

lemma build_transaction_change:
  assumes "build_transaction c sg coins keys outputs change_hash rate p lock_time = Inr b"
    and "select_coins coins (sum_list (map snd outputs)) rate (int (length outputs)) = Inr (bu_coins b, fee)"
  shows "bu_change b = (let rest = sum_list (map funded_value (bu_coins b)) - sum_list (map snd outputs) - fee
    in if dust_threshold rate < rest then rest else 0)"
proof -
  obtain targets where targets: "mapR (resolve_target p) outputs = Inr targets"
    using assms(1) by (auto simp: build_transaction_def bnd_eq_Inr guard_eq_Inr)
  obtain chosen fee' where sel: "select_coins coins (sum_list (map snd outputs)) rate (int (length outputs)) = Inr (chosen, fee')"
    using assms(2) by blast
  have "bu_coins b = chosen \<and> bu_change b =
      (let rest = sum_list (map funded_value chosen) - sum_list (map snd outputs) - fee'
       in if dust_threshold rate < rest then rest else 0)"
    using assms(1) unfolding build_transaction_def targets bnd_simps mapR_targets [OF targets] mapR_length [OF targets] Let_def sel
    by (auto simp: bnd_eq_Inr guard_eq_Inr split: if_splits)
  then show ?thesis using assms(2) sel by simp
qed

text \<open>
  C24. A payment the wallet builds is accepted. Let the wallet build a payment from mature P2PKH coins of some coin
  view, with keys that own them. Then it spends some of these coins and pays what was asked, in order, with an
  output for the change behind: what is left after the amounts and the fee for the estimated size of a transaction
  with a change output, if this is more than dust, and no output if it is not. The transaction passes the structural checks, the check against the coin
  view accepts every signature and finds the fee that the wallet reports; and that fee is at least the asked rate
  for the actual size, which is the estimated one.
\<close>
theorem payment_accepted:
  assumes "build_transaction c sg coins keys outputs change_hash rate p lock_time = Inr b"
    and "crypto_ok c" "signer_ok c sg" "keys_match c sg keys"
    and "spendable_coins view height p coins" "coins_nonneg view" "sum_list (map funded_value coins) \<le> MAX_MONEY"
    and "length coins < 2 ^ 32" "length outputs < 2 ^ 31"
    and "\<forall>x \<in> set outputs. pm_min_output_value p \<le> snd x" "pm_min_output_value p \<le> dust_threshold rate"
  shows "tx_check_sanity (pm_min_output_value p) (bu_transaction b) = Inr () \<and>
    check_transaction_inputs c (bu_transaction b) view height p True = Inr (bu_fee b) \<and>
    tx_size (bu_transaction b) = estimate_size (int (length (bu_coins b))) (int (length (tx_outputs (bu_transaction b)))) \<and>
    fee_for_size (tx_size (bu_transaction b)) rate \<le> bu_fee b \<and>
    mset (bu_coins b) \<subseteq># mset coins \<and> map in_prevout (tx_inputs (bu_transaction b)) = map fst (bu_coins b) \<and>
    (\<exists>targets. mapR (resolve_target p) outputs = Inr targets \<and>
       tx_outputs (bu_transaction b) = map pay_output (targets @ (if bu_change b = 0 then [] else [(change_hash, bu_change b)]))) \<and>
    bu_change b = (let rest = sum_list (map funded_value (bu_coins b)) - sum_list (map snd outputs) -
        fee_for_size (estimate_size (int (length (bu_coins b))) (int (length outputs) + 1)) rate
      in if dust_threshold rate < rest then rest else 0)"
proof -
  obtain targets fee outs u where targets: "mapR (resolve_target p) outputs = Inr targets" "outputs \<noteq> []"
    and sel: "select_coins coins (sum_list (map snd outputs)) rate (int (length outputs)) = Inr (bu_coins b, fee)"
    and money: "bu_total_input b = sum_list (map funded_value (bu_coins b))"
      "bu_fee b = bu_total_input b - sum_list (map snd outputs) - bu_change b" "fee \<le> bu_fee b"
      "bu_change b = 0 \<or> dust_threshold rate < bu_change b"
    and outs: "outs = map pay_output (targets @ (if bu_change b = 0 then [] else [(change_hash, bu_change b)]))"
      "list_all wf_txoutput outs" "fits 4 lock_time"
    and u: "u = \<lparr>tx_version = 1, tx_inputs = map (\<lambda>x. \<lparr>in_prevout = fst x, in_sequence = SEQUENCE_FINAL, in_witness = []\<rparr>) (bu_coins b),
      tx_outputs = outs, tx_lock_time = lock_time, tx_coinbase_data = []\<rparr>"
      "sign_inputs c sg u (bu_coins b) keys = Inr (bu_transaction b)"
    using build_transactionD [OF assms(1)] by blast
  note chosen = sel and sel = select_coins_ok [OF sel] and amounts = mapR_targets [OF targets(1)]
  note coins = spendable_sub [OF assms(5) sel(1)] and less = funds_sub [OF assms(5,6) sel(1)]
  have len: "length targets = length outputs" by (rule mapR_length [OF targets(1)])
  have total: "sum_list (map out_value outs) = sum_list (map snd outputs) + bu_change b"
    by (simp add: outs(1) pay_output_def comp_def amounts)
  have "0 \<le> fee" using sel(3) by (simp add: fee_for_size_def le_max_iff_disj)
  then have within: "sum_list (map out_value outs) \<le> sum_list (map funded_value (bu_coins b))"
    using total money(1-3) by simp
  have pay: "\<forall>out \<in> set outs. pm_min_output_value p \<le> out_value out"
  proof -
    have "pm_min_output_value p \<le> a" if "a \<in> snd ` set targets" for a
      using that assms(10) amounts by (metis (no_types, lifting) imageE list.set_map)
    then show ?thesis using money(4) assms(11) by (auto simp: outs(1) pay_output_def)
  qed
  have few: "length (bu_coins b) < 2 ^ 32" using size_mset_mono [OF sel(1)] assms(8) by simp
  have outs_len: "length outs = length outputs + (if bu_change b = 0 then 0 else 1)" by (simp add: outs(1) len)
  have ne: "outs \<noteq> []" using outs_len targets(2) by auto
  have lo: "length outs < 2 ^ 32" using outs_len assms(9) by simp
  have mm: "sum_list (map funded_value (bu_coins b)) \<le> MAX_MONEY" using less assms(7) by simp
  note ok = signed_accepted [OF u assms(2-4) coins assms(6) sel(2) few ne lo outs(2,3) within mm pay]
  have fee: "sum_list (map funded_value (bu_coins b)) - sum_list (map out_value outs) = bu_fee b" using money total by simp
  have ok: "tx_check_sanity (pm_min_output_value p) (bu_transaction b) = Inr ()" "tx_outputs (bu_transaction b) = outs"
      "map in_prevout (tx_inputs (bu_transaction b)) = map fst (bu_coins b)"
      "check_transaction_inputs c (bu_transaction b) view height p True = Inr (bu_fee b)"
      "tx_size (bu_transaction b) = estimate_size (int (length (bu_coins b))) (int (length outs))"
    using ok(2-6) unfolding fee by simp_all
  moreover have "fee_for_size (tx_size (bu_transaction b)) rate \<le> fee"
    unfolding ok(5) sel(3) outs_len using fewer_outputs [of "int (length (bu_coins b))" "int (length outputs)"]
    by (intro fee_mono) (simp add: add.commute)
  then have "fee_for_size (tx_size (bu_transaction b)) rate \<le> bu_fee b" using money(3) by simp
  moreover have "bu_change b = (let rest = sum_list (map funded_value (bu_coins b)) - sum_list (map snd outputs) -
        fee_for_size (estimate_size (int (length (bu_coins b))) (int (length outputs) + 1)) rate
      in if dust_threshold rate < rest then rest else 0)"
    using build_transaction_change [OF assms(1) chosen] unfolding sel(3) by simp
  ultimately show ?thesis using sel(1) targets(1) outs(1) by blast
qed

section \<open>Sweeping\<close>

lemma estimate_mono: "0 \<le> n \<Longrightarrow> n \<le> m \<Longrightarrow> estimate_size n k \<le> estimate_size m k"
  by (simp add: estimate_size_def varint_size_def PER_INPUT_BYTES_def)

declare inputs_search.simps [simp del] batches.simps [simp del]

text \<open>The search finds the largest count that fits.\<close>

lemma inputs_search_correct:
  assumes "0 \<le> low" "low \<le> high" "estimate_size low 1 \<le> budget" "\<And>n. high < n \<Longrightarrow> budget < estimate_size n 1" "0 \<le> n"
  shows "n \<le> inputs_search budget low high \<longleftrightarrow> estimate_size n 1 \<le> budget"
  using assms
proof (induction budget low high rule: inputs_search.induct)
  case (1 budget low high)
  let ?mid = "(low + high + 1) div 2"
  show ?case
  proof (cases "low < high")
    case False
    then show ?thesis
      using "1.prems"(1-3,5) "1.prems"(4) [of n] estimate_mono [of n low 1]
      by (subst inputs_search.simps) (cases "n \<le> low"; simp)
  next
    case True
    then have mid: "low < ?mid" "?mid \<le> high" by auto
    show ?thesis
    proof (cases "estimate_size ?mid 1 \<le> budget")
      case fit: True
      have "n \<le> inputs_search budget ?mid high \<longleftrightarrow> estimate_size n 1 \<le> budget"
        using "1.prems" mid fit by (intro "1.IH"(1) [OF True refl fit]) auto
      then show ?thesis using True fit by (subst inputs_search.simps) (simp add: Let_def)
    next
      case big: False
      have "budget < estimate_size k 1" if "?mid - 1 < k" for k
        using big that "1.prems"(1) mid estimate_mono [of ?mid k 1] by simp
      then have "n \<le> inputs_search budget low (?mid - 1) \<longleftrightarrow> estimate_size n 1 \<le> budget"
        using "1.prems" mid by (intro "1.IH"(2) [OF True refl big]) auto
      then show ?thesis using True big by (subst inputs_search.simps) (simp add: Let_def)
    qed
  qed
qed

lemma max_inputs_correct:
  assumes "estimate_size 0 1 \<le> budget" "0 \<le> n"
  shows "n \<le> max_inputs_for_budget budget \<longleftrightarrow> estimate_size n 1 \<le> budget"
proof -
  have pos: "0 < budget" using assms(1) by (simp add: estimate_size_def varint_size_def PER_OUTPUT_BYTES_def)
  have "budget < estimate_size k 1" if k: "budget div PER_INPUT_BYTES + 1 < k" for k
  proof -
    have "budget < (budget div 140 + 1) * 140" by presburger
    also have "\<dots> \<le> k * 140" using k by (simp add: PER_INPUT_BYTES_def)
    also have "\<dots> \<le> estimate_size k 1" by (simp add: estimate_size_def varint_size_def PER_INPUT_BYTES_def PER_OUTPUT_BYTES_def)
    finally show ?thesis .
  qed
  moreover have "0 \<le> budget div PER_INPUT_BYTES + 1" using pos by (simp add: PER_INPUT_BYTES_def pos_imp_zdiv_nonneg_iff add_nonneg_nonneg)
  ultimately show ?thesis
    using inputs_search_correct [of 0 "budget div PER_INPUT_BYTES + 1" budget n] assms pos by (simp add: max_inputs_for_budget_def)
qed

lemma batches_all:
  assumes "0 < n"
  shows "concat (batches n xs) = xs \<and> (\<forall>b \<in> set (batches n xs). b \<noteq> [] \<and> length b \<le> n \<and> mset b \<subseteq># mset xs)"
  using assms
proof (induction n xs rule: batches.induct)
  case (1 n xs)
  show ?case
  proof (cases "xs = []")
    case False
    have eq: "batches n xs = take n xs # batches n (drop n xs)" using False 1(2) by (subst batches.simps) simp
    have split: "mset xs = mset (take n xs) + mset (drop n xs)" by (metis append_take_drop_id mset_append)
    have ih: "concat (batches n (drop n xs)) = drop n xs"
        "\<forall>b \<in> set (batches n (drop n xs)). b \<noteq> [] \<and> length b \<le> n \<and> mset b \<subseteq># mset (drop n xs)"
      using 1(1) False 1(2) by blast+
    have "mset b \<subseteq># mset xs" if "b \<in> set (batches n (drop n xs))" for b
      using ih(2) that split subset_mset.order_trans by (metis mset_subset_eq_add_right)
    moreover have "mset (take n xs) \<subseteq># mset xs" using split by simp
    ultimately show ?thesis using ih False 1(2) by (auto simp: eq)
  qed (simp add: batches.simps)
qed

lemma build_sweepD:
  assumes "build_sweep_transaction c sg coins keys dest rate p lock_time = Inr b"
  shows "\<exists>h outs u. coins \<noteq> [] \<and> bu_coins b = coins \<and> bu_change b = 0 \<and> bu_total_input b = sum_list (map funded_value coins) \<and>
    bu_fee b = fee_for_size (estimate_size (int (length coins)) 1) rate \<and> bu_fee b < bu_total_input b \<and> resolve p dest = Inr h \<and>
    outs = [pay_output (h, bu_total_input b - bu_fee b)] \<and> list_all wf_txoutput outs \<and> fits 4 lock_time \<and>
    u = \<lparr>tx_version = 1, tx_inputs = map (\<lambda>x. \<lparr>in_prevout = fst x, in_sequence = SEQUENCE_FINAL, in_witness = []\<rparr>) coins,
      tx_outputs = outs, tx_lock_time = lock_time, tx_coinbase_data = []\<rparr> \<and>
    sign_inputs c sg u coins keys = Inr (bu_transaction b)"
  using assms
  by (auto simp: build_sweep_transaction_def bnd_eq_Inr guard_eq_Inr Let_def mapR_bare_input mk_transaction_iff p2pkh_pay)

lemma one_sweep_accepted:
  assumes "build_sweep_transaction c sg batch keys dest rate p lock_time = Inr b"
    and "crypto_ok c" "signer_ok c sg" "keys_match c sg keys"
    and "spendable_coins view height p batch" "coins_nonneg view" "sum_list (map funded_value batch) \<le> MAX_MONEY"
    and "length batch < 2 ^ 32"
  shows "tx_check_sanity 1 (bu_transaction b) = Inr ()"
    and "check_transaction_inputs c (bu_transaction b) view height p True = Inr (bu_fee b)" "bu_coins b = batch"
    and "map in_prevout (tx_inputs (bu_transaction b)) = map fst batch"
    and "tx_size (bu_transaction b) = estimate_size (int (length batch)) 1"
    and "bu_fee b = fee_for_size (tx_size (bu_transaction b)) rate"
    and "\<exists>h. resolve p dest = Inr h \<and> tx_outputs (bu_transaction b) = [pay_output (h, sum_list (map funded_value batch) - bu_fee b)]"
proof -
  obtain h outs u where s: "batch \<noteq> []" "bu_coins b = batch" "bu_total_input b = sum_list (map funded_value batch)"
      "bu_fee b = fee_for_size (estimate_size (int (length batch)) 1) rate" "bu_fee b < bu_total_input b" "resolve p dest = Inr h"
    and outs: "outs = [pay_output (h, bu_total_input b - bu_fee b)]" "list_all wf_txoutput outs" "fits 4 lock_time"
    and u: "u = \<lparr>tx_version = 1, tx_inputs = map (\<lambda>x. \<lparr>in_prevout = fst x, in_sequence = SEQUENCE_FINAL, in_witness = []\<rparr>) batch,
      tx_outputs = outs, tx_lock_time = lock_time, tx_coinbase_data = []\<rparr>"
      "sign_inputs c sg u batch keys = Inr (bu_transaction b)"
    using build_sweepD [OF assms(1)] by blast
  have total: "sum_list (map out_value outs) = bu_total_input b - bu_fee b" by (simp add: outs(1) pay_output_def)
  have fee: "sum_list (map funded_value batch) - sum_list (map out_value outs) = bu_fee b" using total s(3) by simp
  have "0 \<le> bu_fee b" using s(4) by (simp add: fee_for_size_def le_max_iff_disj)
  then have within: "sum_list (map out_value outs) \<le> sum_list (map funded_value batch)" using total s(3) by simp
  have ne: "outs \<noteq> []" and lo: "length outs < 2 ^ 32" and pay: "\<forall>out \<in> set outs. 1 \<le> out_value out"
    using s(5) by (simp_all add: outs(1) pay_output_def)
  note ok = signed_accepted [OF u assms(2-6) s(1) assms(8) ne lo outs(2,3) within assms(7) pay]
  show "tx_check_sanity 1 (bu_transaction b) = Inr ()" "bu_coins b = batch" by (fact ok(2), fact s(2))
  show "check_transaction_inputs c (bu_transaction b) view height p True = Inr (bu_fee b)" using ok(5) by (simp only: fee)
  show "map in_prevout (tx_inputs (bu_transaction b)) = map fst batch" by (fact ok(4))
  show size: "tx_size (bu_transaction b) = estimate_size (int (length batch)) 1" using ok(6) by (simp add: outs(1))
  show "bu_fee b = fee_for_size (tx_size (bu_transaction b)) rate" using s(4) size by simp
  show "\<exists>h. resolve p dest = Inr h \<and> tx_outputs (bu_transaction b) = [pay_output (h, sum_list (map funded_value batch) - bu_fee b)]"
    using ok(3) s(3,6) outs(1) by auto
qed

text \<open>
  C25. A sweep spends everything, in transactions the network relays. When \<^verbatim>\<open>build_sweep_transactions\<close> returns,
  its transactions together spend every given coin, in order and none twice; each of them is accepted by the
  structural checks and against the coin view with exactly the fee for its size, pays the rest to the one
  destination, and is at most half a block large, as the pool demands.
\<close>
theorem sweep_accepted:
  assumes "build_sweep_transactions c sg coins keys dest rate p lock_time most = Inr bs"
    and "crypto_ok c" "signer_ok c sg" "keys_match c sg keys"
    and "spendable_coins view height p coins" "coins_nonneg view" "sum_list (map funded_value coins) \<le> MAX_MONEY"
    and "length coins < 2 ^ 32" "estimate_size 1 1 \<le> pm_max_block_size p div 2"
  shows "concat (map bu_coins bs) = coins \<and>
    (\<forall>b \<in> set bs. map in_prevout (tx_inputs (bu_transaction b)) = map fst (bu_coins b) \<and>
       tx_check_sanity 1 (bu_transaction b) = Inr () \<and>
       check_transaction_inputs c (bu_transaction b) view height p True = Inr (bu_fee b) \<and>
       bu_fee b = fee_for_size (tx_size (bu_transaction b)) rate \<and>
       tx_size (bu_transaction b) \<le> pm_max_block_size p div 2 \<and>
       (\<exists>h. resolve p dest = Inr h \<and> tx_outputs (bu_transaction b) = [pay_output (h, sum_list (map funded_value (bu_coins b)) - bu_fee b)]))"
proof -
  define budget where "budget = pm_max_block_size p div 2"
  define n where "n = (case most of None \<Rightarrow> max 1 (max_inputs_for_budget budget)
      | Some k \<Rightarrow> min (max 1 (max_inputs_for_budget budget)) (max 1 k))"
  have "estimate_size 0 1 \<le> estimate_size 1 1" by (rule estimate_mono) simp_all
  then have room: "estimate_size 0 1 \<le> budget" using assms(9) by (simp add: budget_def)
  then have one: "1 \<le> max_inputs_for_budget budget"
    using max_inputs_correct [of budget 1] assms(9) by (simp add: budget_def)
  then have n: "1 \<le> n" "n \<le> max_inputs_for_budget budget" by (auto simp: n_def split: option.splits)
  have run: "mapR (\<lambda>batch. build_sweep_transaction c sg batch keys dest rate p lock_time) (batches (nat n) coins) = Inr bs"
    using assms(1) unfolding n_def budget_def by (simp add: build_sweep_transactions_def Let_def split: if_splits)
  then have all2: "list_all2 (\<lambda>batch b. build_sweep_transaction c sg batch keys dest rate p lock_time = Inr b) (batches (nat n) coins) bs"
    by (simp add: mapR_all)
  have parts: "concat (batches (nat n) coins) = coins"
      "\<forall>b \<in> set (batches (nat n) coins). b \<noteq> [] \<and> length b \<le> nat n \<and> mset b \<subseteq># mset coins"
    using batches_all [of "nat n" coins] n(1) by simp_all
  have "map bu_coins bs = batches (nat n) coins"
    using all2 by (induction rule: list_all2_induct) (auto dest!: build_sweepD)
  moreover have "map in_prevout (tx_inputs (bu_transaction b)) = map fst (bu_coins b) \<and> tx_check_sanity 1 (bu_transaction b) = Inr () \<and>
      check_transaction_inputs c (bu_transaction b) view height p True = Inr (bu_fee b) \<and>
      bu_fee b = fee_for_size (tx_size (bu_transaction b)) rate \<and> tx_size (bu_transaction b) \<le> budget \<and>
      (\<exists>h. resolve p dest = Inr h \<and> tx_outputs (bu_transaction b) = [pay_output (h, sum_list (map funded_value (bu_coins b)) - bu_fee b)])"
    if b: "b \<in> set bs" for b
  proof -
    obtain i where i: "i < length bs" "b = bs ! i" using b by (metis in_set_conv_nth)
    have "batches (nat n) coins ! i \<in> set (batches (nat n) coins)" using list_all2_lengthD [OF all2] i(1) by simp
    then obtain batch where batch: "batch \<in> set (batches (nat n) coins)" "build_sweep_transaction c sg batch keys dest rate p lock_time = Inr b"
      using list_all2_nthD2 [OF all2 i(1)] i(2) by blast
    then have sub: "mset batch \<subseteq># mset coins" "length batch \<le> nat n" using parts(2) by blast+
    have money: "sum_list (map funded_value batch) \<le> MAX_MONEY" using funds_sub [OF assms(5,6) sub(1)] assms(7) by simp
    have few: "length batch < 2 ^ 32" using size_mset_mono [OF sub(1)] assms(8) by simp
    note ok = one_sweep_accepted [OF batch(2) assms(2-4) spendable_sub [OF assms(5) sub(1)] assms(6) money few]
    have "int (length batch) \<le> max_inputs_for_budget budget" using sub(2) n by linarith
    then have "estimate_size (int (length batch)) 1 \<le> budget"
      using max_inputs_correct [OF room, of "int (length batch)"] by simp
    then show ?thesis using ok by simp
  qed
  ultimately show ?thesis using parts(1) unfolding budget_def by (intro conjI ballI; (simp; fail | blast))
qed

section \<open>Witnesses\<close>

definition demo_owner_hash :: bytes where
  "demo_owner_hash = hash160 keys_crypto (derive_public demo_signer 7)"

definition demo_keys :: key_table where
  "demo_keys = [(demo_owner_hash, \<lparr>sk_secret = demo_secret\<rparr>)]"

definition demo_coins :: "funded list" where
  "demo_coins = map (\<lambda>(i, v). (\<lparr>op_txid = replicate 32 i, op_index = 0\<rparr>,
     \<lparr>co_value = v, co_output_type = OUTPUT_P2PKH, co_payload = demo_owner_hash, co_height = 5, co_is_coinbase = False\<rparr>))
     [(1, 70000), (2, 90000), (3, 20000)]"

definition demo_wallet_view :: coin_view where
  "demo_wallet_view = map_of demo_coins"

theorem select_coins_optimal_witness:
  "map_sum id (\<lambda>(chosen, fee). (map funded_value chosen, fee)) (select_coins demo_coins 100000 1000 1) = Inr ([90000, 70000], 349) \<and>
   \<not> (\<exists>chosen fee. select_coins demo_coins 180000 1000 1 = Inr (chosen, fee)) \<and>
   \<not> (\<exists>S. S \<subseteq># mset demo_coins \<and> S \<noteq> {#} \<and> required 180000 1000 1 (int (size S)) \<le> funds S)"
proof -
  have "\<not> (\<exists>chosen fee. select_coins demo_coins 180000 1000 1 = Inr (chosen, fee))"
  proof
    assume "\<exists>chosen fee. select_coins demo_coins 180000 1000 1 = Inr (chosen, fee)"
    moreover have "(case select_coins demo_coins 180000 1000 1 of Inl _ \<Rightarrow> True | Inr _ \<Rightarrow> False)" by code_simp
    ultimately show False by auto
  qed
  moreover have "map_sum id (\<lambda>(chosen, fee). (map funded_value chosen, fee)) (select_coins demo_coins 100000 1000 1) = Inr ([90000, 70000], 349)"
    by code_simp
  ultimately show ?thesis using select_coins_optimal [of 180000 demo_coins 1000 1] by simp
qed

lemma demo_keys_match: "keys_match keys_crypto demo_signer demo_keys"
proof -
  have "wf_private_key \<lparr>sk_secret = demo_secret\<rparr>" using demo_secret_ok by (simp add: mk_private_key_iff)
  moreover have "from_be demo_secret = 7" by code_simp
  ultimately show ?thesis by (simp add: keys_match_def demo_keys_def demo_owner_hash_def)
qed

lemma demo_coins_spendable: "spendable_coins demo_wallet_view 10 REGTEST demo_coins" "coins_nonneg demo_wallet_view"
  "sum_list (map funded_value demo_coins) \<le> MAX_MONEY" "length demo_coins < 2 ^ 32"
  by (simp_all add: spendable_coins_def demo_wallet_view_def demo_coins_def coins_nonneg_def wf_outpoint_def is_null_def tx_constants
      is_spendable_at_def fits_def funded_value_def)

theorem payment_accepted_witness:
  "\<exists>b. build_transaction keys_crypto demo_signer demo_coins demo_keys [(ToHash (replicate 20 8), 100000)] demo_owner_hash 1000 REGTEST 0 = Inr b \<and>
     check_transaction_inputs keys_crypto (bu_transaction b) demo_wallet_view 10 REGTEST True = Inr (bu_fee b) \<and> bu_fee b = 349"
proof -
  have "(case build_transaction keys_crypto demo_signer demo_coins demo_keys [(ToHash (replicate 20 8), 100000)] demo_owner_hash 1000 REGTEST 0
      of Inl _ \<Rightarrow> False | Inr b \<Rightarrow> bu_fee b = 349)" by code_simp
  then obtain b where b: "build_transaction keys_crypto demo_signer demo_coins demo_keys [(ToHash (replicate 20 8), 100000)]
      demo_owner_hash 1000 REGTEST 0 = Inr b" "bu_fee b = 349"
    by (auto split: sum.splits)
  have "pm_min_output_value REGTEST \<le> 100000" "pm_min_output_value REGTEST \<le> dust_threshold 1000" by code_simp+
  then show ?thesis
    using payment_accepted [OF b(1) keys_crypto_ok demo_keys_match demo_coins_spendable] b by simp
qed

theorem sweep_accepted_witness:
  "\<exists>b1 b2. build_sweep_transactions keys_crypto demo_signer demo_coins demo_keys (ToHash (replicate 20 8)) 1000 REGTEST 0 (Some 2) = Inr [b1, b2] \<and>
     bu_coins b1 @ bu_coins b2 = demo_coins \<and>
     check_transaction_inputs keys_crypto (bu_transaction b1) demo_wallet_view 10 REGTEST True = Inr (bu_fee b1)"
proof -
  have "(case build_sweep_transactions keys_crypto demo_signer demo_coins demo_keys (ToHash (replicate 20 8)) 1000 REGTEST 0 (Some 2)
      of Inl _ \<Rightarrow> False | Inr bs \<Rightarrow> length bs = 2)" by code_simp
  then obtain b1 b2 where b: "build_sweep_transactions keys_crypto demo_signer demo_coins demo_keys (ToHash (replicate 20 8)) 1000 REGTEST 0
      (Some 2) = Inr [b1, b2]"
    by (auto split: sum.splits simp: length_Suc_conv numeral_2_eq_2)
  have "estimate_size 1 1 \<le> pm_max_block_size REGTEST div 2" by code_simp
  then show ?thesis
    using sweep_accepted [OF b keys_crypto_ok demo_keys_match demo_coins_spendable] b by simp
qed

end
