(* ===== verification/Utf8.thy ===== *)
theory Utf8
  imports Serialize
begin

text \<open>
  Python's text and its UTF-8 encoding, for the \<^verbatim>\<open>varstr\<close> methods of \<^verbatim>\<open>core/serialize.py\<close>. A \<open>str\<close> is a list
  of code points; encoding refuses surrogates, and the strict decoder accepts only shortest encodings of
  scalar values.
\<close>

type_synonym utext = "int list"

definition scalar :: "int \<Rightarrow> bool" where
  "scalar p \<longleftrightarrow> 0 \<le> p \<and> p < 0x110000 \<and> \<not> (0xD800 \<le> p \<and> p < 0xE000)"

definition octet :: "int \<Rightarrow> byte" where
  "octet v = word_of_int v"

definition utf8_bytes :: "int \<Rightarrow> bytes" where
  "utf8_bytes p = map octet
     (if p < 0x80 then [p]
      else if p < 0x800 then [0xC0 + p div 64, 0x80 + p mod 64]
      else if p < 0x10000 then [0xE0 + p div 4096, 0x80 + p div 64 mod 64, 0x80 + p mod 64]
      else [0xF0 + p div 262144, 0x80 + p div 4096 mod 64, 0x80 + p div 64 mod 64, 0x80 + p mod 64])"

text \<open>\<^verbatim>\<open>str.encode\<close>; the \<^verbatim>\<open>UnicodeEncodeError\<close> is a \<^verbatim>\<open>ValueError\<close>.\<close>

definition utf8_encode :: "utext \<Rightarrow> bytes result" where
  "utf8_encode s =
     (if list_all scalar s then Inr (concat (map utf8_bytes s)) else Inl (ValueError ''surrogates not allowed''))"

definition continuation :: "byte \<Rightarrow> int option" where
  "continuation b = (let v = uint b in if 0x80 \<le> v \<and> v < 0xC0 then Some (v - 0x80) else None)"

text \<open>One character from the front of a stream; the error is a \<^verbatim>\<open>UnicodeDecodeError\<close>.\<close>

definition utf8_next :: "reader \<Rightarrow> (int \<times> reader) result" where
  "utf8_next s =
     (let bad = Inl (ValueError ''invalid UTF-8'');
          accept = (\<lambda>low p rest. if low \<le> p \<and> scalar p then Inr (p, rest) else bad)
      in case s of
        [] \<Rightarrow> bad
      | b # s \<Rightarrow>
          let v = uint b in
          if v < 0x80 then Inr (v, s)
          else if 0xC0 \<le> v \<and> v < 0xE0 then
            (case s of
               b1 # s \<Rightarrow> (case continuation b1 of Some c1 \<Rightarrow> accept 0x80 ((v - 0xC0) * 64 + c1) s | _ \<Rightarrow> bad)
             | _ \<Rightarrow> bad)
          else if 0xE0 \<le> v \<and> v < 0xF0 then
            (case s of
               b1 # b2 # s \<Rightarrow>
                 (case (continuation b1, continuation b2) of
                    (Some c1, Some c2) \<Rightarrow> accept 0x800 ((v - 0xE0) * 4096 + c1 * 64 + c2) s
                  | _ \<Rightarrow> bad)
             | _ \<Rightarrow> bad)
          else if 0xF0 \<le> v \<and> v < 0xF8 then
            (case s of
               b1 # b2 # b3 # s \<Rightarrow>
                 (case (continuation b1, continuation b2, continuation b3) of
                    (Some c1, Some c2, Some c3) \<Rightarrow> accept 0x10000 ((v - 0xF0) * 262144 + c1 * 4096 + c2 * 64 + c3) s
                  | _ \<Rightarrow> bad)
             | _ \<Rightarrow> bad)
          else bad)"

lemma byte_of_int: "0 \<le> v \<Longrightarrow> v < 256 \<Longrightarrow> uint (octet v) = v"
  by (simp add: octet_def uint_word_of_int)

lemma continuation_iff: "continuation b = Some c \<longleftrightarrow> 0 \<le> c \<and> c < 64 \<and> b = octet (0x80 + c)"
proof
  assume "continuation b = Some c"
  then have c: "0x80 \<le> uint b" "uint b < 0xC0" "c = uint b - 0x80" by (auto simp: continuation_def Let_def split: if_splits)
  have "b = octet (0x80 + c)" unfolding c(3) octet_def by simp
  with c(1,2) show "0 \<le> c \<and> c < 64 \<and> b = octet (0x80 + c)" unfolding c(3) by (intro conjI) (linarith, linarith, assumption)
next
  assume "0 \<le> c \<and> c < 64 \<and> b = octet (0x80 + c)"
  then show "continuation b = Some c" by (simp add: continuation_def byte_of_int)
qed

lemma continuation_byte [simp]: "0 \<le> c \<Longrightarrow> c < 64 \<Longrightarrow> continuation (octet (0x80 + c)) = Some c"
  by (simp add: continuation_iff)

lemma six_bits:
  fixes p :: int
  shows "p div 4096 * 4096 + p div 64 mod 64 * 64 + p mod 64 = p"
    and "p div 262144 * 262144 + p div 4096 mod 64 * 4096 + p div 64 mod 64 * 64 + p mod 64 = p"
    and "p div 64 * 64 + p mod 64 = p"
proof -
  show "p div 64 * 64 + p mod 64 = p" by simp
  have "p div 64 div 64 = p div 4096" using zdiv_zmult2_eq [of 64 p 64] by simp
  then have a: "p div 64 = p div 4096 * 64 + p div 64 mod 64" using div_mult_mod_eq [of "p div 64" 64] by simp
  then show b: "p div 4096 * 4096 + p div 64 mod 64 * 64 + p mod 64 = p" using div_mult_mod_eq [of p 64] by linarith
  have "p div 4096 div 64 = p div 262144" using zdiv_zmult2_eq [of 64 p 4096] by simp
  then have "p div 4096 = p div 262144 * 64 + p div 4096 mod 64" using div_mult_mod_eq [of "p div 4096" 64] by simp
  then show "p div 262144 * 262144 + p div 4096 mod 64 * 4096 + p div 64 mod 64 * 64 + p mod 64 = p" using b by linarith
qed

lemma shift_in:
  fixes k c :: int
  assumes "0 \<le> c" "c < 64"
  shows "(k * 64 + c) div 64 = k" "(k * 64 + c) mod 64 = c"
  using assms by auto

lemma utf8_next_tails:
  assumes "0 \<le> c1" "c1 < 64" "0 \<le> c2" "c2 < 64" "0 \<le> c3" "c3 < 64" "scalar p"
  shows "0 \<le> a \<Longrightarrow> a < 32 \<Longrightarrow> p = a * 64 + c1 \<Longrightarrow> 0x80 \<le> p \<Longrightarrow>
      utf8_next (octet (0xC0 + a) # octet (0x80 + c1) # s) = Inr (p, s)"
    and "0 \<le> a \<Longrightarrow> a < 16 \<Longrightarrow> p = a * 4096 + c1 * 64 + c2 \<Longrightarrow> 0x800 \<le> p \<Longrightarrow>
      utf8_next (octet (0xE0 + a) # octet (0x80 + c1) # octet (0x80 + c2) # s) = Inr (p, s)"
    and "0 \<le> a \<Longrightarrow> a < 8 \<Longrightarrow> p = a * 262144 + c1 * 4096 + c2 * 64 + c3 \<Longrightarrow> 0x10000 \<le> p \<Longrightarrow>
      utf8_next (octet (0xF0 + a) # octet (0x80 + c1) # octet (0x80 + c2) # octet (0x80 + c3) # s) = Inr (p, s)"
  using assms by (simp_all add: utf8_next_def byte_of_int Let_def)

lemma utf8_bytes_cases:
  shows "p < 0x80 \<Longrightarrow> utf8_bytes p = [octet p]"
    and "0x80 \<le> p \<Longrightarrow> p < 0x800 \<Longrightarrow> utf8_bytes p = [octet (0xC0 + p div 64), octet (0x80 + p mod 64)]"
    and "0x800 \<le> p \<Longrightarrow> p < 0x10000 \<Longrightarrow>
      utf8_bytes p = [octet (0xE0 + p div 4096), octet (0x80 + p div 64 mod 64), octet (0x80 + p mod 64)]"
    and "0x10000 \<le> p \<Longrightarrow>
      utf8_bytes p = [octet (0xF0 + p div 262144), octet (0x80 + p div 4096 mod 64), octet (0x80 + p div 64 mod 64),
        octet (0x80 + p mod 64)]"
  by (simp_all add: utf8_bytes_def)

lemma utf8_next_bytes:
  assumes "scalar p"
  shows "utf8_next (utf8_bytes p @ s) = Inr (p, s)"
proof -
  have p: "0 \<le> p" "p < 0x110000" using assms by (simp_all add: scalar_def)
  have low: "0 \<le> p mod 64" "p mod 64 < 64" "0 \<le> p div 64 mod 64" "p div 64 mod 64 < 64"
      "0 \<le> p div 4096 mod 64" "p div 4096 mod 64 < 64" by simp_all
  consider "p < 0x80" | "0x80 \<le> p" "p < 0x800" | "0x800 \<le> p" "p < 0x10000" | "0x10000 \<le> p" by linarith
  then show ?thesis
  proof cases
    case 1
    then show ?thesis using p by (simp add: utf8_next_def utf8_bytes_def byte_of_int Let_def)
  next
    case 2
    then have "0 \<le> p div 64" "p div 64 < 32" using p by auto
    from utf8_next_tails(1) [OF low(1,2) low(1,2) low(1,2) assms this six_bits(3) [of p, symmetric] 2(1), of s]
    show ?thesis by (simp only: utf8_bytes_cases(2) [OF 2] append.simps)
  next
    case 3
    then have "0 \<le> p div 4096" "p div 4096 < 16" using p by auto
    from utf8_next_tails(2) [OF low(3,4) low(1,2) low(1,2) assms this six_bits(1) [of p, symmetric] 3(1), of s]
    show ?thesis by (simp only: utf8_bytes_cases(3) [OF 3] append.simps)
  next
    case 4
    then have "0 \<le> p div 262144" "p div 262144 < 8" using p by auto
    from utf8_next_tails(3) [OF low(5,6) low(3,4) low(1,2) assms this six_bits(2) [of p, symmetric] 4, of s]
    show ?thesis by (simp only: utf8_bytes_cases(4) [OF 4] append.simps)
  qed
qed

lemma utf8_next_canonical:
  assumes "utf8_next s = Inr (p, s')"
  shows "scalar p \<and> s = utf8_bytes p @ s'"
proof -
  obtain b t where s: "s = b # t" using assms by (cases s) (auto simp: utf8_next_def Let_def)
  let ?v = "uint b"
  have b: "b = octet ?v" by (simp add: octet_def)
  have v: "0 \<le> ?v" "?v < 256" by (rule uint_byte_bounds)+
  consider "?v < 0x80" | "0xC0 \<le> ?v" "?v < 0xE0" | "0xE0 \<le> ?v" "?v < 0xF0" | "0xF0 \<le> ?v" "?v < 0xF8"
    using assms by (auto simp: s utf8_next_def Let_def split: if_splits)
  then show ?thesis
  proof cases
    case 1
    then have "p = ?v" "s' = t" using assms by (auto simp: s utf8_next_def Let_def)
    then show ?thesis using 1 v b by (simp add: s utf8_bytes_def scalar_def)
  next
    case 2
    define k where "k = ?v - 0xC0"
    obtain c1 where c: "0 \<le> c1" "c1 < 64" "t = octet (0x80 + c1) # s'" "p = k * 64 + c1" "0x80 \<le> p" "scalar p"
      using assms 2 by (auto simp: s utf8_next_def Let_def continuation_iff k_def split: list.splits option.splits if_splits)
    have "p div 64 = k" "p mod 64 = c1" unfolding c(4) by (rule shift_in [OF c(1,2)])+
    moreover have "p < 0x800" using c(2,4) 2 by (simp add: k_def)
    moreover have "b = octet (0xC0 + k)" using b by (simp add: k_def)
    ultimately show ?thesis using c(3,6) utf8_bytes_cases(2) [OF c(5)] by (simp add: s)
  next
    case 3
    define k where "k = ?v - 0xE0"
    obtain c1 c2 where c: "0 \<le> c1" "c1 < 64" "0 \<le> c2" "c2 < 64" "t = octet (0x80 + c1) # octet (0x80 + c2) # s'"
        "p = k * 4096 + c1 * 64 + c2" "0x800 \<le> p" "scalar p"
      using assms 3 by (auto simp: s utf8_next_def Let_def continuation_iff k_def split: list.splits option.splits if_splits)
    have p: "p = (k * 64 + c1) * 64 + c2" using c(6) by simp
    have "p div 64 = k * 64 + c1" "p mod 64 = c2" unfolding p by (rule shift_in [OF c(3,4)])+
    moreover from this have "p div 64 div 64 = k" "p div 64 mod 64 = c1" using shift_in [OF c(1,2), of k] by simp_all
    moreover have "p div 64 div 64 = p div 4096" using zdiv_zmult2_eq [of 64 p 64] by simp
    moreover have "p < 0x10000" using c(2,4,6) 3 by (simp add: k_def)
    moreover have "b = octet (0xE0 + k)" using b by (simp add: k_def)
    ultimately show ?thesis using c(5,8) utf8_bytes_cases(3) [OF c(7)] by (simp add: s)
  next
    case 4
    define k where "k = ?v - 0xF0"
    obtain c1 c2 c3 where c: "0 \<le> c1" "c1 < 64" "0 \<le> c2" "c2 < 64" "0 \<le> c3" "c3 < 64"
        "t = octet (0x80 + c1) # octet (0x80 + c2) # octet (0x80 + c3) # s'"
        "p = k * 262144 + c1 * 4096 + c2 * 64 + c3" "0x10000 \<le> p" "scalar p"
      using assms 4 by (auto simp: s utf8_next_def Let_def continuation_iff k_def split: list.splits option.splits if_splits)
    have p: "p = ((k * 64 + c1) * 64 + c2) * 64 + c3" using c(8) by simp
    have a: "p div 64 = (k * 64 + c1) * 64 + c2" "p mod 64 = c3" unfolding p by (rule shift_in [OF c(5,6)])+
    have b': "p div 64 div 64 = k * 64 + c1" "p div 64 mod 64 = c2" unfolding a(1) by (rule shift_in [OF c(3,4)])+
    have d: "p div 64 div 64 div 64 = k" "p div 64 div 64 mod 64 = c1" unfolding b'(1) by (rule shift_in [OF c(1,2)])+
    have e: "p div 64 div 64 = p div 4096" "p div 4096 div 64 = p div 262144"
      using zdiv_zmult2_eq [of 64 p 64] zdiv_zmult2_eq [of 64 p 4096] by simp_all
    have "p div 262144 = k" "p div 4096 mod 64 = c1" using d unfolding e by simp_all
    moreover have "b = octet (0xF0 + k)" using b by (simp add: k_def)
    ultimately show ?thesis using c(7,10) utf8_bytes_cases(4) [OF c(9)] a(2) b'(2) by (simp add: s)
  qed
qed

interpretation utf8: codec utf8_bytes utf8_next scalar
  by unfold_locales (simp_all add: utf8_next_bytes utf8_next_canonical)

text \<open>\<^verbatim>\<open>bytes.decode\<close>.\<close>

lemma utf8_next_shorter: "utf8_next s = Inr (p, s') \<Longrightarrow> length s' < length s"
  by (auto dest!: utf8_next_canonical simp: utf8_bytes_def)

function utf8_decode :: "bytes \<Rightarrow> utext result" where
  "utf8_decode s =
     (if s = [] then Inr []
      else case utf8_next s of
        Inl e \<Rightarrow> Inl e
      | Inr (p, s') \<Rightarrow> bnd (utf8_decode s') (\<lambda>ps. Inr (p # ps)))"
  by auto
termination
  by (relation "measure length") (auto intro: utf8_next_shorter)

declare utf8_decode.simps [simp del]

lemma utf8_decode_iff: "utf8_decode s = Inr ps \<longleftrightarrow> utf8_encode ps = Inr s"
proof -
  have "utf8_decode s = Inr ps \<longleftrightarrow> list_all scalar ps \<and> s = concat (map utf8_bytes ps)"
  proof (induction s arbitrary: ps rule: utf8_decode.induct)
    case (1 s)
    have ne: "utf8_bytes p \<noteq> []" for p by (simp add: utf8_bytes_def)
    show ?case
    proof (cases "s = []")
      case True
      then show ?thesis using ne by (subst utf8_decode.simps) (auto simp: concat_eq_Nil_conv)
    next
      case False
      show ?thesis
      proof
        assume "utf8_decode s = Inr ps"
        then obtain p s' qs where p: "utf8_next s = Inr (p, s')" "utf8_decode s' = Inr qs" "ps = p # qs"
          using False by (subst (asm) utf8_decode.simps) (auto simp: bnd_eq_Inr split: sum.splits)
        then show "list_all scalar ps \<and> s = concat (map utf8_bytes ps)"
          using 1 [OF False p(1) refl, of qs] utf8_next_canonical [OF p(1)] by simp
      next
        assume r: "list_all scalar ps \<and> s = concat (map utf8_bytes ps)"
        then obtain p qs where ps: "ps = p # qs" using False by (cases ps) auto
        then have n: "utf8_next s = Inr (p, concat (map utf8_bytes qs))" using r by (simp add: utf8_next_bytes)
        then have "utf8_decode (concat (map utf8_bytes qs)) = Inr qs" using 1 [OF False n refl, of qs] r ps by simp
        then show "utf8_decode s = Inr ps" using False n ps by (subst utf8_decode.simps) simp
      qed
    qed
  qed
  then show ?thesis by (auto simp: utf8_encode_def)
qed

section \<open>Strings on the wire\<close>

definition w_varstr :: "utext \<Rightarrow> writer \<Rightarrow> writer result" where
  "w_varstr s w = bnd (utf8_encode s) (\<lambda>d. w_varbytes d w)"

definition r_varstr :: "int \<Rightarrow> reader \<Rightarrow> (utext \<times> reader) result" where
  "r_varstr max_length s = bnd (r_varbytes (Some max_length) s) (\<lambda>(raw, s).
     case utf8_decode raw of
       Inl _ \<Rightarrow> Inl (SerializationError ''invalid UTF-8 string'')
     | Inr txt \<Rightarrow> Inr (txt, s))"

definition text_bytes :: "utext \<Rightarrow> bytes" where
  "text_bytes s = concat (map utf8_bytes s)"

definition text_ok :: "int \<Rightarrow> utext \<Rightarrow> bool" where
  "text_ok m s \<longleftrightarrow> list_all scalar s \<and> int (length (text_bytes s)) \<le> m \<and> fits 8 (int (length (text_bytes s)))"

lemma w_varstr_iff [codec_simps]: "w_varstr s w = Inr w' \<longleftrightarrow>
    list_all scalar s \<and> fits 8 (int (length (text_bytes s))) \<and> w' = w @ varbytes_bytes (text_bytes s)"
  by (auto simp: w_varstr_def bnd_eq_Inr utf8_encode_def w_varbytes_iff text_bytes_def)

lemma r_varstr_iff: "r_varstr m s = Inr (ps, s') \<longleftrightarrow> text_ok m ps \<and> s = varbytes_bytes (text_bytes ps) @ s'"
proof
  assume "r_varstr m s = Inr (ps, s')"
  then obtain raw s1 where raw: "r_varbytes (Some m) s = Inr (raw, s1)" "(case utf8_decode raw of
        Inl _ \<Rightarrow> Inl (SerializationError ''invalid UTF-8 string'') | Inr txt \<Rightarrow> Inr (txt, s1)) = Inr (ps, s')"
    by (auto simp: r_varstr_def bnd_eq_Inr)
  then have "r_varbytes (Some m) s = Inr (raw, s')" "utf8_decode raw = Inr ps" by (auto split: sum.splits)
  then show "text_ok m ps \<and> s = varbytes_bytes (text_bytes ps) @ s'"
    unfolding utf8_decode_iff r_varbytes_iff by (auto simp: utf8_encode_def text_ok_def text_bytes_def split: if_splits)
next
  assume r: "text_ok m ps \<and> s = varbytes_bytes (text_bytes ps) @ s'"
  then have "utf8_decode (text_bytes ps) = Inr ps"
    unfolding utf8_decode_iff by (simp add: utf8_encode_def text_ok_def text_bytes_def)
  moreover have "r_varbytes (Some m) s = Inr (text_bytes ps, s')"
    unfolding r_varbytes_iff using r by (simp add: text_ok_def)
  ultimately show "r_varstr m s = Inr (ps, s')" by (simp add: r_varstr_def)
qed

interpretation host: codec "\<lambda>ps. varbytes_bytes (text_bytes ps)" "r_varstr 255" "text_ok 255"
  by unfold_locales (simp_all add: r_varstr_iff)

interpretation agent: codec "\<lambda>ps. varbytes_bytes (text_bytes ps)" "r_varstr 128" "text_ok 128"
  by unfold_locales (simp_all add: r_varstr_iff)

end
