(* ===== verification/Protocol.thy ===== *)
theory Protocol
  imports Block Utf8 Raises
begin

text \<open>
  \<^verbatim>\<open>net/protocol.py\<close>: the messages of the peer protocol, their payloads, and the envelope around them. A message
  class is a constructor of \<open>message\<close>; \<^verbatim>\<open>decode_payload\<close> picks the decoder by the command name of an envelope. Text is
  a list of code points, command names are strings of characters.
\<close>

section \<open>Limits\<close>

definition PROTOCOL_VERSION :: int where "PROTOCOL_VERSION = 2"
definition ENVELOPE_SIZE :: nat where "ENVELOPE_SIZE = 24"
definition MAX_PAYLOAD :: int where "MAX_PAYLOAD = 2 * 1024 * 1024"
definition MAX_INV_ITEMS :: int where "MAX_INV_ITEMS = 5000"
definition MAX_ADDR_ITEMS :: int where "MAX_ADDR_ITEMS = 1000"
definition MAX_HEADERS_PER_MESSAGE :: int where "MAX_HEADERS_PER_MESSAGE = 2000"

lemmas protocol_limits = ENVELOPE_SIZE_def MAX_PAYLOAD_def MAX_INV_ITEMS_def MAX_ADDR_ITEMS_def MAX_HEADERS_PER_MESSAGE_def

section \<open>Messages\<close>

definition INV_TX :: int where "INV_TX = 1"
definition INV_BLOCK :: int where "INV_BLOCK = 2"

record inv_item =
  iv_type :: int
  iv_hash :: bytes

definition mk_inv_item :: "int \<Rightarrow> bytes \<Rightarrow> inv_item result" where
  "mk_inv_item ty h =
     (if length h \<noteq> 32 then Inl (ProtocolError ''inventory hash must be 32 bytes'')
      else if ty \<notin> {INV_TX, INV_BLOCK} then Inl (ProtocolError ''unknown inventory type'')
      else Inr \<lparr>iv_type = ty, iv_hash = h\<rparr>)"

definition item_is_block :: "inv_item \<Rightarrow> bool" where
  "item_is_block i \<longleftrightarrow> iv_type i = INV_BLOCK"

record network_address =
  na_host :: utext
  na_port :: int
  na_last_seen :: int

definition mk_network_address :: "utext \<Rightarrow> int \<Rightarrow> int \<Rightarrow> network_address result" where
  "mk_network_address host port last_seen =
     (if host = [] \<or> length host > 255
      then Inl (ProtocolError ''peer host must be between 1 and 255 characters'')
      else if \<not> (1 \<le> port \<and> port \<le> 0xFFFF) then Inl (ProtocolError ''peer port out of range'')
      else Inr \<lparr>na_host = host, na_port = port, na_last_seen = last_seen\<rparr>)"

record version_message =
  ve_version :: int
  ve_user_agent :: utext
  ve_start_height :: int
  ve_nonce :: int
  ve_listen_port :: int
  ve_timestamp :: int
  ve_ephemeral_pubkey :: bytes

datatype message =
    Version version_message
  | VerAck
  | Ping int
  | Pong int
  | GetAddr
  | Addr "network_address list"
  | Inv "inv_item list"
  | GetData "inv_item list"
  | NotFound "inv_item list"
  | GetBlocks "bytes list" bytes
  | GetHeaders "bytes list" bytes
  | HeadersMessage "bytes list"
  | BlockMessage block
  | TxMessage transaction
  | MempoolMessage

fun message_command :: "message \<Rightarrow> string" where
  "message_command (Version _) = ''version''"
| "message_command VerAck = ''verack''"
| "message_command (Ping _) = ''ping''"
| "message_command (Pong _) = ''pong''"
| "message_command GetAddr = ''getaddr''"
| "message_command (Addr _) = ''addr''"
| "message_command (Inv _) = ''inv''"
| "message_command (GetData _) = ''getdata''"
| "message_command (NotFound _) = ''notfound''"
| "message_command (GetBlocks _ _) = ''getblocks''"
| "message_command (GetHeaders _ _) = ''getheaders''"
| "message_command (HeadersMessage _) = ''headers''"
| "message_command (BlockMessage _) = ''block''"
| "message_command (TxMessage _) = ''tx''"
| "message_command MempoolMessage = ''mempool''"

section \<open>Payloads\<close>

definition version_encode :: "version_message \<Rightarrow> bytes result" where
  "version_encode v =
     bnd (w_uint32 (ve_version v) []) (\<lambda>w.
     bnd (w_varstr (ve_user_agent v) w) (\<lambda>w.
     bnd (w_uint32 (ve_start_height v) w) (\<lambda>w.
     bnd (w_uint64 (ve_nonce v) w) (\<lambda>w.
     bnd (w_uint16 (ve_listen_port v) w) (\<lambda>w.
     bnd (w_uint64 (ve_timestamp v) w) (w_varbytes (ve_ephemeral_pubkey v)))))))"

definition version_decode :: "bytes \<Rightarrow> version_message result" where
  "version_decode payload =
     bnd (r_uint32 payload) (\<lambda>(version, s).
     bnd (r_varstr 128 s) (\<lambda>(user_agent, s).
     bnd (r_uint32 s) (\<lambda>(start_height, s).
     bnd (r_uint64 s) (\<lambda>(nonce, s).
     bnd (r_uint16 s) (\<lambda>(listen_port, s).
     bnd (r_uint64 s) (\<lambda>(timestamp, s).
     bnd (if remaining s \<noteq> 0 then r_varbytes (Some 33) s else Inr ([], s)) (\<lambda>(ephemeral_pubkey, s).
     bnd (expect_end s) (\<lambda>_.
     Inr \<lparr>ve_version = version, ve_user_agent = user_agent, ve_start_height = start_height, ve_nonce = nonce,
          ve_listen_port = listen_port, ve_timestamp = timestamp, ve_ephemeral_pubkey = ephemeral_pubkey\<rparr>))))))))"

definition nonce_encode :: "int \<Rightarrow> bytes result" where
  "nonce_encode nonce = w_uint64 nonce []"

definition nonce_decode :: "bytes \<Rightarrow> int result" where
  "nonce_decode payload = bnd (r_uint64 payload) (\<lambda>(nonce, s). bnd (expect_end s) (\<lambda>_. Inr nonce))"

definition empty_decode :: "bytes \<Rightarrow> unit result" where
  "empty_decode payload = (if payload \<noteq> [] then Inl (ProtocolError ''takes no payload'') else Inr ())"

definition w_network_address :: "network_address \<Rightarrow> writer \<Rightarrow> writer result" where
  "w_network_address a w = bnd (w_varstr (na_host a) w) (\<lambda>w.
     bnd (w_uint16 (na_port a) w) (w_uint32 (na_last_seen a)))"

definition r_network_address :: "reader \<Rightarrow> (network_address \<times> reader) result" where
  "r_network_address s = bnd (r_varstr 255 s) (\<lambda>(host, s). bnd (r_uint16 s) (\<lambda>(port, s).
     bnd (r_uint32 s) (\<lambda>(last_seen, s). bnd (mk_network_address host port last_seen) (\<lambda>a. Inr (a, s)))))"

definition addr_encode :: "network_address list \<Rightarrow> bytes result" where
  "addr_encode addresses =
     (if int (length addresses) > MAX_ADDR_ITEMS then Inl (ProtocolError ''too many addresses in one message'')
      else bnd (w_varint (int (length addresses)) []) (foldR w_network_address addresses))"

definition addr_decode :: "bytes \<Rightarrow> network_address list result" where
  "addr_decode payload = bnd (r_varint payload) (\<lambda>(count, s).
     if count > MAX_ADDR_ITEMS then Inl (ProtocolError ''too many addresses in one message'')
     else bnd (r_times (nat count) r_network_address s) (\<lambda>(addresses, s). bnd (expect_end s) (\<lambda>_. Inr addresses)))"

definition w_inv_item :: "inv_item \<Rightarrow> writer \<Rightarrow> writer result" where
  "w_inv_item i w = bnd (w_uint8 (iv_type i) w) (w_hash32 (iv_hash i))"

definition r_inv_item :: "reader \<Rightarrow> (inv_item \<times> reader) result" where
  "r_inv_item s = bnd (r_uint8 s) (\<lambda>(ty, s). bnd (r_hash32 s) (\<lambda>(h, s).
     bnd (mk_inv_item ty h) (\<lambda>i. Inr (i, s))))"

definition inventory_encode :: "inv_item list \<Rightarrow> bytes result" where
  "inventory_encode items =
     (if int (length items) > MAX_INV_ITEMS then Inl (ProtocolError ''too many inventory items in one message'')
      else bnd (w_varint (int (length items)) []) (foldR w_inv_item items))"

definition inventory_decode :: "bytes \<Rightarrow> inv_item list result" where
  "inventory_decode payload = bnd (r_varint payload) (\<lambda>(count, s).
     if count > MAX_INV_ITEMS then Inl (ProtocolError ''too many inventory items in one message'')
     else bnd (r_times (nat count) r_inv_item s) (\<lambda>(items, s). bnd (expect_end s) (\<lambda>_. Inr items)))"

text \<open>The two classes that ask for what follows a locator, \<^verbatim>\<open>GetBlocks\<close> and \<^verbatim>\<open>GetHeaders\<close>, share their payload.\<close>

definition locator_encode :: "bytes list \<Rightarrow> bytes \<Rightarrow> bytes result" where
  "locator_encode locator stop_hash =
     (if locator = [] \<or> length locator > 64
      then Inl (ProtocolError ''a locator must contain between 1 and 64 hashes'')
      else bnd (w_varint (int (length locator)) []) (\<lambda>w.
           bnd (foldR w_hash32 locator w) (w_hash32 stop_hash)))"

definition locator_decode :: "bytes \<Rightarrow> (bytes list \<times> bytes) result" where
  "locator_decode payload = bnd (r_varint payload) (\<lambda>(count, s).
     if \<not> (1 \<le> count \<and> count \<le> 64)
     then Inl (ProtocolError ''a locator must contain between 1 and 64 hashes'')
     else bnd (r_times (nat count) r_hash32 s) (\<lambda>(locator, s).
          bnd (r_hash32 s) (\<lambda>(stop_hash, s). bnd (expect_end s) (\<lambda>_. Inr (locator, stop_hash)))))"

definition w_header80 :: "bytes \<Rightarrow> writer \<Rightarrow> writer result" where
  "w_header80 header w =
     (if length header \<noteq> 80 then Inl (ProtocolError ''each header must be exactly 80 bytes'') else w_raw header w)"

definition headers_encode :: "bytes list \<Rightarrow> bytes result" where
  "headers_encode headers =
     (if int (length headers) > MAX_HEADERS_PER_MESSAGE then Inl (ProtocolError ''too many headers in one message'')
      else bnd (w_varint (int (length headers)) []) (foldR w_header80 headers))"

definition headers_decode :: "bytes \<Rightarrow> bytes list result" where
  "headers_decode payload = bnd (r_varint payload) (\<lambda>(count, s).
     if count > MAX_HEADERS_PER_MESSAGE then Inl (ProtocolError ''too many headers in one message'')
     else bnd (r_times (nat count) (r_raw 80) s) (\<lambda>(headers, s). bnd (expect_end s) (\<lambda>_. Inr headers)))"

fun message_encode :: "message \<Rightarrow> bytes result" where
  "message_encode (Version v) = version_encode v"
| "message_encode (Ping nonce) = nonce_encode nonce"
| "message_encode (Pong nonce) = nonce_encode nonce"
| "message_encode (Addr addresses) = addr_encode addresses"
| "message_encode (Inv items) = inventory_encode items"
| "message_encode (GetData items) = inventory_encode items"
| "message_encode (NotFound items) = inventory_encode items"
| "message_encode (GetBlocks locator stop_hash) = locator_encode locator stop_hash"
| "message_encode (GetHeaders locator stop_hash) = locator_encode locator stop_hash"
| "message_encode (HeadersMessage headers) = headers_encode headers"
| "message_encode (BlockMessage block) = block_serialize block"
| "message_encode (TxMessage t) = tx_serialize t"
| "message_encode VerAck = Inr []"
| "message_encode GetAddr = Inr []"
| "message_encode MempoolMessage = Inr []"

text \<open>The table \<^verbatim>\<open>_MESSAGE_TYPES\<close>: the decoder of each command.\<close>

definition mapped :: "('a \<Rightarrow> 'b) \<Rightarrow> 'a result \<Rightarrow> 'b result" where
  "mapped f r = bnd r (\<lambda>x. Inr (f x))"

definition MESSAGE_TYPES :: "(string \<times> (bytes \<Rightarrow> message result)) list" where
  "MESSAGE_TYPES =
     [(''version'', \<lambda>p. mapped Version (version_decode p)),
      (''verack'', \<lambda>p. mapped (\<lambda>_. VerAck) (empty_decode p)),
      (''ping'', \<lambda>p. mapped Ping (nonce_decode p)),
      (''pong'', \<lambda>p. mapped Pong (nonce_decode p)),
      (''getaddr'', \<lambda>p. mapped (\<lambda>_. GetAddr) (empty_decode p)),
      (''addr'', \<lambda>p. mapped Addr (addr_decode p)),
      (''inv'', \<lambda>p. mapped Inv (inventory_decode p)),
      (''getdata'', \<lambda>p. mapped GetData (inventory_decode p)),
      (''notfound'', \<lambda>p. mapped NotFound (inventory_decode p)),
      (''getblocks'', \<lambda>p. mapped (\<lambda>(locator, stop_hash). GetBlocks locator stop_hash) (locator_decode p)),
      (''getheaders'', \<lambda>p. mapped (\<lambda>(locator, stop_hash). GetHeaders locator stop_hash) (locator_decode p)),
      (''headers'', \<lambda>p. mapped HeadersMessage (headers_decode p)),
      (''block'', \<lambda>p. mapped BlockMessage (block_deserialize p)),
      (''tx'', \<lambda>p. mapped TxMessage (tx_deserialize p)),
      (''mempool'', \<lambda>p. mapped (\<lambda>_. MempoolMessage) (empty_decode p))]"

section \<open>The envelope\<close>

definition string_bytes :: "string \<Rightarrow> bytes" where
  "string_bytes s = map of_char s"

definition encode_payload :: "crypto \<Rightarrow> bytes \<Rightarrow> bytes \<Rightarrow> bytes \<Rightarrow> bytes result" where
  "encode_payload c magic command payload =
     (if length magic \<noteq> 4 then Inl (ProtocolError ''network magic must be 4 bytes'')
      else if command = [] \<or> length command > 12 then Inl (ProtocolError ''invalid command name'')
      else if int (length payload) > MAX_PAYLOAD then Inl (ProtocolError ''payload is too large'')
      else Inr (magic @ command @ replicate (12 - length command) 0 @ to_le 4 (int (length payload)) @
             take 4 (hash256 c payload) @ payload))"

definition encode_message :: "crypto \<Rightarrow> bytes \<Rightarrow> message \<Rightarrow> bytes result" where
  "encode_message c magic m =
     bnd (message_encode m) (\<lambda>payload. encode_payload c magic (string_bytes (message_command m)) payload)"

definition rstrip_zeros :: "bytes \<Rightarrow> bytes" where
  "rstrip_zeros bs = rev (dropWhile (\<lambda>b. b = 0) (rev bs))"

definition parse_header :: "bytes \<Rightarrow> bytes \<Rightarrow> (string \<times> int \<times> bytes) result" where
  "parse_header header magic =
     (if length header \<noteq> ENVELOPE_SIZE then Inl (ProtocolError ''message header must be 24 bytes'')
      else if take 4 header \<noteq> magic then Inl (ProtocolError ''message is for a different network'')
      else
        let raw_command = rstrip_zeros (take 12 (drop 4 header)) in
        if \<not> list_all (\<lambda>b. uint b < 128) raw_command then Inl (ProtocolError ''command name is not ASCII'')
        else if \<not> list_all (\<lambda>b. 32 \<le> uint b \<and> uint b < 127) raw_command
        then Inl (ProtocolError ''command name contains control characters'')
        else
          let n = from_le (take 4 (drop 16 header)) in
          if n > MAX_PAYLOAD then Inl (ProtocolError ''payload is too large'')
          else Inr (map (\<lambda>b. char_of (unat b)) raw_command, n, take 4 (drop 20 header)))"

text \<open>The \<^verbatim>\<open>except\<close> clause around the decoder: \<open>SerializationError\<close> is a \<open>ValueError\<close> as well.\<close>

definition as_protocol_error :: "'a result \<Rightarrow> 'a result" where
  "as_protocol_error r = (case r of
       Inl e \<Rightarrow> Inl (if is_ValueError e then ProtocolError (exn_message e) else e)
     | Inr x \<Rightarrow> Inr x)"

definition decode_payload :: "crypto \<Rightarrow> string \<Rightarrow> bytes \<Rightarrow> bytes option \<Rightarrow> message option result" where
  "decode_payload c command payload checksum =
     (if (case checksum of None \<Rightarrow> False | Some k \<Rightarrow> take 4 (hash256 c payload) \<noteq> k)
      then Inl (ProtocolError ''bad checksum'')
      else case map_of MESSAGE_TYPES command of
        None \<Rightarrow> Inr None
      | Some decode \<Rightarrow> mapped Some (as_protocol_error (decode payload)))"


section \<open>What the decoders accept\<close>

context codec
begin

text \<open>A list behind its count, with a limit on the count.\<close>

lemma counted_iff:
  "bnd (r_varint p) (\<lambda>(count, s).
     if count > limit then Inl e
     else bnd (r_times (nat count) dec s) (\<lambda>(xs, s). bnd (expect_end s) (\<lambda>_. Inr xs))) = Inr xs \<longleftrightarrow>
   int (length xs) \<le> limit \<and> fits 8 (int (length xs)) \<and> list_all ok xs \<and>
   p = varint_bytes (int (length xs)) @ concat (map enc xs)"
proof
  assume "bnd (r_varint p) (\<lambda>(count, s).
     if count > limit then Inl e
     else bnd (r_times (nat count) dec s) (\<lambda>(xs, s). bnd (expect_end s) (\<lambda>_. Inr xs))) = Inr xs"
  then show "int (length xs) \<le> limit \<and> fits 8 (int (length xs)) \<and> list_all ok xs \<and>
      p = varint_bytes (int (length xs)) @ concat (map enc xs)"
    by (auto simp: bnd_eq_Inr guard_eq_Inr vint.dec_iff times_iff expect_end_iff fits_def)
next
  assume "int (length xs) \<le> limit \<and> fits 8 (int (length xs)) \<and> list_all ok xs \<and>
      p = varint_bytes (int (length xs)) @ concat (map enc xs)"
  then show "bnd (r_varint p) (\<lambda>(count, s).
     if count > limit then Inl e
     else bnd (r_times (nat count) dec s) (\<lambda>(xs, s). bnd (expect_end s) (\<lambda>_. Inr xs))) = Inr xs"
    using times_enc [of xs "[]"] by (simp add: vint.dec_enc expect_end_def remaining_def)
qed

end

text \<open>The messages a decoder returns, and their payloads.\<close>

definition version_ok :: "version_message \<Rightarrow> bool" where
  "version_ok v \<longleftrightarrow> fits 4 (ve_version v) \<and> text_ok 128 (ve_user_agent v) \<and> fits 4 (ve_start_height v) \<and>
     fits 8 (ve_nonce v) \<and> fits 2 (ve_listen_port v) \<and> fits 8 (ve_timestamp v) \<and> length (ve_ephemeral_pubkey v) \<le> 33"

definition version_front :: "version_message \<Rightarrow> bytes" where
  "version_front v = to_le 4 (ve_version v) @ varbytes_bytes (text_bytes (ve_user_agent v)) @
     to_le 4 (ve_start_height v) @ to_le 8 (ve_nonce v) @ to_le 2 (ve_listen_port v) @ to_le 8 (ve_timestamp v)"

definition item_ok :: "inv_item \<Rightarrow> bool" where
  "item_ok i \<longleftrightarrow> length (iv_hash i) = 32 \<and> iv_type i \<in> {INV_TX, INV_BLOCK}"

definition item_bytes :: "inv_item \<Rightarrow> bytes" where
  "item_bytes i = to_le 1 (iv_type i) @ iv_hash i"

definition network_address_ok :: "network_address \<Rightarrow> bool" where
  "network_address_ok a \<longleftrightarrow> na_host a \<noteq> [] \<and> length (na_host a) \<le> 255 \<and> text_ok 255 (na_host a) \<and>
     1 \<le> na_port a \<and> na_port a \<le> 0xFFFF \<and> fits 4 (na_last_seen a)"

definition network_address_bytes :: "network_address \<Rightarrow> bytes" where
  "network_address_bytes a = varbytes_bytes (text_bytes (na_host a)) @ to_le 2 (na_port a) @ to_le 4 (na_last_seen a)"

fun message_ok :: "message \<Rightarrow> bool" where
  "message_ok (Version v) \<longleftrightarrow> version_ok v"
| "message_ok (Ping nonce) \<longleftrightarrow> fits 8 nonce"
| "message_ok (Pong nonce) \<longleftrightarrow> fits 8 nonce"
| "message_ok (Addr addresses) \<longleftrightarrow> int (length addresses) \<le> MAX_ADDR_ITEMS \<and> list_all network_address_ok addresses"
| "message_ok (Inv items) \<longleftrightarrow> int (length items) \<le> MAX_INV_ITEMS \<and> list_all item_ok items"
| "message_ok (GetData items) \<longleftrightarrow> int (length items) \<le> MAX_INV_ITEMS \<and> list_all item_ok items"
| "message_ok (NotFound items) \<longleftrightarrow> int (length items) \<le> MAX_INV_ITEMS \<and> list_all item_ok items"
| "message_ok (GetBlocks locator stop_hash) \<longleftrightarrow>
     1 \<le> length locator \<and> length locator \<le> 64 \<and> list_all (\<lambda>h. length h = 32) (stop_hash # locator)"
| "message_ok (GetHeaders locator stop_hash) \<longleftrightarrow>
     1 \<le> length locator \<and> length locator \<le> 64 \<and> list_all (\<lambda>h. length h = 32) (stop_hash # locator)"
| "message_ok (HeadersMessage headers) \<longleftrightarrow>
     int (length headers) \<le> MAX_HEADERS_PER_MESSAGE \<and> list_all (\<lambda>h. length h = 80) headers"
| "message_ok (BlockMessage b) \<longleftrightarrow> block_ok b"
| "message_ok (TxMessage t) \<longleftrightarrow> tx_ok t"
| "message_ok _ \<longleftrightarrow> True"

interpretation inv_items: codec item_bytes r_inv_item item_ok
proof
  show "r_inv_item (item_bytes i @ s) = Inr (i, s)" if "item_ok i" for i s
    using that by (auto simp: r_inv_item_def item_bytes_def item_ok_def u8.dec_enc fits_def INV_TX_def INV_BLOCK_def
        h32.dec_enc mk_inv_item_def)
  show "item_ok i \<and> s = item_bytes i @ s'" if "r_inv_item s = Inr (i, s')" for s i s'
    using that by (auto simp: r_inv_item_def item_bytes_def item_ok_def mk_inv_item_def bnd_eq_Inr guard_eq_Inr
        u8.dec_iff h32.dec_iff)
qed

interpretation network_addresses: codec network_address_bytes r_network_address network_address_ok
proof
  show "r_network_address (network_address_bytes a @ s) = Inr (a, s)" if "network_address_ok a" for a s
    using that by (auto simp: r_network_address_def network_address_bytes_def network_address_ok_def host.dec_enc
        u16.dec_enc u32.dec_enc fits_def mk_network_address_def)
  show "network_address_ok a \<and> s = network_address_bytes a @ s'" if "r_network_address s = Inr (a, s')" for s a s'
    using that by (auto simp: r_network_address_def network_address_bytes_def network_address_ok_def mk_network_address_def
        bnd_eq_Inr guard_eq_Inr host.dec_iff u16.dec_iff u32.dec_iff)
qed

interpretation raw80: codec "\<lambda>d. d" "r_raw 80" "\<lambda>d. length d = 80"
  by unfold_locales (auto simp: r_raw_iff)

lemma fits_small: "int (length xs) \<le> 5000 \<Longrightarrow> fits 8 (int (length xs))"
  by (simp add: fits_def)

lemma text_ok_len: "text_ok m s \<Longrightarrow> list_all scalar s \<and> fits 8 (int (length (text_bytes s)))"
  by (simp add: text_ok_def)

lemma version_decode_iff:
  "version_decode p = Inr v \<longleftrightarrow> version_ok v \<and>
     (version_encode v = Inr p \<or> ve_ephemeral_pubkey v = [] \<and> version_encode v = Inr (p @ [0]))"
proof -
  have enc: "version_encode v = Inr (version_front v @ varbytes_bytes (ve_ephemeral_pubkey v))" if "version_ok v"
    using that text_ok_len [of 128 "ve_user_agent v"]
    by (auto simp: version_encode_def version_ok_def version_front_def bnd_eq_Inr w_uint_iffs w_varstr_iff w_varbytes_iff fits_def)
  have nil: "varbytes_bytes [] = [0]"
    by (simp add: varbytes_bytes_def varint_bytes_def to_le.simps(2))
  have "version_decode p = Inr v \<longleftrightarrow> version_ok v \<and>
     (p = version_front v @ varbytes_bytes (ve_ephemeral_pubkey v) \<or> ve_ephemeral_pubkey v = [] \<and> p = version_front v)"
    (is "_ \<longleftrightarrow> ?r")
  proof
    assume "version_decode p = Inr v"
    then show ?r
      by (auto simp: version_decode_def version_ok_def version_front_def bnd_eq_Inr u32.dec_iff agent.dec_iff u64.dec_iff
          u16.dec_iff r_varbytes_iff expect_end_iff split: if_splits)
  next
    assume ?r
    moreover have "varbytes_bytes (ve_ephemeral_pubkey v) \<noteq> []"
      using length_varint_bytes_pos by (auto simp: varbytes_bytes_def)
    moreover have "r_varbytes (Some 33) (varbytes_bytes (ve_ephemeral_pubkey v)) = Inr (ve_ephemeral_pubkey v, [])"
      if "version_ok v" using that by (auto simp: r_varbytes_iff version_ok_def fits_def)
    ultimately show "version_decode p = Inr v"
      by (auto simp: version_decode_def version_ok_def version_front_def u32.dec_enc agent.dec_enc u64.dec_enc
          u16.dec_enc u64.dec_enc [where s = "[]", simplified] expect_end_def remaining_def)
  qed
  then show ?thesis using enc by (auto simp: nil)
qed

lemma nonce_decode_iff: "nonce_decode p = Inr n \<longleftrightarrow> fits 8 n \<and> nonce_encode n = Inr p"
  by (auto simp: nonce_decode_def nonce_encode_def bnd_eq_Inr u64.dec_iff expect_end_iff w_uint_iffs)

lemma addr_decode_iff:
  "addr_decode p = Inr as \<longleftrightarrow> int (length as) \<le> MAX_ADDR_ITEMS \<and> list_all network_address_ok as \<and> addr_encode as = Inr p"
proof -
  have w: "w_network_address a w = Inr (w @ network_address_bytes a)" if "network_address_ok a" for a w
    using that by (simp add: w_network_address_def network_address_ok_def network_address_bytes_def bnd_eq_Inr w_varstr_iff
        w_uint_iffs text_ok_len fits_def text_ok_def)
  have "foldR w_network_address as w = Inr (w @ concat (map network_address_bytes as))" if "list_all network_address_ok as" for w
    using that by (induction as arbitrary: w) (simp_all add: w)
  then show ?thesis
    unfolding addr_decode_def network_addresses.counted_iff
    by (auto simp: addr_encode_def bnd_eq_Inr w_varint_iff MAX_ADDR_ITEMS_def fits_small)
qed

lemma inventory_decode_iff:
  "inventory_decode p = Inr is \<longleftrightarrow> int (length is) \<le> MAX_INV_ITEMS \<and> list_all item_ok is \<and> inventory_encode is = Inr p"
proof -
  have w: "w_inv_item i w = Inr (w @ item_bytes i)" if "item_ok i" for i w
    using that by (auto simp: w_inv_item_def item_ok_def item_bytes_def bnd_eq_Inr w_uint_iffs w_hash32_iff fits_def
        INV_TX_def INV_BLOCK_def)
  have "foldR w_inv_item is w = Inr (w @ concat (map item_bytes is))" if "list_all item_ok is" for w
    using that by (induction "is" arbitrary: w) (simp_all add: w)
  then show ?thesis
    unfolding inventory_decode_def inv_items.counted_iff
    by (auto simp: inventory_encode_def bnd_eq_Inr w_varint_iff MAX_INV_ITEMS_def fits_small)
qed

lemma headers_decode_iff:
  "headers_decode p = Inr hs \<longleftrightarrow>
     int (length hs) \<le> MAX_HEADERS_PER_MESSAGE \<and> list_all (\<lambda>h. length h = 80) hs \<and> headers_encode hs = Inr p"
proof -
  have "foldR w_header80 hs w = Inr (w @ concat (map (\<lambda>h. h) hs))" if "list_all (\<lambda>h. length h = 80) hs" for w
    using that by (induction hs arbitrary: w) (simp_all add: w_header80_def w_raw_def)
  then show ?thesis
    unfolding headers_decode_def raw80.counted_iff
    by (auto simp: headers_encode_def bnd_eq_Inr w_varint_iff MAX_HEADERS_PER_MESSAGE_def fits_small)
qed

lemma locator_decode_iff:
  "locator_decode p = Inr (hs, stop) \<longleftrightarrow>
     1 \<le> length hs \<and> length hs \<le> 64 \<and> list_all (\<lambda>h. length h = 32) (stop # hs) \<and> locator_encode hs stop = Inr p"
proof -
  have w: "foldR w_hash32 hs w = Inr (w @ concat (map (\<lambda>h. h) hs))" if "list_all (\<lambda>h. length h = 32) hs" for w
    using that by (induction hs arbitrary: w) (simp_all add: w_hash32_def)
  have enc: "locator_encode hs stop = Inr (varint_bytes (int (length hs)) @ concat (map (\<lambda>h. h) hs) @ stop)"
    if "1 \<le> length hs" "length hs \<le> 64" "list_all (\<lambda>h. length h = 32) (stop # hs)"
    using that by (auto simp: locator_encode_def w_varint_iff w bnd_eq_Inr w_hash32_iff fits_def)
  show ?thesis
  proof
    assume "locator_decode p = Inr (hs, stop)"
    then have r: "1 \<le> length hs" "length hs \<le> 64" "list_all (\<lambda>h. length h = 32) (stop # hs)"
        "p = varint_bytes (int (length hs)) @ concat (map (\<lambda>h. h) hs) @ stop"
      by (auto simp: locator_decode_def bnd_eq_Inr guard_eq_Inr vint.dec_iff h32.times_iff h32.dec_iff expect_end_iff)
    then show "1 \<le> length hs \<and> length hs \<le> 64 \<and> list_all (\<lambda>h. length h = 32) (stop # hs) \<and> locator_encode hs stop = Inr p"
      using enc by simp
  next
    assume r: "1 \<le> length hs \<and> length hs \<le> 64 \<and> list_all (\<lambda>h. length h = 32) (stop # hs) \<and> locator_encode hs stop = Inr p"
    then have "p = varint_bytes (int (length hs)) @ concat (map (\<lambda>h. h) hs) @ stop" using enc by simp
    moreover have "r_times (length hs) r_hash32 (concat (map (\<lambda>h. h) hs) @ stop) = Inr (hs, stop)"
      using r h32.times_enc [of hs stop] by simp
    moreover have "r_varint (varint_bytes (int (length hs)) @ s) = Inr (int (length hs), s)" for s
      using r by (intro vint.dec_enc) (simp add: fits_def)
    moreover have "r_hash32 stop = Inr (stop, [])" using r h32.dec_enc [of stop "[]"] by simp
    ultimately show "locator_decode p = Inr (hs, stop)"
      using r by (simp add: locator_decode_def expect_end_def remaining_def)
  qed
qed


text \<open>The payloads of a message: the one its encoder writes, and for a version without a key also that without the
  empty key at its end, which peers of protocol version 1 send.\<close>

definition payload_of :: "message \<Rightarrow> bytes \<Rightarrow> bool" where
  "payload_of m p \<longleftrightarrow> message_encode m = Inr p \<or>
     (\<exists>v. m = Version v \<and> ve_ephemeral_pubkey v = [] \<and> message_encode m = Inr (p @ [0]))"

lemma mapped_Inr [simp]: "mapped f r = Inr y \<longleftrightarrow> (\<exists>x. r = Inr x \<and> y = f x)"
  by (auto simp: mapped_def bnd_eq_Inr)

lemma as_protocol_error_Inr [simp]: "as_protocol_error r = Inr x \<longleftrightarrow> r = Inr x"
  by (cases r) (auto simp: as_protocol_error_def)

lemma empty_decode_Inr [simp]: "empty_decode p = Inr u \<longleftrightarrow> p = []"
  by (auto simp: empty_decode_def)

lemma tx_decode_iff: "tx_deserialize p = Inr t \<longleftrightarrow> tx_ok t \<and> tx_serialize t = Inr p"
  by (auto simp: tx_deserialize_iff tx_ok_serialize)

lemma block_decode_iff: "block_deserialize p = Inr b \<longleftrightarrow> block_ok b \<and> block_serialize b = Inr p"
  by (auto simp: block_deserialize_iff block_ok_serialize)

lemmas decode_iffs = version_decode_iff nonce_decode_iff addr_decode_iff inventory_decode_iff locator_decode_iff
  headers_decode_iff tx_decode_iff block_decode_iff

lemma message_types: "map_of MESSAGE_TYPES (message_command m) \<noteq> None"
  by (cases m) (simp_all add: MESSAGE_TYPES_def)

lemma command_names: "set (map fst MESSAGE_TYPES) = range message_command"
proof
  show "set (map fst MESSAGE_TYPES) \<subseteq> range message_command"
    unfolding MESSAGE_TYPES_def list.map fst_conv list.set
    by (intro insert_subsetI empty_subsetI) (metis message_command.simps rangeI)+
  show "range message_command \<subseteq> set (map fst MESSAGE_TYPES)"
    using message_types by (auto simp: map_of_eq_None_iff)
qed

lemma decoder_commands:
  "list_all (\<lambda>(cmd, d). \<forall>p m. d p = Inr m \<longrightarrow> message_ok m \<and> cmd = message_command m \<and> payload_of m p) MESSAGE_TYPES"
  unfolding MESSAGE_TYPES_def list.pred_inject prod.case
  by (intro conjI allI impI) (auto simp: decode_iffs payload_of_def)

lemma decoder_complete:
  assumes "message_ok m" "payload_of m p"
  shows "\<exists>d. map_of MESSAGE_TYPES (message_command m) = Some d \<and> d p = Inr m"
  using assms by (cases m) (auto simp: MESSAGE_TYPES_def decode_iffs payload_of_def)

lemma decode_payload_iff:
  "decode_payload c cmd p k = Inr (Some m) \<longleftrightarrow>
     message_ok m \<and> cmd = message_command m \<and> payload_of m p \<and> (k = None \<or> k = Some (take 4 (hash256 c p)))"
proof -
  have "(\<exists>d. map_of MESSAGE_TYPES cmd = Some d \<and> d p = Inr m) \<longleftrightarrow> message_ok m \<and> cmd = message_command m \<and> payload_of m p"
    using decoder_commands decoder_complete by (fastforce simp: list_all_iff dest: map_of_SomeD)
  then show ?thesis
    by (cases k) (auto simp: decode_payload_def guard_eq_Inr split: option.splits)
qed

text \<open>
  C19. Messages have one payload. A payload decodes to a message under a command exactly when the message is
  admissible (its fields in their ranges, its lists within the limits), the command is its own, and the payload is
  what the message encodes to; only a version message without a key may also leave out the empty key at its end.
\<close>
theorem message_wire_format:
  "decode_payload c command payload None = Inr (Some m) \<longleftrightarrow>
     message_ok m \<and> command = message_command m \<and>
     (message_encode m = Inr payload \<or>
      (\<exists>v. m = Version v \<and> ve_ephemeral_pubkey v = [] \<and> message_encode m = Inr (payload @ [0])))"
  by (simp add: decode_payload_iff payload_of_def)

section \<open>Envelopes\<close>

lemma unat_of_char [simp]: "unat (of_char ch :: byte) = of_char ch"
proof -
  have "(of_char ch :: byte) = of_nat (of_char ch)" by (rule of_nat_of_char [symmetric])
  then show ?thesis by (simp add: unat_of_nat)
qed

lemma string_of_bytes [simp]: "map (\<lambda>b. char_of (unat b)) (string_bytes command) = command"
  by (simp add: string_bytes_def comp_def)

lemma bytes_of_string [simp]: "string_bytes (map (\<lambda>b. char_of (unat b)) bs) = bs"
proof -
  have "of_char (char_of (unat b) :: char) = b" for b :: byte
  proof -
    have "unat b < 256" using unsigned_less [of b, where 'a = nat] by simp
    then have "(of_char (char_of (unat b) :: char) :: nat) = unat b" by simp
    then have "of_nat (of_char (char_of (unat b) :: char)) = b" by simp
    then show ?thesis by (simp only: of_nat_of_char)
  qed
  then show ?thesis by (simp add: string_bytes_def comp_def)
qed

lemma command_shape:
  "string_bytes (message_command m) \<noteq> [] \<and> length (string_bytes (message_command m)) \<le> 12 \<and>
     list_all (\<lambda>b. 32 \<le> uint b \<and> uint b < 127) (string_bytes (message_command m)) \<and>
     last (string_bytes (message_command m)) \<noteq> 0"
  by (cases m) (simp_all add: string_bytes_def)

lemma rstrip_padded: "bs = [] \<or> last bs \<noteq> 0 \<Longrightarrow> rstrip_zeros (bs @ replicate n 0) = bs"
  by (cases bs rule: rev_cases) (auto simp: rstrip_zeros_def dropWhile_append)

lemma rstrip_pad: "bs = rstrip_zeros bs @ replicate (length bs - length (rstrip_zeros bs)) 0"
proof -
  have "takeWhile (\<lambda>b. b = 0) (rev bs) = replicate (length (takeWhile (\<lambda>b. b = 0) (rev bs))) 0"
    by (rule replicate_length_same [symmetric]) (auto dest: set_takeWhileD)
  moreover have "bs = rstrip_zeros bs @ rev (takeWhile (\<lambda>b. b = 0) (rev bs))"
    unfolding rstrip_zeros_def by (metis rev_append rev_rev_ident takeWhile_dropWhile_id)
  ultimately show ?thesis
    by (metis add_diff_cancel_left' length_append length_rev rev_replicate)
qed

text \<open>What the header of an envelope says, and the envelopes that have one.\<close>

lemma parse_header_iff:
  assumes "length payload = nat n"
  shows "parse_header header magic = Inr (message_command m, n, take 4 (hash256 c payload)) \<and> length (take 4 (hash256 c payload)) = 4 \<longleftrightarrow>
    length header = ENVELOPE_SIZE \<and> n = int (length payload) \<and> length (take 4 (hash256 c payload)) = 4 \<and>
    encode_payload c magic (string_bytes (message_command m)) payload = Inr (header @ payload)"
  (is "?l \<longleftrightarrow> ?r")
proof
  let ?cmd = "string_bytes (message_command m)"
  assume l: ?l
  define raw where "raw = take 12 (drop 4 header)"
  have h: "length header = 24" "take 4 header = magic" "map (\<lambda>b. char_of (unat b)) (rstrip_zeros raw) = message_command m"
      "n = from_le (take 4 (drop 16 header))" "n \<le> MAX_PAYLOAD" "take 4 (hash256 c payload) = take 4 (drop 20 header)"
    using l by (auto simp: parse_header_def Let_def guard_eq_Inr ENVELOPE_SIZE_def raw_def)
  have cmd: "rstrip_zeros raw = ?cmd" using h(3) by (metis bytes_of_string)
  have "length raw = 12" using h(1) by (simp add: raw_def)
  then have raw: "raw = ?cmd @ replicate (12 - length ?cmd) 0" using rstrip_pad [of raw] by (simp add: cmd)
  have n: "n = int (length payload)" using assms h(4) by simp
  have "to_le 4 n = take 4 (drop 16 header)" unfolding h(4) using h(1) by (intro to_le_from_le') simp
  moreover have "header = take 4 header @ raw @ take 4 (drop 16 header) @ take 4 (drop 20 header)"
    using h(1) append_take_drop_id [of 4 header] append_take_drop_id [of 12 "drop 4 header"]
      append_take_drop_id [of 4 "drop 16 header"] unfolding raw_def by simp
  ultimately have "header = magic @ ?cmd @ replicate (12 - length ?cmd) 0 @ to_le 4 n @ take 4 (hash256 c payload)"
    using h(2,6) raw by simp
  then show ?r
    using h n l command_shape [of m] by (auto simp: encode_payload_def ENVELOPE_SIZE_def)
next
  let ?cmd = "string_bytes (message_command m)"
  assume r: ?r
  have ok: "length magic = 4" "int (length payload) \<le> MAX_PAYLOAD"
    and h: "header = magic @ ?cmd @ replicate (12 - length ?cmd) 0 @ to_le 4 n @ take 4 (hash256 c payload)"
    using r by (auto simp: encode_payload_def split: if_splits)
  have pad: "length (?cmd @ replicate (12 - length ?cmd) 0) = 12" using command_shape [of m] by simp
  define raw where "raw = ?cmd @ replicate (12 - length ?cmd) 0"
  have parts: "header = magic @ raw @ to_le 4 n @ take 4 (hash256 c payload)" "length raw = 12"
    using h pad by (simp_all add: raw_def)
  have "rstrip_zeros raw = ?cmd" unfolding raw_def using command_shape [of m] by (intro rstrip_padded) simp
  moreover have "take 12 (drop 4 header) = raw" "take 4 header = magic" "take 4 (drop 16 header) = to_le 4 n"
      "take 4 (drop 20 header) = take 4 (hash256 c payload)"
    using ok(1) parts r by (simp_all add: parts(1))
  moreover have "fits 4 n" using ok(2) r by (simp add: fits_def MAX_PAYLOAD_def)
  moreover have "list_all (\<lambda>b. uint b < 128) ?cmd" using command_shape [of m] by (auto simp: list_all_iff)
  ultimately show ?l
    using r ok command_shape [of m] by (simp add: parse_header_def Let_def)
qed


section \<open>Malformed payloads\<close>

text \<open>What a decoder may raise.\<close>

definition malformed :: "exn \<Rightarrow> bool" where
  "malformed e \<longleftrightarrow> is_ValueError e \<or> (\<exists>why. e = ProtocolError why)"

lemma malformed_simps [simp]: "malformed (SerializationError w)" "malformed (ProtocolError w)" "malformed (TransactionError w)"
    "malformed (BlockError w)" "malformed (AuxPoWError w)"
  by (simp_all add: malformed_def)

lemma readers_malformed [raises_intros]:
  "raises malformed (r_raw n s)" "raises malformed (r_uint8 s)" "raises malformed (r_uint16 s)" "raises malformed (r_uint32 s)"
  "raises malformed (r_uint64 s)" "raises malformed (r_varint s)" "raises malformed (r_varbytes k s)" "raises malformed (r_hash32 s)"
  "raises malformed (expect_end s)" "raises malformed (r_varstr n s)"
  by (auto simp: readers_raise r_varstr_def split: sum.split intro!: raises_intros)

lemma makers_malformed [raises_intros]:
  "raises malformed (mk_outpoint t i)" "raises malformed (mk_txinput op q ws)" "raises malformed (mk_txoutput ty v pl)"
  "raises malformed (mk_transaction ver ins outs lock data)" "raises malformed (mk_block_header a b d e f g)"
  "raises malformed (mk_parent_header a b d e f g)" "raises malformed (mk_inv_item ty h)" "raises malformed (mk_network_address hst prt seen)"
  by (auto simp: mk_outpoint_def mk_txinput_def mk_txoutput_def mk_transaction_def mk_block_header_def mk_parent_header_def
      mk_inv_item_def mk_network_address_def)

lemma tx_malformed [raises_intros]: "raises malformed (tx_read s)" "raises malformed (tx_deserialize s)"
proof -
  have wits: "raises malformed (r_witnessed tis s)" for tis s
    by (induction tis arbitrary: s) (auto simp: r_witness_def intro!: raises_intros)
  show "raises malformed (tx_read s)" for s
    by (auto simp: tx_read_def r_input_def r_output_def intro!: raises_intros wits)
  then show "raises malformed (tx_deserialize s)" by (auto simp: tx_deserialize_def intro!: raises_intros)
qed

lemma wrapped_malformed [raises_intros]: "raises malformed r \<Longrightarrow> raises malformed (wrapped r)"
  by (auto simp: wrapped_def split: sum.splits exn.splits)

lemma auxpow_malformed [raises_intros]: "raises malformed (auxpow_deserialize s)"
  by (auto simp: auxpow_deserialize_def auxpow_read_def r_branch_def parent_header_deserialize_def parent_header_read_def
      intro!: raises_intros)

lemma block_malformed [raises_intros]: "raises malformed (block_deserialize s)"
  by (auto simp: block_deserialize_def header_read_def intro!: raises_intros)

lemma decoders_malformed [raises_intros]:
  "raises malformed (version_decode p)" "raises malformed (nonce_decode p)" "raises malformed (empty_decode p)"
  "raises malformed (addr_decode p)" "raises malformed (inventory_decode p)" "raises malformed (locator_decode p)"
  "raises malformed (headers_decode p)"
  by (auto simp: version_decode_def nonce_decode_def empty_decode_def addr_decode_def inventory_decode_def
      locator_decode_def headers_decode_def r_network_address_def r_inv_item_def intro!: raises_intros)

lemma mapped_raises [raises_intros]: "raises P r \<Longrightarrow> raises P (mapped f r)"
  by (cases r) (simp_all add: mapped_def)

lemma table_malformed: "list_all (\<lambda>(cmd, d). \<forall>p. raises malformed (d p)) MESSAGE_TYPES"
  unfolding MESSAGE_TYPES_def list.pred_inject prod.case by (intro conjI allI raises_intros list.pred_inject(1))

lemma decode_payload_raises: "decode_payload c cmd p k = Inl e \<Longrightarrow> \<exists>why. e = ProtocolError why"
proof -
  have "\<exists>why. e = ProtocolError why" if d: "map_of MESSAGE_TYPES cmd = Some d" "mapped Some (as_protocol_error (d p)) = Inl e" for d
  proof -
    have "raises malformed (d p)" using table_malformed map_of_SomeD [OF d(1)] by (fastforce simp: list_all_iff)
    moreover obtain e' where "d p = Inl e'" "e = (if is_ValueError e' then ProtocolError (exn_message e') else e')"
      using d(2) by (auto simp: mapped_def bnd_eq_Inl as_protocol_error_def split: sum.splits)
    ultimately show ?thesis by (auto simp: malformed_def)
  qed
  then show "decode_payload c cmd p k = Inl e \<Longrightarrow> \<exists>why. e = ProtocolError why"
    by (auto simp: decode_payload_def split: if_splits option.splits)
qed

text \<open>
  C20. Whatever a peer sends, \<^verbatim>\<open>decode_payload\<close> raises nothing but \<^verbatim>\<open>ProtocolError\<close>: the payload is refused with that
  error; or its command is none of the known ones and it is ignored; or it is a message whose command this is. It is
  never ignored and never decoded under a wrong checksum.
\<close>
theorem decode_payload_outcome:
  "(\<exists>why. decode_payload c command payload checksum = Inl (ProtocolError why)) \<or>
   (checksum = None \<or> checksum = Some (take 4 (hash256 c payload))) \<and>
     (decode_payload c command payload checksum = Inr None \<and> command \<notin> range message_command \<or>
      (\<exists>m. decode_payload c command payload checksum = Inr (Some m) \<and> message_ok m \<and> message_command m = command))"
proof (cases "decode_payload c command payload checksum")
  case (Inl e)
  then show ?thesis using decode_payload_raises by blast
next
  case (Inr r)
  show ?thesis
  proof (cases r)
    case None
    then have "map_of MESSAGE_TYPES command = None" "checksum = None \<or> checksum = Some (take 4 (hash256 c payload))"
      using Inr by (auto simp: decode_payload_def guard_eq_Inr split: option.splits if_splits)
    moreover from this have "command \<notin> range message_command" unfolding command_names [symmetric] by (simp add: map_of_eq_None_iff)
    ultimately show ?thesis using Inr None by simp
  next
    case (Some m)
    then show ?thesis using Inr decode_payload_iff [of c command payload checksum m] by auto
  qed
qed

end
