(* ===== verification/Link.thy ===== *)
theory Link
  imports Protocol
begin

text \<open>
  \<^verbatim>\<open>net/cipher.py\<close> and the framed channel of \<^verbatim>\<open>net/peer.py\<close>. The AEAD and the key agreement come from the
  cryptography package: they are the record \<open>primitives\<close>, and \<open>aead_ok\<close> and \<open>agreement_ok\<close> state what it documents of
  them. A TCP connection is the byte string not yet read.
\<close>

section \<open>Encryption\<close>

record primitives =
  aead_seal :: "bytes \<Rightarrow> bytes \<Rightarrow> bytes \<Rightarrow> bytes"
  aead_open :: "bytes \<Rightarrow> bytes \<Rightarrow> bytes \<Rightarrow> bytes option"
  ec_public :: "bytes \<Rightarrow> bytes"
  ec_exchange :: "bytes \<Rightarrow> bytes \<Rightarrow> bytes option"
  hkdf :: "int \<Rightarrow> bytes \<Rightarrow> bytes \<Rightarrow> bytes"

definition NONCE_SIZE :: nat where "NONCE_SIZE = 12"
definition TAG_SIZE :: nat where "TAG_SIZE = 16"
definition KEY_SIZE :: int where "KEY_SIZE = 32"
definition HKDF_INFO :: bytes where "HKDF_INFO = string_bytes ''scarletcoin-p2p/1''"

text \<open>\<^verbatim>\<open>public_bytes\<close> and \<^verbatim>\<open>derive_shared_key\<close>; decoding an invalid point is a \<^verbatim>\<open>ValueError\<close>.\<close>

definition public_bytes :: "primitives \<Rightarrow> bytes \<Rightarrow> bytes" where
  "public_bytes pr key = ec_public pr key"

definition derive_shared_key :: "primitives \<Rightarrow> bytes \<Rightarrow> bytes \<Rightarrow> bytes result" where
  "derive_shared_key pr private_key peer_public_key =
     (case ec_exchange pr private_key peer_public_key of
        None \<Rightarrow> Inl (ValueError ''invalid point'')
      | Some shared \<Rightarrow> Inr (hkdf pr KEY_SIZE HKDF_INFO shared))"

record p2p_cipher =
  pc_key :: bytes
  pc_send_nonce :: int
  pc_recv_nonce :: int

definition mk_cipher :: "bytes \<Rightarrow> p2p_cipher" where
  "mk_cipher key = \<lparr>pc_key = key, pc_send_nonce = 0, pc_recv_nonce = 0\<rparr>"

definition cipher_encrypt :: "primitives \<Rightarrow> bytes \<Rightarrow> p2p_cipher \<Rightarrow> (bytes \<times> p2p_cipher) result" where
  "cipher_encrypt pr plaintext k =
     (if \<not> fits NONCE_SIZE (pc_send_nonce k) then Inl OverflowError
      else
        let nonce = to_be NONCE_SIZE (pc_send_nonce k) in
        Inr (nonce @ aead_seal pr (pc_key k) nonce plaintext, k\<lparr>pc_send_nonce := pc_send_nonce k + 1\<rparr>))"

definition cipher_decrypt :: "primitives \<Rightarrow> bytes \<Rightarrow> p2p_cipher \<Rightarrow> bytes option \<times> p2p_cipher" where
  "cipher_decrypt pr ciphertext k =
     (if length ciphertext < NONCE_SIZE + TAG_SIZE then (None, k)
      else case aead_open pr (pc_key k) (take NONCE_SIZE ciphertext) (drop NONCE_SIZE ciphertext) of
        None \<Rightarrow> (None, k)
      | Some plaintext \<Rightarrow> (Some plaintext, k\<lparr>pc_recv_nonce := pc_recv_nonce k + 1\<rparr>))"

section \<open>The channel\<close>

text \<open>\<^verbatim>\<open>Peer.send\<close>: the bytes handed to the socket. An encoder or a cipher that raises sends nothing.\<close>

definition channel_send ::
    "primitives \<Rightarrow> crypto \<Rightarrow> bytes \<Rightarrow> message \<Rightarrow> p2p_cipher option \<Rightarrow> (bytes \<times> p2p_cipher option) result" where
  "channel_send pr c magic m cipher =
     bnd (message_encode m) (\<lambda>payload.
     bnd (case cipher of
            None \<Rightarrow> Inr (payload, None)
          | Some k \<Rightarrow> bnd (cipher_encrypt pr payload k) (\<lambda>(sealed, k). Inr (sealed, Some k))) (\<lambda>(payload, cipher).
     bnd (encode_payload c magic (string_bytes (message_command m)) payload) (\<lambda>data. Inr (data, cipher))))"

definition recv_exactly :: "int \<Rightarrow> bytes \<Rightarrow> (bytes \<times> bytes) result" where
  "recv_exactly n stream =
     (if int (length stream) < n then Inl (PeerDisconnected ''connection closed by the remote end'')
      else Inr (take (nat n) stream, drop (nat n) stream))"

definition channel_receive ::
    "primitives \<Rightarrow> crypto \<Rightarrow> bytes \<Rightarrow> bytes \<Rightarrow> p2p_cipher option \<Rightarrow> (message option \<times> bytes \<times> p2p_cipher option) result" where
  "channel_receive pr c magic stream cipher =
     bnd (recv_exactly (int ENVELOPE_SIZE) stream) (\<lambda>(header, stream).
     bnd (parse_header header magic) (\<lambda>(command, n, checksum).
     bnd (recv_exactly n stream) (\<lambda>(payload, stream).
     case cipher of
       None \<Rightarrow> bnd (decode_payload c command payload (Some checksum)) (\<lambda>m. Inr (m, stream, None))
     | Some k \<Rightarrow>
         (case cipher_decrypt pr payload k of
            (None, _) \<Rightarrow> Inl (ProtocolError ''cannot decrypt message (forged or replayed)'')
          | (Some plaintext, k) \<Rightarrow> bnd (decode_payload c command plaintext None) (\<lambda>m. Inr (m, stream, Some k))))))"

text \<open>A conversation in one direction: a list of messages sent, and as many received.\<close>

fun send_all ::
    "primitives \<Rightarrow> crypto \<Rightarrow> bytes \<Rightarrow> message list \<Rightarrow> p2p_cipher option \<Rightarrow> (bytes \<times> p2p_cipher option) result" where
  "send_all pr c magic [] cipher = Inr ([], cipher)"
| "send_all pr c magic (m # ms) cipher =
     bnd (channel_send pr c magic m cipher) (\<lambda>(data, cipher).
     bnd (send_all pr c magic ms cipher) (\<lambda>(rest, cipher). Inr (data @ rest, cipher)))"

fun receive_all ::
    "primitives \<Rightarrow> crypto \<Rightarrow> bytes \<Rightarrow> nat \<Rightarrow> bytes \<Rightarrow> p2p_cipher option \<Rightarrow> (message option list \<times> bytes \<times> p2p_cipher option) result" where
  "receive_all pr c magic 0 stream cipher = Inr ([], stream, cipher)"
| "receive_all pr c magic (Suc n) stream cipher =
     bnd (channel_receive pr c magic stream cipher) (\<lambda>(m, stream, cipher).
     bnd (receive_all pr c magic n stream cipher) (\<lambda>(ms, stream, cipher). Inr (m # ms, stream, cipher)))"

section \<open>Delivery\<close>

definition aead_ok :: "primitives \<Rightarrow> bool" where
  "aead_ok pr \<longleftrightarrow> (\<forall>k n p. aead_open pr k n (aead_seal pr k n p) = Some p \<and>
     length (aead_seal pr k n p) = length p + TAG_SIZE)"

definition agreement_ok :: "primitives \<Rightarrow> bool" where
  "agreement_ok pr \<longleftrightarrow> (\<forall>a b. \<exists>s. ec_exchange pr a (ec_public pr b) = Some s \<and> ec_exchange pr b (ec_public pr a) = Some s)"

lemma shared_key_agrees:
  assumes "agreement_ok pr"
  shows "\<exists>key. derive_shared_key pr a (public_bytes pr b) = Inr key \<and> derive_shared_key pr b (public_bytes pr a) = Inr key"
proof -
  obtain s where "ec_exchange pr a (ec_public pr b) = Some s" "ec_exchange pr b (ec_public pr a) = Some s"
    using assms unfolding agreement_ok_def by blast
  then show ?thesis by (simp add: derive_shared_key_def public_bytes_def)
qed

text \<open>The two ends of a channel: both in the clear, or both with the same key.\<close>

definition same_key :: "p2p_cipher option \<Rightarrow> p2p_cipher option \<Rightarrow> bool" where
  "same_key a b \<longleftrightarrow> map_option pc_key a = map_option pc_key b"

lemma decrypt_encrypted:
  assumes "aead_ok pr" "cipher_encrypt pr p k = Inr (d, k')" "pc_key k2 = pc_key k"
  shows "cipher_decrypt pr d k2 = (Some p, k2\<lparr>pc_recv_nonce := pc_recv_nonce k2 + 1\<rparr>)" "pc_key k' = pc_key k"
    "pc_send_nonce k' = pc_send_nonce k + 1" "d = to_be NONCE_SIZE (pc_send_nonce k) @ aead_seal pr (pc_key k) (to_be NONCE_SIZE (pc_send_nonce k)) p"
proof -
  show d: "d = to_be NONCE_SIZE (pc_send_nonce k) @ aead_seal pr (pc_key k) (to_be NONCE_SIZE (pc_send_nonce k)) p"
    and "pc_key k' = pc_key k" "pc_send_nonce k' = pc_send_nonce k + 1"
    using assms(2) by (auto simp: cipher_encrypt_def Let_def guard_eq_Inr)
  show "cipher_decrypt pr d k2 = (Some p, k2\<lparr>pc_recv_nonce := pc_recv_nonce k2 + 1\<rparr>)"
    using assms(1,3) unfolding d by (simp add: cipher_decrypt_def aead_ok_def)
qed

lemma receive_framed:
  assumes "crypto_ok c" "encode_payload c magic (string_bytes (message_command m)) payload = Inr data"
  shows "channel_receive pr c magic (data @ rest) cipher =
    (case cipher of
       None \<Rightarrow> bnd (decode_payload c (message_command m) payload (Some (take 4 (hash256 c payload)))) (\<lambda>m. Inr (m, rest, None))
     | Some k \<Rightarrow>
         (case cipher_decrypt pr payload k of
            (None, _) \<Rightarrow> Inl (ProtocolError ''cannot decrypt message (forged or replayed)'')
          | (Some plaintext, k) \<Rightarrow> bnd (decode_payload c (message_command m) plaintext None) (\<lambda>m. Inr (m, rest, Some k))))"
proof -
  have four: "length (take 4 (hash256 c payload)) = 4" using assms(1) length_hash256 [of c payload] by simp
  define header where "header = take 24 data"
  have pad: "length (string_bytes (message_command m)) \<le> 12" using command_shape [of m] by simp
  have "length data = 24 + length payload" "drop 24 data = payload"
    using assms(2) four pad by (auto simp: encode_payload_def guard_eq_Inr)
  then have data: "data = header @ payload" "length header = 24"
    using append_take_drop_id [of 24 data] by (simp_all add: header_def)
  then have "parse_header header magic = Inr (message_command m, int (length payload), take 4 (hash256 c payload))"
    using parse_header_iff [of payload "int (length payload)" header magic m c] assms(2) four
    by (simp add: ENVELOPE_SIZE_def)
  then show ?thesis
    by (simp add: channel_receive_def recv_exactly_def ENVELOPE_SIZE_def data)
qed

lemma receive_sent:
  assumes "crypto_ok c" "aead_ok pr" "message_ok m" "channel_send pr c magic m sender = Inr (data, sender')" "same_key sender receiver"
  shows "\<exists>receiver'. channel_receive pr c magic (data @ rest) receiver = Inr (Some m, rest, receiver') \<and> same_key sender' receiver'"
proof -
  obtain payload where p: "message_encode m = Inr payload" using assms(4) by (auto simp: channel_send_def bnd_eq_Inr)
  then have dec: "decode_payload c (message_command m) payload k = Inr (Some m)" if "k = None \<or> k = Some (take 4 (hash256 c payload))" for k
    unfolding decode_payload_iff using assms(3) that by (simp add: payload_of_def)
  show ?thesis
  proof (cases sender)
    case None
    then have "encode_payload c magic (string_bytes (message_command m)) payload = Inr data" "sender' = None" "receiver = None"
      using assms(4,5) p by (auto simp: channel_send_def bnd_eq_Inr same_key_def)
    then show ?thesis using dec by (simp add: receive_framed [OF assms(1)] same_key_def)
  next
    case (Some k)
    then obtain d k' where d: "cipher_encrypt pr payload k = Inr (d, k')" "sender' = Some k'"
        "encode_payload c magic (string_bytes (message_command m)) d = Inr data"
      using assms(4) p by (auto simp: channel_send_def bnd_eq_Inr)
    obtain k2 where k2: "receiver = Some k2" "pc_key k2 = pc_key k" using assms(5) Some by (cases receiver) (auto simp: same_key_def)
    show ?thesis
      using dec decrypt_encrypted [OF assms(2) d(1) k2(2)] d(2) k2
      by (simp add: receive_framed [OF assms(1) d(3)] same_key_def)
  qed
qed

text \<open>
  C21. A channel delivers what is sent, in order. Let the two ends be in the clear or hold the same key. Whatever
  admissible messages one end sends, the other end, reading as many messages from the bytes sent, receives exactly these
  in the same order, and leaves the bytes that follow.
\<close>
theorem channel_delivers:
  assumes "crypto_ok c" "aead_ok pr" "list_all message_ok ms" "same_key sender receiver"
    and "send_all pr c magic ms sender = Inr (data, sender')"
  shows "\<exists>receiver'. receive_all pr c magic (length ms) (data @ rest) receiver = Inr (map Some ms, rest, receiver')"
  using assms(3-5)
proof (induction ms arbitrary: sender receiver data)
  case Nil
  then show ?case by simp
next
  case (Cons m ms)
  obtain d1 s1 d2 where s: "channel_send pr c magic m sender = Inr (d1, s1)" "send_all pr c magic ms s1 = Inr (d2, sender')"
      "data = d1 @ d2"
    using Cons.prems(3) by (auto simp: bnd_eq_Inr)
  obtain r1 where r1: "channel_receive pr c magic (d1 @ d2 @ rest) receiver = Inr (Some m, d2 @ rest, r1)" "same_key s1 r1"
    using receive_sent [OF assms(1,2) _ s(1) Cons.prems(2)] Cons.prems(1) by auto
  then show ?case using Cons.IH [OF _ r1(2) s(2)] Cons.prems(1) s(3) by auto
qed

section \<open>What the cipher does not do\<close>

fun encrypt_all :: "primitives \<Rightarrow> bytes list \<Rightarrow> p2p_cipher \<Rightarrow> (bytes list \<times> p2p_cipher) result" where
  "encrypt_all pr [] k = Inr ([], k)"
| "encrypt_all pr (p # ps) k = bnd (cipher_encrypt pr p k) (\<lambda>(d, k). bnd (encrypt_all pr ps k) (\<lambda>(ds, k). Inr (d # ds, k)))"

lemma encrypt_all_nth:
  "encrypt_all pr ps k = Inr (ds, k') \<Longrightarrow> i < length ps \<Longrightarrow>
     ds ! i = to_be NONCE_SIZE (pc_send_nonce k + int i) @
       aead_seal pr (pc_key k) (to_be NONCE_SIZE (pc_send_nonce k + int i)) (ps ! i)"
proof (induction ps arbitrary: k ds i)
  case (Cons p ps)
  obtain d k1 es where d: "cipher_encrypt pr p k = Inr (d, k1)" "encrypt_all pr ps k1 = Inr (es, k')" "ds = d # es"
    using Cons.prems(1) by (auto simp: bnd_eq_Inr)
  have k1: "pc_key k1 = pc_key k" "pc_send_nonce k1 = pc_send_nonce k + 1"
      "d = to_be NONCE_SIZE (pc_send_nonce k) @ aead_seal pr (pc_key k) (to_be NONCE_SIZE (pc_send_nonce k)) p"
    using d(1) by (auto simp: cipher_encrypt_def Let_def guard_eq_Inr)
  show ?case
  proof (cases i)
    case (Suc j)
    then show ?thesis using Cons.IH [OF d(2), of j] Cons.prems(2) k1 d(3) by (simp add: algebra_simps)
  qed (simp add: d(3) k1)
qed simp

lemma receive_replayed:
  assumes "crypto_ok c" "aead_ok pr" "message_ok m" "channel_send pr c magic m sender = Inr (data, sender')" "same_key sender receiver"
  shows "\<exists>receiver'. receive_all pr c magic n (concat (replicate n data) @ rest) receiver = Inr (replicate n (Some m), rest, receiver')"
  using assms(5)
proof (induction n arbitrary: receiver)
  case (Suc n)
  obtain r1 where r1: "channel_receive pr c magic (data @ concat (replicate n data) @ rest) receiver =
      Inr (Some m, concat (replicate n data) @ rest, r1)" "same_key sender' r1"
    using receive_sent [OF assms(1-4) Suc.prems] by blast
  have "same_key sender sender'"
    using assms(2,4) decrypt_encrypted(2) [OF assms(2) _ refl]
    by (fastforce simp: channel_send_def bnd_eq_Inr same_key_def split: option.splits)
  then have "same_key sender r1" using r1(2) by (simp add: same_key_def)
  then show ?case using Suc.IH [of r1] r1(1) by auto
qed simp

text \<open>
  C22. The link cipher does not keep what it promises. Let two ends derive their session key from each other's public
  keys. Whatever they encrypt, the \<open>i\<close>-th ciphertext of the one end and the \<open>i\<close>-th of the other are sealed under the
  same key and the same nonce. And a frame that one of them sent is accepted any number of times, by either of them,
  whatever their counters say: replayed and reflected messages are not told from new ones.
\<close>
theorem link_cipher_weakness:
  assumes "agreement_ok pr" "aead_ok pr" "crypto_ok c"
  shows "\<exists>key. derive_shared_key pr a (public_bytes pr b) = Inr key \<and> derive_shared_key pr b (public_bytes pr a) = Inr key \<and>
    (\<forall>ps qs ds es ka kb. encrypt_all pr ps (mk_cipher key) = Inr (ds, ka) \<and> encrypt_all pr qs (mk_cipher key) = Inr (es, kb) \<longrightarrow>
      (\<forall>i < min (length ps) (length qs). \<exists>nonce. ds ! i = nonce @ aead_seal pr key nonce (ps ! i) \<and>
         es ! i = nonce @ aead_seal pr key nonce (qs ! i))) \<and>
    (\<forall>m k data k' r n rest. message_ok m \<and> pc_key k = key \<and> channel_send pr c magic m (Some k) = Inr (data, k') \<and> pc_key r = key \<longrightarrow>
      (\<exists>r'. receive_all pr c magic n (concat (replicate n data) @ rest) (Some r) = Inr (replicate n (Some m), rest, r')))"
proof -
  obtain key where key: "derive_shared_key pr a (public_bytes pr b) = Inr key" "derive_shared_key pr b (public_bytes pr a) = Inr key"
    using shared_key_agrees [OF assms(1)] by blast
  have "\<exists>nonce. ds ! i = nonce @ aead_seal pr key nonce (ps ! i) \<and> es ! i = nonce @ aead_seal pr key nonce (qs ! i)"
    if e: "encrypt_all pr ps (mk_cipher key) = Inr (ds, ka)" "encrypt_all pr qs (mk_cipher key) = Inr (es, kb)"
      "i < min (length ps) (length qs)" for ps qs ds es ka kb i
    using encrypt_all_nth [OF e(1)] encrypt_all_nth [OF e(2)] e(3) by (auto simp: mk_cipher_def)
  moreover have "\<exists>r'. receive_all pr c magic n (concat (replicate n data) @ rest) (Some r) = Inr (replicate n (Some m), rest, r')"
    if m: "message_ok m" "pc_key k = key" "channel_send pr c magic m (Some k) = Inr (data, k')" "pc_key r = key" for m k data k' r n rest
    using receive_replayed [OF assms(3,2) m(1,3), of "Some r"] m(2,4) by (simp add: same_key_def)
  ultimately show ?thesis using key by blast
qed

section \<open>Witnesses\<close>

text \<open>A cipher that appends a constant tag, and a key agreement that adds.\<close>

definition demo_primitives :: primitives where
  "demo_primitives = \<lparr>aead_seal = \<lambda>k n p. p @ replicate 16 0,
     aead_open = \<lambda>k n d. if 16 \<le> length d then Some (take (length d - 16) d) else None,
     ec_public = \<lambda>a. a, ec_exchange = \<lambda>a b. Some (to_le 4 (from_le a + from_le b)),
     hkdf = \<lambda>n info s. s\<rparr>"

lemma demo_primitives_ok: "aead_ok demo_primitives" "agreement_ok demo_primitives"
  by (simp_all add: aead_ok_def agreement_ok_def demo_primitives_def TAG_SIZE_def add.commute)

definition demo_frames :: "(bytes \<times> p2p_cipher option) result" where
  "demo_frames = send_all demo_primitives demo_crypto [1, 2, 3, 4] [Ping 7, VerAck] (Some (mk_cipher [5]))"

lemma value_of: "map_sum id f x = Inr y \<Longrightarrow> \<exists>r. x = Inr r \<and> f r = y"
  by (cases x) auto

lemma demo_frames_Inr: "\<exists>data k. demo_frames = Inr (data, Some k)"
proof -
  have "map_sum id (map_option pc_key \<circ> snd) demo_frames = Inr (Some [5])" by code_simp
  then obtain r where "demo_frames = Inr r" "map_option pc_key (snd r) = Some [5]" using value_of by fastforce
  then show ?thesis by (cases r) auto
qed

theorem channel_delivers_witness:
  "\<exists>data k r. demo_frames = Inr (data, Some k) \<and>
     receive_all demo_primitives demo_crypto [1, 2, 3, 4] 2 (data @ [9]) (Some (mk_cipher [5])) = Inr ([Some (Ping 7), Some VerAck], [9], r)"
proof -
  obtain data k where d: "demo_frames = Inr (data, Some k)" using demo_frames_Inr by blast
  then show ?thesis
    using channel_delivers [OF demo_crypto_ok demo_primitives_ok(1), of "[Ping 7, VerAck]" "Some (mk_cipher [5])"
        "Some (mk_cipher [5])" "[1, 2, 3, 4]" data "Some k" "[9]"]
    by (auto simp: demo_frames_def fits_def same_key_def numeral_2_eq_2)
qed

theorem link_cipher_weakness_witness:
  "\<exists>key. derive_shared_key demo_primitives [1] (public_bytes demo_primitives [2]) = Inr key \<and>
     derive_shared_key demo_primitives [2] (public_bytes demo_primitives [1]) = Inr key"
  using link_cipher_weakness [OF demo_primitives_ok(2,1) demo_crypto_ok, of "[1]" "[2]"] by blast

end
