(* ===== verification/PyFloat.thy ===== *)
theory PyFloat
  imports Prelude "HOL-Library.Log_Nat"
begin

text \<open>
  Python's floats, as far as the memory pool uses them: binary64 values are rationals, and an arithmetic
  operation is the exact one followed by rounding to the nearest value with a 53-bit significand, ties to
  even. The magnitudes in play (amounts, sizes, counts) are far from overflow and from the subnormal range,
  which are not modelled.
\<close>

definition half_even :: "rat \<Rightarrow> int" where
  "half_even q =
     (let f = \<lfloor>q\<rfloor>; d = q - of_int f in
      if d < 1 / 2 then f else if d > 1 / 2 then f + 1 else if even f then f else f + 1)"

definition pow2 :: "int \<Rightarrow> rat" where
  "pow2 e = (if e \<ge> 0 then 2 ^ nat e else 1 / 2 ^ nat (- e))"

text \<open>The exponent of a positive rational \<open>a / b\<close>: \<open>pow2 k \<le> a / b < pow2 (k + 1)\<close>.\<close>

definition binary_exponent :: "rat \<Rightarrow> int" where
  "binary_exponent q =
     (let k = bitlen (fst (quotient_of q)) - bitlen (snd (quotient_of q)) in if pow2 k \<le> q then k else k - 1)"

definition round_float :: "rat \<Rightarrow> rat" where
  "round_float q =
     (if q = 0 then 0
      else let e = binary_exponent \<bar>q\<bar> - 52; r = of_int (half_even (\<bar>q\<bar> / pow2 e)) * pow2 e
           in if q < 0 then - r else r)"

text \<open>The operator \<^verbatim>\<open>/\<close> on ints, which is correctly rounded.\<close>

definition true_div :: "int \<Rightarrow> int \<Rightarrow> rat" where
  "true_div a b = round_float (of_int a / of_int b)"

end
