(* ===== verification/AddrBook.thy ===== *)
theory AddrBook
  imports PyFloat Utf8 "HOL-Library.Product_Lexorder" "HOL-Library.Multiset"
begin

text \<open>
  \<^verbatim>\<open>net/addrbook.py\<close>: the peers a node knows. The dictionaries \<^verbatim>\<open>_entries\<close> and \<^verbatim>\<open>_banned\<close> are association lists in
  insertion order; \<open>now\<close> is the reading of the clock, a float.
\<close>

section \<open>State\<close>

definition MAX_FAILURES :: int where "MAX_FAILURES = 10"
definition STALE_AFTER :: int where "STALE_AFTER = 30 * 24 * 3600"

record address_entry =
  ae_host :: utext
  ae_port :: int
  ae_last_seen :: int
  ae_last_try :: int
  ae_failures :: int
  ae_source :: string

type_synonym address_key = "utext \<times> int"

definition entry_key :: "address_entry \<Rightarrow> address_key" where
  "entry_key e = (ae_host e, ae_port e)"

definition new_entry :: "utext \<Rightarrow> int \<Rightarrow> address_entry" where
  "new_entry host port = \<lparr>ae_host = host, ae_port = port, ae_last_seen = 0, ae_last_try = 0, ae_failures = 0,
     ae_source = ''gossip''\<rparr>"

record address_book =
  ab_entries :: "(address_key \<times> address_entry) list"
  ab_banned :: "(utext \<times> rat) list"

definition empty_book :: address_book where
  "empty_book = \<lparr>ab_entries = [], ab_banned = []\<rparr>"

text \<open>\<^verbatim>\<open>int\<close> of a float truncates.\<close>

definition int_of_float :: "rat \<Rightarrow> int" where
  "int_of_float q = (if 0 \<le> q then \<lfloor>q\<rfloor> else \<lceil>q\<rceil>)"

section \<open>Changes\<close>

text \<open>The dictionary \<^verbatim>\<open>load\<close> builds from the entries of the file; a repeated key takes the later entry.\<close>

definition book_load :: "address_entry list \<Rightarrow> address_book \<Rightarrow> address_book" where
  "book_load es b = b\<lparr>ab_entries := fold (\<lambda>e t. AList.update (entry_key e) e t) es []\<rparr>"

definition book_add :: "rat \<Rightarrow> utext \<Rightarrow> int \<Rightarrow> string \<Rightarrow> int \<Rightarrow> address_book \<Rightarrow> address_book" where
  "book_add now host port source last_seen b =
     (case map_of (ab_entries b) (host, port) of
        None \<Rightarrow> b\<lparr>ab_entries := AList.update (host, port)
          ((new_entry host port)\<lparr>ae_last_seen := (if last_seen \<noteq> 0 then last_seen else int_of_float now), ae_source := source\<rparr>)
          (ab_entries b)\<rparr>
      | Some e \<Rightarrow> b\<lparr>ab_entries := AList.update (host, port) (e\<lparr>ae_last_seen := max (ae_last_seen e) last_seen\<rparr>) (ab_entries b)\<rparr>)"

text \<open>\<^verbatim>\<open>setdefault\<close>.\<close>

definition entry_or_new :: "utext \<Rightarrow> int \<Rightarrow> address_book \<Rightarrow> address_entry" where
  "entry_or_new host port b = (case map_of (ab_entries b) (host, port) of None \<Rightarrow> new_entry host port | Some e \<Rightarrow> e)"

definition mark_success :: "rat \<Rightarrow> utext \<Rightarrow> int \<Rightarrow> address_book \<Rightarrow> address_book" where
  "mark_success now host port b =
     b\<lparr>ab_entries := AList.update (host, port)
        ((entry_or_new host port b)\<lparr>ae_last_seen := int_of_float now, ae_last_try := int_of_float now, ae_failures := 0\<rparr>)
        (ab_entries b)\<rparr>"

definition mark_failure :: "rat \<Rightarrow> utext \<Rightarrow> int \<Rightarrow> address_book \<Rightarrow> address_book" where
  "mark_failure now host port b =
     (let e = entry_or_new host port b;
          e = e\<lparr>ae_last_try := int_of_float now, ae_failures := ae_failures e + 1\<rparr>;
          es = AList.update (host, port) e (ab_entries b)
      in b\<lparr>ab_entries := (if ae_failures e \<ge> MAX_FAILURES then AList.delete (host, port) es else es)\<rparr>)"

definition book_forget :: "utext \<Rightarrow> int \<Rightarrow> address_book \<Rightarrow> address_book" where
  "book_forget host port b = b\<lparr>ab_entries := AList.delete (host, port) (ab_entries b)\<rparr>"

definition book_ban :: "rat \<Rightarrow> utext \<Rightarrow> rat \<Rightarrow> address_book \<Rightarrow> address_book" where
  "book_ban now host seconds b =
     b\<lparr>ab_banned := AList.update host (round_float (now + seconds)) (ab_banned b),
       ab_entries := filter (\<lambda>((h, _), _). h \<noteq> host) (ab_entries b)\<rparr>"

definition is_banned :: "rat \<Rightarrow> utext \<Rightarrow> address_book \<Rightarrow> bool \<times> address_book" where
  "is_banned now host b =
     (case map_of (ab_banned b) host of
        None \<Rightarrow> (False, b)
      | Some until \<Rightarrow>
          if until < now then (False, b\<lparr>ab_banned := AList.delete host (ab_banned b)\<rparr>) else (True, b))"

definition book_prune :: "rat \<Rightarrow> address_book \<Rightarrow> address_book" where
  "book_prune now b =
     (let cutoff = round_float (now - of_int STALE_AFTER) in
      b\<lparr>ab_entries := filter (\<lambda>(_, e). \<not> (ae_source e \<noteq> ''seed'' \<and> ae_last_seen e \<noteq> 0 \<and> of_int (ae_last_seen e) < cutoff))
         (ab_entries b)\<rparr>)"

section \<open>Queries\<close>

definition book_entries :: "address_book \<Rightarrow> address_entry list" where
  "book_entries b = map snd (ab_entries b)"

text \<open>The random order of \<^verbatim>\<open>sample\<close> is an argument.\<close>

definition sample :: "(address_entry list \<Rightarrow> address_entry list) \<Rightarrow> nat \<Rightarrow> address_book \<Rightarrow> address_entry list" where
  "sample shuffle n b = take n (shuffle (book_entries b))"

definition ready :: "rat \<Rightarrow> rat \<Rightarrow> address_entry \<Rightarrow> bool" where
  "ready now retry_delay e \<longleftrightarrow>
     round_float (now - of_int (ae_last_try e)) \<ge> round_float (retry_delay * of_int (ae_failures e + 1))"

fun options_loop ::
    "rat \<Rightarrow> rat \<Rightarrow> address_key set \<Rightarrow> address_entry list \<Rightarrow> address_book \<Rightarrow> address_entry list \<times> address_book" where
  "options_loop now retry_delay exclude [] b = ([], b)"
| "options_loop now retry_delay exclude (e # es) b =
     (if entry_key e \<in> exclude then options_loop now retry_delay exclude es b
      else case is_banned now (ae_host e) b of
        (True, b) \<Rightarrow> options_loop now retry_delay exclude es b
      | (False, b) \<Rightarrow>
          (case options_loop now retry_delay exclude es b of
             (os, b) \<Rightarrow> (if ready now retry_delay e then e # os else os, b)))"

definition candidates :: "rat \<Rightarrow> address_key set \<Rightarrow> rat \<Rightarrow> address_book \<Rightarrow> address_entry list \<times> address_book" where
  "candidates now exclude retry_delay b =
     (case options_loop now retry_delay exclude (book_entries b) b of
        (os, b) \<Rightarrow> (sort_key (\<lambda>e. (ae_failures e, - ae_last_seen e)) os, b))"

section \<open>The invariant\<close>

text \<open>Every entry stands under its own key, once, and with fewer failures than the limit.\<close>

definition book_ok :: "address_book \<Rightarrow> bool" where
  "book_ok b \<longleftrightarrow> keys_distinct (ab_entries b) \<and> keys_distinct (ab_banned b) \<and>
     (\<forall>(k, e) \<in> set (ab_entries b). k = entry_key e \<and> 0 \<le> ae_failures e \<and> ae_failures e < MAX_FAILURES)"

lemma book_ok_lookup: "book_ok b \<Longrightarrow> map_of (ab_entries b) k = Some e \<Longrightarrow>
    entry_key e = k \<and> 0 \<le> ae_failures e \<and> ae_failures e < MAX_FAILURES"
  by (auto simp: book_ok_def dest!: map_of_SomeD)

lemma set_update: "set (AList.update k v t) \<subseteq> insert (k, v) (set t)"
  by (induction t) auto

lemma book_ok_update:
  assumes "book_ok b" "entry_key e = k" "0 \<le> ae_failures e" "ae_failures e < MAX_FAILURES"
  shows "book_ok (b\<lparr>ab_entries := AList.update k e (ab_entries b)\<rparr>)"
  using assms set_update [of k e "ab_entries b"] by (fastforce simp: book_ok_def)

lemma book_ok_filter: "book_ok b \<Longrightarrow> book_ok (b\<lparr>ab_entries := filter P (ab_entries b)\<rparr>)"
  by (auto simp: book_ok_def distinct_map_filter)

lemma book_ok_delete: "book_ok b \<Longrightarrow> book_ok (b\<lparr>ab_entries := AList.delete k (ab_entries b)\<rparr>)"
  unfolding AList.delete_eq by (rule book_ok_filter)

lemma book_ok_forget: "book_ok b \<Longrightarrow> book_ok (book_forget host port b)"
  by (simp add: book_forget_def book_ok_delete)

lemma book_ok_prune: "book_ok b \<Longrightarrow> book_ok (book_prune now b)"
  by (simp add: book_prune_def Let_def book_ok_filter)

lemma book_ok_empty: "book_ok empty_book"
  by (simp add: book_ok_def empty_book_def)

lemma book_ok_banned: "book_ok b \<Longrightarrow> keys_distinct bs \<Longrightarrow> book_ok (b\<lparr>ab_banned := bs\<rparr>)"
  by (simp add: book_ok_def)

lemma entry_or_new_ok: "book_ok b \<Longrightarrow> entry_key (entry_or_new h q b) = (h, q) \<and> 0 \<le> ae_failures (entry_or_new h q b) \<and>
    ae_failures (entry_or_new h q b) < MAX_FAILURES"
  using book_ok_lookup [of b "(h, q)"]
  by (auto simp: entry_or_new_def entry_key_def new_entry_def MAX_FAILURES_def split: option.split)

lemma book_ok_add: "book_ok b \<Longrightarrow> book_ok (book_add now h q source seen b)"
  using book_ok_lookup [of b "(h, q)"]
  by (auto simp: book_add_def entry_key_def new_entry_def MAX_FAILURES_def split: option.split intro!: book_ok_update)

lemma book_ok_success: "book_ok b \<Longrightarrow> book_ok (mark_success now h q b)"
  using entry_or_new_ok [of b h q] unfolding mark_success_def
  by (intro book_ok_update) (simp_all add: entry_key_def MAX_FAILURES_def)

lemma book_ok_failure:
  assumes "book_ok b"
  shows "book_ok (mark_failure now h q b)"
proof -
  note e = entry_or_new_ok [OF assms, of h q]
  define e' where "e' = (entry_or_new h q b)\<lparr>ae_last_try := int_of_float now, ae_failures := ae_failures (entry_or_new h q b) + 1\<rparr>"
  have k: "entry_key e' = (h, q)" "0 \<le> ae_failures e'" using e by (simp_all add: e'_def entry_key_def)
  have gone: "AList.delete (h, q) (AList.update (h, q) e' t) = AList.delete (h, q) t" for t
    by (induction t) auto
  show ?thesis
  proof (cases "ae_failures e' \<ge> MAX_FAILURES")
    case True
    then have "mark_failure now h q b = b\<lparr>ab_entries := AList.delete (h, q) (ab_entries b)\<rparr>"
      using gone by (simp add: mark_failure_def Let_def e'_def)
    then show ?thesis using book_ok_delete [OF assms] by simp
  next
    case False
    then have "mark_failure now h q b = b\<lparr>ab_entries := AList.update (h, q) e' (ab_entries b)\<rparr>"
      by (simp add: mark_failure_def Let_def e'_def)
    then show ?thesis using book_ok_update [OF assms k] False by simp
  qed
qed

lemma book_ok_ban: "book_ok b \<Longrightarrow> book_ok (book_ban now h secs b)"
proof -
  assume b: "book_ok b"
  then have "keys_distinct (AList.update h (round_float (now + secs)) (ab_banned b))" by (simp add: book_ok_def)
  from book_ok_filter [OF book_ok_banned [OF b this]] show ?thesis by (simp add: book_ban_def)
qed

lemma book_ok_is_banned: "book_ok b \<Longrightarrow> book_ok (snd (is_banned now h b))"
  by (auto simp: is_banned_def book_ok_def split: option.split)

lemma book_ok_load: "book_ok b \<Longrightarrow> \<forall>e \<in> set es. 0 \<le> ae_failures e \<and> ae_failures e < MAX_FAILURES \<Longrightarrow> book_ok (book_load es b)"
proof -
  have "keys_distinct t \<and> (\<forall>(k, e) \<in> set t. k = entry_key e \<and> 0 \<le> ae_failures e \<and> ae_failures e < MAX_FAILURES) \<Longrightarrow>
      \<forall>e \<in> set es. 0 \<le> ae_failures e \<and> ae_failures e < MAX_FAILURES \<Longrightarrow>
      keys_distinct (fold (\<lambda>e t. AList.update (entry_key e) e t) es t) \<and>
      (\<forall>(k, e) \<in> set (fold (\<lambda>e t. AList.update (entry_key e) e t) es t). k = entry_key e \<and> 0 \<le> ae_failures e \<and> ae_failures e < MAX_FAILURES)" for t
  proof (induction es arbitrary: t)
    case (Cons e es)
    show ?case
      using Cons.IH [of "AList.update (entry_key e) e t"] Cons.prems set_update [of "entry_key e" e t] by fastforce
  qed simp
  from this [of "[]"] show "book_ok b \<Longrightarrow> \<forall>e \<in> set es. 0 \<le> ae_failures e \<and> ae_failures e < MAX_FAILURES \<Longrightarrow> book_ok (book_load es b)"
    by (simp add: book_ok_def book_load_def)
qed

section \<open>Which addresses are tried\<close>

text \<open>A host that is banned at the moment; asking about a host whose ban has expired forgets that ban.\<close>

definition banned_at :: "rat \<Rightarrow> address_book \<Rightarrow> utext \<Rightarrow> bool" where
  "banned_at now b h \<longleftrightarrow> (\<exists>until. map_of (ab_banned b) h = Some until \<and> now \<le> until)"

lemma is_banned_iff: "fst (is_banned now h b) \<longleftrightarrow> banned_at now b h"
  by (auto simp: is_banned_def banned_at_def split: option.split)

lemma is_banned_keeps: "banned_at now (snd (is_banned now h b)) = banned_at now b"
  "ab_entries (snd (is_banned now h b)) = ab_entries b"
  by (auto simp: is_banned_def banned_at_def fun_eq_iff split: option.split)

lemma options_loop_eq:
  "options_loop now d exclude es b = (os, b') \<Longrightarrow>
     os = filter (\<lambda>e. entry_key e \<notin> exclude \<and> \<not> banned_at now b (ae_host e) \<and> ready now d e) es \<and>
     banned_at now b' = banned_at now b \<and> ab_entries b' = ab_entries b"
proof (induction es arbitrary: b b' os)
  case (Cons e es)
  show ?case
  proof (cases "entry_key e \<in> exclude")
    case True
    then show ?thesis using Cons by simp
  next
    case False
    obtain yes b1 where b1: "is_banned now (ae_host e) b = (yes, b1)" by fastforce
    then have keep: "yes \<longleftrightarrow> banned_at now b (ae_host e)" "banned_at now b1 = banned_at now b" "ab_entries b1 = ab_entries b"
      using is_banned_iff [of now "ae_host e" b] is_banned_keeps [of now "ae_host e" b] by simp_all
    obtain os1 b2 where rec: "options_loop now d exclude es b1 = (os1, b2)" by fastforce
    show ?thesis
      using Cons.prems Cons.IH [OF rec] False b1 keep rec by (cases yes) auto
  qed
qed simp

text \<open>
  C38. Whom a node dials. \<^verbatim>\<open>candidates\<close> returns exactly the known addresses that are not excluded, whose host is not
  banned at the moment, and that were last tried at least the retry delay, times one more than their failures, ago, each
  once; those with fewer failures come first, among them those seen last. Asking changes no address and no ban
  that is in force.
\<close>
theorem candidates_correct:
  assumes "candidates now exclude delay b = (es, b')"
  shows "mset es = mset (filter (\<lambda>e. entry_key e \<notin> exclude \<and> \<not> banned_at now b (ae_host e) \<and>
      round_float (delay * of_int (ae_failures e + 1)) \<le> round_float (now - of_int (ae_last_try e))) (book_entries b)) \<and>
    sorted_wrt (\<lambda>x y. ae_failures x < ae_failures y \<or> ae_failures x = ae_failures y \<and> ae_last_seen y \<le> ae_last_seen x) es \<and>
    book_entries b' = book_entries b \<and> banned_at now b' = banned_at now b"
proof -
  obtain os where os: "options_loop now delay exclude (book_entries b) b = (os, b')"
    and es: "es = sort_key (\<lambda>e. (ae_failures e, - ae_last_seen e)) os"
    using assms by (auto simp: candidates_def split: prod.splits)
  have "sorted (map (\<lambda>e. (ae_failures e, - ae_last_seen e)) es)" by (simp add: es)
  then have "sorted_wrt (\<lambda>x y. (ae_failures x, - ae_last_seen x) \<le> (ae_failures y, - ae_last_seen y)) es"
    by (simp add: sorted_wrt_map)
  then have "sorted_wrt (\<lambda>x y. ae_failures x < ae_failures y \<or> ae_failures x = ae_failures y \<and> ae_last_seen y \<le> ae_last_seen x) es"
    by (rule sorted_wrt_mono_rel [rotated]) (auto simp: less_eq_prod_def)
  then show ?thesis using options_loop_eq [OF os] by (simp add: es book_entries_def ready_def)
qed

text \<open>A book with a banned, a failed and a fresh address, and one that failed twice and was tried two and a half delays ago.\<close>

definition demo_book :: address_book where
  "demo_book = \<lparr>ab_entries = [(([97], 1), (new_entry [97] 1)\<lparr>ae_failures := 2\<rparr>), (([98], 2), new_entry [98] 2),
     (([99], 3), new_entry [99] 3),
     (([100], 4), (new_entry [100] 4)\<lparr>ae_failures := 2, ae_last_try := 850\<rparr>)], ab_banned = [([99], 5000)]\<rparr>"

lemma demo_candidates: "map ae_host (fst (candidates 1000 {} 60 demo_book)) = [[98], [97]]"
  by code_simp

theorem candidates_correct_witness:
  "map ae_host (fst (candidates 1000 {} 60 demo_book)) = [[98], [97]] \<and>
   mset (fst (candidates 1000 {} 60 demo_book)) =
     mset (filter (\<lambda>e. entry_key e \<notin> {} \<and> \<not> banned_at 1000 demo_book (ae_host e) \<and>
       round_float (60 * of_int (ae_failures e + 1)) \<le> round_float (1000 - of_int (ae_last_try e))) (book_entries demo_book))"
  using candidates_correct [of 1000 "{}" 60 demo_book "fst (candidates 1000 {} 60 demo_book)" "snd (candidates 1000 {} 60 demo_book)"]
  by (simp add: demo_candidates)

end
