(* ===== verification/Mempool.thy ===== *)
theory Mempool
  imports Chain PyFloat "HOL-Library.Product_Lexorder" "HOL-Library.List_Lexorder"
    "HOL-Library.Multiset"
begin

text \<open>
  \<^verbatim>\<open>core/mempool.py\<close>: the pool of unconfirmed transactions, its replacement and eviction policies, its
  reaction to blocks, and the selection of transactions for a new block.

  A method that raises returns the exception together with the pool it leaves behind. The dictionaries are
  association lists in insertion order. The chain, its parameters and the size limit are arguments; the lock
  and the JSON views are not modelled. Where the source iterates over the set \<^verbatim>\<open>conflicts\<close>, the model takes the
  order of the inputs; another order can only name another conflict in the message.
\<close>

section \<open>Data\<close>

definition MAX_VERIFIED_CACHE :: nat where
  "MAX_VERIFIED_CACHE = 100000"

record mempool_entry =
  me_transaction :: transaction
  me_txid :: bytes
  me_fee :: int
  me_size :: int
  me_received :: rat

definition fee_rate :: "mempool_entry \<Rightarrow> rat" where
  "fee_rate e = (if me_size e \<noteq> 0 then true_div (me_fee e * 1000) (me_size e) else 0)"

record mempool =
  mp_by_txid :: "(bytes \<times> mempool_entry) list"
  mp_spent_by :: "(outpoint \<times> bytes) list"
  mp_order :: "bytes list"
  mp_total_bytes :: int
  mp_verified :: "bytes list"

definition empty_pool :: mempool where
  "empty_pool = \<lparr>mp_by_txid = [], mp_spent_by = [], mp_order = [], mp_total_bytes = 0, mp_verified = []\<rparr>"

section \<open>Queries\<close>

definition in_pool :: "mempool \<Rightarrow> bytes \<Rightarrow> bool" where
  "in_pool m i \<longleftrightarrow> map_of (mp_by_txid m) i \<noteq> None"

definition is_spent :: "mempool \<Rightarrow> outpoint \<Rightarrow> bool" where
  "is_spent m op \<longleftrightarrow> map_of (mp_spent_by m) op \<noteq> None"

definition pool_get :: "mempool \<Rightarrow> bytes \<Rightarrow> transaction option" where
  "pool_get m i = map_option me_transaction (map_of (mp_by_txid m) i)"

definition entries :: "mempool \<Rightarrow> mempool_entry list" where
  "entries m = sort_key (\<lambda>e. (- fee_rate e, me_received e, me_txid e)) (map snd (mp_by_txid m))"

text \<open>\<^verbatim>\<open>_PoolView.get_coin\<close>.\<close>

definition pool_view :: "mempool \<Rightarrow> blockchain \<Rightarrow> int \<Rightarrow> outpoint list \<Rightarrow> coin_view" where
  "pool_view m ch height ignored op =
     (if is_spent m op \<and> op \<notin> set ignored then None
      else case map_of (mp_by_txid m) (op_txid op) of
        Some e \<Rightarrow>
          if op_index op \<ge> int (length (tx_outputs (me_transaction e))) then None
          else Some (output_coin False height (tx_outputs (me_transaction e) ! nat (op_index op)))
      | None \<Rightarrow> get_coin (bc_storage ch) op)"

definition minimum_fee :: "chain_params \<Rightarrow> int \<Rightarrow> int" where
  "minimum_fee p n = max 1 \<lceil>true_div (n * pm_min_relay_fee_per_kb p) 1000\<rceil>"

text \<open>The literals \<^verbatim>\<open>0.1\<close> and \<^verbatim>\<open>0.5\<close>, and one rounding for each operator.\<close>

definition estimate_fee_rate :: "chain_params \<Rightarrow> int \<Rightarrow> mempool \<Rightarrow> int" where
  "estimate_fee_rate p blocks m =
     (if entries m = [] then pm_min_relay_fee_per_kb p
      else
        let rates = sort (map fee_rate (entries m));
            percentile = max (1 / 2) (round_float (1 - round_float (round_float (1 / 10) * of_int (max 1 blocks))));
            index = min (int (length rates) - 1) \<lfloor>round_float (of_nat (length rates) * percentile)\<rfloor>
        in max (pm_min_relay_fee_per_kb p) \<lfloor>rates ! nat index\<rfloor>)"

section \<open>Removing\<close>

text \<open>One popped transaction of \<^verbatim>\<open>remove\<close>: the pool without it.\<close>

definition drop_entry :: "bytes \<Rightarrow> mempool_entry \<Rightarrow> mempool \<Rightarrow> mempool" where
  "drop_entry i e m =
     m\<lparr>mp_by_txid := AList.delete i (mp_by_txid m),
       mp_order := remove1 i (mp_order m),
       mp_total_bytes := mp_total_bytes m - me_size e,
       mp_spent_by := fold (\<lambda>ti t. if map_of t (in_prevout ti) = Some i then AList.delete (in_prevout ti) t else t)
         (tx_inputs (me_transaction e)) (mp_spent_by m)\<rparr>"

definition pool_children :: "bytes \<Rightarrow> mempool_entry \<Rightarrow> mempool \<Rightarrow> bytes list" where
  "pool_children i e m =
     List.map_filter (\<lambda>n. map_of (mp_spent_by m) \<lparr>op_txid = i, op_index = int n\<rparr>)
       [0..<length (tx_outputs (me_transaction e))]"

text \<open>The stack \<^verbatim>\<open>pending\<close> is kept top first; \<open>removed\<close> grows in the order of removal.\<close>

function remove_loop :: "bool \<Rightarrow> bytes list \<Rightarrow> bytes list \<Rightarrow> mempool \<Rightarrow> bytes list \<times> mempool" where
  "remove_loop desc [] removed m = (removed, m)"
| "remove_loop desc (i # pending) removed m =
     (case map_of (mp_by_txid m) i of
        None \<Rightarrow> remove_loop desc pending removed m
      | Some e \<Rightarrow>
          remove_loop desc ((if desc then rev (pool_children i e (drop_entry i e m)) else []) @ pending)
            (removed @ [i]) (drop_entry i e m))"
  by pat_completeness auto
termination
  by (relation "measures [\<lambda>(desc, pending, removed, m). length (mp_by_txid m), \<lambda>(desc, pending, removed, m). length pending]")
    (auto simp: drop_entry_def intro: length_delete_less)

definition pool_remove :: "bytes \<Rightarrow> bool \<Rightarrow> mempool \<Rightarrow> bytes list \<times> mempool" where
  "pool_remove i desc m = remove_loop desc [i] [] m"

definition pool_clear :: "mempool \<Rightarrow> mempool" where
  "pool_clear m = m\<lparr>mp_by_txid := [], mp_spent_by := [], mp_order := [], mp_total_bytes := 0\<rparr>"

fun evict_loop :: "int \<Rightarrow> mempool_entry list \<Rightarrow> mempool \<Rightarrow> mempool" where
  "evict_loop limit [] m = m"
| "evict_loop limit (e # es) m =
     (if mp_total_bytes m \<le> limit then m else evict_loop limit es (snd (pool_remove (me_txid e) True m)))"

definition evict_if_needed :: "int \<Rightarrow> mempool \<Rightarrow> mempool" where
  "evict_if_needed limit m =
     (if mp_total_bytes m \<le> limit then m
      else evict_loop limit (sort_key (\<lambda>e. (fee_rate e, - me_received e)) (map snd (mp_by_txid m))) m)"

section \<open>Adding\<close>

definition remember_verified :: "bytes \<Rightarrow> mempool \<Rightarrow> mempool" where
  "remember_verified i m =
     (let known = (if length (mp_verified m) \<ge> MAX_VERIFIED_CACHE then [] else mp_verified m)
      in m\<lparr>mp_verified := List.insert i known\<rparr>)"

definition pool_insert :: "mempool_entry \<Rightarrow> mempool \<Rightarrow> mempool" where
  "pool_insert e m =
     m\<lparr>mp_by_txid := AList.update (me_txid e) e (mp_by_txid m),
       mp_order := mp_order m @ [me_txid e],
       mp_total_bytes := mp_total_bytes m + me_size e,
       mp_spent_by := fold (\<lambda>ti. AList.update (in_prevout ti) (me_txid e)) (tx_inputs (me_transaction e)) (mp_spent_by m)\<rparr>"

fun check_conflicts :: "mempool \<Rightarrow> int \<Rightarrow> int \<Rightarrow> bytes list \<Rightarrow> unit result" where
  "check_conflicts m fee sz [] = Inr ()"
| "check_conflicts m fee sz (i # is) =
     (case map_of (mp_by_txid m) i of
        None \<Rightarrow> Inl KeyError
      | Some old \<Rightarrow>
          if \<not> is_replaceable (me_transaction old)
          then Inl (MempoolError ''output is already spent by a mempool transaction; it is not replaceable'')
          else if fee * me_size old \<le> me_fee old * sz
          then Inl (MempoolError ''replacement pays a lower fee rate'')
          else check_conflicts m fee sz is)"

definition replace_conflicts :: "transaction \<Rightarrow> int \<Rightarrow> int \<Rightarrow> bytes list \<Rightarrow> mempool \<Rightarrow> mempool result" where
  "replace_conflicts t fee sz conflicts m =
     (if \<not> is_replaceable t
      then Inl (MempoolError ''output is already spent by a mempool transaction; it is not replaceable'')
      else bnd (check_conflicts m fee sz conflicts) (\<lambda>_.
        Inr (fold (\<lambda>i m. snd (pool_remove i True m)) conflicts m)))"

definition conflicts_of :: "mempool \<Rightarrow> transaction \<Rightarrow> bytes list" where
  "conflicts_of m t = remdups (List.map_filter (\<lambda>ti. map_of (mp_spent_by m) (in_prevout ti)) (tx_inputs t))"

text \<open>The environment of a pool: the cryptography, the parameters, the limit, and the chain at the moment.\<close>

record pool_env =
  pe_crypto :: crypto
  pe_params :: chain_params
  pe_max_bytes :: int

text \<open>The part of \<open>add\<close> in front of the first change.\<close>

definition admission :: "pool_env \<Rightarrow> blockchain \<Rightarrow> transaction \<Rightarrow> mempool \<Rightarrow> unit result" where
  "admission pe ch t m =
     (let p = pe_params pe; i = txid (pe_crypto pe) t; height = be_height (bc_tip ch) + 1 in
      if in_pool m i then Inl (MempoolError ''transaction is already in the mempool'')
      else case tx_check_sanity (pm_min_output_value p) t of
        Inl (TransactionError why) \<Rightarrow> Inl (MempoolError why)
      | Inl e \<Rightarrow> Inl e
      | Inr _ \<Rightarrow>
      if is_coinbase t then Inl (MempoolError ''a coinbase transaction cannot be relayed on its own'')
      else if get_transaction ch i \<noteq> None then Inl (MempoolError ''transaction is already in a block'')
      else if \<not> check_transaction_final t height then Inl (MempoolError ''transaction is locked'')
      else if tx_size t > pm_max_block_size p div 2 then Inl (MempoolError ''transaction is too large to be relayed'')
      else Inr ())"

text \<open>The fee of the newcomer, and the pool without the transactions it replaces.\<close>

definition settle :: "pool_env \<Rightarrow> blockchain \<Rightarrow> transaction \<Rightarrow> bool \<Rightarrow> mempool \<Rightarrow> (int \<times> mempool) result" where
  "settle pe ch t verify m =
     (let c = pe_crypto pe; p = pe_params pe; height = be_height (bc_tip ch) + 1;
          check = (verify \<and> txid c t \<notin> set (mp_verified m)); conflicts = conflicts_of m t
      in if conflicts \<noteq> [] then
           bnd (check_transaction_inputs c t (pool_view m ch height (map in_prevout (tx_inputs t))) height p check) (\<lambda>fee.
           bnd (replace_conflicts t fee (tx_size t) conflicts m) (\<lambda>m. Inr (fee, m)))
         else
           bnd (check_transaction_inputs c t (pool_view m ch height []) height p check) (\<lambda>fee. Inr (fee, m)))"

definition pool_add ::
    "pool_env \<Rightarrow> blockchain \<Rightarrow> rat \<Rightarrow> transaction \<Rightarrow> bool \<Rightarrow> mempool \<Rightarrow> mempool_entry result \<times> mempool" where
  "pool_add pe ch now t verify m =
     (case bnd (admission pe ch t m) (\<lambda>_. settle pe ch t verify m) of
        Inl e \<Rightarrow> (Inl e, m)
      | Inr (fee, m) \<Rightarrow>
          if fee < minimum_fee (pe_params pe) (tx_size t)
          then (Inl (MempoolError ''fee is below the minimum''), m)
          else
            let i = txid (pe_crypto pe) t;
                e = \<lparr>me_transaction = t, me_txid = i, me_fee = fee, me_size = tx_size t, me_received = now\<rparr>
            in (Inr e, evict_if_needed (pe_max_bytes pe) (pool_insert e (remember_verified i m))))"

section \<open>The chain listener\<close>

text \<open>
  The loops that offer transactions again: \<^verbatim>\<open>except ValidationError: continue\<close>. The clock is read once for
  each transaction; \<open>clock i\<close> is the reading for the one with the id \<open>i\<close>.
\<close>

type_synonym clock = "bytes \<Rightarrow> rat"

fun readd :: "pool_env \<Rightarrow> blockchain \<Rightarrow> clock \<Rightarrow> transaction list \<Rightarrow> mempool \<Rightarrow> unit result \<times> mempool" where
  "readd pe ch clock [] m = (Inr (), m)"
| "readd pe ch clock (t # ts) m =
     (case pool_add pe ch (clock (txid (pe_crypto pe) t)) t (txid (pe_crypto pe) t \<notin> set (mp_verified m)) m of
        (Inl e, m) \<Rightarrow> if is_ValidationError e then readd pe ch clock ts m else (Inl e, m)
      | (Inr _, m) \<Rightarrow> readd pe ch clock ts m)"

text \<open>\<^verbatim>\<open>[self._by_txid[txid].transaction for txid in self._order]\<close>.\<close>

fun ordered :: "mempool \<Rightarrow> bytes list \<Rightarrow> transaction list result" where
  "ordered m [] = Inr []"
| "ordered m (i # is) =
     (case map_of (mp_by_txid m) i of
        None \<Rightarrow> Inl KeyError
      | Some e \<Rightarrow> bnd (ordered m is) (\<lambda>ts. Inr (me_transaction e # ts)))"

definition revalidate :: "pool_env \<Rightarrow> blockchain \<Rightarrow> clock \<Rightarrow> mempool \<Rightarrow> unit result \<times> mempool" where
  "revalidate pe ch clock m =
     (if mp_by_txid m = [] then (Inr (), m)
      else case ordered m (mp_order m) of
        Inl e \<Rightarrow> (Inl e, m)
      | Inr ts \<Rightarrow> readd pe ch clock ts (pool_clear m))"

definition confirm_tx :: "crypto \<Rightarrow> transaction \<Rightarrow> mempool \<Rightarrow> mempool" where
  "confirm_tx c t m =
     fold (\<lambda>ti m. case map_of (mp_spent_by m) (in_prevout ti) of
         None \<Rightarrow> m | Some i \<Rightarrow> snd (pool_remove i True m))
       (tx_inputs t) (snd (pool_remove (txid c t) False m))"

definition pool_block_connected :: "pool_env \<Rightarrow> blockchain \<Rightarrow> clock \<Rightarrow> block \<Rightarrow> mempool \<Rightarrow> unit result \<times> mempool" where
  "pool_block_connected pe ch clock b m =
     revalidate pe ch clock (fold (confirm_tx (pe_crypto pe)) (bk_transactions b) m)"

definition pool_block_disconnected :: "pool_env \<Rightarrow> blockchain \<Rightarrow> clock \<Rightarrow> clock \<Rightarrow> block \<Rightarrow> mempool \<Rightarrow> unit result \<times> mempool" where
  "pool_block_disconnected pe ch clock clock' b m =
     (case readd pe ch clock (tl (bk_transactions b)) m of
        (Inl e, m) \<Rightarrow> (Inl e, m)
      | (Inr _, m) \<Rightarrow> revalidate pe ch clock' m)"

section \<open>Selecting transactions for a block\<close>

record selection =
  se_selected :: "mempool_entry list"
  se_fee :: int
  se_used :: int
  se_candidates :: "mempool_entry list"
  se_progressed :: bool

definition pool_parents :: "mempool \<Rightarrow> mempool_entry \<Rightarrow> bytes list" where
  "pool_parents m e = filter (in_pool m) (map (op_txid \<circ> in_prevout) (tx_inputs (me_transaction e)))"

definition collect_step :: "mempool \<Rightarrow> int \<Rightarrow> int \<Rightarrow> mempool_entry \<Rightarrow> selection \<Rightarrow> selection" where
  "collect_step m max_bytes height e s =
     (if se_used s + me_size e > max_bytes then s
      else if \<not> check_transaction_final (me_transaction e) height
      then s\<lparr>se_candidates := remove1 e (se_candidates s)\<rparr>
      else if \<not> set (pool_parents m e) \<subseteq> me_txid ` set (se_selected s) then s
      else s\<lparr>se_selected := se_selected s @ [e], se_fee := se_fee s + me_fee e, se_used := se_used s + me_size e,
             se_candidates := remove1 e (se_candidates s), se_progressed := True\<rparr>)"

definition collect_pass :: "mempool \<Rightarrow> int \<Rightarrow> int \<Rightarrow> selection \<Rightarrow> selection" where
  "collect_pass m max_bytes height s =
     fold (collect_step m max_bytes height) (se_candidates s) (s\<lparr>se_progressed := False\<rparr>)"

lemma collect_step_candidates:
  assumes "add_mset e (mset es) \<subseteq># mset (se_candidates s)"
  shows "mset es \<subseteq># mset (se_candidates (collect_step m max_bytes height e s))"
    and "length (se_candidates (collect_step m max_bytes height e s)) \<le> length (se_candidates s)"
    and "se_progressed (collect_step m max_bytes height e s) \<Longrightarrow> se_progressed s \<or>
      length (se_candidates (collect_step m max_bytes height e s)) < length (se_candidates s)"
proof -
  have sub: "mset es \<subseteq># mset (se_candidates s)" "e \<in> set (se_candidates s)"
    using subset_mset.order_trans [OF _ assms, of "mset es"] mset_subset_eqD [OF assms, of e] by simp_all
  moreover have "mset es \<subseteq># mset (remove1 e (se_candidates s))"
    using assms by (simp add: insert_subset_eq_iff)
  moreover have "length (remove1 e (se_candidates s)) < length (se_candidates s)"
    using sub(2) length_pos_if_in_set [OF sub(2)] by (simp add: length_remove1)
  ultimately show "mset es \<subseteq># mset (se_candidates (collect_step m max_bytes height e s))"
      "length (se_candidates (collect_step m max_bytes height e s)) \<le> length (se_candidates s)"
      "se_progressed (collect_step m max_bytes height e s) \<Longrightarrow> se_progressed s \<or>
        length (se_candidates (collect_step m max_bytes height e s)) < length (se_candidates s)"
    by (auto simp: collect_step_def split: if_splits)
qed

lemma collect_pass_shorter:
  assumes "se_progressed (collect_pass m max_bytes height s)"
  shows "length (se_candidates (collect_pass m max_bytes height s)) < length (se_candidates s)"
proof -
  have run: "mset es \<subseteq># mset (se_candidates s) \<Longrightarrow> length (se_candidates (fold (collect_step m max_bytes height) es s)) \<le>
      length (se_candidates s) \<and> (se_progressed (fold (collect_step m max_bytes height) es s) \<longrightarrow> se_progressed s \<or>
      length (se_candidates (fold (collect_step m max_bytes height) es s)) < length (se_candidates s))" for es s
  proof (induction es arbitrary: s)
    case (Cons e es)
    note step = collect_step_candidates [of e es s m max_bytes height]
    show ?case using Cons.IH [OF step(1)] step(2,3) Cons.prems by fastforce
  qed simp
  then show ?thesis
    using assms run [of "se_candidates s" "s\<lparr>se_progressed := False\<rparr>"] by (simp add: collect_pass_def)
qed

function collect_loop :: "mempool \<Rightarrow> int \<Rightarrow> int \<Rightarrow> selection \<Rightarrow> selection" where
  "collect_loop m max_bytes height s =
     (let s = collect_pass m max_bytes height s
      in if se_progressed s then collect_loop m max_bytes height s else s)"
  by pat_completeness auto
termination
  by (relation "measure (\<lambda>(m, max_bytes, height, s). length (se_candidates s))") (auto intro: collect_pass_shorter)

definition collect_selection :: "mempool \<Rightarrow> int \<Rightarrow> int \<Rightarrow> selection" where
  "collect_selection m max_bytes height =
     collect_loop m max_bytes height
       \<lparr>se_selected = [], se_fee = 0, se_used = 0, se_candidates = entries m, se_progressed = False\<rparr>"

definition collect :: "mempool \<Rightarrow> int \<Rightarrow> int \<Rightarrow> transaction list \<times> int" where
  "collect m max_bytes height =
     (let s = collect_selection m max_bytes height in (map me_transaction (se_selected s), se_fee s))"

end
