(* ===== verification/PoolInvariant.thy ===== *)
theory PoolInvariant
  imports Mempool
begin

text \<open>
  The invariant of the memory pool: its three indexes describe the same transactions, no two of which
  spend the same output, and its size stays within the limit.
\<close>

section \<open>The invariant\<close>

definition spends :: "transaction \<Rightarrow> outpoint set" where
  "spends t = in_prevout ` set (tx_inputs t)"

text \<open>What \<open>admission\<close> asks of a transaction by itself.\<close>

definition relayable :: "pool_env \<Rightarrow> transaction \<Rightarrow> bool" where
  "relayable pe t \<longleftrightarrow> tx_check_sanity (pm_min_output_value (pe_params pe)) t = Inr () \<and> \<not> is_coinbase t"

definition pool_ok :: "pool_env \<Rightarrow> mempool \<Rightarrow> bool" where
  "pool_ok pe m \<longleftrightarrow> keys_distinct (mp_by_txid m) \<and>
     distinct (mp_order m) \<and> set (mp_order m) = dom (map_of (mp_by_txid m)) \<and>
     mp_total_bytes m = table_sum me_size (mp_by_txid m) \<and>
     (\<forall>op i. map_of (mp_spent_by m) op = Some i \<longleftrightarrow>
        (\<exists>e. map_of (mp_by_txid m) i = Some e \<and> op \<in> spends (me_transaction e))) \<and>
     (\<forall>i e. map_of (mp_by_txid m) i = Some e \<longrightarrow>
        me_txid e = i \<and> txid (pe_crypto pe) (me_transaction e) = i \<and> me_size e = tx_size (me_transaction e) \<and>
        relayable pe (me_transaction e))"

lemma pool_okD:
  assumes "pool_ok pe m"
  shows "keys_distinct (mp_by_txid m)" "distinct (mp_order m)" "set (mp_order m) = dom (map_of (mp_by_txid m))"
    and "mp_total_bytes m = table_sum me_size (mp_by_txid m)"
    and "map_of (mp_spent_by m) op = Some i \<longleftrightarrow> (\<exists>e. map_of (mp_by_txid m) i = Some e \<and> op \<in> spends (me_transaction e))"
    and "map_of (mp_by_txid m) i = Some e \<Longrightarrow> me_txid e = i"
    and "map_of (mp_by_txid m) i = Some e \<Longrightarrow> txid (pe_crypto pe) (me_transaction e) = i"
    and "map_of (mp_by_txid m) i = Some e \<Longrightarrow> me_size e = tx_size (me_transaction e)"
    and "map_of (mp_by_txid m) i = Some e \<Longrightarrow> relayable pe (me_transaction e)"
  using assms by (simp_all add: pool_ok_def)

lemma pool_ok_empty: "pool_ok pe empty_pool"
  by (simp add: pool_ok_def empty_pool_def)

lemma pool_ok_clear: "pool_ok pe m \<Longrightarrow> pool_ok pe (pool_clear m)"
  by (simp add: pool_ok_def pool_clear_def)

lemma pool_ok_remember [simp]: "pool_ok pe (remember_verified i m) \<longleftrightarrow> pool_ok pe m"
  by (simp add: pool_ok_def remember_verified_def)

lemma tx_size_nonneg: "0 \<le> tx_size t"
  by (simp add: tx_size_def)

lemma pool_total_nonneg:
  assumes "pool_ok pe m"
  shows "0 \<le> mp_total_bytes m"
proof -
  have "0 \<le> me_size e" if "(i, e) \<in> set (mp_by_txid m)" for i e
  proof -
    have "map_of (mp_by_txid m) i = Some e" using pool_okD(1) [OF assms] that by simp
    then show ?thesis using pool_okD(8) [OF assms] tx_size_nonneg by metis
  qed
  then show ?thesis
    unfolding pool_okD(4) [OF assms] by (intro table_sum_nonneg) blast
qed

section \<open>Removing\<close>

lemma map_le_None: "f \<subseteq>\<^sub>m g \<Longrightarrow> g x = None \<Longrightarrow> f x = None"
  by (metis domIff map_le_def)

lemma map_le_Some: "f \<subseteq>\<^sub>m g \<Longrightarrow> f x = Some y \<Longrightarrow> g x = Some y"
  by (metis domI map_le_def)

lemma unspend_lookup:
  "map_of (fold (\<lambda>ti t. if map_of t (in_prevout ti) = Some i then AList.delete (in_prevout ti) t else t) tis t) op =
     (if op \<in> in_prevout ` set tis \<and> map_of t op = Some i then None else map_of t op)"
  by (induction tis arbitrary: t) auto

lemma drop_entry_ok:
  assumes "pool_ok pe m" "map_of (mp_by_txid m) i = Some e"
  shows "pool_ok pe (drop_entry i e m)"
proof -
  note m = pool_okD [OF assms(1)]
  have spent: "map_of (mp_spent_by (drop_entry i e m)) op = Some j \<longleftrightarrow>
      (\<exists>e'. map_of (mp_by_txid (drop_entry i e m)) j = Some e' \<and> op \<in> spends (me_transaction e'))" for op j
  proof -
    have "map_of (mp_spent_by (drop_entry i e m)) op =
        (if op \<in> spends (me_transaction e) \<and> map_of (mp_spent_by m) op = Some i then None else map_of (mp_spent_by m) op)"
      by (simp add: drop_entry_def unspend_lookup spends_def)
    moreover have "map_of (mp_by_txid (drop_entry i e m)) j = (if j = i then None else map_of (mp_by_txid m) j)"
      by (simp add: drop_entry_def)
    ultimately show ?thesis using m(5) [of op i] m(5) [of op j] assms(2) by (cases "j = i") auto
  qed
  show ?thesis
    unfolding pool_ok_def
  proof (intro conjI)
    show "mp_total_bytes (drop_entry i e m) = table_sum me_size (mp_by_txid (drop_entry i e m))"
      using m(4) assms(2) by (simp add: drop_entry_def table_sum_delete [OF m(1)])
    show "set (mp_order (drop_entry i e m)) = dom (map_of (mp_by_txid (drop_entry i e m)))"
      using m(2,3) by (auto simp: drop_entry_def set_remove1_eq split: if_splits)
  qed (use m spent in \<open>auto simp: drop_entry_def\<close>)
qed

lemma remove_loop_ok:
  "pool_ok pe m \<Longrightarrow> pool_ok pe (snd (remove_loop desc pending removed m))"
  by (induction desc pending removed m rule: remove_loop.induct) (auto simp: drop_entry_ok split: option.splits)

lemma remove_loop_shrinks:
  "map_of (mp_by_txid (snd (remove_loop desc pending removed m))) \<subseteq>\<^sub>m map_of (mp_by_txid m) \<and>
   set pending \<inter> dom (map_of (mp_by_txid (snd (remove_loop desc pending removed m)))) = {}"
proof (induction desc pending removed m rule: remove_loop.induct)
  case (2 desc i pending removed m)
  show ?case
  proof (cases "map_of (mp_by_txid m) i")
    case None
    then show ?thesis using 2(1) [OF None] map_le_None by (fastforce simp: domIff)
  next
    case (Some e)
    have "map_of (mp_by_txid (drop_entry i e m)) \<subseteq>\<^sub>m map_of (mp_by_txid m)"
      by (auto simp: drop_entry_def map_le_def)
    moreover have "map_of (mp_by_txid (drop_entry i e m)) i = None" by (simp add: drop_entry_def)
    ultimately show ?thesis
      using 2(2) [OF Some] Some map_le_trans map_le_None by (fastforce simp: domIff)
  qed
qed simp

lemma pool_remove_ok: "pool_ok pe m \<Longrightarrow> pool_ok pe (snd (pool_remove i desc m))"
  unfolding pool_remove_def by (rule remove_loop_ok)

lemma pool_remove_shrinks:
  "map_of (mp_by_txid (snd (pool_remove i desc m))) \<subseteq>\<^sub>m map_of (mp_by_txid m)"
  "map_of (mp_by_txid (snd (pool_remove i desc m))) i = None"
  unfolding pool_remove_def using remove_loop_shrinks [of desc "[i]" "[]" m]
  by (simp_all add: domIff del: remove_loop.simps)

lemma pool_removes:
  assumes "pool_ok pe m" "m' = fold (\<lambda>i m. snd (pool_remove i True m)) is m"
  shows "pool_ok pe m'" "map_of (mp_by_txid m') \<subseteq>\<^sub>m map_of (mp_by_txid m)" "i \<in> set is \<Longrightarrow> map_of (mp_by_txid m') i = None"
proof -
  have "pool_ok pe (fold (\<lambda>i m. snd (pool_remove i True m)) is m) \<and>
      map_of (mp_by_txid (fold (\<lambda>i m. snd (pool_remove i True m)) is m)) \<subseteq>\<^sub>m map_of (mp_by_txid m) \<and>
      (\<forall>i \<in> set is. map_of (mp_by_txid (fold (\<lambda>i m. snd (pool_remove i True m)) is m)) i = None)"
    using assms(1)
  proof (induction "is" arbitrary: m)
    case (Cons i "is")
    note ih = Cons.IH [OF pool_remove_ok [OF Cons.prems, of i True]]
    show ?case
      using ih map_le_trans [OF conjunct1 [OF conjunct2 [OF ih]] pool_remove_shrinks(1)]
        map_le_None [OF conjunct1 [OF conjunct2 [OF ih]] pool_remove_shrinks(2)] by simp
  qed simp
  then show "pool_ok pe m'" "map_of (mp_by_txid m') \<subseteq>\<^sub>m map_of (mp_by_txid m)"
      "i \<in> set is \<Longrightarrow> map_of (mp_by_txid m') i = None"
    using assms(2) by auto
qed

section \<open>Evicting\<close>

lemma table_empty:
  assumes "\<And>k. map_of t k = None"
  shows "t = []"
proof (cases t)
  case (Cons kv t')
  then have "map_of t (fst kv) \<noteq> None" by (cases kv) simp
  then show ?thesis using assms by simp
qed

lemma evict_loop_ok: "pool_ok pe m \<Longrightarrow> pool_ok pe (evict_loop limit es m)"
  by (induction es arbitrary: m) (auto simp: pool_remove_ok)

lemma evict_loop_bound:
  assumes "pool_ok pe m" "\<forall>i e. map_of (mp_by_txid m) i = Some e \<longrightarrow> e \<in> set es"
  shows "mp_total_bytes (evict_loop limit es m) \<le> max 0 limit"
  using assms
proof (induction es arbitrary: m)
  case Nil
  then have "map_of (mp_by_txid m) i = None" for i by simp
  then have "mp_by_txid m = []" by (rule table_empty)
  then show ?case using pool_okD(4) [OF Nil(1)] by simp
next
  case (Cons x es)
  have "\<forall>i e. map_of (mp_by_txid (snd (pool_remove (me_txid x) True m))) i = Some e \<longrightarrow> e \<in> set es"
  proof (intro allI impI)
    fix i e assume e: "map_of (mp_by_txid (snd (pool_remove (me_txid x) True m))) i = Some e"
    then have "map_of (mp_by_txid m) i = Some e"
      by (rule map_le_Some [OF pool_remove_shrinks(1)])
    moreover from this have "me_txid e = i" by (rule pool_okD(6) [OF Cons.prems(1)])
    ultimately show "e \<in> set es" using Cons.prems(2) e pool_remove_shrinks(2) [of "me_txid x" True m] by fastforce
  qed
  then show ?case using Cons.IH [OF pool_remove_ok [OF Cons.prems(1)]] by auto
qed

lemma evict_ok:
  assumes "pool_ok pe m"
  shows "pool_ok pe (evict_if_needed limit m)" "mp_total_bytes (evict_if_needed limit m) \<le> max 0 limit"
proof -
  let ?es = "sort_key (\<lambda>e. (fee_rate e, - me_received e)) (map snd (mp_by_txid m))"
  have "\<forall>i e. map_of (mp_by_txid m) i = Some e \<longrightarrow> e \<in> set ?es" by (force dest: map_of_SomeD)
  then show "pool_ok pe (evict_if_needed limit m)" "mp_total_bytes (evict_if_needed limit m) \<le> max 0 limit"
    using assms evict_loop_ok [OF assms] evict_loop_bound [OF assms] by (auto simp: evict_if_needed_def)
qed

section \<open>Adding\<close>

lemma spend_lookup:
  "map_of (fold (\<lambda>ti. AList.update (in_prevout ti) i) tis t) op = (if op \<in> in_prevout ` set tis then Some i else map_of t op)"
  by (induction tis arbitrary: t) auto

lemma pool_insert_ok:
  assumes "pool_ok pe m" "map_of (mp_by_txid m) (me_txid e) = None" "\<forall>op \<in> spends (me_transaction e). map_of (mp_spent_by m) op = None"
    and "txid (pe_crypto pe) (me_transaction e) = me_txid e" "me_size e = tx_size (me_transaction e)"
    and "relayable pe (me_transaction e)"
  shows "pool_ok pe (pool_insert e m)"
proof -
  note m = pool_okD [OF assms(1)]
  have spent: "map_of (mp_spent_by (pool_insert e m)) op = Some i \<longleftrightarrow>
      (\<exists>e'. map_of (mp_by_txid (pool_insert e m)) i = Some e' \<and> op \<in> spends (me_transaction e'))" for op i
  proof -
    have "map_of (mp_spent_by (pool_insert e m)) op =
        (if op \<in> spends (me_transaction e) then Some (me_txid e) else map_of (mp_spent_by m) op)"
      by (simp add: pool_insert_def spend_lookup spends_def)
    moreover have "map_of (mp_by_txid (pool_insert e m)) i = (if i = me_txid e then Some e else map_of (mp_by_txid m) i)"
      by (simp add: pool_insert_def)
    moreover have "op \<in> spends (me_transaction e) \<Longrightarrow> map_of (mp_spent_by m) op = None" using assms(3) by blast
    ultimately show ?thesis
      using m(5) [of op i] assms(2) by (cases "i = me_txid e"; cases "op \<in> spends (me_transaction e)") simp_all
  qed
  have "me_txid e \<notin> set (mp_order m)" using m(3) assms(2) by auto
  then show ?thesis
    unfolding pool_ok_def
  proof (intro conjI)
    show "mp_total_bytes (pool_insert e m) = table_sum me_size (mp_by_txid (pool_insert e m))"
      using m(4) assms(2) by (simp add: pool_insert_def table_sum_update [OF m(1)])
    show "set (mp_order (pool_insert e m)) = dom (map_of (mp_by_txid (pool_insert e m)))"
      using m(3) by (auto simp: pool_insert_def split: if_splits)
  qed (use m spent assms(4-6) in \<open>auto simp: pool_insert_def\<close>)
qed

lemma conflicts_of_iff:
  "i \<in> set (conflicts_of m t) \<longleftrightarrow> (\<exists>op \<in> spends t. map_of (mp_spent_by m) op = Some i)"
  by (force simp: conflicts_of_def List.map_filter_def spends_def)

lemma settle_ok:
  assumes "pool_ok pe m" "settle pe ch t verify m = Inr (fee, m')"
  shows "pool_ok pe m'" "map_of (mp_by_txid m') \<subseteq>\<^sub>m map_of (mp_by_txid m)" "\<forall>op \<in> spends t. map_of (mp_spent_by m') op = None"
proof -
  have m': "m' = fold (\<lambda>i m. snd (pool_remove i True m)) (conflicts_of m t) m"
    using assms(2) by (auto simp: settle_def replace_conflicts_def bnd_eq_Inr Let_def split: if_splits)
  note rem = pool_removes [OF assms(1) m']
  show "pool_ok pe m'" "map_of (mp_by_txid m') \<subseteq>\<^sub>m map_of (mp_by_txid m)" using rem by blast+
  show "\<forall>op \<in> spends t. map_of (mp_spent_by m') op = None"
  proof (intro ballI, rule ccontr)
    fix op assume op: "op \<in> spends t" "map_of (mp_spent_by m') op \<noteq> None"
    then obtain i e where "map_of (mp_by_txid m') i = Some e" "op \<in> spends (me_transaction e)"
      using pool_okD(5) [OF rem(1)] by blast
    moreover from this have "map_of (mp_by_txid m) i = Some e" using map_le_Some [OF rem(2)] by blast
    ultimately have "i \<in> set (conflicts_of m t)"
      using pool_okD(5) [OF assms(1)] op(1) conflicts_of_iff by blast
    then show False using rem(3) \<open>map_of (mp_by_txid m') i = Some e\<close> by simp
  qed
qed

lemma pool_add_ok:
  assumes "pool_ok pe m" "mp_total_bytes m \<le> max 0 (pe_max_bytes pe)" "pool_add pe ch now t verify m = (r, m')"
  shows "pool_ok pe m' \<and> mp_total_bytes m' \<le> max 0 (pe_max_bytes pe)"
proof (cases "bnd (admission pe ch t m) (\<lambda>_. settle pe ch t verify m)")
  case (Inl e)
  then show ?thesis using assms by (simp add: pool_add_def)
next
  case (Inr fm)
  obtain fee m1 where fm: "fm = (fee, m1)" by (cases fm)
  have adm: "\<not> in_pool m (txid (pe_crypto pe) t)" "relayable pe t" and set: "settle pe ch t verify m = Inr (fee, m1)"
    using Inr fm by (auto simp: bnd_eq_Inr admission_def relayable_def Let_def guard_eq_Inr split: sum.splits exn.splits)
  note s = settle_ok [OF assms(1) set]
  have fresh: "map_of (mp_by_txid m1) (txid (pe_crypto pe) t) = None"
    using adm(1) map_le_None [OF s(2)] by (simp add: in_pool_def)
  have "mp_total_bytes m1 \<le> mp_total_bytes m"
    unfolding pool_okD(4) [OF s(1)] pool_okD(4) [OF assms(1)]
  proof (rule table_sum_mono [OF pool_okD(1) [OF s(1)] pool_okD(1) [OF assms(1)] s(2)])
    fix i e assume "(i, e) \<in> set (mp_by_txid m)"
    then have "map_of (mp_by_txid m) i = Some e" using pool_okD(1) [OF assms(1)] by simp
    then show "0 \<le> me_size e" using pool_okD(8) [OF assms(1)] tx_size_nonneg by metis
  qed
  then have small: "mp_total_bytes m1 \<le> max 0 (pe_max_bytes pe)" using assms(2) by simp
  let ?e = "\<lparr>me_transaction = t, me_txid = txid (pe_crypto pe) t, me_fee = fee, me_size = tx_size t, me_received = now\<rparr>"
  have "pool_ok pe (pool_insert ?e (remember_verified (txid (pe_crypto pe) t) m1))"
    using s(1,3) fresh adm(2) by (intro pool_insert_ok) (simp_all, simp_all add: remember_verified_def)
  then show ?thesis
    using assms(3) Inr fm s(1) small evict_ok by (auto simp: pool_add_def Let_def split: if_splits)
qed

section \<open>Events\<close>

lemma readd_ok:
  assumes "pool_ok pe m" "mp_total_bytes m \<le> max 0 (pe_max_bytes pe)" "readd pe ch clock ts m = (r, m')"
  shows "pool_ok pe m' \<and> mp_total_bytes m' \<le> max 0 (pe_max_bytes pe)"
  using assms
proof (induction ts arbitrary: m)
  case (Cons t ts)
  obtain r1 m1 where add: "pool_add pe ch (clock (txid (pe_crypto pe) t)) t (txid (pe_crypto pe) t \<notin> set (mp_verified m)) m = (r1, m1)"
    by fastforce
  note one = pool_add_ok [OF Cons.prems(1,2) add]
  then show ?case
    using Cons.IH [of m1] Cons.prems(3) add by (cases r1) (auto split: if_splits)
qed simp

lemma revalidate_ok:
  assumes "pool_ok pe m" "mp_total_bytes m \<le> max 0 (pe_max_bytes pe)" "revalidate pe ch clock m = (r, m')"
  shows "pool_ok pe m' \<and> mp_total_bytes m' \<le> max 0 (pe_max_bytes pe)"
proof -
  have "mp_total_bytes (pool_clear m) \<le> max 0 (pe_max_bytes pe)" by (simp add: pool_clear_def)
  note again = readd_ok [OF pool_ok_clear [OF assms(1)] this]
  show ?thesis
    using assms again by (auto simp: revalidate_def split: if_splits sum.splits)
qed

text \<open>Removing only makes the pool smaller.\<close>

lemma pool_remove_bound:
  assumes "pool_ok pe m"
  shows "mp_total_bytes (snd (pool_remove i desc m)) \<le> mp_total_bytes m"
  unfolding pool_okD(4) [OF assms] pool_okD(4) [OF pool_remove_ok [OF assms]]
proof (rule table_sum_mono [OF pool_okD(1) [OF pool_remove_ok [OF assms]] pool_okD(1) [OF assms] pool_remove_shrinks(1)])
  fix k e assume "(k, e) \<in> set (mp_by_txid m)"
  then have "map_of (mp_by_txid m) k = Some e" using pool_okD(1) [OF assms] by simp
  then show "0 \<le> me_size e" using pool_okD(8) [OF assms] tx_size_nonneg by metis
qed

lemma confirm_tx_ok:
  assumes "pool_ok pe m"
  shows "pool_ok pe (confirm_tx (pe_crypto pe) t m) \<and> mp_total_bytes (confirm_tx (pe_crypto pe) t m) \<le> mp_total_bytes m"
proof -
  let ?f = "\<lambda>ti m. case map_of (mp_spent_by m) (in_prevout ti) of None \<Rightarrow> m | Some i \<Rightarrow> snd (pool_remove i True m)"
  have "pool_ok pe (fold ?f tis m) \<and> mp_total_bytes (fold ?f tis m) \<le> mp_total_bytes m" if "pool_ok pe m" for tis m
    using that
  proof (induction tis arbitrary: m)
    case (Cons ti tis)
    have "pool_ok pe (?f ti m) \<and> mp_total_bytes (?f ti m) \<le> mp_total_bytes m"
      using Cons.prems by (auto simp: pool_remove_ok pool_remove_bound split: option.split)
    then show ?case using Cons.IH [of "?f ti m"] by fastforce
  qed simp
  from this [OF pool_remove_ok [OF assms]] show ?thesis
    using pool_remove_bound [OF assms] order_trans unfolding confirm_tx_def by blast
qed

text \<open>What happens to a pool: offers, removals on request, and the two callbacks of the chain.\<close>

datatype pool_event =
    Offered transaction bool rat
  | Withdrawn bytes bool
  | Cleared
  | Connected block clock
  | Disconnected block clock clock

fun pool_step :: "pool_env \<Rightarrow> blockchain \<times> pool_event \<Rightarrow> mempool \<Rightarrow> mempool" where
  "pool_step pe (ch, Offered t verify now) m = snd (pool_add pe ch now t verify m)"
| "pool_step pe (ch, Withdrawn i desc) m = snd (pool_remove i desc m)"
| "pool_step pe (ch, Cleared) m = pool_clear m"
| "pool_step pe (ch, Connected b clock) m = snd (pool_block_connected pe ch clock b m)"
| "pool_step pe (ch, Disconnected b clock clock') m = snd (pool_block_disconnected pe ch clock clock' b m)"

definition pool_run :: "pool_env \<Rightarrow> (blockchain \<times> pool_event) list \<Rightarrow> mempool" where
  "pool_run pe evs = fold (pool_step pe) evs empty_pool"

lemma pool_step_ok:
  assumes "pool_ok pe m" "mp_total_bytes m \<le> max 0 (pe_max_bytes pe)"
  shows "pool_ok pe (pool_step pe (ch, ev) m) \<and> mp_total_bytes (pool_step pe (ch, ev) m) \<le> max 0 (pe_max_bytes pe)"
proof (cases ev)
  case (Offered t verify now)
  then show ?thesis using pool_add_ok [OF assms] by (metis pool_step.simps(1) prod.collapse)
next
  case (Withdrawn i desc)
  then show ?thesis using pool_remove_ok [OF assms(1)] pool_remove_bound [OF assms(1), of i desc] assms(2) by simp
next
  case Cleared
  then show ?thesis using pool_ok_clear [OF assms(1)] by simp (simp add: pool_clear_def)
next
  case (Connected b clock)
  have "pool_ok pe (fold (confirm_tx (pe_crypto pe)) ts m) \<and>
      mp_total_bytes (fold (confirm_tx (pe_crypto pe)) ts m) \<le> max 0 (pe_max_bytes pe)" for ts
    using assms
  proof (induction ts arbitrary: m)
    case (Cons t ts)
    have "mp_total_bytes (confirm_tx (pe_crypto pe) t m) \<le> max 0 (pe_max_bytes pe)"
      using confirm_tx_ok [OF Cons.prems(1), of t] Cons.prems(2) by linarith
    then show ?case using Cons.IH confirm_tx_ok [OF Cons.prems(1)] by simp
  qed simp
  then show ?thesis
    using revalidate_ok Connected unfolding pool_step.simps pool_block_connected_def by (metis prod.collapse pool_step.simps(4) pool_block_connected_def)
next
  case (Disconnected b clock clock')
  obtain r1 m1 where again: "readd pe ch clock (tl (bk_transactions b)) m = (r1, m1)" by fastforce
  obtain r2 m2 where reval: "revalidate pe ch clock' m1 = (r2, m2)" by fastforce
  note one = readd_ok [OF assms again]
  show ?thesis
    using Disconnected again reval one revalidate_ok [OF _ _ reval]
    by (cases r1) (simp_all add: pool_block_disconnected_def)
qed

lemma pool_run_ok: "pool_ok pe (pool_run pe evs) \<and> mp_total_bytes (pool_run pe evs) \<le> max 0 (pe_max_bytes pe)"
proof -
  have "pool_ok pe (fold (pool_step pe) evs m) \<and> mp_total_bytes (fold (pool_step pe) evs m) \<le> max 0 (pe_max_bytes pe)"
    if "pool_ok pe m" "mp_total_bytes m \<le> max 0 (pe_max_bytes pe)" for m
    using that
  proof (induction evs arbitrary: m)
    case (Cons ev evs)
    then show ?case using pool_step_ok by (cases ev) (metis fold_simps(2))
  qed simp
  then show ?thesis
    unfolding pool_run_def using pool_ok_empty by (simp add: empty_pool_def)
qed

text \<open>
  C11. The pool stays consistent. Whatever is offered, withdrawn, confirmed or rolled back, in whatever state
  the chain is: the three indexes of the pool describe the same transactions, every transaction is filed under
  its own id, passes the structural checks and is no coinbase, an output counts as spent exactly by the pooled transaction that spends it (so no two pooled
  transactions spend the same output), and the sizes sum up to the recorded total, which is within the limit.
\<close>
theorem pool_stays_consistent:
  "pool_ok pe (pool_run pe evs) \<and> mp_total_bytes (pool_run pe evs) \<le> max 0 (pe_max_bytes pe)"
  by (rule pool_run_ok)

end
