(* ===== verification/Selection.thy ===== *)
theory Selection
  imports PoolInvariant Consensus
begin

text \<open>
  What \<open>collect\<close> selects for a block, and what replacement does to the pool it selects from.
\<close>

section \<open>The contract of a selection\<close>

text \<open>Parents that are in the pool come first; \<open>seen\<close> holds the ids of what was selected before.\<close>

fun parents_first :: "mempool \<Rightarrow> bytes set \<Rightarrow> mempool_entry list \<Rightarrow> bool" where
  "parents_first m seen [] \<longleftrightarrow> True"
| "parents_first m seen (e # es) \<longleftrightarrow> set (pool_parents m e) \<subseteq> seen \<and> parents_first m (insert (me_txid e) seen) es"

definition entry_size :: "mempool_entry list \<Rightarrow> int" where
  "entry_size es = sum_list (map me_size es)"

definition selectable :: "mempool \<Rightarrow> int \<Rightarrow> int \<Rightarrow> mempool_entry list \<Rightarrow> mempool_entry \<Rightarrow> bool" where
  "selectable m max_bytes height sel e \<longleftrightarrow> check_transaction_final (me_transaction e) height \<and>
     entry_size sel + me_size e \<le> max_bytes \<and> set (pool_parents m e) \<subseteq> me_txid ` set sel"

definition pool_entries :: "mempool \<Rightarrow> mempool_entry set" where
  "pool_entries m = snd ` set (mp_by_txid m)"

definition selection_ok :: "mempool \<Rightarrow> int \<Rightarrow> int \<Rightarrow> mempool_entry list \<Rightarrow> bool" where
  "selection_ok m max_bytes height sel \<longleftrightarrow> distinct sel \<and> set sel \<subseteq> pool_entries m \<and>
     list_all (\<lambda>e. check_transaction_final (me_transaction e) height) sel \<and>
     (sel = [] \<or> entry_size sel \<le> max_bytes) \<and> parents_first m {} sel"

lemma parents_first_append:
  "parents_first m seen (es @ es') \<longleftrightarrow> parents_first m seen es \<and> parents_first m (seen \<union> me_txid ` set es) es'"
  by (induction es arbitrary: seen) simp_all

section \<open>The loop\<close>

definition selecting :: "mempool \<Rightarrow> int \<Rightarrow> int \<Rightarrow> selection \<Rightarrow> bool" where
  "selecting m max_bytes height s \<longleftrightarrow> selection_ok m max_bytes height (se_selected s) \<and>
     se_used s = entry_size (se_selected s) \<and> se_fee s = sum_list (map me_fee (se_selected s)) \<and>
     distinct (se_selected s @ se_candidates s) \<and> set (se_candidates s) \<subseteq> pool_entries m \<and>
     (\<forall>e \<in> pool_entries m. e \<in> set (se_selected s) \<or> e \<in> set (se_candidates s) \<or>
        \<not> check_transaction_final (me_transaction e) height)"

lemma collect_step_selecting:
  assumes "selecting m max_bytes height s" "e \<in> set (se_candidates s)"
  shows "selecting m max_bytes height (collect_step m max_bytes height e s)"
    and "set (se_candidates s) \<subseteq> insert e (set (se_candidates (collect_step m max_bytes height e s)))"
  using assms
  by (auto simp: collect_step_def selecting_def selection_ok_def parents_first_append entry_size_def
      set_remove1_eq image_subset_iff dest: notin_set_remove1)

text \<open>A step that does not select leaves the selection alone, and then its entry cannot be selected.\<close>

lemma collect_step_idle:
  assumes "selecting m max_bytes height s" "\<not> se_progressed (collect_step m max_bytes height e s)"
  shows "se_selected (collect_step m max_bytes height e s) = se_selected s" "\<not> se_progressed s"
    and "\<not> selectable m max_bytes height (se_selected s) e"
  using assms by (auto simp: collect_step_def selecting_def selectable_def split: if_splits)

lemma collect_fold:
  assumes "selecting m max_bytes height s" "distinct es" "set es \<subseteq> set (se_candidates s)"
    and "s' = fold (collect_step m max_bytes height) es s"
  shows "selecting m max_bytes height s' \<and> (\<not> se_progressed s' \<longrightarrow> se_selected s' = se_selected s \<and> \<not> se_progressed s \<and>
      (\<forall>e \<in> set es. \<not> selectable m max_bytes height (se_selected s) e))"
  using assms
proof (induction es arbitrary: s)
  case (Cons e es)
  let ?s = "collect_step m max_bytes height e s"
  have e: "e \<in> set (se_candidates s)" using Cons.prems by simp
  note step = collect_step_selecting [OF Cons.prems(1) e]
  have rest: "distinct es" "set es \<subseteq> set (se_candidates ?s)" "s' = fold (collect_step m max_bytes height) es ?s"
    using Cons.prems step(2) by auto
  show ?case using Cons.IH [OF step(1) rest] collect_step_idle [OF Cons.prems(1), of e] by auto
qed simp

lemma collect_loop_selects:
  assumes "selecting m max_bytes height s"
  shows "selecting m max_bytes height (collect_loop m max_bytes height s) \<and>
    (\<forall>e \<in> pool_entries m - set (se_selected (collect_loop m max_bytes height s)).
       \<not> selectable m max_bytes height (se_selected (collect_loop m max_bytes height s)) e)"
  using assms
proof (induction m max_bytes height s rule: collect_loop.induct)
  case (1 m max_bytes height s)
  let ?s = "collect_pass m max_bytes height s"
  have "selecting m max_bytes height (s\<lparr>se_progressed := False\<rparr>)" "distinct (se_candidates s)"
    using 1(2) by (simp_all add: selecting_def)
  note pass = collect_fold [OF this(1,2) _ collect_pass_def [of m max_bytes height s]]
  have sel: "selecting m max_bytes height ?s" using pass by simp
  show ?case
  proof (cases "se_progressed ?s")
    case True
    then show ?thesis using 1(1) [OF refl True sel] by (subst collect_loop.simps) (simp add: Let_def)
  next
    case False
    then have idle: "se_selected ?s = se_selected s" "\<forall>e \<in> set (se_candidates s). \<not> selectable m max_bytes height (se_selected s) e"
      using pass by simp_all
    have "\<not> selectable m max_bytes height (se_selected s) e" if "e \<in> pool_entries m - set (se_selected s)" for e
      using 1(2) that idle(2) by (auto simp: selecting_def selectable_def)
    moreover have "collect_loop m max_bytes height s = ?s"
      using False by (subst collect_loop.simps) (simp add: Let_def)
    ultimately show ?thesis using sel idle(1) by simp
  qed
qed

lemma collect_ok:
  assumes "pool_ok pe m"
  shows "\<exists>sel. collect m max_bytes height = (map me_transaction sel, sum_list (map me_fee sel)) \<and>
     selection_ok m max_bytes height sel \<and>
     (\<nexists>e. e \<in> pool_entries m - set sel \<and> selectable m max_bytes height sel e)"
proof -
  have ids: "map (me_txid \<circ> snd) (mp_by_txid m) = map fst (mp_by_txid m)"
    using pool_okD(1,6) [OF assms] by (intro map_cong refl) (auto simp: eq_commute)
  have "distinct (map me_txid (map snd (mp_by_txid m)))"
    using pool_okD(1) [OF assms] by (simp only: map_map ids)
  then have "distinct (map snd (mp_by_txid m))" by (simp only: distinct_map)
  then have "selecting m max_bytes height
      \<lparr>se_selected = [], se_fee = 0, se_used = 0, se_candidates = entries m, se_progressed = False\<rparr>"
    by (simp add: selecting_def selection_ok_def entry_size_def entries_def pool_entries_def)
  then show ?thesis
    using collect_loop_selects unfolding collect_def collect_selection_def Let_def selecting_def
    by blast
qed

text \<open>
  C12. What goes into a block. From a pool of any history, \<^verbatim>\<open>collect\<close> returns the transactions of distinct pool
  entries that are final at the height, fit into the given size together, and come after all their parents in the
  pool, with the sum of their fees; and no entry it leaves out could still be added at the end.
\<close>
theorem collect_selects:
  "\<exists>sel. collect (pool_run pe evs) max_bytes height = (map me_transaction sel, sum_list (map me_fee sel)) \<and>
     selection_ok (pool_run pe evs) max_bytes height sel \<and>
     (\<nexists>e. e \<in> pool_entries (pool_run pe evs) - set sel \<and> selectable (pool_run pe evs) max_bytes height sel e)"
  using collect_ok pool_run_ok by blast

section \<open>A replacement that spends what it replaces\<close>

text \<open>
  The owner of one coin offers a payment to itself, and then a replacement that spends the same coin and
  also the output of the payment it replaces. Both are signed under \<open>tail_crypto\<close>.
\<close>

definition demo_owner :: bytes where
  "demo_owner = hash160 tail_crypto (demo_key 3)"

definition demo_spend :: "outpoint list \<Rightarrow> int \<Rightarrow> int \<Rightarrow> transaction" where
  "demo_spend ops amount lock =
     \<lparr>tx_version = 1,
      tx_inputs = map (\<lambda>op. \<lparr>in_prevout = op, in_sequence = 0, in_witness = [demo_key 3, demo_sig 3]\<rparr>) ops,
      tx_outputs = [\<lparr>out_type = OUTPUT_P2PKH, out_value = amount, out_payload = demo_owner\<rparr>],
      tx_lock_time = lock, tx_coinbase_data = []\<rparr>"

definition demo_funds :: outpoint where
  "demo_funds = \<lparr>op_txid = replicate 32 9, op_index = 0\<rparr>"

definition demo_parent :: transaction where
  "demo_parent = demo_spend [demo_funds] 90000 256"

definition demo_child :: transaction where
  "demo_child = demo_spend [demo_funds, \<lparr>op_txid = txid tail_crypto demo_parent, op_index = 0\<rparr>] 100000 512"

definition demo_holder :: blockchain where
  "demo_holder =
     \<lparr>bc_storage = empty_storage\<lparr>st_utxo := [(demo_funds, output_coin False 7 \<lparr>out_type = OUTPUT_P2PKH, out_value = 100000, out_payload = demo_owner\<rparr>)]\<rparr>,
      bc_tip = demo_entry\<lparr>be_height := 1000\<rparr>, bc_invalid = [], bc_events = []\<rparr>"

definition demo_env :: pool_env where
  "demo_env = \<lparr>pe_crypto = tail_crypto, pe_params = REGTEST, pe_max_bytes = 5000000\<rparr>"

definition demo_id :: "byte \<Rightarrow> bytes" where
  "demo_id b = b # replicate 31 0"

definition demo_pool1 :: mempool where
  "demo_pool1 = \<lparr>mp_by_txid = [(demo_id 1, \<lparr>me_transaction = demo_parent, me_txid = demo_id 1, me_fee = 10000,
        me_size = 180, me_received = 1\<rparr>)],
     mp_spent_by = [(demo_funds, demo_id 1)], mp_order = [demo_id 1], mp_total_bytes = 180, mp_verified = [demo_id 1]\<rparr>"

definition demo_pool2 :: mempool where
  "demo_pool2 = \<lparr>mp_by_txid = [(demo_id 2, \<lparr>me_transaction = demo_child, me_txid = demo_id 2, me_fee = 90000,
        me_size = 320, me_received = 2\<rparr>)],
     mp_spent_by = [(demo_funds, demo_id 2), (\<lparr>op_txid = demo_id 1, op_index = 0\<rparr>, demo_id 2)],
     mp_order = [demo_id 2], mp_total_bytes = 320, mp_verified = [demo_id 2, demo_id 1]\<rparr>"

lemma demo_ids: "txid tail_crypto demo_parent = demo_id 1" "txid tail_crypto demo_child = demo_id 2"
  "tx_size demo_parent = 180" "tx_size demo_child = 320" "minimum_fee REGTEST 180 = 180" "minimum_fee REGTEST 320 = 320"
  by code_simp+

lemma demo_adm: "admission demo_env demo_holder demo_parent empty_pool = Inr ()"
  "admission demo_env demo_holder demo_child demo_pool1 = Inr ()" by code_simp+
lemma demo_settle: "settle demo_env demo_holder demo_parent True empty_pool = Inr (10000, empty_pool)"
  by code_simp
lemma demo_settle2:
  "settle demo_env demo_holder demo_child True demo_pool1 = Inr (90000, empty_pool\<lparr>mp_verified := [demo_id 1]\<rparr>)"
  by code_simp

lemma demo_env_simps: "pe_crypto demo_env = tail_crypto" "pe_params demo_env = REGTEST" "pe_max_bytes demo_env = 5000000"
  by (simp_all add: demo_env_def)

lemma demo_prevouts:
  "map in_prevout (tx_inputs demo_parent) = [demo_funds]"
  "map in_prevout (tx_inputs demo_child) = [demo_funds, \<lparr>op_txid = demo_id 1, op_index = 0\<rparr>]"
  by (simp_all add: demo_parent_def [THEN arg_cong, of tx_inputs] demo_child_def [THEN arg_cong, of tx_inputs] demo_spend_def demo_ids)

lemma demo_distinct: "demo_funds \<noteq> \<lparr>op_txid = demo_id 1, op_index = 0\<rparr>" "demo_id 2 \<noteq> demo_id 1"
  by code_simp+

lemma spend_map: "fold (\<lambda>ti. AList.update (in_prevout ti) i) tis t = fold (\<lambda>op. AList.update op i) (map in_prevout tis) t"
  by (simp add: fold_map comp_def)

lemma demo_offers:
  "\<exists>e. pool_add demo_env demo_holder 1 demo_parent True empty_pool = (Inr e, demo_pool1)"
  "\<exists>e. pool_add demo_env demo_holder 2 demo_child True demo_pool1 = (Inr e, demo_pool2)"
  by (simp_all add: pool_add_def demo_adm demo_settle demo_settle2 demo_env_simps demo_ids Let_def evict_if_needed_def
      pool_insert_def remember_verified_def MAX_VERIFIED_CACHE_def spend_map demo_prevouts)
    (simp_all add: demo_pool1_def demo_pool2_def empty_pool_def demo_prevouts demo_distinct demo_distinct(1) [symmetric])

text \<open>
  C27. Replacement can leave an orphan in the pool. The owner of a coin offers a payment and then a replacement
  with a higher fee rate that also spends the output of that payment. The pool accepts both, and removes the payment
  only after it has looked up its output: what stays is a transaction that spends an output nobody has, and
  \<^verbatim>\<open>collect\<close> puts it into the next block, which no node will accept.
\<close>
theorem replacement_orphans:
  "pool_run demo_env [(demo_holder, Offered demo_parent True 1), (demo_holder, Offered demo_child True 2)] = demo_pool2 \<and>
   collect demo_pool2 999000 1001 = ([demo_child], 90000) \<and>
   (\<exists>why. check_transaction_inputs tail_crypto demo_child (get_coin (bc_storage demo_holder)) 1001 REGTEST True =
      Inl (MissingInputError why))"
proof (intro conjI)
  show "pool_run demo_env [(demo_holder, Offered demo_parent True 1), (demo_holder, Offered demo_child True 2)] = demo_pool2"
    using demo_offers by (auto simp: pool_run_def)
  show "collect demo_pool2 999000 1001 = ([demo_child], 90000)"
    by code_simp
  have "check_transaction_inputs tail_crypto demo_child (get_coin (bc_storage demo_holder)) 1001 REGTEST True =
      Inl (MissingInputError ''input spends unknown output'')"
    by code_simp
  then show "\<exists>why. check_transaction_inputs tail_crypto demo_child (get_coin (bc_storage demo_holder)) 1001 REGTEST True =
      Inl (MissingInputError why)" ..
qed

end
