(* ===== verification/Template.thy ===== *)
theory Template
  imports Selection Coinbase
begin

text \<open>
  \<^verbatim>\<open>core/template.py\<close>: what a node hands to a miner, for mining on its own and for merged mining, and the
  blocks that are assembled from it. The clock is the argument \<open>now\<close>, the four bytes of \<^verbatim>\<open>os.urandom\<close> are an
  argument too; the JSON views are not modelled.
\<close>

section \<open>Templates\<close>

definition COINBASE_RESERVE :: int where
  "COINBASE_RESERVE = 1000"

record block_template =
  bt_height :: int
  bt_prev_hash :: bytes
  bt_bits :: int
  bt_min_time :: int
  bt_current_time :: int
  bt_coinbase_value :: int
  bt_transactions :: "transaction list"
  bt_version :: int

definition template_target :: "block_template \<Rightarrow> int result" where
  "template_target tpl = bits_to_target (bt_bits tpl)"

definition template_build_block ::
    "crypto \<Rightarrow> int \<Rightarrow> block_template \<Rightarrow> bytes \<Rightarrow> bytes \<Rightarrow> int option \<Rightarrow> int \<Rightarrow> block result" where
  "template_build_block c now tpl pubkey_hash extra timestamp nonce =
     bnd (build_coinbase (bt_height tpl) (bt_coinbase_value tpl) pubkey_hash extra 0) (\<lambda>coinbase.
     let chosen = (case timestamp of None \<Rightarrow> bt_current_time tpl | Some t \<Rightarrow> t)
     in block_create c now (bt_prev_hash tpl) (coinbase # bt_transactions tpl) (bt_bits tpl)
          (Some (max chosen (bt_min_time tpl + 1))) (bt_version tpl) nonce None)"

text \<open>The part that templates and candidates share: the transactions and fees of the pool, if there is one.\<close>

definition pool_selection :: "chain_params \<Rightarrow> mempool option \<Rightarrow> int \<Rightarrow> transaction list \<times> int" where
  "pool_selection p pool height =
     (case pool of None \<Rightarrow> ([], 0) | Some m \<Rightarrow> collect m (pm_max_block_size p - COINBASE_RESERVE) height)"

definition create_block_template ::
    "chain_params \<Rightarrow> blockchain \<Rightarrow> mempool option \<Rightarrow> int option \<Rightarrow> int \<Rightarrow> block_template result" where
  "create_block_template p ch pool timestamp now =
     (let tip = bc_tip ch; height = be_height tip + 1 in
      bnd (median_time_past p (bc_storage ch) tip) (\<lambda>min_time.
      let current_time = max (case timestamp of None \<Rightarrow> now | Some t \<Rightarrow> t) (min_time + 1) in
      bnd (chain_next_bits p ch (Some current_time) now) (\<lambda>bits.
      case pool_selection p pool height of (transactions, fees) \<Rightarrow>
      bnd (subsidy p height) (\<lambda>subsidy.
      Inr \<lparr>bt_height = height, bt_prev_hash = be_hash tip, bt_bits = bits, bt_min_time = min_time,
           bt_current_time = current_time, bt_coinbase_value = subsidy + fees,
           bt_transactions = transactions, bt_version = 1\<rparr>))))"

section \<open>Candidates for merged mining\<close>

record aux_candidate =
  ac_height :: int
  ac_prev_hash :: bytes
  ac_bits :: int
  ac_coinbase_value :: int
  ac_coinbase_hash :: bytes
  ac_aux_block_hash :: bytes
  ac_chain_id :: int
  ac_target :: int
  ac_commitment_nonce :: int
  ac_timestamp :: int
  ac_pubkey_hash :: bytes
  ac_transactions :: "transaction list"

text \<open>The literal \<^verbatim>\<open>b"auxpow"\<close>.\<close>

definition aux_extra :: bytes where
  "aux_extra = [0x61, 0x75, 0x78, 0x70, 0x6f, 0x77]"

definition aux_build_block :: "crypto \<Rightarrow> int \<Rightarrow> aux_candidate \<Rightarrow> block result" where
  "aux_build_block c now a =
     bnd (build_coinbase (ac_height a) (ac_coinbase_value a) (ac_pubkey_hash a) aux_extra 0) (\<lambda>coinbase.
     block_create c now (ac_prev_hash a) (coinbase # ac_transactions a) (ac_bits a) (Some (ac_timestamp a)) 1 0 None)"

definition create_aux_block ::
    "crypto \<Rightarrow> chain_params \<Rightarrow> blockchain \<Rightarrow> mempool option \<Rightarrow> bytes \<Rightarrow> int option \<Rightarrow> int \<Rightarrow> bytes \<Rightarrow>
     aux_candidate result" where
  "create_aux_block c p ch pool pubkey_hash timestamp now random =
     (if pm_auxpow_chain_id p = 0 then Inl (ValueError ''AuxPoW is not configured for this network'')
      else
        let tip = bc_tip ch; height = be_height tip + 1 in
        bnd (median_time_past p (bc_storage ch) tip) (\<lambda>min_time.
        let current_time = max (case timestamp of None \<Rightarrow> now | Some t \<Rightarrow> t) (min_time + 1) in
        bnd (chain_next_bits p ch (Some current_time) now) (\<lambda>bits.
        case pool_selection p pool height of (transactions, fees) \<Rightarrow>
        bnd (subsidy p height) (\<lambda>subsidy.
        bnd (build_coinbase height (subsidy + fees) pubkey_hash aux_extra 0) (\<lambda>coinbase.
        bnd (block_create c now (be_hash tip) (coinbase # transactions) bits (Some current_time) 1 0 None) (\<lambda>block.
        let commitment_nonce = from_le random AND 0xFFFFFFFF in
        bnd (bits_to_target bits) (\<lambda>target.
        Inr \<lparr>ac_height = height, ac_prev_hash = be_hash tip, ac_bits = bits, ac_coinbase_value = subsidy + fees,
             ac_coinbase_hash = txid c coinbase, ac_aux_block_hash = block_hash c block,
             ac_chain_id = pm_auxpow_chain_id p, ac_target = target, ac_commitment_nonce = commitment_nonce,
             ac_timestamp = current_time, ac_pubkey_hash = pubkey_hash, ac_transactions = transactions\<rparr>)))))))"

section \<open>Assembled blocks\<close>

lemma block_create_iff:
  "block_create c now prev ts bits timestamp version nonce aux = Inr b \<longleftrightarrow> ts \<noteq> [] \<and>
     (\<exists>h. mk_block_header version prev (merkle_loop c (map (txid c) ts)) (case timestamp of None \<Rightarrow> now | Some t \<Rightarrow> t)
        bits nonce = Inr h \<and> b = \<lparr>bk_header = h, bk_transactions = ts, bk_auxpow = aux\<rparr>)"
  by (auto simp: block_create_def merkle_root_def bnd_eq_Inr)

lemma created_block:
  assumes "block_create c now prev ts bits (Some t) version nonce aux = Inr b"
  shows "bk_transactions b = ts" "bk_auxpow b = aux" "bh_prev_hash (bk_header b) = prev" "bh_bits (bk_header b) = bits"
    and "bh_timestamp (bk_header b) = t" "wf_block_header (bk_header b)"
    and "merkle_root c (block_txids c b) = Inr (bh_merkle_root (bk_header b))" "ts \<noteq> []"
  using assms by (auto simp: block_create_iff mk_block_header_iff merkle_root_def block_txids_def wf_block_header_def)

text \<open>The reserve is enough for the header, the count and the coinbase.\<close>

lemma length_varint: "length (varint_bytes v) \<le> 9"
  by (simp add: varint_bytes_def)

lemma coinbase_bytes:
  assumes "build_coinbase height reward h extra lock = Inr t"
  shows "length (tx_bytes t) \<le> 300"
proof -
  have "length (varint_bytes 0) = 1" "length NULL_HASH = 32" by (simp_all add: varint_bytes_def NULL_HASH_def)
  then show ?thesis
    using assms length_varint [of 1] length_varint [of 20] length_varint [of "4 + int (length extra)"]
    by (auto simp: build_coinbase_iff tx_bytes_def body_bytes_def input_bytes_def output_bytes_def stack_bytes_def
        varbytes_bytes_def COINBASE_OUTPOINT_def)
qed

lemma tx_size_ok: "tx_ok t \<Longrightarrow> tx_size t = int (length (tx_bytes t))"
  by (simp add: tx_size_def tx_ok_serialize written_def)

lemma txs_bytes_size: "list_all tx_ok ts \<Longrightarrow> int (length (concat (map tx_bytes ts))) = sum_list (map tx_size ts)"
  by (induction ts) (simp_all add: tx_size_ok)

lemma assembled_block_size:
  assumes "build_coinbase height reward h extra lock = Inr cb" "list_all tx_ok ts"
    and "sum_list (map tx_size ts) \<le> limit" "limit + 500 \<le> max_size" "max_size < 2 ^ 32"
    and "bk_transactions b = cb # ts" "bk_auxpow b = None" "wf_block_header (bk_header b)"
  shows "block_ok b" "block_size b \<le> max_size"
proof -
  have txs: "int (length (concat (map tx_bytes ts))) \<le> limit" using assms(2,3) by (simp add: txs_bytes_size)
  moreover have "length ts \<le> length (concat (map tx_bytes ts))" by (rule length_txs_bytes)
  ultimately have "fits 8 (int (length (cb # ts)))" using assms(4,5) by (simp add: fits_def)
  then show ok: "block_ok b"
    using assms built_coinbase(1) [OF assms(1)] by (simp add: block_ok_def)
  have "int (length (varint_bytes (int (length (cb # ts))))) \<le> 9" using length_varint by simp
  moreover have "int (length (tx_bytes cb)) \<le> 300" using coinbase_bytes [OF assms(1)] by simp
  ultimately show "block_size b \<le> max_size"
    using txs assms(4) length_header_bytes [OF assms(8)]
    by (simp add: block_size_def written_block [OF ok] block_bytes_def assms(6,7) aux_bytes_def del: length_map)
qed

section \<open>Properties\<close>

lemma pool_row:
  assumes "pool_ok pe m" "e \<in> pool_entries m"
  shows "map_of (mp_by_txid m) (me_txid e) = Some e"
proof -
  obtain i where "(i, e) \<in> set (mp_by_txid m)" using assms(2) by (auto simp: pool_entries_def)
  then have "map_of (mp_by_txid m) i = Some e" using pool_okD(1) [OF assms(1)] by simp
  then show ?thesis using pool_okD(6) [OF assms(1)] by metis
qed

lemma selection_sizes:
  assumes "pool_ok pe m" "set sel \<subseteq> pool_entries m"
  shows "sum_list (map tx_size (map me_transaction sel)) = entry_size sel"
    and "t \<in> me_transaction ` set sel \<Longrightarrow> relayable pe t"
    and "e \<in> set sel \<Longrightarrow> me_txid e = txid (pe_crypto pe) (me_transaction e)"
proof -
  have row: "e \<in> set sel \<Longrightarrow> map_of (mp_by_txid m) (me_txid e) = Some e" for e
    using assms pool_row by blast
  show "sum_list (map tx_size (map me_transaction sel)) = entry_size sel"
    using pool_okD(8) [OF assms(1) row] by (auto simp: entry_size_def intro!: arg_cong [of _ _ sum_list])
  show "t \<in> me_transaction ` set sel \<Longrightarrow> relayable pe t" using pool_okD(9) [OF assms(1) row] by blast
  show "e \<in> set sel \<Longrightarrow> me_txid e = txid (pe_crypto pe) (me_transaction e)"
    using pool_okD(7) [OF assms(1) row] by simp
qed

lemma selection_txids:
  assumes "pool_ok pe m" "set sel \<subseteq> pool_entries m" "distinct sel"
  shows "distinct (map (txid (pe_crypto pe) \<circ> me_transaction) sel)"
proof -
  have "x = y" if "x \<in> set sel" "y \<in> set sel" "me_txid x = me_txid y" for x y
    using pool_row [OF assms(1), of x] pool_row [OF assms(1), of y] assms(2) that by (metis option.inject subsetD)
  then have "distinct (map me_txid sel)" using assms(3) by (auto simp: distinct_map inj_on_def)
  moreover have "map (txid (pe_crypto pe) \<circ> me_transaction) sel = map me_txid sel"
    using selection_sizes(3) [OF assms(1,2)] by simp
  ultimately show ?thesis by (simp only:)
qed

text \<open>What a template of the tip says.\<close>

lemma create_block_templateD:
  assumes "create_block_template p ch pool ts now = Inr tpl" "h = be_height (bc_tip ch) + 1"
  shows "\<exists>reward. subsidy p h = Inr reward \<and> bt_coinbase_value tpl = reward + snd (pool_selection p pool h)"
    and "median_time_past p (bc_storage ch) (bc_tip ch) = Inr (bt_min_time tpl)"
    and "next_bits_after p (bc_storage ch) (bc_tip ch) (Some (bt_current_time tpl)) now = Inr (bt_bits tpl)"
    and "bt_height tpl = h" "bt_prev_hash tpl = be_hash (bc_tip ch)" "bt_min_time tpl < bt_current_time tpl"
    and "bt_transactions tpl = fst (pool_selection p pool h)" "bt_version tpl = 1"
  using assms
  by (cases "pool_selection p pool h"; auto simp: create_block_template_def chain_next_bits_def Let_def bnd_eq_Inr)+

lemma next_bits_after_given: "next_bits_after p s e (Some t) now = next_bits_after p s e (Some t) later"
  by (simp only: next_bits_after_def option.case)

text \<open>
  C13. A template makes valid blocks. Let a node make a template of its tip from a pool of any history, and a
  miner assemble a block from it and solve it. Then the block passes the stateless checks and the checks against
  its parent, at every later time that does not lie before the time of the template by more than the tolerance:
  the size is within the limit because the reserve covers the coinbase, no transaction occurs twice, target and
  timestamp are the demanded ones, and the coinbase names the right height. Asked is that the reward is at least
  the minimum output, that the pooled transactions were decoded from the wire, and that no two of the hashed
  bodies collide.
\<close>
theorem template_block_valid:
  assumes "create_block_template p ch (Some (pool_run pe evs)) ts now = Inr tpl" "pe_crypto pe = c" "pe_params pe = p"
    and "template_build_block c clock tpl pubkey_hash extra None nonce = Inr b"
    and "pow_limit p = Inr limit" "header_check_proof_of_work c limit (bk_header b) = Inr True"
    and "list_all tx_ok (bt_transactions tpl)" "\<not> colliding c (body_bytes ` set (bk_transactions b))"
    and "pm_min_output_value p \<le> bt_coinbase_value tpl" "1000 \<le> pm_max_block_size p" "pm_max_block_size p < 2 ^ 32"
    and "bt_current_time tpl \<le> later + pm_max_future_time p"
  shows "block_check_sanity c limit (pm_max_block_size p) (pm_min_output_value p) aux b = Inr () \<and>
    bh_prev_hash (bk_header b) = be_hash (bc_tip ch) \<and>
    check_context p (bc_storage ch) b (bc_tip ch) (be_height (bc_tip ch) + 1) later = Inr ()"
proof (intro conjI)
  note tpl = create_block_templateD [OF assms(1) refl]
  define m where "m = pool_run pe evs"
  have ok: "pool_ok pe m" using pool_run_ok by (simp add: m_def)
  have now: "max (bt_current_time tpl) (bt_min_time tpl + 1) = bt_current_time tpl" using tpl(6) by simp
  obtain cb where cb: "build_coinbase (bt_height tpl) (bt_coinbase_value tpl) pubkey_hash extra 0 = Inr cb"
    and b: "block_create c clock (bt_prev_hash tpl) (cb # bt_transactions tpl) (bt_bits tpl)
      (Some (bt_current_time tpl)) (bt_version tpl) nonce None = Inr b"
    using assms(4) now by (auto simp: template_build_block_def bnd_eq_Inr Let_def)
  note blk = created_block [OF b] and coinbase = built_coinbase [OF cb]
  obtain sel where sel: "bt_transactions tpl = map me_transaction sel" "selection_ok m
      (pm_max_block_size p - COINBASE_RESERVE) (be_height (bc_tip ch) + 1) sel"
    using tpl(7) collect_ok [OF ok, of "pm_max_block_size p - COINBASE_RESERVE" "be_height (bc_tip ch) + 1"]
    by (auto simp: pool_selection_def m_def)
  have sub: "set sel \<subseteq> pool_entries m" "distinct sel" using sel(2) by (simp_all add: selection_ok_def)
  note sizes = selection_sizes [OF ok sub(1)]
  have small: "sum_list (map tx_size (bt_transactions tpl)) \<le> pm_max_block_size p - COINBASE_RESERVE + 500"
    using sel sizes(1) assms(10) by (auto simp: selection_ok_def COINBASE_RESERVE_def entry_size_def)
  note fit = assembled_block_size [OF cb assms(7) small _ assms(11) blk(1,2,6)]
  have rest: "relayable pe t" if "t \<in> set (bt_transactions tpl)" for t
    using sizes(2) that sel(1) by simp
  have other: "txid c cb \<noteq> txid c t" if t: "t \<in> set (bt_transactions tpl)" for t
  proof
    assume eq: "txid c cb = txid c t"
    have "is_coinbase cb = is_coinbase t"
      using eq assms(7) coinbase(1) t by (intro same_txid(2) [OF _ _ _ assms(8)]) (auto simp: list_all_iff blk(1))
    then show False using rest [OF t] coinbase(2) by (simp add: relayable_def)
  qed
  have "distinct (map (txid c) (bt_transactions tpl))"
    using selection_txids [OF ok sub] sel(1) assms(2) by simp
  then have "distinct (block_txids c b)"
    using other by (auto simp: block_txids_def blk(1))
  moreover have "block_size b \<le> pm_max_block_size p" using fit(2) by (simp add: COINBASE_RESERVE_def)
  moreover have "\<forall>t \<in> set (bk_transactions b). tx_check_sanity (pm_min_output_value p) t = Inr ()"
    using rest coinbase(5) [OF assms(9)] assms(3) by (auto simp: blk(1) relayable_def)
  ultimately show "block_check_sanity c limit (pm_max_block_size p) (pm_min_output_value p) aux b = Inr ()"
    unfolding block_check_sanity_iff using assms(6) blk rest coinbase(2) by (auto simp: relayable_def)
  show "bh_prev_hash (bk_header b) = be_hash (bc_tip ch)" using blk(3) tpl(5) by simp
  show "check_context p (bc_storage ch) b (bc_tip ch) (be_height (bc_tip ch) + 1) later = Inr ()"
    using blk tpl assms(12) coinbase(3) next_bits_after_given [of p "bc_storage ch" "bc_tip ch" "bt_current_time tpl" now later]
    by (simp add: check_context_def block_coinbase_def)
qed

text \<open>
  A merged-mining candidate can be redeemed. Whatever \<^verbatim>\<open>create_aux_block\<close> froze, the block that
  \<^verbatim>\<open>AuxBlockCandidate.build_block\<close> assembles from it later, at any time, has the hash that the candidate
  committed the parent chain to, begins with the coinbase whose id it named, extends the same tip under the
  same target, and carries no proof of its own yet.
\<close>
theorem aux_candidate_rebuilds:
  assumes "create_aux_block c p ch pool pubkey_hash ts now random = Inr a"
  shows "\<exists>b cb. aux_build_block c later a = Inr b \<and> block_hash c b = ac_aux_block_hash a \<and>
     block_coinbase b = Inr cb \<and> txid c cb = ac_coinbase_hash a \<and> coinbase_height cb = Inr (be_height (bc_tip ch) + 1) \<and>
     bh_prev_hash (bk_header b) = be_hash (bc_tip ch) \<and> bits_to_target (bh_bits (bk_header b)) = Inr (ac_target a) \<and>
     \<not> has_auxpow b"
proof -
  obtain cb b where a: "aux_build_block c now a = Inr b" "ac_coinbase_hash a = txid c cb"
      "ac_aux_block_hash a = block_hash c b" "bits_to_target (ac_bits a) = Inr (ac_target a)"
    and cb: "build_coinbase (be_height (bc_tip ch) + 1) (ac_coinbase_value a) (ac_pubkey_hash a) aux_extra 0 = Inr cb"
    and b: "block_create c now (be_hash (bc_tip ch)) (cb # ac_transactions a) (ac_bits a) (Some (ac_timestamp a)) 1 0 None = Inr b"
    using assms
    by (cases "pool_selection p pool (be_height (bc_tip ch) + 1)")
      (auto simp: create_aux_block_def aux_build_block_def Let_def bnd_eq_Inr guard_eq_Inr)
  have "aux_build_block c later a = aux_build_block c now a"
    by (simp add: aux_build_block_def block_create_def)
  then show ?thesis
    using a created_block [OF b] built_coinbase(3) [OF cb] by (auto simp: block_coinbase_def has_auxpow_def)
qed

section \<open>Witnesses\<close>

definition demo_templates :: "(block_template \<times> block \<times> aux_candidate) result" where
  "demo_templates =
     bnd (create_block_template REGTEST demo_holder (Some demo_pool1) (Some 1700000100) 0) (\<lambda>tpl.
     bnd (template_build_block tail_crypto 0 tpl demo_owner [1, 2] None 0) (\<lambda>b.
     bnd (create_aux_block tail_crypto REGTEST demo_holder (Some demo_pool1) demo_owner (Some 1700000100) 0 [1, 2, 3, 4]) (\<lambda>a.
     Inr (tpl, b, a))))"

lemma demo_templates_eval:
  "map_sum id (\<lambda>(tpl, b, a).
     (list_all tx_ok (bt_transactions tpl), length (bk_transactions b),
      distinct (block_txids tail_crypto b), list_all tx_ok (bk_transactions b), bt_coinbase_value tpl,
      bt_current_time tpl)) demo_templates = Inr (True, 2, True, True, 5000010000, 1700000100)"
  "bnd (pow_limit REGTEST) (\<lambda>limit. bnd demo_templates (\<lambda>(tpl, b, a).
     header_check_proof_of_work tail_crypto limit (bk_header b))) = Inr True"
  by code_simp+

lemma demo_templates_Inr: "\<exists>tpl b a. demo_templates = Inr (tpl, b, a)"
  using map_sum_Inr [OF demo_templates_eval(1)] by fast

lemma demo_pool_run: "pool_run demo_env [(demo_holder, Offered demo_parent True 1)] = demo_pool1"
  using demo_offers(1) by (auto simp: pool_run_def)

lemma REGTEST_bounds: "pm_min_output_value REGTEST \<le> 5000010000" "1000 \<le> pm_max_block_size REGTEST"
  "pm_max_block_size REGTEST < 2 ^ 32" "0 \<le> pm_max_future_time REGTEST"
  by code_simp+

lemma txids_apart:
  assumes "distinct (map (txid c) ts)" "list_all tx_ok ts"
  shows "\<not> colliding c (body_bytes ` set ts)"
proof -
  have "hash256 c (body_bytes t) = txid c t" if "t \<in> set ts" for t
    using assms(2) that by (simp add: txid_def list_all_iff)
  then show ?thesis
    using assms(1) by (auto simp: colliding_def distinct_map inj_on_def)
qed

theorem template_block_valid_witness:
  "\<exists>tpl b limit. pow_limit REGTEST = Inr limit \<and>
     create_block_template REGTEST demo_holder (Some (pool_run demo_env [(demo_holder, Offered demo_parent True 1)]))
       (Some 1700000100) 0 = Inr tpl \<and>
     template_build_block tail_crypto 0 tpl demo_owner [1, 2] None 0 = Inr b \<and> bt_transactions tpl = [demo_parent] \<and>
     block_check_sanity tail_crypto limit (pm_max_block_size REGTEST) (pm_min_output_value REGTEST) False b = Inr () \<and>
     check_context REGTEST (bc_storage demo_holder) b (bc_tip demo_holder) 1001 1700000100 = Inr ()"
proof -
  obtain tpl b a where d: "demo_templates = Inr (tpl, b, a)"
    using demo_templates_Inr by blast
  note ev = demo_templates_eval [unfolded d, simplified]
  obtain limit where limit: "pow_limit REGTEST = Inr limit"
    using ev(2) by (cases "pow_limit REGTEST") auto
  have tpl: "create_block_template REGTEST demo_holder (Some (pool_run demo_env [(demo_holder, Offered demo_parent True 1)]))
      (Some 1700000100) 0 = Inr tpl" "template_build_block tail_crypto 0 tpl demo_owner [1, 2] None 0 = Inr b"
    using d by (auto simp: demo_templates_def demo_pool_run bnd_eq_Inr)
  have "collect demo_pool1 (pm_max_block_size REGTEST - COINBASE_RESERVE) 1001 = ([demo_parent], 10000)" by code_simp
  moreover have height: "be_height (bc_tip demo_holder) + 1 = 1001" by code_simp
  ultimately have txs: "bt_transactions tpl = [demo_parent]"
    using create_block_templateD(7) [OF tpl(1) refl] by (simp add: pool_selection_def demo_pool_run)
  have "\<not> colliding tail_crypto (body_bytes ` set (bk_transactions b))"
    using ev(1) by (intro txids_apart) (simp_all add: block_txids_def)
  then show ?thesis
    using template_block_valid [OF tpl(1) _ _ tpl(2) limit, of 1700000100 False] ev limit tpl txs height REGTEST_bounds
    by (auto simp: demo_env_simps)
qed

theorem aux_candidate_rebuilds_witness:
  "\<exists>a b. create_aux_block tail_crypto REGTEST demo_holder (Some demo_pool1) demo_owner (Some 1700000100) 0 [1, 2, 3, 4] = Inr a \<and>
     aux_build_block tail_crypto 99 a = Inr b \<and> block_hash tail_crypto b = ac_aux_block_hash a"
proof -
  obtain tpl b a where "demo_templates = Inr (tpl, b, a)"
    using demo_templates_Inr by blast
  then have "create_aux_block tail_crypto REGTEST demo_holder (Some demo_pool1) demo_owner (Some 1700000100) 0 [1, 2, 3, 4] = Inr a"
    by (auto simp: demo_templates_def bnd_eq_Inr)
  from this aux_candidate_rebuilds [OF this, of 99] show ?thesis by blast
qed

end
