(* ===== verification/Node.thy ===== *)
theory Node
  imports Link AddrBook PoolInvariant Template Consensus
begin

text \<open>
  \<^verbatim>\<open>net/node.py\<close>, the state of a node and the paths on which blocks and transactions enter it. The record \<open>node\<close> joins
  the chain, the pool, the blocks that wait, the peers and the address book; an operation is a function of the state
  that returns a value or an exception and the state it leaves. One operation reads the clock once (\<open>now\<close>), and it
  runs alone: the threads of the program interleave whole operations here.

  A peer is the record of \<^verbatim>\<open>net/peer.py\<close>. \<open>pr_sent\<close> are the messages handed to its socket, with their bytes;
  \<open>pr_gone\<close> tells that the socket fails.
\<close>

section \<open>State\<close>

definition BAN_THRESHOLD :: int where "BAN_THRESHOLD = 100"
definition BLOCKS_IN_FLIGHT :: nat where "BLOCKS_IN_FLIGHT = 64"
definition MAX_ORPHANS :: nat where "MAX_ORPHANS = 200"
definition MISBEHAVIOUR_BAN_DURATION :: rat where "MISBEHAVIOUR_BAN_DURATION = 86400"
definition MAX_KNOWN_INVENTORY :: nat where "MAX_KNOWN_INVENTORY = 20000"

record peer =
  pr_host :: utext
  pr_port :: int
  pr_inbound :: bool
  pr_gone :: bool
  pr_closed :: bool
  pr_cipher :: "p2p_cipher option"
  pr_ephemeral_key :: bytes
  pr_version :: "int option"
  pr_nonce :: "int option"
  pr_user_agent :: utext
  pr_start_height :: int
  pr_listen_port :: "int option"
  pr_handshake_done :: bool
  pr_last_message_at :: rat
  pr_last_ping_nonce :: "int option"
  pr_last_ping_sent :: "rat option"
  pr_latency :: "rat option"
  pr_misbehaviour :: int
  pr_known_inventory :: "bytes list"
  pr_pending_blocks :: "bytes list"
  pr_requested_blocks :: "bytes list"
  pr_requested_at :: "(bytes \<times> rat) list"
  pr_blocks_served :: int
  pr_served_last_check :: int
  pr_last_getdata_at :: "rat option"
  pr_sent :: "(message \<times> bytes) list"

definition mk_peer :: "rat \<Rightarrow> utext \<Rightarrow> int \<Rightarrow> bool \<Rightarrow> bytes \<Rightarrow> peer" where
  "mk_peer now host port inbound key =
     \<lparr>pr_host = host, pr_port = port, pr_inbound = inbound, pr_gone = False, pr_closed = False, pr_cipher = None,
      pr_ephemeral_key = key, pr_version = None, pr_nonce = None, pr_user_agent = [], pr_start_height = 0,
      pr_listen_port = None, pr_handshake_done = False, pr_last_message_at = now, pr_last_ping_nonce = None,
      pr_last_ping_sent = None, pr_latency = None, pr_misbehaviour = 0, pr_known_inventory = [], pr_pending_blocks = [],
      pr_requested_blocks = [], pr_requested_at = [], pr_blocks_served = 0, pr_served_last_check = 0,
      pr_last_getdata_at = None, pr_sent = []\<rparr>"

text \<open>What a node is started with. \<open>cf_resolve\<close> is the resolver of host names, \<open>cf_shuffle\<close> the order \<^verbatim>\<open>random\<close> picks.\<close>

record node_config =
  cf_pool :: pool_env
  cf_fuel :: nat
  cf_primitives :: primitives
  cf_user_agent :: utext
  cf_listen_port :: int
  cf_nonce :: int
  cf_max_aux :: int
  cf_prune :: int
  cf_resolve :: "utext \<Rightarrow> utext option"
  cf_shuffle :: "address_entry list \<Rightarrow> address_entry list"

definition ncrypto :: "node_config \<Rightarrow> crypto" where "ncrypto cf = pe_crypto (cf_pool cf)"
definition nparams :: "node_config \<Rightarrow> chain_params" where "nparams cf = pe_params (cf_pool cf)"

text \<open>The ordered dictionaries \<^verbatim>\<open>_orphans\<close> and \<^verbatim>\<open>_premature\<close>, oldest entry first, are tables of waiting blocks.\<close>

type_synonym waiting = "(bytes \<times> (block \<times> rat)) list"

record node =
  nd_chain :: blockchain
  nd_pool :: mempool
  nd_orphans :: waiting
  nd_premature :: waiting
  nd_premature_blocks :: int
  nd_premature_reason :: string
  nd_last_block_at :: rat
  nd_last_poll_at :: rat
  nd_peers :: "(int \<times> peer) list"
  nd_book :: address_book
  nd_local :: "address_key list"
  nd_aux :: "(bytes \<times> aux_candidate) list"
  nd_auxpow_blocks :: int
  nd_auxpow_rejections :: int
  nd_auxpow_submissions :: int
  nd_auxpow_templates :: int

section \<open>Sequences of actions\<close>

type_synonym 'a act = "node \<Rightarrow> 'a result \<times> node"

definition done_with :: "'a \<Rightarrow> 'a act" where
  "done_with x n = (Inr x, n)"

definition fail_with :: "exn \<Rightarrow> 'a act" where
  "fail_with e n = (Inl e, n)"

definition act_bind :: "'a act \<Rightarrow> ('a \<Rightarrow> 'b act) \<Rightarrow> 'b act" where
  "act_bind m f n = (case m n of (Inl e, n) \<Rightarrow> (Inl e, n) | (Inr x, n) \<Rightarrow> f x n)"

definition modify :: "(node \<Rightarrow> node) \<Rightarrow> unit act" where
  "modify f n = (Inr (), f n)"

definition lifted :: "'a result \<Rightarrow> 'a act" where
  "lifted r n = (r, n)"

text \<open>\<open>act_catch P h m\<close> is \<^verbatim>\<open>try: m except ...: h\<close>, for the exceptions of the kind \<open>P\<close>.\<close>

definition act_catch :: "(exn \<Rightarrow> bool) \<Rightarrow> (exn \<Rightarrow> 'a act) \<Rightarrow> 'a act \<Rightarrow> 'a act" where
  "act_catch P h m n = (case m n of (Inl e, n) \<Rightarrow> if P e then h e n else (Inl e, n) | r \<Rightarrow> r)"

fun act_each :: "('a \<Rightarrow> unit act) \<Rightarrow> 'a list \<Rightarrow> unit act" where
  "act_each f [] = done_with ()"
| "act_each f (x # xs) = act_bind (f x) (\<lambda>_. act_each f xs)"

fun is_PeerDisconnected :: "exn \<Rightarrow> bool" where
  "is_PeerDisconnected (PeerDisconnected _) = True"
| "is_PeerDisconnected _ = False"

section \<open>Peers\<close>

definition find_peer :: "node \<Rightarrow> int \<Rightarrow> peer option" where
  "find_peer n i = map_of (nd_peers n) i"

definition upd_peer :: "int \<Rightarrow> (peer \<Rightarrow> peer) \<Rightarrow> node \<Rightarrow> node" where
  "upd_peer i f n =
     (case find_peer n i of None \<Rightarrow> n | Some q \<Rightarrow> n\<lparr>nd_peers := AList.update i (f q) (nd_peers n)\<rparr>)"

definition with_peer :: "int \<Rightarrow> (peer \<Rightarrow> unit act) \<Rightarrow> unit act" where
  "with_peer i f n = (case find_peer n i of None \<Rightarrow> (Inr (), n) | Some q \<Rightarrow> f q n)"

definition close_peer :: "peer \<Rightarrow> peer" where
  "close_peer q = (if pr_closed q then q else q\<lparr>pr_closed := True, pr_handshake_done := True\<rparr>)"

definition note_inventory :: "bytes \<Rightarrow> peer \<Rightarrow> peer" where
  "note_inventory h q =
     q\<lparr>pr_known_inventory :=
        List.insert h (if length (pr_known_inventory q) \<ge> MAX_KNOWN_INVENTORY then [] else pr_known_inventory q)\<rparr>"

definition peer_knows :: "peer \<Rightarrow> bytes \<Rightarrow> bool" where
  "peer_knows q h \<longleftrightarrow> h \<in> set (pr_known_inventory q)"

definition advertised_address :: "peer \<Rightarrow> address_key option" where
  "advertised_address q = (case pr_listen_port q of
     None \<Rightarrow> None | Some port \<Rightarrow> if port \<noteq> 0 then Some (pr_host q, port) else None)"

definition send :: "node_config \<Rightarrow> int \<Rightarrow> message \<Rightarrow> unit act" where
  "send cf i m n =
     (case find_peer n i of
        None \<Rightarrow> (Inl (PeerDisconnected ''closed''), n)
      | Some q \<Rightarrow>
          if pr_closed q then (Inl (PeerDisconnected ''closed''), n)
          else case channel_send (cf_primitives cf) (ncrypto cf) (pm_magic (nparams cf)) m (pr_cipher q) of
            Inl e \<Rightarrow> (Inl e, n)
          | Inr (data, cipher) \<Rightarrow>
              if pr_gone q
              then (Inl (PeerDisconnected ''send failed''), upd_peer i (\<lambda>q. close_peer (q\<lparr>pr_cipher := cipher\<rparr>)) n)
              else (Inr (), upd_peer i (\<lambda>q. q\<lparr>pr_cipher := cipher, pr_sent := pr_sent q @ [(m, data)]\<rparr>) n))"

definition relay :: "node_config \<Rightarrow> inv_item \<Rightarrow> int option \<Rightarrow> unit act" where
  "relay cf item source n =
     act_each (\<lambda>i. with_peer i (\<lambda>q.
         if Some i = source \<or> \<not> pr_handshake_done q \<or> peer_knows q (iv_hash item) then done_with ()
         else act_bind (modify (upd_peer i (note_inventory (iv_hash item)))) (\<lambda>_.
              act_catch is_PeerDisconnected (\<lambda>_. done_with ()) (send cf i (Inv [item])))))
       (map fst (nd_peers n)) n"

definition misbehave :: "rat \<Rightarrow> int \<Rightarrow> int \<Rightarrow> unit act" where
  "misbehave now i points n =
     (case find_peer n i of
        None \<Rightarrow> (Inr (), n)
      | Some q \<Rightarrow>
          let n = upd_peer i (\<lambda>q. q\<lparr>pr_misbehaviour := pr_misbehaviour q + points\<rparr>) n in
          if pr_misbehaviour q + points \<ge> BAN_THRESHOLD
          then (Inr (), upd_peer i close_peer (n\<lparr>nd_book := book_ban now (pr_host q) MISBEHAVIOUR_BAN_DURATION (nd_book n)\<rparr>))
          else (Inr (), n))"

section \<open>Blocks\<close>

definition block_item :: "bytes \<Rightarrow> inv_item" where
  "block_item h = \<lparr>iv_type = INV_BLOCK, iv_hash = h\<rparr>"

definition tx_item :: "bytes \<Rightarrow> inv_item" where
  "tx_item h = \<lparr>iv_type = INV_TX, iv_hash = h\<rparr>"

text \<open>The pool is a listener of the chain: it hears of the blocks that a call of \<open>add_block\<close> moved, in order.\<close>

fun deliver :: "pool_env \<Rightarrow> blockchain \<Rightarrow> rat \<Rightarrow> chain_event list \<Rightarrow> mempool \<Rightarrow> unit result \<times> mempool" where
  "deliver pe ch now [] m = (Inr (), m)"
| "deliver pe ch now (ev # evs) m =
     (case (case ev of
              BlockConnected b _ \<Rightarrow> pool_block_connected pe ch (\<lambda>_. now) b m
            | BlockDisconnected b _ \<Rightarrow> pool_block_disconnected pe ch (\<lambda>_. now) (\<lambda>_. now) b m) of
        (Inl e, m) \<Rightarrow> (Inl e, m)
      | (Inr _, m) \<Rightarrow> deliver pe ch now evs m)"

definition node_add_block :: "node_config \<Rightarrow> rat \<Rightarrow> block \<Rightarrow> add_block_result act" where
  "node_add_block cf now b n =
     (case add_block (cf_fuel cf) (ncrypto cf) (nparams cf) (int_of_float now) b (nd_chain n) of
        (r, ch) \<Rightarrow>
          (case deliver (cf_pool cf) ch now (drop (length (bc_events (nd_chain n))) (bc_events ch)) (nd_pool n) of
             (Inl e, m) \<Rightarrow> (Inl e, n\<lparr>nd_chain := ch, nd_pool := m\<rparr>)
           | (Inr _, m) \<Rightarrow> (r, n\<lparr>nd_chain := ch, nd_pool := m\<rparr>)))"

definition remember_waiting :: "bytes \<Rightarrow> block \<Rightarrow> rat \<Rightarrow> waiting \<Rightarrow> waiting" where
  "remember_waiting h b now w =
     (let w = AList.update h (b, now) w in drop (length w - MAX_ORPHANS) w)"

definition waiting_children :: "bytes \<Rightarrow> waiting \<Rightarrow> block list" where
  "waiting_children h w = map (\<lambda>(_, b, _). b) (filter (\<lambda>(_, b, _). bh_prev_hash (bk_header b) = h) w)"

definition forget_waiting :: "crypto \<Rightarrow> block list \<Rightarrow> waiting \<Rightarrow> waiting" where
  "forget_waiting c bs w = fold (\<lambda>b. AList.delete (block_hash c b)) bs w"

fun connect_children :: "node_config \<Rightarrow> rat \<Rightarrow> block list \<Rightarrow> bytes list \<Rightarrow> bytes list act" where
  "connect_children cf now [] pending = done_with pending"
| "connect_children cf now (b # bs) pending =
     act_bind (node_add_block cf now b) (\<lambda>r.
       if accepted r
       then act_bind (relay cf (block_item (block_hash (ncrypto cf) b)) None) (\<lambda>_.
            connect_children cf now bs (pending @ [block_hash (ncrypto cf) b]))
       else connect_children cf now bs pending)"

text \<open>The loop of \<^verbatim>\<open>_connect_orphans_of\<close>; its fuel is one more than the number of orphans.\<close>

fun orphans_loop :: "node_config \<Rightarrow> rat \<Rightarrow> nat \<Rightarrow> bytes list \<Rightarrow> unit act" where
  "orphans_loop cf now fuel [] = done_with ()"
| "orphans_loop cf now 0 (h # hs) = fail_with Nonterminating"
| "orphans_loop cf now (Suc fuel) (h # hs) =
     (\<lambda>n. let pending = h # hs; children = waiting_children (last pending) (nd_orphans n) in
        act_bind (modify (nd_orphans_update (forget_waiting (ncrypto cf) children))) (\<lambda>_.
        act_bind (connect_children cf now children (butlast pending)) (orphans_loop cf now fuel)) n)"

definition connect_orphans_of :: "node_config \<Rightarrow> rat \<Rightarrow> bytes \<Rightarrow> unit act" where
  "connect_orphans_of cf now h n = orphans_loop cf now (Suc (length (nd_orphans n))) [h] n"

definition note_premature_block :: "string \<Rightarrow> node \<Rightarrow> node" where
  "note_premature_block why n = n\<lparr>nd_premature_blocks := nd_premature_blocks n + 1, nd_premature_reason := why\<rparr>"

definition submit_block :: "node_config \<Rightarrow> rat \<Rightarrow> block \<Rightarrow> int option \<Rightarrow> add_block_result act" where
  "submit_block cf now b source =
     act_bind (node_add_block cf now b) (\<lambda>r.
     let h = block_hash (ncrypto cf) b in
     case ar_status r of
       ORPHAN \<Rightarrow> act_bind (modify (nd_orphans_update (remember_waiting h b now))) (\<lambda>_. done_with r)
     | PREMATURE \<Rightarrow>
         act_bind (modify (note_premature_block (ar_reason r))) (\<lambda>_.
         act_bind (modify (nd_premature_update (remember_waiting h b now))) (\<lambda>_. done_with r))
     | INVALID \<Rightarrow>
         act_bind (modify (\<lambda>n. if has_auxpow b then n\<lparr>nd_auxpow_rejections := nd_auxpow_rejections n + 1\<rparr> else n)) (\<lambda>_.
         done_with r)
     | _ \<Rightarrow>
         act_bind (modify (\<lambda>n.
           if ar_status r = CONNECTED
           then (let n = n\<lparr>nd_last_block_at := now\<rparr> in
                 if has_auxpow b then n\<lparr>nd_auxpow_blocks := nd_auxpow_blocks n + 1\<rparr> else n)
           else n)) (\<lambda>_.
         act_bind (relay cf (block_item h) source) (\<lambda>_.
         act_bind (connect_orphans_of cf now h) (\<lambda>_. done_with r))))"

definition PREMATURE_EXPIRY :: rat where "PREMATURE_EXPIRY = 1800"

definition retry_one :: "node_config \<Rightarrow> rat \<Rightarrow> bytes \<times> (block \<times> rat) \<Rightarrow> unit act" where
  "retry_one cf now w =
     (case w of (h, b, first_seen) \<Rightarrow>
      act_bind (node_add_block cf now b) (\<lambda>r.
      act_bind (modify (\<lambda>n.
        if ar_status r \<noteq> PREMATURE \<or> round_float (now - first_seen) > PREMATURE_EXPIRY
        then nd_premature_update (AList.delete h) n else n)) (\<lambda>_.
      if accepted r
      then act_bind (modify (\<lambda>n. n\<lparr>nd_last_block_at := now\<rparr>)) (\<lambda>_.
           act_bind (relay cf (block_item h) None) (\<lambda>_. connect_orphans_of cf now h))
      else done_with ())))"

definition retry_premature :: "node_config \<Rightarrow> rat \<Rightarrow> unit act" where
  "retry_premature cf now n = act_each (retry_one cf now) (nd_premature n) n"

section \<open>Transactions\<close>

definition submit_transaction :: "node_config \<Rightarrow> rat \<Rightarrow> transaction \<Rightarrow> int option \<Rightarrow> mempool_entry act" where
  "submit_transaction cf now t source n =
     (case pool_add (cf_pool cf) (nd_chain n) now t True (nd_pool n) of
        (Inl e, m) \<Rightarrow> (Inl e, n\<lparr>nd_pool := m\<rparr>)
      | (Inr entry, m) \<Rightarrow>
          act_bind (relay cf (tx_item (me_txid entry)) source) (\<lambda>_. done_with entry) (n\<lparr>nd_pool := m\<rparr>))"

section \<open>Candidates for merged mining\<close>

definition store_aux_candidate :: "node_config \<Rightarrow> aux_candidate \<Rightarrow> node \<Rightarrow> node" where
  "store_aux_candidate cf a n =
     (let t = nd_aux n;
          t = (if int (length t) \<ge> max 1 (cf_max_aux cf) then tl t else t)
      in n\<lparr>nd_auxpow_templates := nd_auxpow_templates n + 1, nd_auxpow_submissions := nd_auxpow_submissions n + 1,
           nd_aux := AList.update (ac_aux_block_hash a) a t\<rparr>)"

definition find_aux_candidate :: "bytes \<Rightarrow> node \<Rightarrow> aux_candidate option \<times> node" where
  "find_aux_candidate h n =
     (case map_of (nd_aux n) h of
        None \<Rightarrow> (None, n)
      | Some a \<Rightarrow>
          if be_hash (bc_tip (nd_chain n)) \<noteq> ac_prev_hash a
          then (None, n\<lparr>nd_aux := AList.delete h (nd_aux n)\<rparr>)
          else (Some a, n))"

end
