(* ===== verification/Handlers.thy ===== *)
theory Handlers
  imports Node
begin

text \<open>
  \<^verbatim>\<open>net/node.py\<close>, what a node does with the messages of a peer, and its housekeeping. A handler for the peer \<open>i\<close> is an
  action of the node; the exceptions that leave it end the connection, as the loop of \<^verbatim>\<open>_peer_loop\<close> has it.
\<close>

section \<open>Handshake\<close>

definition send_version :: "node_config \<Rightarrow> rat \<Rightarrow> int \<Rightarrow> unit act" where
  "send_version cf now i = with_peer i (\<lambda>q n.
     send cf i (Version \<lparr>ve_version = PROTOCOL_VERSION, ve_user_agent = cf_user_agent cf,
       ve_start_height = be_height (bc_tip (nd_chain n)), ve_nonce = cf_nonce cf, ve_listen_port = cf_listen_port cf,
       ve_timestamp = int_of_float now, ve_ephemeral_pubkey = public_bytes (cf_primitives cf) (pr_ephemeral_key q)\<rparr>) n)"

definition note_local_address :: "node_config \<Rightarrow> utext \<Rightarrow> int \<Rightarrow> node \<Rightarrow> node" where
  "note_local_address cf host port n =
     (if (host, port) \<in> set (nd_local n) then n
      else
        let n = n\<lparr>nd_local := List.insert (host, port) (nd_local n), nd_book := book_forget host port (nd_book n)\<rparr> in
        case cf_resolve cf host of
          None \<Rightarrow> n
        | Some resolved \<Rightarrow>
            if resolved \<noteq> host
            then n\<lparr>nd_local := List.insert (resolved, port) (nd_local n), nd_book := book_forget resolved port (nd_book n)\<rparr>
            else n)"

text \<open>A connection of the node to itself: the address it was reached under is remembered.\<close>

definition met_itself :: "node_config \<Rightarrow> int \<Rightarrow> peer \<Rightarrow> version_message \<Rightarrow> node \<Rightarrow> node" where
  "met_itself cf i q v n =
     (let n = (if \<not> pr_inbound q then note_local_address cf (pr_host q) (pr_port q) n else n);
          n = (if ve_listen_port v \<noteq> 0 then note_local_address cf (pr_host q) (ve_listen_port v) n
               else if pr_inbound q then note_local_address cf (pr_host q) (pr_port q) n else n)
      in upd_peer i close_peer n)"

definition has_twin :: "int \<Rightarrow> int \<Rightarrow> node \<Rightarrow> bool" where
  "has_twin i nonce n = list_ex (\<lambda>(j, q). j \<noteq> i \<and> pr_nonce q = Some nonce) (nd_peers n)"

definition introduce :: "version_message \<Rightarrow> peer \<Rightarrow> peer" where
  "introduce v q = q\<lparr>pr_nonce := Some (ve_nonce v), pr_version := Some (ve_version v), pr_user_agent := ve_user_agent v,
     pr_start_height := ve_start_height v,
     pr_listen_port := (if ve_listen_port v \<noteq> 0 then Some (ve_listen_port v) else None)\<rparr>"

definition on_version :: "node_config \<Rightarrow> rat \<Rightarrow> int \<Rightarrow> version_message \<Rightarrow> unit act" where
  "on_version cf now i v = with_peer i (\<lambda>q n.
     if pr_version q \<noteq> None then (Inl (ProtocolError ''duplicate version message''), n)
     else if ve_nonce v = cf_nonce cf then (Inr (), met_itself cf i q v n)
     else if has_twin i (ve_nonce v) n then (Inr (), upd_peer i close_peer n)
     else
       act_bind (modify (upd_peer i (introduce v))) (\<lambda>_.
       act_bind (if pr_inbound q then send_version cf now i else done_with ()) (\<lambda>_.
       act_bind (if ve_ephemeral_pubkey v \<noteq> []
                 then act_bind (lifted (derive_shared_key (cf_primitives cf) (pr_ephemeral_key q) (ve_ephemeral_pubkey v)))
                        (\<lambda>key. modify (upd_peer i (\<lambda>q. q\<lparr>pr_cipher := Some (mk_cipher key)\<rparr>)))
                 else done_with ()) (\<lambda>_.
       act_bind (send cf i VerAck) (\<lambda>_.
       case advertised_address (introduce v q) of
         None \<Rightarrow> done_with ()
       | Some (host, port) \<Rightarrow> modify (\<lambda>n. n\<lparr>nd_book := book_add now host port ''handshake'' 0 (nd_book n)\<rparr>))))) n)"

definition announce_mempool :: "node_config \<Rightarrow> int \<Rightarrow> unit act" where
  "announce_mempool cf i n =
     (let txids = take (nat MAX_INV_ITEMS) (mp_order (nd_pool n)) in
      if txids = [] then (Inr (), n) else send cf i (Inv (map tx_item txids)) n)"

definition maybe_sync :: "node_config \<Rightarrow> bool \<Rightarrow> int \<Rightarrow> unit act" where
  "maybe_sync cf force i = with_peer i (\<lambda>q n.
     if pr_closed q then (Inr (), n)
     else if \<not> force \<and> pr_start_height q \<le> be_height (bc_tip (nd_chain n)) then (Inr (), n)
     else if pr_requested_blocks q \<noteq> [] \<or> pr_pending_blocks q \<noteq> [] then (Inr (), n)
     else act_bind (lifted (header_locator (ncrypto cf) (nparams cf) (nd_chain n)))
            (\<lambda>known. send cf i (GetHeaders known (replicate 32 0))) n)"

definition complete_handshake :: "node_config \<Rightarrow> int \<Rightarrow> unit act" where
  "complete_handshake cf i = with_peer i (\<lambda>q.
     if pr_handshake_done q then done_with ()
     else
       act_bind (modify (upd_peer i (pr_handshake_done_update (\<lambda>_. True)))) (\<lambda>_.
       act_bind (send cf i GetAddr) (\<lambda>_.
       act_bind (maybe_sync cf False i) (\<lambda>_.
       act_bind (send cf i MempoolMessage) (\<lambda>_.
       announce_mempool cf i)))))"

section \<open>Addresses\<close>

definition on_getaddr :: "node_config \<Rightarrow> int \<Rightarrow> unit act" where
  "on_getaddr cf i n =
     act_bind (lifted (mapR (\<lambda>e. mk_network_address (ae_host e) (ae_port e) (ae_last_seen e))
                        (sample (cf_shuffle cf) (nat (MAX_ADDR_ITEMS div 4)) (nd_book n)))) (\<lambda>addresses.
     if addresses \<noteq> [] then send cf i (Addr addresses) else done_with ()) n"

definition on_addr :: "rat \<Rightarrow> network_address list \<Rightarrow> node \<Rightarrow> node" where
  "on_addr now addresses n =
     fold (\<lambda>a n. if (na_host a, na_port a) \<in> set (nd_local n) then n
        else n\<lparr>nd_book := book_add now (na_host a) (na_port a) ''gossip'' (na_last_seen a) (nd_book n)\<rparr>) addresses n"

section \<open>Requesting blocks\<close>

definition block_parent :: "storage \<Rightarrow> bytes \<Rightarrow> bytes option" where
  "block_parent s h =
     (case header_entry s h of
        Some e \<Rightarrow> Some (bh_prev_hash (he_header e))
      | None \<Rightarrow> map_option be_prev_hash (get_entry s h))"

text \<open>The loop of \<^verbatim>\<open>_request_blocks\<close>: the hashes to request, and what stays in the queue.\<close>

fun batch_loop :: "storage \<Rightarrow> bytes list \<Rightarrow> bytes list \<Rightarrow> bytes list \<times> bytes list" where
  "batch_loop s queued [] = ([], [])"
| "batch_loop s queued (h # hs) =
     (if card (set queued) \<ge> BLOCKS_IN_FLIGHT then ([], h # hs)
      else if (case block_parent s h of None \<Rightarrow> False | Some ph \<Rightarrow> \<not> has_block s ph \<and> ph \<notin> set queued) then ([], h # hs)
      else if has_block s h then batch_loop s queued hs
      else case batch_loop s (List.insert h queued) hs of (batch, rest) \<Rightarrow> (h # batch, rest))"

definition request_blocks :: "node_config \<Rightarrow> rat \<Rightarrow> int \<Rightarrow> unit act" where
  "request_blocks cf now i = with_peer i (\<lambda>q n.
     case batch_loop (bc_storage (nd_chain n)) (pr_requested_blocks q) (pr_pending_blocks q) of
       (batch, rest) \<Rightarrow>
         (if batch = [] then modify (upd_peer i (pr_pending_blocks_update (\<lambda>_. rest)))
          else
            act_bind (modify (upd_peer i (\<lambda>q. q\<lparr>pr_pending_blocks := rest,
              pr_requested_blocks := fold List.insert batch (pr_requested_blocks q),
              pr_requested_at := fold (\<lambda>h. AList.update h now) batch (pr_requested_at q)\<rparr>))) (\<lambda>_.
            act_bind (send cf i (GetData (map block_item batch))) (\<lambda>_.
            modify (upd_peer i (pr_last_getdata_at_update (\<lambda>_. Some now)))))) n)"

text \<open>\<^verbatim>\<open>discard\<close> on both records of what was requested.\<close>

definition forget_request :: "bytes \<Rightarrow> peer \<Rightarrow> peer" where
  "forget_request h q = q\<lparr>pr_requested_blocks := removeAll h (pr_requested_blocks q),
     pr_requested_at := AList.delete h (pr_requested_at q)\<rparr>"

definition BLOCK_STALL_TIMEOUT :: rat where "BLOCK_STALL_TIMEOUT = 30"

definition release_stale :: "rat \<Rightarrow> peer \<Rightarrow> peer" where
  "release_stale now q =
     fold (\<lambda>h q. (forget_request h q)\<lparr>pr_pending_blocks := pr_pending_blocks q @ [h]\<rparr>)
       (map fst (filter (\<lambda>(h, t). round_float (now - t) > BLOCK_STALL_TIMEOUT) (pr_requested_at q))) q"

text \<open>
  The run of missing blocks a peer gets, and its new queue. The quotient of the two counts, at most some thousands,
  rounds up to the same integer as the float quotient of the source does.
\<close>

definition run_width :: "nat \<Rightarrow> nat \<Rightarrow> nat" where
  "run_width missing peers = (missing + peers - 1) div peers"

definition assign_run :: "bytes list \<Rightarrow> bytes list \<Rightarrow> peer \<Rightarrow> peer" where
  "assign_run missing run q =
     q\<lparr>pr_pending_blocks := filter (\<lambda>h. h \<notin> set (pr_requested_blocks q)) run @
        filter (\<lambda>h. h \<notin> set missing \<and> h \<notin> set (pr_requested_blocks q)) (pr_pending_blocks q)\<rparr>"

fun assign_runs :: "bytes list \<Rightarrow> nat \<Rightarrow> nat \<Rightarrow> int list \<Rightarrow> node \<Rightarrow> node" where
  "assign_runs missing width k [] n = n"
| "assign_runs missing width k (i # is) n =
     assign_runs missing width (Suc k) is
       (upd_peer i (assign_run missing (take width (drop (k * width) missing))) n)"

definition greeted :: "node \<Rightarrow> int list" where
  "greeted n = map fst (filter (\<lambda>(_, q). pr_handshake_done q) (nd_peers n))"

definition queue_missing_blocks :: "node_config \<Rightarrow> rat \<Rightarrow> unit act" where
  "queue_missing_blocks cf now n =
     (let missing = headers_to_download (nd_chain n) 2000; peers = greeted n in
      if missing = [] \<or> peers = [] then (Inr (), n)
      else
        let n = fold (\<lambda>i. upd_peer i (release_stale now)) peers n;
            n = assign_runs missing (run_width (length missing) (length peers)) 0 peers n
        in act_each (request_blocks cf now) peers n)"

section \<open>Announcements and requests\<close>

fun inv_loop :: "int \<Rightarrow> inv_item list \<Rightarrow> node \<Rightarrow> inv_item list \<times> node" where
  "inv_loop i [] n = ([], n)"
| "inv_loop i (item # items) n =
     (let h = iv_hash item; n = upd_peer i (note_inventory h) n in
      if item_is_block item then
        if has_block (bc_storage (nd_chain n)) h \<or> map_of (nd_orphans n) h \<noteq> None then inv_loop i items n
        else if map_of (nd_premature n) h \<noteq> None then inv_loop i items n
        else if (case find_peer n i of None \<Rightarrow> True
                 | Some q \<Rightarrow> h \<in> set (pr_requested_blocks q) \<or> h \<in> set (pr_pending_blocks q)) then inv_loop i items n
        else inv_loop i items (upd_peer i (\<lambda>q. q\<lparr>pr_pending_blocks := pr_pending_blocks q @ [h]\<rparr>) n)
      else if in_pool (nd_pool n) h \<or> get_transaction (nd_chain n) h \<noteq> None then inv_loop i items n
      else case inv_loop i items n of (wanted, n) \<Rightarrow> (item # wanted, n))"

definition on_inv :: "node_config \<Rightarrow> rat \<Rightarrow> int \<Rightarrow> inv_item list \<Rightarrow> unit act" where
  "on_inv cf now i items n =
     (case inv_loop i items n of (wanted, n) \<Rightarrow>
        act_bind (if wanted \<noteq> [] then send cf i (GetData wanted) else done_with ()) (\<lambda>_. request_blocks cf now i) n)"

fun getdata_loop :: "node_config \<Rightarrow> int \<Rightarrow> inv_item list \<Rightarrow> inv_item list act" where
  "getdata_loop cf i [] = done_with []"
| "getdata_loop cf i (item # items) = (\<lambda>n.
     if item_is_block item then
       (case get_block (bc_storage (nd_chain n)) (iv_hash item) of
          None \<Rightarrow> act_bind (getdata_loop cf i items) (\<lambda>missing. done_with (item # missing)) n
        | Some b \<Rightarrow>
            act_bind (send cf i (BlockMessage b)) (\<lambda>_.
            act_bind (modify (upd_peer i (\<lambda>q. q\<lparr>pr_blocks_served := pr_blocks_served q + 1\<rparr>))) (\<lambda>_.
            getdata_loop cf i items)) n)
     else
       (case (case pool_get (nd_pool n) (iv_hash item) of
                Some t \<Rightarrow> Some t | None \<Rightarrow> map_option fst (get_transaction (nd_chain n) (iv_hash item))) of
          None \<Rightarrow> act_bind (getdata_loop cf i items) (\<lambda>missing. done_with (item # missing)) n
        | Some t \<Rightarrow> act_bind (send cf i (TxMessage t)) (\<lambda>_. getdata_loop cf i items) n))"

definition on_getdata :: "node_config \<Rightarrow> int \<Rightarrow> inv_item list \<Rightarrow> unit act" where
  "on_getdata cf i items =
     act_bind (getdata_loop cf i items) (\<lambda>missing.
     if missing \<noteq> [] then send cf i (NotFound missing) else done_with ())"

definition MAX_BLOCKS_PER_INV :: int where "MAX_BLOCKS_PER_INV = 500"

definition on_getblocks :: "node_config \<Rightarrow> int \<Rightarrow> bytes list \<Rightarrow> bytes \<Rightarrow> unit act" where
  "on_getblocks cf i known stop_hash n =
     (let fork_height = find_fork_height (nd_chain n) known in
      if fork_height < prune_height (bc_storage (nd_chain n)) then (Inr (), n)
      else
        let hashes = active_hashes_after (nd_chain n) fork_height MAX_BLOCKS_PER_INV;
            hashes = (if stop_hash \<noteq> replicate 32 0 \<and> stop_hash \<in> set hashes
                      then takeWhile (\<lambda>h. h \<noteq> stop_hash) hashes @ [stop_hash] else hashes)
        in if hashes \<noteq> [] then send cf i (Inv (map block_item hashes)) n else (Inr (), n))"

definition on_getheaders :: "node_config \<Rightarrow> int \<Rightarrow> bytes list \<Rightarrow> bytes \<Rightarrow> unit act" where
  "on_getheaders cf i known stop_hash n =
     act_bind (lifted (find_header_fork_height (nd_chain n) known)) (\<lambda>fork_height.
     act_bind (lifted (serialized_headers_after (ncrypto cf) (nd_chain n) fork_height MAX_HEADERS_PER_MESSAGE (Some stop_hash))) (\<lambda>headers.
     if headers \<noteq> [] then send cf i (HeadersMessage headers) else done_with ())) n"

definition take_header :: "node_config \<Rightarrow> rat \<Rightarrow> bytes \<Rightarrow> unit act" where
  "take_header cf now raw n =
     (case header_deserialize raw of
        Inl e \<Rightarrow> if is_ValueError e then (Inr (), n) else (Inl e, n)
      | Inr hdr \<Rightarrow>
          (case add_header (ncrypto cf) (nparams cf) (int_of_float now) hdr (nd_chain n) of
             Inl e \<Rightarrow> (Inl e, n)
           | Inr (_, ch) \<Rightarrow> (Inr (), n\<lparr>nd_chain := ch\<rparr>)))"

definition on_headers :: "node_config \<Rightarrow> rat \<Rightarrow> int \<Rightarrow> bytes list \<Rightarrow> unit act" where
  "on_headers cf now i headers =
     act_bind (act_each (take_header cf now) headers) (\<lambda>_.
     act_bind (queue_missing_blocks cf now) (\<lambda>_.
     with_peer i (\<lambda>q n. if header_height (nd_chain n) < pr_start_height q then maybe_sync cf True i n else (Inr (), n))))"

section \<open>Blocks and transactions\<close>

definition on_block :: "node_config \<Rightarrow> rat \<Rightarrow> int \<Rightarrow> block \<Rightarrow> unit act" where
  "on_block cf now i b =
     (let h = block_hash (ncrypto cf) b in
      act_bind (modify (upd_peer i (note_inventory h \<circ> forget_request h))) (\<lambda>_.
      act_bind (submit_block cf now b (Some i)) (\<lambda>r.
      if ar_status r = PREMATURE then done_with ()
      else
        act_bind (if ar_status r = INVALID then misbehave now i 50
                  else if ar_status r = ORPHAN then maybe_sync cf True i else done_with ()) (\<lambda>_.
        act_bind (with_peer i (\<lambda>q.
          if pr_requested_blocks q = [] \<and> pr_pending_blocks q = [] then maybe_sync cf True i else request_blocks cf now i)) (\<lambda>_.
        queue_missing_blocks cf now)))))"

fun is_MissingInputError :: "exn \<Rightarrow> bool" where
  "is_MissingInputError (MissingInputError _) = True"
| "is_MissingInputError _ = False"

definition on_tx :: "node_config \<Rightarrow> rat \<Rightarrow> int \<Rightarrow> transaction \<Rightarrow> unit act" where
  "on_tx cf now i t =
     act_bind (modify (upd_peer i (note_inventory (txid (ncrypto cf) t)))) (\<lambda>_.
     act_catch is_ValidationError
       (\<lambda>e. if is_MissingInputError e then done_with () else misbehave now i 10)
       (act_bind (submit_transaction cf now t (Some i)) (\<lambda>_. done_with ())))"

section \<open>The loop of a peer\<close>

definition on_pong :: "rat \<Rightarrow> int \<Rightarrow> peer \<Rightarrow> peer" where
  "on_pong now nonce q =
     (case pr_last_ping_sent q of
        None \<Rightarrow> q
      | Some sent \<Rightarrow>
          if pr_last_ping_nonce q = Some nonce
          then q\<lparr>pr_latency := Some (round_float (now - sent)), pr_last_ping_nonce := None\<rparr> else q)"

definition handle_greeted :: "node_config \<Rightarrow> rat \<Rightarrow> int \<Rightarrow> message \<Rightarrow> unit act" where
  "handle_greeted cf now i m =
     (case m of
        Ping nonce \<Rightarrow> send cf i (Pong nonce)
      | Pong nonce \<Rightarrow> modify (upd_peer i (on_pong now nonce))
      | GetAddr \<Rightarrow> on_getaddr cf i
      | Addr addresses \<Rightarrow> modify (on_addr now addresses)
      | Inv items \<Rightarrow> on_inv cf now i items
      | GetData items \<Rightarrow> on_getdata cf i items
      | NotFound items \<Rightarrow> modify (upd_peer i (fold (\<lambda>item. forget_request (iv_hash item)) items))
      | GetBlocks known stop_hash \<Rightarrow> on_getblocks cf i known stop_hash
      | GetHeaders known stop_hash \<Rightarrow> on_getheaders cf i known stop_hash
      | HeadersMessage headers \<Rightarrow> on_headers cf now i headers
      | BlockMessage b \<Rightarrow> on_block cf now i b
      | TxMessage t \<Rightarrow> on_tx cf now i t
      | MempoolMessage \<Rightarrow> announce_mempool cf i
      | _ \<Rightarrow> done_with ())"

definition handle_message :: "node_config \<Rightarrow> rat \<Rightarrow> int \<Rightarrow> message \<Rightarrow> unit act" where
  "handle_message cf now i m =
     (case m of
        Version v \<Rightarrow> on_version cf now i v
      | VerAck \<Rightarrow> with_peer i (\<lambda>q.
          if pr_version q = None then fail_with (ProtocolError ''verack before version'') else complete_handshake cf i)
      | _ \<Rightarrow> with_peer i (\<lambda>q.
          if pr_version q = None then fail_with (ProtocolError ''message before the handshake'')
          else handle_greeted cf now i m))"

definition unregister :: "int \<Rightarrow> node \<Rightarrow> node" where
  "unregister i n = n\<lparr>nd_peers := AList.delete i (nd_peers n)\<rparr>"

text \<open>The \<^verbatim>\<open>except\<close> and \<^verbatim>\<open>finally\<close> clauses, and the condition of the loop.\<close>

definition end_turn :: "rat \<Rightarrow> int \<Rightarrow> 'a result \<times> node \<Rightarrow> node" where
  "end_turn now i rn =
     (case rn of
        (Inl (ProtocolError _), n) \<Rightarrow> unregister i (snd (misbehave now i BAN_THRESHOLD n))
      | (Inl _, n) \<Rightarrow> unregister i n
      | (Inr _, n) \<Rightarrow>
          (case find_peer n i of None \<Rightarrow> n | Some q \<Rightarrow> if pr_closed q then unregister i n else n))"

text \<open>One round of the loop: the next message on the wire of the peer is received and handled.\<close>

definition peer_receive :: "node_config \<Rightarrow> rat \<Rightarrow> int \<Rightarrow> bytes \<Rightarrow> message option act" where
  "peer_receive cf now i stream n =
     (case find_peer n i of
        None \<Rightarrow> (Inr None, n)
      | Some q \<Rightarrow>
          (case channel_receive (cf_primitives cf) (ncrypto cf) (pm_magic (nparams cf)) stream (pr_cipher q) of
             Inl e \<Rightarrow> (Inl e, n)
           | Inr (m, _, cipher) \<Rightarrow> (Inr m, upd_peer i (\<lambda>q. q\<lparr>pr_cipher := cipher, pr_last_message_at := now\<rparr>) n)))"

definition peer_turn :: "node_config \<Rightarrow> rat \<Rightarrow> int \<Rightarrow> bytes \<Rightarrow> node \<Rightarrow> node" where
  "peer_turn cf now i stream n =
     end_turn now i (act_bind (peer_receive cf now i stream)
       (\<lambda>m. case m of None \<Rightarrow> done_with () | Some m \<Rightarrow> handle_message cf now i m) n)"

definition register :: "node_config \<Rightarrow> rat \<Rightarrow> int \<Rightarrow> peer \<Rightarrow> node \<Rightarrow> node" where
  "register cf now i q n =
     (let n = n\<lparr>nd_peers := AList.update i q (nd_peers n)\<rparr> in
      end_turn now i ((if pr_inbound q then done_with () else send_version cf now i) n))"

end
