(* ===== verification/Upkeep.thy ===== *)
theory Upkeep
  imports Handlers
begin

text \<open>
  \<^verbatim>\<open>net/node.py\<close>, the housekeeping of a node, and its runs: \<open>node_step\<close> is one event, a message of a peer, a
  connection that comes or fails, a submission over RPC, or a task of the maintenance thread.
\<close>

section \<open>Housekeeping\<close>

definition PEER_TIMEOUT :: rat where "PEER_TIMEOUT = 180"
definition PING_INTERVAL :: rat where "PING_INTERVAL = 60"
definition POLL_INTERVAL :: rat where "POLL_INTERVAL = 60"
definition BLOCK_REQUEST_TIMEOUT :: rat where "BLOCK_REQUEST_TIMEOUT = 120"
definition ORPHAN_EXPIRY :: rat where "ORPHAN_EXPIRY = 600"
definition MAX_BLOCKS_PER_CYCLE_TO_ZERO :: int where "MAX_BLOCKS_PER_CYCLE_TO_ZERO = 5000"

text \<open>The round over the peers; \<open>nonce\<close> is the random number of a ping.\<close>

definition check_peer :: "node_config \<Rightarrow> rat \<Rightarrow> (int \<Rightarrow> int) \<Rightarrow> int \<Rightarrow> unit act" where
  "check_peer cf now nonce i = with_peer i (\<lambda>q.
     let idle = round_float (now - pr_last_message_at q);
         stalled = with_peer i (\<lambda>q.
           case pr_last_getdata_at q of
             None \<Rightarrow> done_with ()
           | Some t \<Rightarrow>
               if round_float (now - t) > BLOCK_REQUEST_TIMEOUT \<and> pr_requested_blocks q \<noteq> []
               then modify (upd_peer i close_peer) else done_with ())
     in if idle > PEER_TIMEOUT then modify (upd_peer i close_peer)
        else if idle > PING_INTERVAL \<and> pr_last_ping_nonce q = None
        then act_bind (modify (upd_peer i (\<lambda>q. q\<lparr>pr_last_ping_nonce := Some (nonce i), pr_last_ping_sent := Some now\<rparr>))) (\<lambda>_.
             act_catch is_PeerDisconnected (\<lambda>_. done_with ())
               (act_bind (send cf i (Ping (nonce i))) (\<lambda>_. stalled)))
        else stalled)"

definition check_peers :: "node_config \<Rightarrow> rat \<Rightarrow> (int \<Rightarrow> int) \<Rightarrow> unit act" where
  "check_peers cf now nonce n = act_each (check_peer cf now nonce) (map fst (nd_peers n)) n"

definition poll_for_blocks :: "node_config \<Rightarrow> unit act" where
  "poll_for_blocks cf n =
     act_each (\<lambda>i. with_peer i (\<lambda>q. if pr_handshake_done q then maybe_sync cf True i else done_with ()))
       (map fst (nd_peers n)) n"

definition stale_tip_seconds :: "chain_params \<Rightarrow> rat" where
  "stale_tip_seconds p = max 300 (of_int (10 * pm_target_spacing p))"

definition poll_if_stale :: "node_config \<Rightarrow> rat \<Rightarrow> unit act" where
  "poll_if_stale cf now n =
     (if nd_peers n \<noteq> [] \<and> round_float (now - nd_last_block_at n) > stale_tip_seconds (nparams cf) \<and>
         round_float (now - nd_last_poll_at n) > POLL_INTERVAL
      then act_bind (modify (nd_last_poll_at_update (\<lambda>_. now))) (\<lambda>_. poll_for_blocks cf) n
      else (Inr (), n))"

definition reannounce_mempool :: "node_config \<Rightarrow> unit act" where
  "reannounce_mempool cf n =
     act_each (\<lambda>i. with_peer i (\<lambda>q. if pr_handshake_done q
         then act_catch is_PeerDisconnected (\<lambda>_. done_with ()) (announce_mempool cf i) else done_with ()))
       (map fst (nd_peers n)) n"

definition expire_orphans :: "rat \<Rightarrow> node \<Rightarrow> node" where
  "expire_orphans now n =
     n\<lparr>nd_orphans := filter (\<lambda>(_, _, seen). \<not> round_float (now - seen) > ORPHAN_EXPIRY) (nd_orphans n)\<rparr>"

definition check_served :: "peer \<Rightarrow> peer" where
  "check_served q =
     (let q' = (if pr_start_height q = 0 \<and> pr_blocks_served q - pr_served_last_check q > MAX_BLOCKS_PER_CYCLE_TO_ZERO
                then close_peer q else q)
      in q'\<lparr>pr_served_last_check := pr_blocks_served q\<rparr>)"

definition save_round :: "rat \<Rightarrow> node \<Rightarrow> node" where
  "save_round now n =
     n\<lparr>nd_book := book_prune now (nd_book n), nd_peers := map (\<lambda>(i, q). (i, check_served q)) (nd_peers n)\<rparr>"

definition prune_now :: "node_config \<Rightarrow> int option \<Rightarrow> node \<Rightarrow> node" where
  "prune_now cf keep_blocks n =
     (let keep = (case keep_blocks of None \<Rightarrow> cf_prune cf | Some k \<Rightarrow> k) in
      if keep \<le> 0 then n else n\<lparr>nd_chain := snd (prune (ncrypto cf) (nparams cf) keep (nd_chain n))\<rparr>)"

section \<open>Runs\<close>

datatype node_event =
    PeerJoins int utext int bool bytes
  | PeerTurn int bytes
  | PeerFails int
  | BlockSubmitted block
  | TxSubmitted transaction
  | CandidateStored aux_candidate
  | CandidateAsked bytes
  | PrematureRetried
  | PeersChecked "int \<Rightarrow> int"
  | TipPolled
  | PoolReannounced
  | OrphansExpired
  | Saved
  | Pruned "int option"

fun node_step :: "node_config \<Rightarrow> rat \<times> node_event \<Rightarrow> node \<Rightarrow> node" where
  "node_step cf (now, PeerJoins i host port inbound key) n = register cf now i (mk_peer now host port inbound key) n"
| "node_step cf (now, PeerTurn i stream) n = peer_turn cf now i stream n"
| "node_step cf (now, PeerFails i) n = upd_peer i (pr_gone_update (\<lambda>_. True)) n"
| "node_step cf (now, BlockSubmitted b) n = snd (submit_block cf now b None n)"
| "node_step cf (now, TxSubmitted t) n = snd (submit_transaction cf now t None n)"
| "node_step cf (now, CandidateStored a) n = store_aux_candidate cf a n"
| "node_step cf (now, CandidateAsked h) n = snd (find_aux_candidate h n)"
| "node_step cf (now, PrematureRetried) n = snd (retry_premature cf now n)"
| "node_step cf (now, PeersChecked nonce) n = snd (check_peers cf now nonce n)"
| "node_step cf (now, TipPolled) n = snd (poll_if_stale cf now n)"
| "node_step cf (now, PoolReannounced) n = snd (reannounce_mempool cf n)"
| "node_step cf (now, OrphansExpired) n = expire_orphans now n"
| "node_step cf (now, Saved) n = save_round now n"
| "node_step cf (now, Pruned keep) n = prune_now cf keep n"

definition start_node :: "node_config \<Rightarrow> rat \<Rightarrow> storage \<Rightarrow> address_book \<Rightarrow> node result" where
  "start_node cf now s book =
     bnd (open_chain (ncrypto cf) (nparams cf) s) (\<lambda>ch.
     Inr \<lparr>nd_chain = ch, nd_pool = empty_pool, nd_orphans = [], nd_premature = [], nd_premature_blocks = 0,
          nd_premature_reason = [], nd_last_block_at = now, nd_last_poll_at = 0, nd_peers = [], nd_book = book, nd_local = [],
          nd_aux = [], nd_auxpow_blocks = 0, nd_auxpow_rejections = 0, nd_auxpow_submissions = 0, nd_auxpow_templates = 0\<rparr>)"

end
