(* ===== verification/NodeInvariant.thy ===== *)
theory NodeInvariant
  imports Upkeep
begin

text \<open>
  What every event keeps of a node's state, and what the handlers do to their peers. \<open>node_ok\<close> puts together the
  invariants of the chain (a state some run of \<open>reachable\<close> reaches), of the pool and of the address book, with those of
  the node's own tables. The rules \<open>keeps_intros\<close> take an action apart.
\<close>

section \<open>Actions that keep a property\<close>

definition keeps :: "(node \<Rightarrow> bool) \<Rightarrow> 'a act \<Rightarrow> bool" where
  "keeps P m \<longleftrightarrow> (\<forall>n. P n \<longrightarrow> P (snd (m n)))"

named_theorems keeps_intros \<open>what a sequence of actions keeps\<close>

lemma keepsI: "(\<And>n. P n \<Longrightarrow> P (snd (m n))) \<Longrightarrow> keeps P m"
  by (simp add: keeps_def)

lemma keepsD: "keeps P m \<Longrightarrow> P n \<Longrightarrow> P (snd (m n))"
  by (simp add: keeps_def)

lemma keeps_basic [keeps_intros]:
  "keeps P (done_with x)" "keeps P (fail_with e)" "keeps P (lifted r)"
  by (simp_all add: keeps_def done_with_def fail_with_def lifted_def)

lemma keeps_bind [keeps_intros]: "keeps P m \<Longrightarrow> (\<And>x. keeps P (f x)) \<Longrightarrow> keeps P (act_bind m f)"
  by (fastforce simp: keeps_def act_bind_def split: prod.splits sum.splits)

lemma keeps_modify [keeps_intros]: "(\<And>n. P n \<Longrightarrow> P (f n)) \<Longrightarrow> keeps P (modify f)"
  by (simp add: keeps_def modify_def)

lemma keeps_catch [keeps_intros]: "keeps P m \<Longrightarrow> (\<And>e. keeps P (h e)) \<Longrightarrow> keeps P (act_catch Q h m)"
  by (fastforce simp: keeps_def act_catch_def split: prod.splits sum.splits)

lemma keeps_each [keeps_intros]: "(\<And>x. keeps P (f x)) \<Longrightarrow> keeps P (act_each f xs)"
  by (induction xs) (auto intro: keeps_intros)

lemma keeps_with_peer [keeps_intros]: "(\<And>q. keeps P (f q)) \<Longrightarrow> keeps P (with_peer i f)"
  by (auto simp: keeps_def with_peer_def split: option.split)

lemma keeps_if [keeps_intros]: "keeps P m \<Longrightarrow> keeps P m' \<Longrightarrow> keeps P (if b then m else m')"
  by simp

lemma keeps_prod [keeps_intros]: "(\<And>a b. keeps P (f a b)) \<Longrightarrow> keeps P (case_prod f x)"
  by (cases x) simp

lemma keeps_option [keeps_intros]: "keeps P m \<Longrightarrow> (\<And>x. keeps P (f x)) \<Longrightarrow> keeps P (case y of None \<Rightarrow> m | Some x \<Rightarrow> f x)"
  by (cases y) simp_all

section \<open>The invariant\<close>

text \<open>Blocks that wait: under their hash, once, decoded from the wire, not too many.\<close>

definition waiting_ok :: "crypto \<Rightarrow> transaction set \<Rightarrow> waiting \<Rightarrow> bool" where
  "waiting_ok c T w \<longleftrightarrow> keys_distinct w \<and> length w \<le> MAX_ORPHANS \<and>
     (\<forall>(h, b, t) \<in> set w. h = block_hash c b \<and> block_ok b \<and> set (bk_transactions b) \<subseteq> T)"

definition peer_ok :: "peer \<Rightarrow> bool" where
  "peer_ok q \<longleftrightarrow> card (set (pr_requested_blocks q)) \<le> BLOCKS_IN_FLIGHT \<and>
     length (pr_known_inventory q) \<le> MAX_KNOWN_INVENTORY \<and> 0 \<le> pr_misbehaviour q"

definition node_ok :: "node_config \<Rightarrow> transaction set \<Rightarrow> node \<Rightarrow> bool" where
  "node_ok cf T n \<longleftrightarrow> reachable (ncrypto cf) (nparams cf) T (nd_chain n) \<and>
     pool_ok (cf_pool cf) (nd_pool n) \<and> mp_total_bytes (nd_pool n) \<le> max 0 (pe_max_bytes (cf_pool cf)) \<and>
     waiting_ok (ncrypto cf) T (nd_orphans n) \<and> waiting_ok (ncrypto cf) T (nd_premature n) \<and>
     (\<forall>(i, q) \<in> set (nd_peers n). peer_ok q) \<and> book_ok (nd_book n) \<and> int (length (nd_aux n)) \<le> max 1 (cf_max_aux cf)"

lemma waiting_ok_empty [simp]: "waiting_ok c T []"
  by (simp add: waiting_ok_def)

lemma waiting_ok_filter: "waiting_ok c T w \<Longrightarrow> waiting_ok c T (filter P w)"
  by (auto simp: waiting_ok_def distinct_map_filter intro: order_trans [OF length_filter_le])

lemma waiting_ok_delete: "waiting_ok c T w \<Longrightarrow> waiting_ok c T (AList.delete h w)"
  unfolding AList.delete_eq by (rule waiting_ok_filter)

lemma waiting_ok_forget: "waiting_ok c T w \<Longrightarrow> waiting_ok c T (forget_waiting c bs w)"
  unfolding forget_waiting_def by (induction bs arbitrary: w) (simp_all add: waiting_ok_delete)

lemma waiting_ok_remember:
  assumes "waiting_ok c T w" "block_ok b" "set (bk_transactions b) \<subseteq> T" "h = block_hash c b"
  shows "waiting_ok c T (remember_waiting h b now w)"
proof -
  define Q where "Q x \<longleftrightarrow> (case x of (h, b, t) \<Rightarrow> h = block_hash c b \<and> block_ok b \<and> set (bk_transactions b) \<subseteq> T)" for x :: "bytes \<times> block \<times> rat"
  have "\<forall>x \<in> set w. Q x" "Q (h, b, now)" using assms unfolding waiting_ok_def Q_def by simp_all
  then have "\<forall>x \<in> set (AList.update h (b, now) w). Q x" using set_update [of h "(b, now)" w] by blast
  then have "\<forall>x \<in> set (remember_waiting h b now w). Q x"
    unfolding remember_waiting_def Let_def by (meson in_set_dropD)
  moreover have "keys_distinct (remember_waiting h b now w)"
    using assms(1) by (simp add: waiting_ok_def remember_waiting_def Let_def flip: drop_map)
  moreover have "length (remember_waiting h b now w) \<le> MAX_ORPHANS"
    by (simp add: remember_waiting_def Let_def)
  ultimately show ?thesis unfolding waiting_ok_def Q_def by simp
qed

text \<open>Changes of a peer, of the book and of counters.\<close>

lemma find_upd_peer: "find_peer (upd_peer i f n) j = (if j = i then map_option f (find_peer n i) else find_peer n j)"
  by (auto simp: find_peer_def upd_peer_def split: option.split)

lemma node_ok_peerD: "node_ok cf T n \<Longrightarrow> find_peer n i = Some q \<Longrightarrow> peer_ok q"
  by (auto simp: node_ok_def find_peer_def dest!: map_of_SomeD)

lemma node_ok_upd:
  assumes "node_ok cf T n" "\<And>q. find_peer n i = Some q \<Longrightarrow> peer_ok (f q)"
  shows "node_ok cf T (upd_peer i f n)"
proof (cases "find_peer n i")
  case (Some q)
  have "\<forall>x \<in> set (AList.update i (f q) (nd_peers n)). case x of (i, q) \<Rightarrow> peer_ok q"
    using assms(1) assms(2) [OF Some] set_update [of i "f q" "nd_peers n"] unfolding node_ok_def by blast
  then show ?thesis using assms(1) Some by (simp add: node_ok_def upd_peer_def)
qed (simp add: assms(1) upd_peer_def)

lemma node_ok_peers:
  assumes "node_ok cf T n" "\<And>q. peer_ok q \<Longrightarrow> peer_ok (f q)"
  shows "node_ok cf T (upd_peer i f n)"
  using assms node_ok_peerD [OF assms(1)] by (blast intro: node_ok_upd)

lemma node_ok_book: "node_ok cf T n \<Longrightarrow> book_ok b \<Longrightarrow> node_ok cf T (n\<lparr>nd_book := b\<rparr>)"
  by (simp add: node_ok_def)

lemma node_ok_bookD: "node_ok cf T n \<Longrightarrow> book_ok (nd_book n)"
  by (simp add: node_ok_def)

lemma peer_ok_close [simp]: "peer_ok (close_peer q) = peer_ok q"
  by (simp add: peer_ok_def close_peer_def)

lemma peer_ok_note: "peer_ok q \<Longrightarrow> peer_ok (note_inventory h q)"
  by (auto simp: peer_ok_def note_inventory_def MAX_KNOWN_INVENTORY_def List.insert_def)

lemma peer_ok_forget: "peer_ok q \<Longrightarrow> peer_ok (forget_request h q)"
  by (auto simp: peer_ok_def forget_request_def intro: order_trans [OF card_mono [OF finite_set]])

lemma keeps_send [keeps_intros]: "keeps (node_ok cf T) (send cf i m)"
  by (rule keepsI) (auto simp: send_def peer_ok_def close_peer_def split: option.split sum.split intro!: node_ok_peers)

lemma keeps_relay [keeps_intros]: "keeps (node_ok cf T) (relay cf item source)"
proof -
  have "keeps (node_ok cf T) (act_each (\<lambda>i. with_peer i (\<lambda>q.
         if Some i = source \<or> \<not> pr_handshake_done q \<or> peer_knows q (iv_hash item) then done_with ()
         else act_bind (modify (upd_peer i (note_inventory (iv_hash item)))) (\<lambda>_.
              act_catch is_PeerDisconnected (\<lambda>_. done_with ()) (send cf i (Inv [item]))))) is)" for "is"
    by (intro keeps_intros node_ok_peers peer_ok_note)
  then show ?thesis unfolding relay_def keeps_def by blast
qed

lemma keeps_misbehave [keeps_intros]: "0 \<le> points \<Longrightarrow> keeps (node_ok cf T) (misbehave now i points)"
proof (rule keepsI)
  assume points: "0 \<le> points"
  fix n assume n: "node_ok cf T n"
  define n1 where "n1 q = upd_peer i (\<lambda>q. q\<lparr>pr_misbehaviour := pr_misbehaviour q + points\<rparr>) n" for q :: peer
  have n1: "node_ok cf T (n1 q)" for q unfolding n1_def by (rule node_ok_peers [OF n]) (simp add: peer_ok_def points)
  have "node_ok cf T (upd_peer i close_peer ((n1 q)\<lparr>nd_book := book_ban now (pr_host q) d (nd_book (n1 q))\<rparr>))" for q d
    by (intro node_ok_peers node_ok_book [OF n1] book_ok_ban node_ok_bookD [OF n1]) simp
  then show "node_ok cf T (snd (misbehave now i points n))"
    using n n1 by (auto simp: misbehave_def Let_def n1_def split: option.split)
qed

section \<open>Blocks and transactions\<close>

lemma deliver_ok:
  assumes "pool_ok pe m" "mp_total_bytes m \<le> max 0 (pe_max_bytes pe)"
  shows "pool_ok pe (snd (deliver pe ch now evs m)) \<and> mp_total_bytes (snd (deliver pe ch now evs m)) \<le> max 0 (pe_max_bytes pe)"
  using assms
proof (induction evs arbitrary: m)
  case (Cons ev evs)
  define step where "step = (case ev of BlockConnected b _ \<Rightarrow> pool_block_connected pe ch (\<lambda>_. now) b m
      | BlockDisconnected b _ \<Rightarrow> pool_block_disconnected pe ch (\<lambda>_. now) (\<lambda>_. now) b m)"
  have "\<exists>pev. snd step = pool_step pe (ch, pev) m"
  proof (cases ev)
    case (BlockConnected b h)
    then show ?thesis by (intro exI [of _ "Connected b (\<lambda>_. now)"]) (simp add: step_def)
  next
    case (BlockDisconnected b h)
    then show ?thesis by (intro exI [of _ "Disconnected b (\<lambda>_. now) (\<lambda>_. now)"]) (simp add: step_def)
  qed
  then obtain pev where "snd step = pool_step pe (ch, pev) m" by blast
  then have ok: "pool_ok pe (snd step)" "mp_total_bytes (snd step) \<le> max 0 (pe_max_bytes pe)"
    using pool_step_ok [OF Cons.prems, of ch pev] by simp_all
  have "deliver pe ch now (ev # evs) m = (case step of (Inl e, m) \<Rightarrow> (Inl e, m) | (Inr _, m) \<Rightarrow> deliver pe ch now evs m)"
    by (simp add: step_def)
  then show ?case using ok Cons.IH [of "snd step"] by (cases step, cases "fst step") auto
qed simp

lemma node_add_block_ok:
  assumes "node_ok cf T n" "block_ok b" "set (bk_transactions b) \<subseteq> T"
  shows "node_ok cf T (snd (node_add_block cf now b n))"
proof -
  obtain r ch where add: "add_block (cf_fuel cf) (ncrypto cf) (nparams cf) (int_of_float now) b (nd_chain n) = (r, ch)"
    by fastforce
  have ch: "reachable (ncrypto cf) (nparams cf) T ch"
    using reachable.block [OF _ assms(2,3) add] assms(1) by (simp add: node_ok_def)
  have "pool_ok (cf_pool cf) (nd_pool n)" "mp_total_bytes (nd_pool n) \<le> max 0 (pe_max_bytes (cf_pool cf))"
    using assms(1) by (simp_all add: node_ok_def)
  note pool = deliver_ok [OF this, of ch now "drop (length (bc_events (nd_chain n))) (bc_events ch)"]
  have "node_ok cf T (n\<lparr>nd_chain := ch,
      nd_pool := snd (deliver (cf_pool cf) ch now (drop (length (bc_events (nd_chain n))) (bc_events ch)) (nd_pool n))\<rparr>)"
    using assms(1) ch pool by (simp add: node_ok_def)
  then show ?thesis by (auto simp: node_add_block_def add split: prod.split sum.split)
qed

text \<open>An action on blocks that satisfy \<open>Q\<close>.\<close>

definition wire_block :: "transaction set \<Rightarrow> block \<Rightarrow> bool" where
  "wire_block T b \<longleftrightarrow> block_ok b \<and> set (bk_transactions b) \<subseteq> T"

lemma keeps_node_add_block: "wire_block T b \<Longrightarrow> keeps (node_ok cf T) (node_add_block cf now b)"
  by (rule keepsI) (simp add: node_add_block_ok wire_block_def)

lemma keeps_connect_children:
  "\<forall>b \<in> set bs. wire_block T b \<Longrightarrow> keeps (node_ok cf T) (connect_children cf now bs pending)"
  by (induction bs arbitrary: pending) (auto intro!: keeps_intros keeps_node_add_block)

lemma waiting_wire: "waiting_ok c T w \<Longrightarrow> x \<in> set w \<Longrightarrow> wire_block T (fst (snd x))"
  unfolding waiting_ok_def wire_block_def by (cases x) fastforce

lemma children_wire: "waiting_ok c T w \<Longrightarrow> b \<in> set (waiting_children h w) \<Longrightarrow> wire_block T b"
  by (auto simp: waiting_ok_def waiting_children_def wire_block_def)

lemma keeps_orphans_loop: "keeps (node_ok cf T) (orphans_loop cf now fuel pending)"
proof (induction cf now fuel pending rule: orphans_loop.induct)
  case (3 cf now fuel h hs)
  show ?case
  proof (rule keepsI)
    fix n assume n: "node_ok cf T n"
    define children where "children = waiting_children (last (h # hs)) (nd_orphans n)"
    have ok: "waiting_ok (ncrypto cf) T (nd_orphans n)" using n by (simp add: node_ok_def)
    then have wire: "\<forall>b \<in> set children. wire_block T b" using children_wire by (auto simp: children_def)
    define n1 where "n1 = nd_orphans_update (forget_waiting (ncrypto cf) children) n"
    have n1: "node_ok cf T n1" using n waiting_ok_forget [OF ok] by (simp add: n1_def node_ok_def)
    have IH: "keeps (node_ok cf T) (orphans_loop cf now fuel pending)" for pending
      by (rule 3) (rule refl, rule refl)
    have "keeps (node_ok cf T) (act_bind (connect_children cf now children (butlast (h # hs))) (orphans_loop cf now fuel))"
      by (intro keeps_intros keeps_connect_children [OF wire] IH)
    from keepsD [OF this n1] show "node_ok cf T (snd (orphans_loop cf now (Suc fuel) (h # hs) n))"
      by (simp add: Let_def act_bind_def [of "modify _"] modify_def n1_def children_def)
  qed
qed (simp_all add: keeps_intros)

lemma keeps_connect_orphans [keeps_intros]: "keeps (node_ok cf T) (connect_orphans_of cf now h)"
  unfolding keeps_def connect_orphans_of_def using keepsD [OF keeps_orphans_loop] by blast

lemma keeps_submit_block: "wire_block T b \<Longrightarrow> keeps (node_ok cf T) (submit_block cf now b source)"
  unfolding submit_block_def Let_def
  by (intro keeps_bind keeps_node_add_block)
    (auto split: block_status.split simp: wire_block_def note_premature_block_def node_ok_def Let_def
      intro!: keeps_intros waiting_ok_remember)

lemma keeps_submit_transaction [keeps_intros]: "keeps (node_ok cf T) (submit_transaction cf now t source)"
proof (rule keepsI)
  fix n assume n: "node_ok cf T n"
  obtain r m where add: "pool_add (cf_pool cf) (nd_chain n) now t True (nd_pool n) = (r, m)" by fastforce
  have "node_ok cf T (n\<lparr>nd_pool := m\<rparr>)"
    using n pool_add_ok [OF _ _ add] by (simp add: node_ok_def)
  moreover have "keeps (node_ok cf T) (act_bind (relay cf item source) (\<lambda>_. done_with entry))" for item and entry :: mempool_entry
    by (intro keeps_intros)
  ultimately show "node_ok cf T (snd (submit_transaction cf now t source n))"
    by (auto simp: submit_transaction_def add split: sum.split dest: keepsD)
qed

lemma keeps_retry_premature: "keeps (node_ok cf T) (retry_premature cf now)"
proof -
  have one: "keeps (node_ok cf T) (retry_one cf now w)" if "wire_block T (fst (snd w))" for w
    using that unfolding retry_one_def
    by (auto split: prod.split simp: node_ok_def waiting_ok_delete intro!: keeps_intros keeps_node_add_block)
  have "keeps (node_ok cf T) (act_each (retry_one cf now) ws)" if "\<forall>w \<in> set ws. wire_block T (fst (snd w))" for ws
    using that by (induction ws) (auto intro!: keeps_intros one)
  moreover have "\<forall>w \<in> set (nd_premature n). wire_block T (fst (snd w))" if "node_ok cf T n" for n
    using that waiting_wire by (auto simp: node_ok_def)
  ultimately show ?thesis unfolding keeps_def retry_premature_def by blast
qed

section \<open>Handlers\<close>

lemma node_ok_local: "node_ok cf T n \<Longrightarrow> node_ok cf T (note_local_address cf host port n)"
  by (auto simp: note_local_address_def Let_def node_ok_def book_ok_forget split: option.split)

lemma keeps_send_version [keeps_intros]: "keeps (node_ok cf T) (send_version cf now i)"
  unfolding send_version_def by (intro keeps_with_peer) (simp add: keeps_def keepsD [OF keeps_send])

lemma keeps_on_version [keeps_intros]: "keeps (node_ok cf T) (on_version cf now i v)"
  unfolding on_version_def
proof (intro keeps_with_peer keepsI)
  fix q n assume n: "node_ok cf T n"
  have "node_ok cf T (met_itself cf i q v n)"
    unfolding met_itself_def Let_def by (intro node_ok_peers) (auto simp: n node_ok_local)
  moreover have "node_ok cf T (upd_peer i close_peer n)" by (rule node_ok_peers [OF n]) simp
  moreover have "keeps (node_ok cf T)
      (act_bind (modify (upd_peer i (introduce v))) (\<lambda>_.
       act_bind (if pr_inbound q then send_version cf now i else done_with ()) (\<lambda>_.
       act_bind (if ve_ephemeral_pubkey v \<noteq> []
                 then act_bind (lifted (derive_shared_key (cf_primitives cf) (pr_ephemeral_key q) (ve_ephemeral_pubkey v)))
                        (\<lambda>key. modify (upd_peer i (\<lambda>q. q\<lparr>pr_cipher := Some (mk_cipher key)\<rparr>)))
                 else done_with ()) (\<lambda>_.
       act_bind (send cf i VerAck) (\<lambda>_.
       case advertised_address (introduce v q) of
         None \<Rightarrow> done_with ()
       | Some (host, port) \<Rightarrow> modify (\<lambda>n. n\<lparr>nd_book := book_add now host port ''handshake'' 0 (nd_book n)\<rparr>))))))"
    by (intro keeps_intros node_ok_peers node_ok_book book_ok_add node_ok_bookD) (auto simp: introduce_def peer_ok_def)
  ultimately show "node_ok cf T (snd ((\<lambda>n. if pr_version q \<noteq> None then (Inl (ProtocolError ''duplicate version message''), n)
     else if ve_nonce v = cf_nonce cf then (Inr (), met_itself cf i q v n)
     else if has_twin i (ve_nonce v) n then (Inr (), upd_peer i close_peer n)
     else
       act_bind (modify (upd_peer i (introduce v))) (\<lambda>_.
       act_bind (if pr_inbound q then send_version cf now i else done_with ()) (\<lambda>_.
       act_bind (if ve_ephemeral_pubkey v \<noteq> []
                 then act_bind (lifted (derive_shared_key (cf_primitives cf) (pr_ephemeral_key q) (ve_ephemeral_pubkey v)))
                        (\<lambda>key. modify (upd_peer i (\<lambda>q. q\<lparr>pr_cipher := Some (mk_cipher key)\<rparr>)))
                 else done_with ()) (\<lambda>_.
       act_bind (send cf i VerAck) (\<lambda>_.
       case advertised_address (introduce v q) of
         None \<Rightarrow> done_with ()
       | Some (host, port) \<Rightarrow> modify (\<lambda>n. n\<lparr>nd_book := book_add now host port ''handshake'' 0 (nd_book n)\<rparr>))))) n) n))"
    using n keepsD by auto
qed

lemma keeps_announce [keeps_intros]: "keeps (node_ok cf T) (announce_mempool cf i)"
  by (rule keepsI) (simp add: announce_mempool_def Let_def keepsD [OF keeps_send])

lemma keeps_maybe_sync [keeps_intros]: "keeps (node_ok cf T) (maybe_sync cf force i)"
  unfolding maybe_sync_def
  by (intro keeps_with_peer keepsI) (auto intro!: keepsD [OF keeps_bind] keeps_intros)

lemma keeps_complete_handshake [keeps_intros]: "keeps (node_ok cf T) (complete_handshake cf i)"
  unfolding complete_handshake_def by (intro keeps_intros node_ok_peers) (simp_all add: peer_ok_def)

lemma keeps_on_getaddr [keeps_intros]: "keeps (node_ok cf T) (on_getaddr cf i)"
  by (rule keepsI) (auto simp: on_getaddr_def intro!: keepsD [OF keeps_bind] keeps_intros)

lemma node_ok_on_addr: "node_ok cf T n \<Longrightarrow> node_ok cf T (on_addr now addresses n)"
  unfolding on_addr_def
  by (induction addresses arbitrary: n) (auto simp: node_ok_book book_ok_add node_ok_bookD)

text \<open>No more than the limit is in flight, whatever is queued.\<close>

lemma batch_loop_bound:
  "batch_loop s queued pending = (batch, rest) \<Longrightarrow> card (set queued) \<le> BLOCKS_IN_FLIGHT \<Longrightarrow>
     card (set (fold List.insert batch queued)) \<le> BLOCKS_IN_FLIGHT"
proof (induction s queued pending arbitrary: batch rest rule: batch_loop.induct)
  case (2 s queued h hs)
  show ?case
  proof (cases "card (set queued) \<ge> BLOCKS_IN_FLIGHT \<or>
      (case block_parent s h of None \<Rightarrow> False | Some ph \<Rightarrow> \<not> has_block s ph \<and> ph \<notin> set queued)")
    case True
    then show ?thesis using 2(3,4) by (auto split: if_splits)
  next
    case go: False
    show ?thesis
    proof (cases "has_block s h")
      case True
      then show ?thesis using go 2(1) 2(3,4) by (auto split: if_splits)
    next
      case False
      obtain b1 where b1: "batch_loop s (List.insert h queued) hs = (b1, rest)" "batch = h # b1"
        using 2(3) go False by (auto split: prod.splits if_splits)
      have "card (set (List.insert h queued)) \<le> Suc (card (set queued))"
        by (simp add: card_insert_if)
      then have "card (set (List.insert h queued)) \<le> BLOCKS_IN_FLIGHT" using go by simp
      then show ?thesis using 2(2) [OF _ _ False b1(1)] go b1(2) by auto
    qed
  qed
qed simp

lemma keeps_request_blocks [keeps_intros]: "keeps (node_ok cf T) (request_blocks cf now i)"
proof (rule keepsI)
  fix n assume n: "node_ok cf T n"
  show "node_ok cf T (snd (request_blocks cf now i n))"
  proof (cases "find_peer n i")
    case None
    then show ?thesis using n by (simp add: request_blocks_def with_peer_def)
  next
    case (Some q)
    obtain batch rest where b: "batch_loop (bc_storage (nd_chain n)) (pr_requested_blocks q) (pr_pending_blocks q) = (batch, rest)"
      by fastforce
    define f where "f q' = q'\<lparr>pr_pending_blocks := rest,
        pr_requested_blocks := fold List.insert batch (pr_requested_blocks q'),
        pr_requested_at := fold (\<lambda>h. AList.update h now) batch (pr_requested_at q')\<rparr>" for q' :: peer
    have "peer_ok (f q)"
      using node_ok_peerD [OF n Some] batch_loop_bound [OF b] by (simp add: f_def peer_ok_def)
    then have first: "node_ok cf T (upd_peer i f n)" using n Some by (intro node_ok_upd) simp_all
    have "node_ok cf T (upd_peer i (pr_pending_blocks_update (\<lambda>_. rest)) n)"
      by (rule node_ok_peers [OF n]) (simp add: peer_ok_def)
    moreover have "keeps (node_ok cf T) (act_bind (send cf i (GetData (map block_item batch))) (\<lambda>_.
        modify (upd_peer i (pr_last_getdata_at_update (\<lambda>_. Some now)))))"
      by (intro keeps_intros node_ok_peers) (simp_all add: peer_ok_def)
    from keepsD [OF this first]
    have "node_ok cf T (snd (act_bind (modify (upd_peer i f)) (\<lambda>_. act_bind (send cf i (GetData (map block_item batch))) (\<lambda>_.
        modify (upd_peer i (pr_last_getdata_at_update (\<lambda>_. Some now))))) n))"
      by (simp add: act_bind_def [of "modify _"] modify_def)
    ultimately show ?thesis
      using Some b unfolding request_blocks_def with_peer_def f_def by (simp add: modify_def)
  qed
qed

lemma peer_ok_release: "peer_ok q \<Longrightarrow> peer_ok (release_stale now q)"
proof -
  have "peer_ok (fold (\<lambda>h q. (forget_request h q)\<lparr>pr_pending_blocks := pr_pending_blocks q @ [h]\<rparr>) hs q)" if "peer_ok q" for hs q
    using that
  proof (induction hs arbitrary: q)
    case (Cons h hs)
    have "peer_ok ((forget_request h q)\<lparr>pr_pending_blocks := pr_pending_blocks q @ [h]\<rparr>)"
      using peer_ok_forget [OF Cons.prems, of h] by (simp add: peer_ok_def)
    then show ?case using Cons.IH by simp
  qed simp
  then show "peer_ok q \<Longrightarrow> peer_ok (release_stale now q)" by (simp add: release_stale_def)
qed

lemma node_ok_assign: "node_ok cf T n \<Longrightarrow> node_ok cf T (assign_runs missing width k is n)"
proof (induction missing width k "is" n rule: assign_runs.induct)
  case (2 missing width k i "is" n)
  have "node_ok cf T (upd_peer i (assign_run missing (take width (drop (k * width) missing))) n)"
    by (rule node_ok_peers [OF 2(2)]) (simp add: peer_ok_def assign_run_def)
  then show ?case using 2(1) by simp
qed simp

lemma node_ok_fold_peers: "node_ok cf T n \<Longrightarrow> (\<And>q. peer_ok q \<Longrightarrow> peer_ok (f q)) \<Longrightarrow> node_ok cf T (fold (\<lambda>i. upd_peer i f) is n)"
  by (induction "is" arbitrary: n) (simp_all add: node_ok_peers)

lemma keeps_queue_missing [keeps_intros]: "keeps (node_ok cf T) (queue_missing_blocks cf now)"
proof (rule keepsI)
  fix n assume n: "node_ok cf T n"
  have "keeps (node_ok cf T) (act_each (request_blocks cf now) is)" for "is" by (intro keeps_intros)
  moreover have "node_ok cf T (assign_runs missing width k is (fold (\<lambda>i. upd_peer i (release_stale now)) js n))" for missing width k "is" js
    by (intro node_ok_assign node_ok_fold_peers [OF n] peer_ok_release)
  ultimately show "node_ok cf T (snd (queue_missing_blocks cf now n))"
    using n by (simp add: queue_missing_blocks_def Let_def keepsD)
qed

lemma node_ok_inv_loop: "inv_loop i items n = (wanted, n') \<Longrightarrow> node_ok cf T n \<Longrightarrow> node_ok cf T n'"
proof (induction i items n arbitrary: wanted n' rule: inv_loop.induct)
  case (2 i item items n)
  define n1 where "n1 = upd_peer i (note_inventory (iv_hash item)) n"
  have n1: "node_ok cf T n1" unfolding n1_def by (rule node_ok_peers [OF "2.prems"(2)]) (rule peer_ok_note)
  moreover from this have "node_ok cf T (upd_peer i (\<lambda>q. q\<lparr>pr_pending_blocks := pr_pending_blocks q @ [iv_hash item]\<rparr>) n1)"
    by (rule node_ok_peers) (simp add: peer_ok_def)
  ultimately show ?case
    using "2.IH" [OF refl n1_def] "2.prems"(1) unfolding inv_loop.simps(2) Let_def n1_def [symmetric]
    by (auto split: if_splits prod.splits)
qed simp

lemma keeps_on_inv [keeps_intros]: "keeps (node_ok cf T) (on_inv cf now i items)"
proof (rule keepsI)
  fix n assume n: "node_ok cf T n"
  obtain wanted n' where loop: "inv_loop i items n = (wanted, n')" by fastforce
  have "keeps (node_ok cf T) (act_bind (if wanted \<noteq> [] then send cf i (GetData wanted) else done_with ()) (\<lambda>_. request_blocks cf now i))"
    by (intro keeps_intros)
  then show "node_ok cf T (snd (on_inv cf now i items n))"
    using node_ok_inv_loop [OF loop n] by (simp add: on_inv_def loop keepsD)
qed

lemma keeps_getdata_loop [keeps_intros]: "keeps (node_ok cf T) (getdata_loop cf i items)"
proof (induction items)
  case (Cons item items)
  have "keeps (node_ok cf T) (act_bind (getdata_loop cf i items) (\<lambda>missing. done_with (item # missing)))"
    "keeps (node_ok cf T) (act_bind (send cf i (BlockMessage b)) (\<lambda>_.
       act_bind (modify (upd_peer i (\<lambda>q. q\<lparr>pr_blocks_served := pr_blocks_served q + 1\<rparr>))) (\<lambda>_. getdata_loop cf i items)))"
    "keeps (node_ok cf T) (act_bind (send cf i (TxMessage t)) (\<lambda>_. getdata_loop cf i items))" for b t
    by (intro keeps_intros Cons node_ok_peers; simp add: peer_ok_def)+
  then show ?case by (auto simp: keeps_def split: option.split)
qed (simp add: keeps_intros)

lemma keeps_on_getdata [keeps_intros]: "keeps (node_ok cf T) (on_getdata cf i items)"
  unfolding on_getdata_def by (intro keeps_intros)

lemma keeps_on_getblocks [keeps_intros]: "keeps (node_ok cf T) (on_getblocks cf i known stop)"
  by (rule keepsI) (simp add: on_getblocks_def Let_def keepsD [OF keeps_send])

lemma keeps_on_getheaders [keeps_intros]: "keeps (node_ok cf T) (on_getheaders cf i known stop)"
  by (rule keepsI) (auto simp: on_getheaders_def intro!: keepsD [OF keeps_bind] keeps_intros)

lemma keeps_take_header [keeps_intros]: "keeps (node_ok cf T) (take_header cf now raw)"
proof (rule keepsI)
  fix n assume n: "node_ok cf T n"
  have "node_ok cf T (n\<lparr>nd_chain := ch\<rparr>)"
    if "add_header (ncrypto cf) (nparams cf) (int_of_float now) hdr (nd_chain n) = Inr (why, ch)" for hdr why ch
    using n reachable.header [OF _ that, of T] by (simp add: node_ok_def)
  then show "node_ok cf T (snd (take_header cf now raw n))"
    using n by (auto simp: take_header_def split: sum.split)
qed

lemma keeps_on_headers [keeps_intros]: "keeps (node_ok cf T) (on_headers cf now i headers)"
proof -
  have last: "keeps (node_ok cf T) (\<lambda>n. if header_height (nd_chain n) < pr_start_height q then maybe_sync cf True i n else (Inr (), n))" for q :: peer
    by (rule keepsI) (simp add: keepsD [OF keeps_maybe_sync])
  show ?thesis unfolding on_headers_def by (intro keeps_intros last)
qed

lemma keeps_on_block: "wire_block T b \<Longrightarrow> keeps (node_ok cf T) (on_block cf now i b)"
  unfolding on_block_def Let_def
  by (intro keeps_intros keeps_submit_block node_ok_peers) (simp_all add: peer_ok_note peer_ok_forget)

lemma keeps_on_tx [keeps_intros]: "keeps (node_ok cf T) (on_tx cf now i t)"
  unfolding on_tx_def by (intro keeps_intros node_ok_peers peer_ok_note) simp_all

lemma peer_ok_forgets: "peer_ok q \<Longrightarrow> peer_ok (fold (\<lambda>item. forget_request (iv_hash item)) items q)"
  by (induction items arbitrary: q) (simp_all add: peer_ok_forget)

lemma keeps_handle_message:
  assumes "\<And>b. m = BlockMessage b \<Longrightarrow> wire_block T b"
  shows "keeps (node_ok cf T) (handle_message cf now i m)"
proof -
  have pong: "peer_ok q \<Longrightarrow> peer_ok (on_pong now nonce q)" for nonce q
    by (auto simp: on_pong_def peer_ok_def split: option.split)
  have "keeps (node_ok cf T) (handle_greeted cf now i m)"
    using assms unfolding handle_greeted_def
    by (cases m) (auto intro!: keeps_intros keeps_on_block node_ok_peers pong peer_ok_forgets node_ok_on_addr)
  then show ?thesis unfolding handle_message_def by (cases m) (auto intro!: keeps_intros)
qed

end
