(* ===== verification/NodeRuns.thy ===== *)
theory NodeRuns
  imports NodeInvariant
begin

text \<open>
  The runs of a node: it starts on an empty database, takes events one after the other, and may be restarted on what it
  stored. What holds in every state of a run, and what single events do.
\<close>

section \<open>Every event keeps the invariant\<close>

lemma node_ok_unregister: "node_ok cf T n \<Longrightarrow> node_ok cf T (unregister i n)"
  by (simp add: node_ok_def unregister_def AList.delete_eq)

lemma node_ok_end_turn: "node_ok cf T (snd rn) \<Longrightarrow> node_ok cf T (end_turn now i rn)"
  using keepsD [OF keeps_misbehave [of BAN_THRESHOLD]]
  by (cases rn; cases "fst rn")
    (auto simp: end_turn_def BAN_THRESHOLD_def node_ok_unregister split: exn.split option.split)

lemma node_ok_register:
  assumes "node_ok cf T n" "peer_ok q"
  shows "node_ok cf T (register cf now i q n)"
proof -
  have "\<forall>x \<in> set (AList.update i q (nd_peers n)). case x of (i, q) \<Rightarrow> peer_ok q"
    using assms set_update [of i q "nd_peers n"] unfolding node_ok_def by blast
  then have n1: "node_ok cf T (n\<lparr>nd_peers := AList.update i q (nd_peers n)\<rparr>)"
    using assms(1) by (simp add: node_ok_def)
  have "keeps (node_ok cf T) (if pr_inbound q then done_with () else send_version cf now i)" by (intro keeps_intros)
  from keepsD [OF this n1] show ?thesis unfolding register_def Let_def by (rule node_ok_end_turn)
qed

lemma peer_ok_mk [simp]: "peer_ok (mk_peer now host port inbound key)"
  by (simp add: peer_ok_def mk_peer_def)

text \<open>What a peer sends is decoded, so a block it sends is well formed.\<close>

lemma received_message_ok:
  assumes "channel_receive pr c magic stream cipher = Inr (Some m, rest, k)"
  shows "message_ok m"
proof (cases cipher)
  case None
  then show ?thesis using assms by (auto simp: channel_receive_def bnd_eq_Inr decode_payload_iff)
next
  case (Some k0)
  then obtain command payload rest' where "(case cipher_decrypt pr payload k0 of
            (None, _) \<Rightarrow> Inl (ProtocolError ''cannot decrypt message (forged or replayed)'')
          | (Some plaintext, k) \<Rightarrow> bnd (decode_payload c command plaintext None) (\<lambda>m. Inr (m, rest', Some k))) = Inr (Some m, rest, k)"
    using assms by (auto simp: channel_receive_def bnd_eq_Inr)
  then show ?thesis
    by (cases "cipher_decrypt pr payload k0"; cases "fst (cipher_decrypt pr payload k0)")
      (auto simp: bnd_eq_Inr decode_payload_iff)
qed


fun brings :: "node_config \<Rightarrow> rat \<times> node_event \<Rightarrow> node \<Rightarrow> block option" where
  "brings cf (now, PeerTurn i stream) n = (case fst (peer_receive cf now i stream n) of
     Inr (Some (BlockMessage b)) \<Rightarrow> Some b | _ \<Rightarrow> None)"
| "brings cf (now, BlockSubmitted b) n = Some b"
| "brings cf ev n = None"

lemma node_ok_peer_turn:
  assumes "node_ok cf T n" "\<And>b. brings cf (now, PeerTurn i stream) n = Some b \<Longrightarrow> set (bk_transactions b) \<subseteq> T"
  shows "node_ok cf T (peer_turn cf now i stream n)"
proof -
  obtain r n1 where r: "peer_receive cf now i stream n = (r, n1)" by fastforce
  have n1: "node_ok cf T n1"
    using assms(1) r node_ok_peers [OF assms(1)]
    by (auto simp: peer_receive_def peer_ok_def split: option.splits sum.splits)
  have "wire_block T b" if "r = Inr (Some (BlockMessage b))" for b
    using that r assms(2) received_message_ok
    by (fastforce simp: wire_block_def peer_receive_def split: option.splits sum.splits prod.splits)
  then have "keeps (node_ok cf T) (handle_message cf now i m)" if "r = Inr (Some m)" for m
    using that by (intro keeps_handle_message) simp
  then have "node_ok cf T (snd (act_bind (peer_receive cf now i stream)
      (\<lambda>m. case m of None \<Rightarrow> done_with () | Some m \<Rightarrow> handle_message cf now i m) n))"
    using n1 by (auto simp: act_bind_def r done_with_def keeps_def split: sum.split option.split)
  then show ?thesis unfolding peer_turn_def by (rule node_ok_end_turn)
qed

lemma keeps_check_peers: "keeps (node_ok cf T) (check_peers cf now nonce)"
proof -
  have "keeps (node_ok cf T) (act_each (check_peer cf now nonce) is)" for "is"
    unfolding check_peer_def Let_def by (intro keeps_intros node_ok_peers; simp add: peer_ok_def close_peer_def)
  then show ?thesis unfolding keeps_def check_peers_def by blast
qed

lemma keeps_poll: "keeps (node_ok cf T) (poll_if_stale cf now)"
proof -
  have "keeps (node_ok cf T) (act_each (\<lambda>i. with_peer i (\<lambda>q. if pr_handshake_done q then maybe_sync cf True i else done_with ())) is)" for "is"
    by (intro keeps_intros)
  then have "keeps (node_ok cf T) (poll_for_blocks cf)" unfolding keeps_def poll_for_blocks_def by blast
  then have "keeps (node_ok cf T) (act_bind (modify (nd_last_poll_at_update (\<lambda>_. now))) (\<lambda>_. poll_for_blocks cf))"
    by (intro keeps_intros) (simp_all add: node_ok_def)
  then show ?thesis unfolding keeps_def poll_if_stale_def by simp
qed

lemma keeps_reannounce: "keeps (node_ok cf T) (reannounce_mempool cf)"
proof -
  have "keeps (node_ok cf T) (act_each (\<lambda>i. with_peer i (\<lambda>q. if pr_handshake_done q
         then act_catch is_PeerDisconnected (\<lambda>_. done_with ()) (announce_mempool cf i) else done_with ())) is)" for "is"
    by (intro keeps_intros)
  then show ?thesis unfolding keeps_def reannounce_mempool_def by blast
qed

lemma node_ok_save_round: "node_ok cf T n \<Longrightarrow> node_ok cf T (save_round now n)"
  by (auto simp: node_ok_def save_round_def book_ok_prune check_served_def Let_def peer_ok_def close_peer_def)

lemma node_ok_prune: "node_ok cf T n \<Longrightarrow> node_ok cf T (prune_now cf keep n)"
  using reachable.pruned [of "ncrypto cf" "nparams cf" T "nd_chain n"]
  by (auto simp: node_ok_def prune_now_def Let_def split: option.split intro: prod.collapse [symmetric])

lemma length_alist_update: "length (AList.update k v t) = (if k \<in> fst ` set t then length t else Suc (length t))"
  by (induction t) auto

lemma node_ok_expire: "node_ok cf T n \<Longrightarrow> node_ok cf T (expire_orphans now n)"
  by (simp add: node_ok_def expire_orphans_def waiting_ok_filter)

lemma node_ok_gone: "node_ok cf T n \<Longrightarrow> node_ok cf T (upd_peer i (pr_gone_update f) n)"
  by (rule node_ok_peers) (simp_all add: peer_ok_def)

lemma node_ok_store_aux: "node_ok cf T n \<Longrightarrow> node_ok cf T (store_aux_candidate cf a n)"
  by (auto simp: node_ok_def store_aux_candidate_def Let_def length_alist_update)

lemma node_ok_find_aux: "node_ok cf T n \<Longrightarrow> node_ok cf T (snd (find_aux_candidate h n))"
  by (auto simp: node_ok_def find_aux_candidate_def AList.delete_eq split: option.split
      intro: order_trans [OF of_nat_mono [OF length_filter_le]])

lemma node_step_ok:
  assumes "node_ok cf T n" "\<And>b. brings cf ev n = Some b \<Longrightarrow> wire_block T b"
  shows "node_ok cf T (node_step cf ev n)"
proof -
  obtain now e where ev: "ev = (now, e)" by fastforce
  show ?thesis
  proof (cases e)
    case (PeerTurn i stream)
    then show ?thesis using assms node_ok_peer_turn by (auto simp: ev wire_block_def)
  qed (use assms in \<open>auto simp: ev node_ok_expire node_ok_gone
        intro: node_ok_register keepsD [OF keeps_submit_block] keepsD [OF keeps_submit_transaction]
          keepsD [OF keeps_retry_premature] keepsD [OF keeps_check_peers] keepsD [OF keeps_poll] keepsD [OF keeps_reannounce]
          node_ok_save_round node_ok_prune node_ok_store_aux node_ok_find_aux\<close>)
qed

section \<open>Runs\<close>

inductive node_run :: "node_config \<Rightarrow> transaction set \<Rightarrow> node \<Rightarrow> bool" for cf T where
  started: "node_run cf T n"
    if "start_node cf now empty_storage book = Inr n" "book_ok book"
      "\<forall>g. genesis_block (ncrypto cf) (nparams cf) = Inr g \<longrightarrow> set (bk_transactions g) \<subseteq> T"
| stepped: "node_run cf T (node_step cf ev n)"
    if "node_run cf T n" "\<forall>b. brings cf ev n = Some b \<longrightarrow> wire_block T b"
| restarted: "node_run cf T n'"
    if "node_run cf T n" "start_node cf now (bc_storage (nd_chain n)) book = Inr n'" "book_ok book"

lemma start_node_ok:
  assumes "start_node cf now s book = Inr n" "book_ok book"
    "\<And>ch. open_chain (ncrypto cf) (nparams cf) s = Inr ch \<Longrightarrow> reachable (ncrypto cf) (nparams cf) T ch"
  shows "node_ok cf T n"
  using assms pool_ok_empty [of "cf_pool cf"]
  by (auto simp: start_node_def bnd_eq_Inr node_ok_def empty_pool_def)

lemma node_run_ok: "node_run cf T n \<Longrightarrow> node_ok cf T n"
proof (induction rule: node_run.induct)
  case (started now book n)
  show ?case by (rule start_node_ok [OF started(1,2)]) (rule reachable.opened [OF _ started(3)])
next
  case (stepped n ev)
  then show ?case by (blast intro: node_step_ok)
next
  case (restarted n now book n')
  then have "reachable (ncrypto cf) (nparams cf) T (nd_chain n)" by (simp add: node_ok_def)
  then show ?case by (intro start_node_ok [OF restarted(2,3)]) (rule reachable.reopened)
qed


section \<open>Before the handshake\<close>

lemma upd_peer_frame [simp]:
  "nd_chain (upd_peer i f n) = nd_chain n" "nd_pool (upd_peer i f n) = nd_pool n"
  "nd_orphans (upd_peer i f n) = nd_orphans n" "nd_premature (upd_peer i f n) = nd_premature n"
  "nd_premature_blocks (upd_peer i f n) = nd_premature_blocks n" "nd_premature_reason (upd_peer i f n) = nd_premature_reason n"
  "nd_last_block_at (upd_peer i f n) = nd_last_block_at n" "nd_last_poll_at (upd_peer i f n) = nd_last_poll_at n"
  "nd_book (upd_peer i f n) = nd_book n" "nd_local (upd_peer i f n) = nd_local n" "nd_aux (upd_peer i f n) = nd_aux n"
  "nd_auxpow_blocks (upd_peer i f n) = nd_auxpow_blocks n" "nd_auxpow_rejections (upd_peer i f n) = nd_auxpow_rejections n"
  "nd_auxpow_submissions (upd_peer i f n) = nd_auxpow_submissions n" "nd_auxpow_templates (upd_peer i f n) = nd_auxpow_templates n"
  by (simp_all add: upd_peer_def split: option.split)

lemma upd_peer_peers: "\<exists>ps. upd_peer i f n = n\<lparr>nd_peers := ps\<rparr>"
proof (cases "find_peer n i")
  case None
  then have "upd_peer i f n = n\<lparr>nd_peers := nd_peers n\<rparr>" by (simp add: upd_peer_def)
  then show ?thesis ..
qed (auto simp: upd_peer_def)

lemma find_peer_book [simp]: "find_peer (n\<lparr>nd_book := b\<rparr>) i = find_peer n i"
  by (simp add: find_peer_def)

lemma find_unregister: "find_peer (unregister i n) j = (if j = i then None else find_peer n j)"
  by (simp add: find_peer_def unregister_def AList.delete_conv)

text \<open>
  C17. A peer that has not introduced itself cannot touch anything. If the peer \<open>i\<close> has not sent its version message, and
  what is read from its wire is a message of another known kind, or fails with a \<^verbatim>\<open>ProtocolError\<close> (another network's magic, a
  wrong checksum, a payload its decoder refuses), then the node closes the connection and bans the host for a day, and the
  chain, the pool, the waiting blocks, the candidates and all other peers are unchanged. A message with an unknown command,
  which is ignored, and one that is cut off, which ends the connection without a ban, are not meant.
\<close>
theorem harmless_before_handshake:
  assumes "node_ok cf T n" "find_peer n i = Some q" "pr_version q = None"
    and "channel_receive (cf_primitives cf) (ncrypto cf) (pm_magic (nparams cf)) stream (pr_cipher q) = r"
    and "r = Inl (ProtocolError why) \<or> (r = Inr (Some m, rest, k) \<and> m \<notin> range Version)"
  shows "peer_turn cf now i stream n =
    n\<lparr>nd_peers := nd_peers (peer_turn cf now i stream n),
      nd_book := book_ban now (pr_host q) MISBEHAVIOUR_BAN_DURATION (nd_book n)\<rparr> \<and>
    (\<forall>j. find_peer (peer_turn cf now i stream n) j = (if j = i then None else find_peer n j))"
proof -
  define heard where "heard k = upd_peer i (\<lambda>q. q\<lparr>pr_cipher := k, pr_last_message_at := now\<rparr>) n" for k
  have 0: "0 \<le> pr_misbehaviour q" using node_ok_peerD [OF assms(1,2)] by (simp add: peer_ok_def)
  have refused: "\<exists>why'. handle_message cf now i m (heard k) = (Inl (ProtocolError why'), heard k)" if "m \<notin> range Version" for m k
    using that assms(2,3)
    by (cases m) (auto simp: handle_message_def with_peer_def heard_def find_upd_peer fail_with_def)
  have "\<exists>why' n'. act_bind (peer_receive cf now i stream)
      (\<lambda>m. case m of None \<Rightarrow> done_with () | Some m \<Rightarrow> handle_message cf now i m) n = (Inl (ProtocolError why'), n') \<and>
      (n' = n \<or> (\<exists>k. n' = heard k))"
    using assms(5)
  proof
    assume "r = Inl (ProtocolError why)"
    then show ?thesis using assms(2,4) by (simp add: act_bind_def peer_receive_def)
  next
    assume "r = Inr (Some m, rest, k) \<and> m \<notin> range Version"
    then show ?thesis using assms(2,4) refused [of m k] by (auto simp: act_bind_def peer_receive_def heard_def)
  qed
  then obtain why' n' where turn: "peer_turn cf now i stream n = end_turn now i (Inl (ProtocolError why') :: unit result, n')"
      and n': "n' = n \<or> (\<exists>k. n' = heard k)"
    unfolding peer_turn_def by force
  obtain q' where q': "find_peer n' i = Some q'" "pr_misbehaviour q' = pr_misbehaviour q" "pr_host q' = pr_host q"
    using n' assms(2) by (auto simp: heard_def find_upd_peer)
  have rest: "\<And>j. j \<noteq> i \<Longrightarrow> find_peer n' j = find_peer n j" "nd_book n' = nd_book n" "\<exists>ps. n' = n\<lparr>nd_peers := ps\<rparr>"
    using n' upd_peer_peers [of i "\<lambda>q. q" n] upd_peer_peers [of i _ n] by (auto simp: heard_def find_upd_peer intro: exI [of _ "nd_peers n"])
  define n1 where "n1 = upd_peer i close_peer ((upd_peer i (\<lambda>q. q\<lparr>pr_misbehaviour := pr_misbehaviour q + BAN_THRESHOLD\<rparr>) n')
      \<lparr>nd_book := book_ban now (pr_host q) MISBEHAVIOUR_BAN_DURATION (nd_book n)\<rparr>)"
  have "peer_turn cf now i stream n = unregister i n1"
    unfolding turn using 0 q' rest(2) by (simp add: end_turn_def misbehave_def Let_def n1_def)
  moreover have "unregister i n1 = n\<lparr>nd_peers := nd_peers (unregister i n1),
      nd_book := book_ban now (pr_host q) MISBEHAVIOUR_BAN_DURATION (nd_book n)\<rparr>"
    using rest(3) by (intro node.equality) (auto simp: n1_def unregister_def)
  moreover have "find_peer (unregister i n1) j = (if j = i then None else find_peer n j)" for j
    using rest(1) by (simp add: find_unregister n1_def find_upd_peer)
  ultimately show ?thesis by simp
qed

end
