(* ===== verification/NodeSync.thy ===== *)
theory NodeSync
  imports NodeRuns
begin

text \<open>
  How a node gets the blocks it misses: the order in which it requests them, the loop that connects waiting blocks, and
  the question for new headers that a dead connection ends.
\<close>

section \<open>Requests in order\<close>

text \<open>Every block of the list has its parent stored, in \<open>Q\<close>, or before it; a block with an unknown parent may stand anywhere.\<close>

fun ordered_from :: "storage \<Rightarrow> bytes set \<Rightarrow> bytes list \<Rightarrow> bool" where
  "ordered_from s Q [] \<longleftrightarrow> True"
| "ordered_from s Q (h # hs) \<longleftrightarrow>
     (case block_parent s h of None \<Rightarrow> True | Some ph \<Rightarrow> has_block s ph \<or> ph \<in> Q) \<and> ordered_from s (insert h Q) hs"

definition blocked :: "storage \<Rightarrow> bytes set \<Rightarrow> bytes \<Rightarrow> bool" where
  "blocked s Q h \<longleftrightarrow> (case block_parent s h of None \<Rightarrow> False | Some ph \<Rightarrow> \<not> has_block s ph \<and> ph \<notin> Q)"

lemma batch_loop_spec:
  "batch_loop s queued pending = (batch, rest) \<Longrightarrow>
     (\<exists>taken. pending = taken @ rest \<and> batch = filter (\<lambda>h. \<not> has_block s h) taken) \<and> ordered_from s (set queued) batch \<and>
     (rest \<noteq> [] \<longrightarrow> BLOCKS_IN_FLIGHT \<le> card (set queued \<union> set batch) \<or> blocked s (set queued \<union> set batch) (hd rest))"
proof (induction s queued pending arbitrary: batch rest rule: batch_loop.induct)
  case (2 s queued h hs)
  show ?case
  proof (cases "card (set queued) \<ge> BLOCKS_IN_FLIGHT \<or> blocked s (set queued) h")
    case True
    then show ?thesis using 2(3) by (auto simp: blocked_def split: if_splits option.splits)
  next
    case go: False
    have c: "\<not> BLOCKS_IN_FLIGHT \<le> card (set queued)"
      "\<not> (case block_parent s h of None \<Rightarrow> False | Some ph \<Rightarrow> \<not> has_block s ph \<and> ph \<notin> set queued)"
      using go unfolding blocked_def by simp_all
    show ?thesis
    proof (cases "has_block s h")
      case True
      then have loop: "batch_loop s queued hs = (batch, rest)" using c 2(3) by (simp split: if_splits)
      from 2(1) [OF c True this] obtain taken where "hs = taken @ rest" "batch = filter (\<lambda>h. \<not> has_block s h) taken"
          "ordered_from s (set queued) batch"
          "rest \<noteq> [] \<longrightarrow> BLOCKS_IN_FLIGHT \<le> card (set queued \<union> set batch) \<or> blocked s (set queued \<union> set batch) (hd rest)"
        by blast
      then show ?thesis using True by (auto intro: exI [of _ "h # taken"])
    next
      case False
      obtain b1 where b1: "batch_loop s (List.insert h queued) hs = (b1, rest)" "batch = h # b1"
        using 2(3) c False by (auto split: prod.splits if_splits)
      from 2(2) [OF c False b1(1)] obtain taken where "hs = taken @ rest" "b1 = filter (\<lambda>h. \<not> has_block s h) taken"
          "ordered_from s (insert h (set queued)) b1"
          "rest \<noteq> [] \<longrightarrow> BLOCKS_IN_FLIGHT \<le> card (insert h (set queued) \<union> set b1) \<or> blocked s (insert h (set queued) \<union> set b1) (hd rest)"
        by auto
      then show ?thesis using False b1(2) go
        by (auto simp: blocked_def split: option.splits intro: exI [of _ "h # taken"])
    qed
  qed
qed simp

lemma send_effect:
  assumes "send cf i m n = (Inr (), n')" "find_peer n i = Some q"
  obtains q' k d where "find_peer n' i = Some q'" "q' = q\<lparr>pr_cipher := k, pr_sent := pr_sent q @ [(m, d)]\<rparr>"
  using assms by (auto simp: send_def find_upd_peer split: if_splits sum.splits)

lemma set_fold_insert [simp]: "set (fold List.insert xs ys) = set xs \<union> set ys"
  by (induction xs arbitrary: ys) auto

text \<open>
  C16. Blocks are requested in an order in which they can connect. When a node asks the peer \<open>i\<close> for blocks, it takes them
  from the front of the peer's queue, skips the ones it has, and asks for no block whose parent it knows and neither has,
  nor has in flight from this peer, nor asks for before it in the same message. No more than 64 are in flight; and what
  stays in the queue stays because 64 are in flight or because its parent is missing.
\<close>
theorem requests_in_order:
  assumes "node_ok cf T n" "find_peer n i = Some q" "request_blocks cf now i n = (Inr (), n')"
  shows "\<exists>taken batch q'. find_peer n' i = Some q' \<and> pr_pending_blocks q = taken @ pr_pending_blocks q' \<and>
    batch = filter (\<lambda>h. \<not> has_block (bc_storage (nd_chain n)) h) taken \<and>
    map fst (pr_sent q') = map fst (pr_sent q) @ (if batch = [] then [] else [GetData (map block_item batch)]) \<and>
    ordered_from (bc_storage (nd_chain n)) (set (pr_requested_blocks q)) batch \<and>
    set (pr_requested_blocks q') = set (pr_requested_blocks q) \<union> set batch \<and>
    card (set (pr_requested_blocks q')) \<le> BLOCKS_IN_FLIGHT \<and>
    (if pr_pending_blocks q' = [] then True
     else card (set (pr_requested_blocks q')) = BLOCKS_IN_FLIGHT \<or>
       blocked (bc_storage (nd_chain n)) (set (pr_requested_blocks q')) (hd (pr_pending_blocks q')))"
proof -
  let ?s = "bc_storage (nd_chain n)"
  obtain batch rest where b: "batch_loop ?s (pr_requested_blocks q) (pr_pending_blocks q) = (batch, rest)"
    by fastforce
  obtain taken where taken: "pr_pending_blocks q = taken @ rest" "batch = filter (\<lambda>h. \<not> has_block ?s h) taken"
    and order: "ordered_from ?s (set (pr_requested_blocks q)) batch"
      "rest \<noteq> [] \<longrightarrow> BLOCKS_IN_FLIGHT \<le> card (set (pr_requested_blocks q) \<union> set batch) \<or>
        blocked ?s (set (pr_requested_blocks q) \<union> set batch) (hd rest)"
    using batch_loop_spec [OF b] by blast
  have "\<exists>q'. find_peer n' i = Some q' \<and> pr_pending_blocks q' = rest \<and>
      set (pr_requested_blocks q') = set (pr_requested_blocks q) \<union> set batch \<and>
      map fst (pr_sent q') = map fst (pr_sent q) @ (if batch = [] then [] else [GetData (map block_item batch)])"
  proof (cases "batch = []")
    case True
    then have "n' = upd_peer i (pr_pending_blocks_update (\<lambda>_. rest)) n"
      using assms(2,3) b by (simp add: request_blocks_def with_peer_def modify_def)
    then show ?thesis using True assms(2) by (simp add: find_upd_peer)
  next
    case False
    define f where "f q' = q'\<lparr>pr_pending_blocks := rest, pr_requested_blocks := fold List.insert batch (pr_requested_blocks q'),
        pr_requested_at := fold (\<lambda>h. AList.update h now) batch (pr_requested_at q')\<rparr>" for q' :: peer
    obtain n1 where n1: "send cf i (GetData (map block_item batch)) (upd_peer i f n) = (Inr (), n1)"
        "n' = upd_peer i (pr_last_getdata_at_update (\<lambda>_. Some now)) n1"
      using assms(2,3) b False
      by (auto simp: request_blocks_def with_peer_def act_bind_def modify_def f_def [abs_def] split: prod.splits sum.splits)
    have "find_peer (upd_peer i f n) i = Some (f q)" using assms(2) by (simp add: find_upd_peer)
    from send_effect [OF n1(1) this] obtain q1 k d where
      "find_peer n1 i = Some q1" "q1 = (f q)\<lparr>pr_cipher := k, pr_sent := pr_sent (f q) @ [(GetData (map block_item batch), d)]\<rparr>" .
    then show ?thesis using False by (auto simp: n1(2) find_upd_peer f_def)
  qed
  then obtain q' where q': "find_peer n' i = Some q'" "pr_pending_blocks q' = rest"
      "set (pr_requested_blocks q') = set (pr_requested_blocks q) \<union> set batch"
      "map fst (pr_sent q') = map fst (pr_sent q) @ (if batch = [] then [] else [GetData (map block_item batch)])"
    by blast
  moreover have "card (set (pr_requested_blocks q')) \<le> BLOCKS_IN_FLIGHT"
    using batch_loop_bound [OF b] node_ok_peerD [OF assms(1,2)] by (simp add: peer_ok_def q'(3) Un_commute)
  moreover from this have "pr_pending_blocks q' \<noteq> [] \<Longrightarrow> card (set (pr_requested_blocks q')) = BLOCKS_IN_FLIGHT \<or>
      blocked ?s (set (pr_requested_blocks q')) (hd (pr_pending_blocks q'))"
    using order(2) unfolding q'(2,3) by (metis order_antisym)
  ultimately show ?thesis
    unfolding if_bool_eq_conj [of _ True] using taken order(1)
    by - (rule exI [of _ taken], rule exI [of _ batch], rule exI [of _ q'], metis)
qed

section \<open>Waiting blocks\<close>

lemma orphans_node_add [keeps_intros]: "keeps (\<lambda>n. nd_orphans n = w) (node_add_block cf now b)"
  by (rule keepsI) (auto simp: node_add_block_def split: prod.split sum.split)

lemma orphans_send [keeps_intros]: "keeps (\<lambda>n. nd_orphans n = w) (send cf i m)"
  by (rule keepsI) (auto simp: send_def split: option.split sum.split)

lemma orphans_relay [keeps_intros]: "keeps (\<lambda>n. nd_orphans n = w) (relay cf item source)"
proof -
  have "keeps (\<lambda>n. nd_orphans n = w) (act_each (\<lambda>i. with_peer i (\<lambda>q.
         if Some i = source \<or> \<not> pr_handshake_done q \<or> peer_knows q (iv_hash item) then done_with ()
         else act_bind (modify (upd_peer i (note_inventory (iv_hash item)))) (\<lambda>_.
              act_catch is_PeerDisconnected (\<lambda>_. done_with ()) (send cf i (Inv [item]))))) is)" for "is"
    by (intro keeps_intros) simp
  then show ?thesis unfolding relay_def keeps_def by blast
qed

lemma orphans_connect [keeps_intros]: "keeps (\<lambda>n. nd_orphans n = w) (connect_children cf now bs pending)"
  by (induction bs arbitrary: pending) (auto intro!: keeps_intros)

lemma connect_children_length:
  "connect_children cf now bs pending n = (Inr pending', n') \<Longrightarrow> length pending' \<le> length pending + length bs"
proof (induction bs arbitrary: pending n)
  case (Cons b bs)
  then show ?case
    by (fastforce simp: act_bind_def split: prod.splits sum.splits if_splits)
qed (simp add: done_with_def)

lemma forget_waiting_filter: "forget_waiting c bs w = filter (\<lambda>(k, _). k \<notin> block_hash c ` set bs) w"
proof (induction bs arbitrary: w)
  case (Cons b bs)
  have "forget_waiting c (b # bs) w = forget_waiting c bs (AList.delete (block_hash c b) w)"
    by (simp add: forget_waiting_def)
  then show ?case by (simp add: Cons.IH AList.delete_eq) (rule filter_cong; auto)
qed (simp add: forget_waiting_def case_prod_beta)

text \<open>What is taken from the table leaves it, and no child of the same parent stays.\<close>

lemma forget_children:
  assumes "waiting_ok c T w" "forget_waiting c (waiting_children h w) w = w'"
  shows "length (waiting_children h w) + length w' \<le> length w" "set w' \<subseteq> set w" "waiting_children h w' = []"
proof -
  define P where "P = (\<lambda>(_ :: bytes, b :: block, _ :: rat). bh_prev_hash (bk_header b) = h)"
  have sub: "w' = filter (\<lambda>(k, _). k \<notin> block_hash c ` set (waiting_children h w)) w"
    using assms(2) by (simp add: forget_waiting_filter)
  have gone: "x \<notin> set w'" if "x \<in> set w" "P x" for x
  proof -
    obtain k b t where x: "x = (k, b, t)" by (cases x)
    then have "k = block_hash c b" using that(1) assms(1) by (auto simp: waiting_ok_def)
    moreover have "b \<in> set (waiting_children h w)"
      using that unfolding x waiting_children_def P_def by force
    ultimately show ?thesis unfolding sub x by simp
  qed
  have "filter (\<lambda>(k, _). k \<notin> block_hash c ` set (waiting_children h w)) w =
      filter (\<lambda>(k, _). k \<notin> block_hash c ` set (waiting_children h w)) (filter (\<lambda>x. \<not> P x) w)"
    using gone unfolding sub by (auto intro: filter_cong)
  then have "length w' \<le> length (filter (\<lambda>x. \<not> P x) w)" unfolding sub by (metis length_filter_le)
  then show "length (waiting_children h w) + length w' \<le> length w"
    using sum_length_filter_compl [of P w] by (simp add: waiting_children_def P_def)
  show "set w' \<subseteq> set w" unfolding sub by auto
  then show "waiting_children h w' = []"
    using gone by (fastforce simp: waiting_children_def filter_empty_conv P_def)
qed

lemma children_empty_mono: "waiting_children h w = [] \<Longrightarrow> set w' \<subseteq> set w \<Longrightarrow> waiting_children h w' = []"
  by (auto simp: waiting_children_def filter_empty_conv)

text \<open>Announcing a block raises no \<open>Nonterminating\<close>, so that a loop over blocks does only if accepting one of them does.\<close>

definition returns :: "'a act \<Rightarrow> bool" where
  "returns m \<longleftrightarrow> (\<forall>n. fst (m n) \<noteq> Inl Nonterminating)"

lemma returns_bind: "returns m \<Longrightarrow> (\<And>x. returns (f x)) \<Longrightarrow> returns (act_bind m f)"
  by (auto simp: returns_def act_bind_def split: prod.split sum.split) (metis fst_conv)

lemma writers_end:
  "raises (\<lambda>e. e \<noteq> Nonterminating) (w_varint v w)" "raises (\<lambda>e. e \<noteq> Nonterminating) (w_inv_item i w)"
  by (auto simp: w_varint_def w_inv_item_def w_uint8_def w_hash32_def pack_def intro!: raises_intros)

lemma returns_send_inv: "returns (send cf i (Inv items))"
proof -
  have "raises (\<lambda>e. e \<noteq> Nonterminating) (channel_send pr c magic (Inv items) k)" for pr c magic k
    unfolding channel_send_def encode_payload_def cipher_encrypt_def Let_def
    by (cases k) (auto simp: inventory_encode_def intro!: raises_intros writers_end)
  from raises_Inl [OF this] show ?thesis
    by (auto simp: returns_def send_def split: option.split sum.split)
qed

lemma returns_relay: "returns (relay cf item source)"
proof -
  have "returns (act_each (\<lambda>i. with_peer i (\<lambda>q.
         if Some i = source \<or> \<not> pr_handshake_done q \<or> peer_knows q (iv_hash item) then done_with ()
         else act_bind (modify (upd_peer i (note_inventory (iv_hash item)))) (\<lambda>_.
              act_catch is_PeerDisconnected (\<lambda>_. done_with ()) (send cf i (Inv [item]))))) is)" for "is"
  proof (induction "is")
    case (Cons i "is")
    have "returns (act_catch is_PeerDisconnected (\<lambda>_. done_with ()) (send cf i (Inv [item])))"
      using returns_send_inv [of cf i "[item]"]
      by (auto simp: returns_def act_catch_def done_with_def split: prod.split sum.split) (metis fst_conv)
    then have "returns (act_bind (modify (upd_peer i (note_inventory (iv_hash item)))) (\<lambda>_.
        act_catch is_PeerDisconnected (\<lambda>_. done_with ()) (send cf i (Inv [item]))))"
      by (simp add: returns_def act_bind_def modify_def)
    then have "returns (with_peer i (\<lambda>q.
         if Some i = source \<or> \<not> pr_handshake_done q \<or> peer_knows q (iv_hash item) then done_with ()
         else act_bind (modify (upd_peer i (note_inventory (iv_hash item)))) (\<lambda>_.
              act_catch is_PeerDisconnected (\<lambda>_. done_with ()) (send cf i (Inv [item])))))"
      by (auto simp: returns_def with_peer_def done_with_def split: option.split)
    then show ?case using Cons by (simp add: returns_bind)
  qed (simp add: returns_def done_with_def)
  then show ?thesis by (simp add: returns_def relay_def)
qed

lemma connect_children_stuck:
  assumes "fst (connect_children cf now bs pending n) = Inl Nonterminating" "node_ok cf T n" "\<forall>b \<in> set bs. wire_block T b"
  shows "\<exists>b n'. b \<in> set bs \<and> node_ok cf T n' \<and> fst (node_add_block cf now b n') = Inl Nonterminating"
  using assms
proof (induction bs arbitrary: pending n)
  case (Cons b bs)
  show ?case
  proof (cases "fst (node_add_block cf now b n) = Inl Nonterminating")
    case False
    obtain r n1 where r: "node_add_block cf now b n = (r, n1)" by fastforce
    have n1: "node_ok cf T n1" using keepsD [OF keeps_node_add_block Cons.prems(2)] Cons.prems(3) r by (metis list.set_intros(1) snd_conv)
    have "\<exists>pending' n'. node_ok cf T n' \<and> fst (connect_children cf now bs pending' n') = Inl Nonterminating"
    proof (cases "\<exists>a. r = Inr a \<and> accepted a")
      case True
      define h where "h = block_hash (ncrypto cf) b"
      obtain r2 n2 where r2: "relay cf (block_item h) None n1 = (r2, n2)" by fastforce
      have n2: "node_ok cf T n2" using keepsD [OF keeps_relay n1, of "block_item h" None] r2 by simp
      have "r2 \<noteq> Inl Nonterminating" using returns_relay [of cf "block_item h" None] r2 by (metis fst_conv returns_def)
      then have "fst (connect_children cf now bs (pending @ [h]) n2) = Inl Nonterminating"
        using Cons.prems(1) True r r2 by (auto simp: act_bind_def h_def split: sum.splits)
      then show ?thesis using n2 by blast
    next
      case False': False
      then have "fst (connect_children cf now bs pending n1) = Inl Nonterminating"
        using Cons.prems(1) False r by (auto simp: act_bind_def split: sum.splits)
      then show ?thesis using n1 by blast
    qed
    then show ?thesis using Cons.IH Cons.prems(3) by fastforce
  qed (use Cons.prems(2) in auto)
qed (simp add: done_with_def)

text \<open>One round of the loop.\<close>

definition stuck_block :: "node_config \<Rightarrow> transaction set \<Rightarrow> rat \<Rightarrow> waiting \<Rightarrow> bool" where
  "stuck_block cf T now w \<longleftrightarrow> (\<exists>x \<in> set w. \<exists>n'. node_ok cf T n' \<and> fst (node_add_block cf now (fst (snd x)) n') = Inl Nonterminating)"

lemma orphans_round:
  assumes "node_ok cf T n" "pending \<noteq> []"
  obtains
    (raised) e n1 where "\<And>fuel. orphans_loop cf now (Suc fuel) pending n = (Inl e, n1)" "set (nd_orphans n1) \<subseteq> set (nd_orphans n)"
      "e = Nonterminating \<longrightarrow> stuck_block cf T now (nd_orphans n)"
  | (goes_on) pending1 n1 where "\<And>fuel. orphans_loop cf now (Suc fuel) pending n = orphans_loop cf now fuel pending1 n1"
      "length pending1 + length (nd_orphans n1) < length pending + length (nd_orphans n)"
      "node_ok cf T n1" "set (nd_orphans n1) \<subseteq> set (nd_orphans n)"
      "waiting_children (last pending) (nd_orphans n1) = []"
proof -
  obtain h hs where p: "pending = h # hs" using assms(2) by (cases pending) auto
  define children where "children = waiting_children (last pending) (nd_orphans n)"
  have w0: "waiting_ok (ncrypto cf) T (nd_orphans n)" using assms(1) by (simp add: node_ok_def)
  have wire: "\<forall>b \<in> set children. wire_block T b" using children_wire [OF w0] by (auto simp: children_def)
  have old: "\<exists>x \<in> set (nd_orphans n). b = fst (snd x)" if "b \<in> set children" for b
    using that by (force simp: children_def waiting_children_def)
  define n0 where "n0 = nd_orphans_update (forget_waiting (ncrypto cf) children) n"
  obtain r n1 where r: "connect_children cf now children (butlast pending) n0 = (r, n1)" by fastforce
  have loop: "orphans_loop cf now (Suc fuel) pending n =
      (case r of Inl e \<Rightarrow> (Inl e, n1) | Inr pending1 \<Rightarrow> orphans_loop cf now fuel pending1 n1)" for fuel
    using r unfolding p orphans_loop.simps Let_def children_def n0_def
    by (simp add: act_bind_def modify_def del: last.simps butlast.simps split: sum.split)
  have w: "nd_orphans n1 = forget_waiting (ncrypto cf) children (nd_orphans n)"
    using keepsD [OF orphans_connect, of n0 "nd_orphans n0" cf now children "butlast pending"] unfolding r by (simp add: n0_def)
  have n0: "node_ok cf T n0" using assms(1) waiting_ok_forget [OF w0] by (simp add: n0_def node_ok_def)
  note f = forget_children [OF w0, of "last pending", folded children_def, OF w [symmetric]]
  have ok: "node_ok cf T n1" using keepsD [OF keeps_connect_children [OF wire] n0, of now "butlast pending"] r by simp
  show thesis
  proof (cases r)
    case (Inl e)
    have "e = Nonterminating \<longrightarrow> stuck_block cf T now (nd_orphans n)"
    proof
      assume "e = Nonterminating"
      then have "fst (connect_children cf now children (butlast pending) n0) = Inl Nonterminating" using r Inl by simp
      from connect_children_stuck [OF this n0 wire] show "stuck_block cf T now (nd_orphans n)"
        unfolding stuck_block_def using old by metis
    qed
    then show thesis using raised loop f(2) Inl by simp
  next
    case (Inr pending1)
    have "length pending1 \<le> length (butlast pending) + length children"
      using connect_children_length r Inr by blast
    then have "length pending1 + length (nd_orphans n1) < length pending + length (nd_orphans n)"
      using f(1) assms(2) by (cases "length pending") auto
    then show thesis using goes_on loop Inr ok f(2,3) by simp
  qed
qed

lemma orphans_loop_fuel:
  assumes "node_ok cf T n" "length pending + length (nd_orphans n) \<le> fuel"
  shows "orphans_loop cf now (fuel + k) pending n = orphans_loop cf now fuel pending n"
  using assms
proof (induction fuel arbitrary: pending n)
  case (Suc fuel)
  show ?case
  proof (cases "pending = []")
    case False
    with Suc.prems(1) show ?thesis
    proof (cases rule: orphans_round [where now = now])
      case (raised e n1)
      then show ?thesis by simp
    next
      case (goes_on pending1 n1)
      then show ?thesis using Suc.IH [OF goes_on(3), of pending1] Suc.prems(2) by simp
    qed
  qed simp
qed simp

lemma orphans_loop_shrinks:
  assumes "node_ok cf T n"
  shows "set (nd_orphans (snd (orphans_loop cf now fuel pending n))) \<subseteq> set (nd_orphans n)"
  using assms
proof (induction fuel arbitrary: pending n)
  case 0
  then show ?case by (cases pending) (simp_all add: done_with_def fail_with_def)
next
  case (Suc fuel)
  show ?case
  proof (cases "pending = []")
    case False
    with Suc.prems(1) show ?thesis
    proof (cases rule: orphans_round [where now = now])
      case (raised e n1)
      then show ?thesis by simp
    next
      case (goes_on pending1 n1)
      then show ?thesis using Suc.IH [OF goes_on(3), of pending1] by auto
    qed
  qed (simp add: done_with_def)
qed

lemma stuck_block_mono: "set w' \<subseteq> set w \<Longrightarrow> stuck_block cf T now w' \<Longrightarrow> stuck_block cf T now w"
  by (auto simp: stuck_block_def)

lemma orphans_loop_returns:
  assumes "node_ok cf T n" "length pending + length (nd_orphans n) \<le> fuel"
    and "fst (orphans_loop cf now fuel pending n) = Inl Nonterminating"
  shows "stuck_block cf T now (nd_orphans n)"
  using assms
proof (induction fuel arbitrary: pending n)
  case (Suc fuel)
  show ?case
  proof (cases "pending = []")
    case False
    with Suc.prems(1) show ?thesis
    proof (cases rule: orphans_round [where now = now])
      case (raised e n1)
      then show ?thesis using Suc.prems(3) by simp
    next
      case (goes_on pending1 n1)
      then have "stuck_block cf T now (nd_orphans n1)" using Suc.IH [OF goes_on(3), of pending1] Suc.prems(2,3) by simp
      then show ?thesis by (rule stuck_block_mono [OF goes_on(4)])
    qed
  qed (use Suc.prems(3) in \<open>simp add: done_with_def\<close>)
qed (simp add: done_with_def)

text \<open>
  C18. The loop over the waiting blocks ends. When the block \<open>h\<close> has come, the loop that takes up the blocks waiting for
  it, and the blocks waiting for those, needs no more rounds than there are waiting blocks, plus one: it does not run out
  of these rounds, except that accepting a block that waited, in a consistent node, may itself go on for ever (as it does
  in the pruning node of \<open>pruned_reorg_hangs\<close>), and more fuel does not change its result. When it returns, no block
  waits for \<open>h\<close> any more, and whatever happens no block waits that did not wait before.
\<close>
theorem orphans_loop_ends:
  assumes "node_ok cf T n"
  shows "orphans_loop cf now (Suc (length (nd_orphans n)) + extra) [h] n = connect_orphans_of cf now h n \<and>
    (fst (connect_orphans_of cf now h n) \<noteq> Inl Nonterminating \<or>
       (\<exists>x n'. x \<in> set (nd_orphans n) \<and> node_ok cf T n' \<and> fst (node_add_block cf now (fst (snd x)) n') = Inl Nonterminating)) \<and>
    set (nd_orphans (snd (connect_orphans_of cf now h n))) \<subseteq> set (nd_orphans n) \<and>
    (fst (connect_orphans_of cf now h n) \<noteq> Inr () \<or> waiting_children h (nd_orphans (snd (connect_orphans_of cf now h n))) = [])"
proof -
  note w = assms
  have "waiting_children h (nd_orphans (snd (connect_orphans_of cf now h n))) = []" if "fst (connect_orphans_of cf now h n) = Inr ()"
  proof -
    have "[h] \<noteq> []" by simp
    with w show ?thesis
    proof (cases rule: orphans_round [where now = now])
      case (raised e n1)
      then show ?thesis using that by (simp add: connect_orphans_of_def)
    next
      case (goes_on pending1 n1)
      then show ?thesis
        using orphans_loop_shrinks [OF goes_on(3), of now "length (nd_orphans n)" pending1]
        by (auto simp: connect_orphans_of_def intro: children_empty_mono)
    qed
  qed
  moreover have "fst (connect_orphans_of cf now h n) \<noteq> Inl Nonterminating \<or>
      (\<exists>x n'. x \<in> set (nd_orphans n) \<and> node_ok cf T n' \<and> fst (node_add_block cf now (fst (snd x)) n') = Inl Nonterminating)"
    using orphans_loop_returns [OF w, of "[h]" "Suc (length (nd_orphans n))" now]
    unfolding connect_orphans_of_def stuck_block_def by fastforce
  ultimately show ?thesis
    using orphans_loop_fuel [OF w, of "[h]" "Suc (length (nd_orphans n))"] orphans_loop_shrinks [OF w]
    by (auto simp del: orphans_loop.simps simp: connect_orphans_of_def)
qed

section \<open>A dead connection\<close>

text \<open>
  C23. One dead connection stops the question for new blocks. If the first peer of the table has shaken hands, owes no
  blocks, and its socket fails, then \<^verbatim>\<open>_poll_for_blocks\<close> raises \<^verbatim>\<open>PeerDisconnected\<close> and nothing is sent to any other peer; so does
  the step of the maintenance loop that calls it, which the program runs outside every \<^verbatim>\<open>try\<close>. Re-offering the pool, in
  the same situation, goes on to the next peer.
\<close>
theorem poll_stops_at_dead_peer:
  assumes "nd_peers n = (i, q) # others" "pr_handshake_done q" "\<not> pr_closed q" "pr_gone q"
    and "pr_requested_blocks q = []" "pr_pending_blocks q = []"
    and "header_locator (ncrypto cf) (nparams cf) (nd_chain n) = Inr known"
    and "channel_send (cf_primitives cf) (ncrypto cf) (pm_magic (nparams cf)) (GetHeaders known (replicate 32 0)) (pr_cipher q) = Inr sent"
    and "round_float (now - nd_last_block_at n) > stale_tip_seconds (nparams cf)"
    and "round_float (now - nd_last_poll_at n) > POLL_INTERVAL"
  shows "fst (poll_for_blocks cf n) = Inl (PeerDisconnected ''send failed'') \<and>
    fst (poll_if_stale cf now n) = Inl (PeerDisconnected ''send failed'') \<and>
    (\<forall>j. j = i \<or> find_peer (snd (poll_if_stale cf now n)) j = find_peer n j)"
proof -
  define n1 where "n1 = nd_last_poll_at_update (\<lambda>_. now) n"
  have fail: "poll_for_blocks cf n' = (Inl (PeerDisconnected ''send failed''), upd_peer i (\<lambda>q. close_peer (q\<lparr>pr_cipher := snd sent\<rparr>)) n')"
    if "nd_peers n' = nd_peers n" "nd_chain n' = nd_chain n" for n'
    using that assms(1-8)
    by (cases sent) (simp add: poll_for_blocks_def act_bind_def with_peer_def find_peer_def maybe_sync_def lifted_def send_def)
  have n1: "nd_peers n1 = nd_peers n" "nd_chain n1 = nd_chain n" by (simp_all add: n1_def)
  have "nd_peers n \<noteq> []" using assms(1) by simp
  then have poll: "poll_if_stale cf now n = poll_for_blocks cf n1"
    using assms(9,10) by (simp add: poll_if_stale_def act_bind_def modify_def n1_def)
  have "find_peer n1 j = find_peer n j" for j by (simp add: find_peer_def n1)
  then show ?thesis using fail [of n] fail [OF n1] by (auto simp: poll find_upd_peer)
qed

end
