(* ===== verification/NodeDemo.thy ===== *)
theory NodeDemo
  imports NodeSync Selection
begin

text \<open>
  A node of the test network at work, for the theorems about nodes: it is given two blocks at height one and, before the
  second of them, a block that builds on it, which waits and is then connected by a reorganisation.
\<close>

definition demo_node :: node_config where
  "demo_node = \<lparr>cf_pool = demo_env, cf_fuel = 5, cf_primitives = demo_primitives, cf_user_agent = [], cf_listen_port = 9333,
     cf_nonce = 7, cf_max_aux = 4, cf_prune = 0, cf_resolve = (\<lambda>_. None), cf_shuffle = (\<lambda>es. es)\<rparr>"

fun trail :: "(rat \<times> node_event) list \<Rightarrow> node \<Rightarrow> node list" where
  "trail [] n = [n]"
| "trail (ev # evs) n = n # trail evs (node_step demo_node ev n)"

definition demo_look :: "node \<Rightarrow> int \<times> nat \<times> int" where
  "demo_look n = (be_height (bc_tip (nd_chain n)), length (nd_orphans n), total_supply (nd_chain n))"

definition demo_node_run :: "nat list \<Rightarrow> (block list \<times> node list) result" where
  "demo_node_run is =
     (case demo_run of Inl e \<Rightarrow> Inl e | Inr (bs, _, _, _) \<Rightarrow>
     (case start_node demo_node 1700000100 empty_storage empty_book of Inl e \<Rightarrow> Inl e | Inr n0 \<Rightarrow>
      Inr (bs, trail (map (\<lambda>i. (1700000100, BlockSubmitted (bs ! i))) is) n0)))"

lemma demo_node_run_eval:
  "map_sum id (\<lambda>(bs, ns). map demo_look ns) (demo_node_run [1, 3, 2]) =
   Inr [(0, 0, 5000000000), (1, 0, 10000000000), (1, 1, 10000000000), (2, 0, 15000000000)]"
  by code_simp

lemma demo_node_simps [simp]: "ncrypto demo_node = tail_crypto" "nparams demo_node = REGTEST" "cf_primitives demo_node = demo_primitives"
  by (simp_all add: ncrypto_def nparams_def demo_node_def demo_env_def)

lemma empty_book_ok: "book_ok empty_book"
  by (simp add: book_ok_def empty_book_def)

lemma trail_runs:
  "node_run demo_node T n \<Longrightarrow> \<forall>ev \<in> set evs. \<exists>now b. ev = (now, BlockSubmitted b) \<and> wire_block T b \<Longrightarrow>
     \<forall>m \<in> set (trail evs n). node_run demo_node T m"
proof (induction evs arbitrary: n)
  case (Cons ev evs)
  then have "node_run demo_node T (node_step demo_node ev n)" by (intro node_run.stepped) auto
  then show ?case using Cons by auto
qed simp

lemma demo_node_run_reaches:
  obtains n0 n1 n2 n3 bs where "demo_node_run [1, 3, 2] = Inr (bs, [n0, n1, n2, n3])"
    "\<forall>n \<in> set [n0, n1, n2, n3]. node_run demo_node (demo_txs bs) n" "\<not> colliding tail_crypto (body_bytes ` demo_txs bs)"
    "map demo_look [n0, n1, n2, n3] = [(0, 0, 5000000000), (1, 0, 10000000000), (1, 1, 10000000000), (2, 0, 15000000000)]"
    "start_node demo_node 1700000100 empty_storage empty_book = Inr n0"
proof -
  obtain bs b ch r ch' where run: "demo_run = Inr (bs, ch, r, ch')" "\<not> colliding tail_crypto (body_bytes ` demo_txs bs)"
    by (rule demo_run_reaches)
  have ok: "list_all block_ok bs" using demo_run_eval by (simp add: run)
  obtain g b1 b2 b3 where g: "genesis_block tail_crypto REGTEST = Inr g" and bs: "bs = [g, b1, b2, b3]"
    using run(1) unfolding demo_run_def by (auto simp: bnd_eq_Inr)
  obtain bs' ns where ns: "demo_node_run [1, 3, 2] = Inr (bs', ns)"
      "map demo_look ns = [(0, 0, 5000000000), (1, 0, 10000000000), (1, 1, 10000000000), (2, 0, 15000000000)]"
    using map_sum_Inr [OF demo_node_run_eval] by auto
  then obtain n0 where n0: "start_node demo_node 1700000100 empty_storage empty_book = Inr n0" "bs' = bs"
      "ns = trail (map (\<lambda>i. (1700000100, BlockSubmitted (bs ! i))) [1, 3, 2]) n0"
    unfolding demo_node_run_def by (auto simp: run split: sum.splits)
  have wire: "wire_block (demo_txs bs) b" if "b \<in> set bs" for b
    using that ok by (auto simp: wire_block_def demo_txs_def list_all_iff)
  have "node_run demo_node (demo_txs bs) n0"
    by (rule node_run.started [OF n0(1) empty_book_ok]) (use wire [of g] g bs in \<open>simp add: wire_block_def\<close>)
  then have "\<forall>n \<in> set ns. node_run demo_node (demo_txs bs) n"
    unfolding n0(3) by (rule trail_runs) (use wire in \<open>auto simp: bs\<close>)
  moreover obtain n1 n2 n3 where "ns = [n0, n1, n2, n3]" unfolding n0(3) by simp
  ultimately show thesis using that [of bs n0 n1 n2 n3] ns run(2) n0(1,2) by simp
qed


theorem orphans_loop_ends_witness:
  "\<exists>bs n h. node_run demo_node (demo_txs bs) n \<and> length (nd_orphans n) = 1 \<and> h = block_hash tail_crypto (bs ! 2) \<and>
     orphans_loop demo_node 1700000100 (Suc (length (nd_orphans n)) + 7) [h] n = connect_orphans_of demo_node 1700000100 h n"
proof -
  obtain bs n0 n1 n2 n3 where run: "demo_node_run [1, 3, 2] = Inr (bs, [n0, n1, n2, n3])"
      "\<forall>n \<in> set [n0, n1, n2, n3]. node_run demo_node (demo_txs bs) n"
      "map demo_look [n0, n1, n2, n3] = [(0, 0, 5000000000), (1, 0, 10000000000), (1, 1, 10000000000), (2, 0, 15000000000)]"
    by (rule demo_node_run_reaches)
  then have "node_run demo_node (demo_txs bs) n2" "length (nd_orphans n2) = 1" by (simp_all add: demo_look_def)
  then show ?thesis using orphans_loop_ends [OF node_run_ok] by blast
qed

section \<open>A peer joins\<close>

text \<open>The node after the peer \<open>1\<close> has connected to it.\<close>

definition demo_host :: utext where "demo_host = [49, 46, 50]"

definition demo_joined :: "node result" where
  "demo_joined =
     (case start_node demo_node 1700000100 empty_storage empty_book of Inl e \<Rightarrow> Inl e
      | Inr n0 \<Rightarrow> Inr (node_step demo_node (1700000100, PeerJoins 1 demo_host 9333 True [7]) n0))"

definition demo_peer :: peer where
  "demo_peer = mk_peer 1700000100 demo_host 9333 True [7]"

lemma demo_joined_reaches:
  obtains T n where "demo_joined = Inr n" "node_ok demo_node T n" "nd_peers n = [(1, demo_peer)]"
proof -
  obtain bs n0 n1 n2 n3 where run: "\<forall>n \<in> set [n0, n1, n2, n3]. node_run demo_node (demo_txs bs) n"
      "start_node demo_node 1700000100 empty_storage empty_book = Inr n0"
    by (rule demo_node_run_reaches)
  let ?n = "node_step demo_node (1700000100, PeerJoins 1 demo_host 9333 True [7]) n0"
  have "node_run demo_node (demo_txs bs) ?n" using run(1) by (intro node_run.stepped) simp_all
  moreover have "nd_peers n0 = []" using run(2) by (auto simp: start_node_def bnd_eq_Inr)
  then have "nd_peers ?n = [(1, demo_peer)]"
    by (simp add: register_def demo_peer_def end_turn_def done_with_def find_peer_def mk_peer_def)
  ultimately show thesis using that node_run_ok run(2) by (force simp: demo_joined_def)
qed

definition demo_hello :: bytes where
  "demo_hello = (case channel_send demo_primitives tail_crypto (pm_magic REGTEST) GetAddr None of Inr (d, _) \<Rightarrow> d | Inl _ \<Rightarrow> [])"

lemma demo_hello_heard: "channel_receive demo_primitives tail_crypto (pm_magic REGTEST) demo_hello None = Inr (Some GetAddr, [], None)"
  by code_simp

theorem harmless_before_handshake_witness:
  "\<exists>n. demo_joined = Inr n \<and> find_peer n 1 = Some demo_peer \<and>
     find_peer (peer_turn demo_node 1700000101 1 demo_hello n) 1 = None \<and>
     fst (is_banned 1700000200 demo_host (nd_book (peer_turn demo_node 1700000101 1 demo_hello n)))"
proof -
  obtain T n where n: "demo_joined = Inr n" "node_ok demo_node T n" "nd_peers n = [(1, demo_peer)]"
    by (rule demo_joined_reaches)
  have q: "find_peer n 1 = Some demo_peer" by (simp add: find_peer_def n(3))
  have "pr_version demo_peer = None" "pr_cipher demo_peer = None" "pr_host demo_peer = demo_host"
    by (simp_all add: demo_peer_def mk_peer_def)
  note peer = this
  have "channel_receive (cf_primitives demo_node) (ncrypto demo_node) (pm_magic (nparams demo_node)) demo_hello (pr_cipher demo_peer) =
      Inr (Some GetAddr, [], None)"
    using demo_hello_heard by (simp add: peer)
  note safe = harmless_before_handshake [OF n(2) q peer(1) this, where why = undefined and m = GetAddr and rest = "[]" and k = None]
  have "GetAddr \<notin> range Version" by auto
  note safe = safe [OF disjI2 [OF conjI [OF refl this]], of 1700000101]
  have eq: "peer_turn demo_node 1700000101 1 demo_hello n =
      n\<lparr>nd_peers := nd_peers (peer_turn demo_node 1700000101 1 demo_hello n),
        nd_book := book_ban 1700000101 demo_host MISBEHAVIOUR_BAN_DURATION (nd_book n)\<rparr>"
    using safe unfolding peer(3) by (rule conjunct1)
  have "find_peer (peer_turn demo_node 1700000101 1 demo_hello n) 1 = None"
    using safe [THEN conjunct2, THEN spec, of 1] by simp
  moreover have "nd_book (peer_turn demo_node 1700000101 1 demo_hello n) = book_ban 1700000101 demo_host MISBEHAVIOUR_BAN_DURATION (nd_book n)"
    by (subst eq) simp
  ultimately have turn: "nd_book (peer_turn demo_node 1700000101 1 demo_hello n) = book_ban 1700000101 demo_host MISBEHAVIOUR_BAN_DURATION (nd_book n)"
      "find_peer (peer_turn demo_node 1700000101 1 demo_hello n) 1 = None" by blast+
  have "\<not> round_float (1700000101 + MISBEHAVIOUR_BAN_DURATION) < 1700000200" by code_simp
  then have "fst (is_banned 1700000200 demo_host (nd_book (peer_turn demo_node 1700000101 1 demo_hello n)))"
    unfolding turn(1) is_banned_def book_ban_def by (simp add: update_Some_unfold)
  then show ?thesis using turn(2) n(1) q by blast
qed

section \<open>Requests and the dead peer\<close>

definition demo_queue :: "bytes list" where "demo_queue = [replicate 32 1, replicate 32 2]"

definition demo_asked :: "(unit result \<times> node) result" where
  "demo_asked = (case demo_joined of Inl e \<Rightarrow> Inl e
     | Inr n \<Rightarrow> Inr (request_blocks demo_node 1700000101 1 (upd_peer 1 (pr_pending_blocks_update (\<lambda>_. demo_queue)) n)))"

lemma demo_asked_eval:
  "map_sum id (\<lambda>(r, n). (r, map_option (\<lambda>q. (pr_pending_blocks q, pr_requested_blocks q)) (find_peer n 1))) demo_asked =
   Inr (Inr (), Some ([], rev demo_queue))"
  by code_simp

theorem requests_in_order_witness:
  "\<exists>n n' q'. demo_joined = Inr n \<and> request_blocks demo_node 1700000101 1 (upd_peer 1 (pr_pending_blocks_update (\<lambda>_. demo_queue)) n) = (Inr (), n') \<and>
     find_peer n' 1 = Some q' \<and> map fst (pr_sent q') = [GetData (map block_item demo_queue)] \<and>
     ordered_from (bc_storage (nd_chain n)) {} demo_queue"
proof -
  obtain T n where n: "demo_joined = Inr n" "node_ok demo_node T n" "nd_peers n = [(1, demo_peer)]"
    by (rule demo_joined_reaches)
  let ?n = "upd_peer 1 (pr_pending_blocks_update (\<lambda>_. demo_queue)) n"
  have ok: "node_ok demo_node T ?n" by (rule node_ok_peers [OF n(2)]) (simp add: peer_ok_def)
  have q: "find_peer ?n 1 = Some (demo_peer\<lparr>pr_pending_blocks := demo_queue\<rparr>)"
    using n(3) by (simp add: find_upd_peer) (simp add: find_peer_def)
  obtain n' q1 where r: "request_blocks demo_node 1700000101 1 ?n = (Inr (), n')" "find_peer n' 1 = Some q1"
      "pr_pending_blocks q1 = []" "pr_requested_blocks q1 = rev demo_queue"
    using demo_asked_eval by (auto simp: demo_asked_def n(1) split: prod.splits)
  obtain taken batch where "demo_queue = taken" "map fst (pr_sent q1) = (if batch = [] then [] else [GetData (map block_item batch)])"
      "batch = filter (\<lambda>h. \<not> has_block (bc_storage (nd_chain n)) h) taken" "ordered_from (bc_storage (nd_chain n)) {} batch"
      "set (rev demo_queue) = set batch"
    using requests_in_order [OF ok q r(1)] r(2-4) by (auto simp: demo_peer_def mk_peer_def)
  moreover from this have "\<forall>h \<in> set demo_queue. \<not> has_block (bc_storage (nd_chain n)) h"
    by (metis (no_types, lifting) mem_Collect_eq set_filter set_rev)
  moreover from calculation this have "batch = demo_queue" by simp
  ultimately show ?thesis using n(1) r(1,2) by (auto simp: demo_queue_def)
qed

definition demo_poll :: "(rat \<times> rat \<times> bytes list result \<times> bool) result" where
  "demo_poll = (case demo_joined of Inl e \<Rightarrow> Inl e
     | Inr n \<Rightarrow> Inr (nd_last_block_at n, nd_last_poll_at n, header_locator tail_crypto REGTEST (nd_chain n),
         (case header_locator tail_crypto REGTEST (nd_chain n) of Inl _ \<Rightarrow> False
          | Inr known \<Rightarrow> (case channel_send demo_primitives tail_crypto (pm_magic REGTEST) (GetHeaders known (replicate 32 0)) None of
              Inl _ \<Rightarrow> False | Inr _ \<Rightarrow> True))))"

lemma demo_poll_eval: "map_sum id (\<lambda>(b, p, known, ok). (b, p, isl known, ok)) demo_poll = Inr (1700000100, 0, False, True)"
  by code_simp

theorem poll_stops_at_dead_peer_witness:
  "\<exists>n n'. demo_joined = Inr n \<and> n' = upd_peer 1 (\<lambda>q. q\<lparr>pr_handshake_done := True, pr_gone := True\<rparr>) n \<and>
     fst (poll_if_stale demo_node 1700003000 n') = Inl (PeerDisconnected ''send failed'')"
proof -
  obtain T n where n: "demo_joined = Inr n" "node_ok demo_node T n" "nd_peers n = [(1, demo_peer)]"
    by (rule demo_joined_reaches)
  let ?q = "demo_peer\<lparr>pr_handshake_done := True, pr_gone := True\<rparr>"
  let ?n = "upd_peer 1 (\<lambda>q. q\<lparr>pr_handshake_done := True, pr_gone := True\<rparr>) n"
  have peers: "nd_peers ?n = (1, ?q) # []" by (simp add: upd_peer_def find_peer_def n(3))
  obtain known sent where k: "header_locator tail_crypto REGTEST (nd_chain n) = Inr known"
      "channel_send demo_primitives tail_crypto (pm_magic REGTEST) (GetHeaders known (replicate 32 0)) None = Inr sent"
      "nd_last_block_at n = 1700000100" "nd_last_poll_at n = 0"
    using demo_poll_eval by (auto simp: demo_poll_def n(1) split: sum.splits)
  have late: "round_float (1700003000 - 1700000100) > stale_tip_seconds REGTEST" "round_float (1700003000 - 0) > POLL_INTERVAL"
    by code_simp+
  have "fst (poll_if_stale demo_node 1700003000 ?n) = Inl (PeerDisconnected ''send failed'')"
    using poll_stops_at_dead_peer [OF peers, of demo_node known sent 1700003000] k late
    by (simp add: demo_peer_def mk_peer_def)
  then show ?thesis using n(1) by blast
qed

end
