(* ===== verification/MiningPool.thy ===== *)
theory MiningPool
  imports Auxpow Block Coinbase PyFloat
begin

text \<open>
  \<^verbatim>\<open>pool/scarlet_pool/coinbase.py\<close> and \<^verbatim>\<open>jobs.py\<close>: the merged-mining pool. It builds a coinbase of the parent chain that
  commits to a ScarletCoin block, hands it to miners in two halves, and turns a share that meets the ScarletCoin target
  into a proof. Hashes and halves are hexadecimal text, as they are in the program. The two services the pool talks to
  are arguments: the reply to \<^verbatim>\<open>createauxblock\<close>, the template of the parent chain, and the reply to \<^verbatim>\<open>submitauxblock\<close>.
\<close>

section \<open>Hexadecimal text\<close>

text \<open>\<^verbatim>\<open>bytes.fromhex\<close>: white space may stand between the pairs of digits.\<close>

definition hex_value :: "char \<Rightarrow> nat option" where
  "hex_value ch =
     (let n = of_char ch :: nat in
      if 48 \<le> n \<and> n \<le> 57 then Some (n - 48)
      else if 97 \<le> n \<and> n \<le> 102 then Some (n - 87)
      else if 65 \<le> n \<and> n \<le> 70 then Some (n - 55)
      else None)"

definition is_ascii_space :: "char \<Rightarrow> bool" where
  "is_ascii_space ch \<longleftrightarrow> (of_char ch :: nat) \<in> {9, 10, 11, 12, 13, 32}"

fun fromhex :: "string \<Rightarrow> bytes result" where
  "fromhex [] = Inr []"
| "fromhex [a] = (if is_ascii_space a then Inr [] else Inl (ValueError ''non-hexadecimal number found in fromhex() arg''))"
| "fromhex (a # b # s) =
     (if is_ascii_space a then fromhex (b # s)
      else case (hex_value a, hex_value b) of
        (Some hi, Some lo) \<Rightarrow> bnd (fromhex s) (\<lambda>r. Inr (word_of_nat (16 * hi + lo) # r))
      | _ \<Rightarrow> Inl (ValueError ''non-hexadecimal number found in fromhex() arg''))"

lemma hex_value_digit: "n < 16 \<Longrightarrow> hex_value (hex_digit n) = Some n" "n < 16 \<Longrightarrow> \<not> is_ascii_space (hex_digit n)"
proof -
  assume n: "n < 16"
  have "\<forall>n < 16. hex_value (hex_digit n) = Some n \<and> \<not> is_ascii_space (hex_digit n)" by code_simp
  then show "hex_value (hex_digit n) = Some n" "\<not> is_ascii_space (hex_digit n)" using n by blast+
qed

lemma unat_less_256: "unat (b :: 8 word) < 256"
  using unsigned_less [of b] by simp

lemma fromhex_hex [simp]: "fromhex (hex_string bs) = Inr bs"
proof (induction bs)
  case (Cons b bs)
  have "unat b div 16 < 16" using unat_less_256 [of b] by (simp add: less_mult_imp_div_less)
  moreover have "word_of_nat (16 * (unat b div 16) + unat b mod 16) = b" by (simp only: mult_div_mod_eq) simp
  ultimately show ?case
    using Cons by (simp add: hex_string_def hex_value_digit bnd_def)
qed (simp add: hex_string_def)

lemma length_hex_string [simp]: "length (hex_string bs) = 2 * length bs"
  by (induction bs) (simp_all add: hex_string_def)

lemma hex_string_append: "hex_string (a @ b) = hex_string a @ hex_string b"
  by (simp add: hex_string_def)

section \<open>The parent coinbase\<close>

record parent_coinbase =
  pb_coinbase1 :: string
  pb_coinbase2 :: string
  pb_coinbase_value :: int
  pb_extranonce1_size :: int
  pb_extranonce2_size :: int
  pb_coinbase_data_size :: int

definition DEFAULT_PARENT_PAYOUT_HASH :: bytes where
  "DEFAULT_PARENT_PAYOUT_HASH = replicate PUBKEY_HASH_LENGTH 0"

definition compute_merkle_root :: "crypto \<Rightarrow> bytes \<Rightarrow> bytes list \<Rightarrow> bytes result" where
  "compute_merkle_root c coinbase txids = merkle_root c (coinbase # txids)"

text \<open>The loop of \<^verbatim>\<open>coinbase_merkle_branch\<close>: the second node of every level, made even.\<close>

function branch_levels :: "crypto \<Rightarrow> bytes list \<Rightarrow> bytes list" where
  "branch_levels c level =
     (if length level > 1 then even_level level ! 1 # branch_levels c (pair_up c (even_level level)) else [])"
  by auto
termination
  by (relation "measure (\<lambda>(_, level). length level)") (simp_all add: length_pair_up_level)

declare branch_levels.simps [simp del]

definition coinbase_merkle_branch :: "crypto \<Rightarrow> bytes list \<Rightarrow> bytes list" where
  "coinbase_merkle_branch c txids = branch_levels c (replicate 32 0 # txids)"

definition parse_coinbase_body :: "bytes \<Rightarrow> transaction result" where
  "parse_coinbase_body body = tx_deserialize (body @ [0])"

text \<open>A builder is the pair of its two sizes.\<close>

type_synonym coinbase_builder = "int \<times> int"

definition mk_builder :: "int \<Rightarrow> int \<Rightarrow> coinbase_builder" where
  "mk_builder extranonce1_size extranonce2_size = (max 1 (min extranonce1_size 16), max 1 (min extranonce2_size 16))"

definition builder_build :: "coinbase_builder \<Rightarrow> int \<Rightarrow> int \<Rightarrow> bytes \<Rightarrow> bytes \<Rightarrow> parent_coinbase result" where
  "builder_build b coinbase_value block_height payout_hash aux_commitment =
     (case b of (extranonce1_size, extranonce2_size) \<Rightarrow>
      if \<not> (0 \<le> block_height \<and> block_height \<le> 0xFFFFFFFF) then Inl (ValueError ''block height out of range'')
      else if length payout_hash \<noteq> PUBKEY_HASH_LENGTH then Inl (ValueError ''payout hash must be 20 bytes'')
      else
        let data_size = 4 + extranonce1_size + extranonce2_size + int (length aux_commitment) in
        if data_size > MAX_COINBASE_DATA then Inl (ValueError ''coinbase_data is over the limit'')
        else
          bnd (w_uint32 1 []) (\<lambda>w.
          bnd (w_varint 1 w) (\<lambda>w.
          bnd (w_hash32 NULL_HASH w) (\<lambda>w.
          bnd (w_uint32 NULL_INDEX w) (\<lambda>w.
          bnd (w_uint32 SEQUENCE_FINAL w) (\<lambda>w.
          bnd (w_varint 1 w) (\<lambda>w.
          bnd (w_uint8 OUTPUT_P2PKH w) (\<lambda>w.
          bnd (w_uint64 coinbase_value w) (\<lambda>w.
          bnd (w_raw payout_hash w) (\<lambda>w.
          bnd (w_uint32 0 w) (\<lambda>w.
          bnd (w_varint data_size w) (\<lambda>w.
          bnd (w_raw (to_le 4 block_height) w) (\<lambda>w.
          Inr \<lparr>pb_coinbase1 = hex_string w, pb_coinbase2 = hex_string aux_commitment, pb_coinbase_value = coinbase_value,
               pb_extranonce1_size = extranonce1_size, pb_extranonce2_size = extranonce2_size,
               pb_coinbase_data_size = data_size\<rparr>)))))))))))))"

text \<open>Every 32-bit word of the hash is reversed.\<close>

fun swap_words :: "bytes \<Rightarrow> bytes" where
  "swap_words [] = []"
| "swap_words bs = rev (take 4 bs) @ swap_words (drop 4 bs)"

definition stratum_prevhash :: "string \<Rightarrow> string result" where
  "stratum_prevhash prev_hash_internal = bnd (fromhex prev_hash_internal) (\<lambda>raw. Inr (hex_string (swap_words raw)))"

definition join_parts :: "string list \<Rightarrow> bytes result" where
  "join_parts parts = bnd (mapR fromhex parts) (\<lambda>bs. Inr (concat bs))"

fun fold_branch :: "crypto \<Rightarrow> bytes \<Rightarrow> string list \<Rightarrow> bytes result" where
  "fold_branch c h [] = Inr h"
| "fold_branch c h (sibling # siblings) =
     (case fromhex sibling of Inl e \<Rightarrow> Inl e | Inr s \<Rightarrow> fold_branch c (hash256 c (h @ s)) siblings)"

definition reconstruct_header ::
    "crypto \<Rightarrow> string \<Rightarrow> string \<Rightarrow> string \<Rightarrow> string \<Rightarrow> string list \<Rightarrow> string \<Rightarrow> int \<Rightarrow> int \<Rightarrow> int \<Rightarrow> int \<Rightarrow> bytes result" where
  "reconstruct_header c coinbase1 extranonce1 extranonce2 coinbase2 merkle_branches prev_hash version nbits ntime nonce =
     (case join_parts [coinbase1, extranonce1, extranonce2, coinbase2] of
        Inl e \<Rightarrow> Inl e
      | Inr coinbase \<Rightarrow>
          bnd (fold_branch c (hash256 c coinbase) merkle_branches) (\<lambda>root.
          bnd (w_uint32 version []) (\<lambda>w.
          bnd (fromhex prev_hash) (\<lambda>prev.
          bnd (w_hash32 prev w) (\<lambda>w.
          bnd (w_hash32 root w) (\<lambda>w.
          bnd (w_uint32 ntime w) (\<lambda>w.
          bnd (w_uint32 nbits w) (w_uint32 nonce))))))))"

section \<open>Jobs\<close>

definition DIFF1_TARGET :: int where
  "DIFF1_TARGET = 0xFFFF * 2 ^ 208"

definition DEFAULT_SHARE_EASE :: int where
  "DEFAULT_SHARE_EASE = 8"

record parent_template =
  pt_version :: int
  pt_prev_hash :: string
  pt_nbits :: int
  pt_height :: int
  pt_coinbase_value :: int
  pt_transactions :: "string list"
  pt_target :: int

record scarlet_template =
  sc_aux_hash :: string
  sc_target :: int
  sc_chain_id :: int
  sc_nonce :: int
  sc_height :: int

record share_result =
  sr_accepted :: bool
  sr_reason :: string
  sr_hash_hex :: string
  sr_meets_sct_target :: bool
  sr_meets_btc_target :: bool

record active_job =
  aj_job_id :: nat
  aj_parent :: parent_template
  aj_scarlet :: scarlet_template
  aj_coinbase :: parent_coinbase
  aj_merkle_branches :: "string list"
  aj_created :: rat
  aj_ntime :: int
  aj_clean :: bool

record job_manager =
  jm_payout_address :: string
  jm_chain_id :: int
  jm_builder :: coinbase_builder
  jm_parent_payout_hash :: bytes
  jm_fixed_share_target :: "int option"
  jm_current :: "active_job option"
  jm_job_counter :: nat
  jm_shares_accepted :: int
  jm_shares_rejected :: int
  jm_sct_blocks_found :: int
  jm_sct_blocks_accepted :: int
  jm_sct_blocks_rejected :: int

definition share_target :: "job_manager \<Rightarrow> int" where
  "share_target jm =
     (case jm_fixed_share_target jm of
        Some t \<Rightarrow> t
      | None \<Rightarrow>
          (case jm_current jm of
             None \<Rightarrow> DIFF1_TARGET
           | Some job \<Rightarrow> max 1 (sc_target (aj_scarlet job) * DEFAULT_SHARE_EASE)))"

definition set_share_target :: "int \<Rightarrow> job_manager \<Rightarrow> job_manager" where
  "set_share_target t jm = jm\<lparr>jm_fixed_share_target := Some (max 1 t)\<rparr>"

text \<open>\<^verbatim>\<open>refresh\<close>: \<open>ask\<close> is the call of \<^verbatim>\<open>createauxblock\<close>, with the fields of its reply read, \<open>parent\<close> the template of the
  parent chain. The name of a job is its number; the program prints it in hexadecimal.\<close>

definition refresh_job ::
    "crypto \<Rightarrow> (string \<Rightarrow> scarlet_template result) \<Rightarrow> parent_template result \<Rightarrow> rat \<Rightarrow> int \<Rightarrow> string option \<Rightarrow> job_manager \<Rightarrow>
      active_job result \<times> job_manager" where
  "refresh_job c ask parent now ntime payout_address jm =
     (case
       bnd (ask (case payout_address of None \<Rightarrow> jm_payout_address jm
                 | Some a \<Rightarrow> if a = [] then jm_payout_address jm else a)) (\<lambda>scarlet.
       bnd parent (\<lambda>parent.
       if jm_chain_id jm \<noteq> 0 \<and> sc_chain_id scarlet \<noteq> jm_chain_id jm
       then Inl (RuntimeError ''ScarletCoin node reports another chain id'')
       else
         bnd (fromhex (sc_aux_hash scarlet)) (\<lambda>aux_hash.
         bnd (build_auxpow_commitment (rev aux_hash) 1 (sc_nonce scarlet)) (\<lambda>commitment.
         bnd (builder_build (jm_builder jm) (pt_coinbase_value parent) (pt_height parent) (jm_parent_payout_hash jm) commitment) (\<lambda>coinbase.
         bnd (mapR fromhex (pt_transactions parent)) (\<lambda>txids.
         Inr (parent, scarlet, coinbase, map hex_string (coinbase_merkle_branch c (map rev txids))))))))) of
        Inl e \<Rightarrow> (Inl e, jm)
      | Inr (parent, scarlet, coinbase, branches) \<Rightarrow>
          let n = Suc (jm_job_counter jm);
              job = \<lparr>aj_job_id = n, aj_parent = parent, aj_scarlet = scarlet, aj_coinbase = coinbase,
                     aj_merkle_branches = branches, aj_created = now, aj_ntime = ntime, aj_clean = True\<rparr>
          in (Inr job, jm\<lparr>jm_job_counter := n, jm_current := Some job\<rparr>))"

definition job_header :: "crypto \<Rightarrow> active_job \<Rightarrow> string \<Rightarrow> string \<Rightarrow> int \<Rightarrow> int \<Rightarrow> bytes result" where
  "job_header c job extranonce1 extranonce2 ntime nonce =
     reconstruct_header c (pb_coinbase1 (aj_coinbase job)) extranonce1 extranonce2 (pb_coinbase2 (aj_coinbase job))
       (aj_merkle_branches job) (pt_prev_hash (aj_parent job)) (pt_version (aj_parent job)) (pt_nbits (aj_parent job)) ntime nonce"

definition refused_share :: "string \<Rightarrow> string \<Rightarrow> share_result" where
  "refused_share why hash_hex = \<lparr>sr_accepted = False, sr_reason = why, sr_hash_hex = hash_hex,
     sr_meets_sct_target = False, sr_meets_btc_target = False\<rparr>"

definition process_share ::
    "crypto \<Rightarrow> active_job \<Rightarrow> string \<Rightarrow> string \<Rightarrow> int \<Rightarrow> int \<Rightarrow> job_manager \<Rightarrow> share_result result \<times> job_manager" where
  "process_share c job extranonce1 extranonce2 ntime nonce jm =
     (if int (length extranonce2) \<noteq> pb_extranonce2_size (aj_coinbase job) * 2
      then (Inr (refused_share ''bad extranonce2 size'' []), jm\<lparr>jm_shares_rejected := jm_shares_rejected jm + 1\<rparr>)
      else case job_header c job extranonce1 extranonce2 ntime nonce of
        Inl e \<Rightarrow> (Inl e, jm)
      | Inr raw_header \<Rightarrow>
          let parent_hash = hash256 c raw_header; hash_int = from_le parent_hash; hash_hex = hex_string (rev parent_hash) in
          if hash_int > share_target jm
          then (Inr (refused_share ''share above target'' hash_hex), jm\<lparr>jm_shares_rejected := jm_shares_rejected jm + 1\<rparr>)
          else
            let sct = hash_int \<le> sc_target (aj_scarlet job);
                jm = jm\<lparr>jm_shares_accepted := jm_shares_accepted jm + 1,
                        jm_sct_blocks_found := jm_sct_blocks_found jm + (if sct then 1 else 0)\<rparr>
            in (Inr \<lparr>sr_accepted = True, sr_reason = [], sr_hash_hex = hash_hex, sr_meets_sct_target = sct,
                     sr_meets_btc_target = (hash_int \<le> pt_target (aj_parent job))\<rparr>, jm))"

text \<open>The proof that \<^verbatim>\<open>submit_sct_block\<close> assembles; \<open>None\<close> when the coinbase does not parse.\<close>

definition assemble_proof :: "crypto \<Rightarrow> active_job \<Rightarrow> string \<Rightarrow> string \<Rightarrow> int \<Rightarrow> int \<Rightarrow> auxpow option result" where
  "assemble_proof c job extranonce1 extranonce2 ntime nonce =
     bnd (job_header c job extranonce1 extranonce2 ntime nonce) (\<lambda>raw_header.
     bnd (join_parts [pb_coinbase1 (aj_coinbase job), extranonce1, extranonce2, pb_coinbase2 (aj_coinbase job)]) (\<lambda>body.
     case parse_coinbase_body body of
       Inl _ \<Rightarrow> Inr None
     | Inr coinbase_tx \<Rightarrow>
         bnd (mapR fromhex (aj_merkle_branches job)) (\<lambda>branch.
         bnd (parent_header_deserialize raw_header) (\<lambda>header.
         Inr (Some \<lparr>ap_coinbase_tx = coinbase_tx, ap_coinbase_merkle_branch = branch, ap_coinbase_index = 0,
                    ap_aux_merkle_branch = [], ap_aux_chain_index = 0, ap_parent_header = header\<rparr>)))))"

text \<open>
  The reply to \<^verbatim>\<open>submitauxblock\<close>: the status field of the object it returns, \<open>Some None\<close> when there is no such field, or
  \<open>None\<close> for the error of the RPC client, which is caught.
\<close>

definition submit_sct_block ::
    "crypto \<Rightarrow> (string \<Rightarrow> string \<Rightarrow> string option result) \<Rightarrow> active_job \<Rightarrow> string \<Rightarrow> string \<Rightarrow> int \<Rightarrow> int \<Rightarrow> job_manager \<Rightarrow>
      string option result \<times> job_manager" where
  "submit_sct_block c submit job extranonce1 extranonce2 ntime nonce jm =
     (let rejected = jm\<lparr>jm_sct_blocks_rejected := jm_sct_blocks_rejected jm + 1\<rparr> in
      case assemble_proof c job extranonce1 extranonce2 ntime nonce of
        Inl e \<Rightarrow> (Inl e, jm)
      | Inr None \<Rightarrow> (Inr None, rejected)
      | Inr (Some proof) \<Rightarrow>
          (case auxpow_serialize proof of
             Inl e \<Rightarrow> (Inl e, jm)
           | Inr raw \<Rightarrow>
               (case submit (sc_aux_hash (aj_scarlet job)) (hex_string raw) of
                  Inl (RpcClientError why) \<Rightarrow> (Inr (Some ''rejected''), rejected)
                | Inl e \<Rightarrow> (Inl e, jm)
                | Inr status \<Rightarrow>
                    (Inr status,
                     if status = Some ''connected'' then jm\<lparr>jm_sct_blocks_accepted := jm_sct_blocks_accepted jm + 1\<rparr>
                     else rejected))))"

section \<open>The branch of the coinbase\<close>

definition climb :: "crypto \<Rightarrow> bytes \<Rightarrow> bytes list \<Rightarrow> bytes" where
  "climb c h branch = fold (\<lambda>sibling current. hash256 c (current @ sibling)) branch h"

lemma even_level_two: "even_level (x # z # zs) = x # z # even_level zs"
  by (auto simp: even_level_def)

lemma branch_levels_two: "branch_levels c (x # z # zs) = z # branch_levels c (hash256 c (x @ z) # pair_up c (even_level zs))"
  by (simp add: branch_levels.simps [of c "x # z # zs"] even_level_two)

lemma merkle_loop_two: "merkle_loop c (x # z # zs) = merkle_loop c (hash256 c (x @ z) # pair_up c (even_level zs))"
  by (simp add: merkle_loop.simps [of c "x # z # zs"] even_level_two)

lemma one_level [simp]: "branch_levels c [x] = []" "merkle_loop c [x] = x"
  by (simp_all add: branch_levels.simps [of c "[x]"] merkle_loop.simps [of c "[x]"])

lemma length_up: "length (pair_up c (even_level zs)) = (length zs + 1) div 2"
  by (simp add: length_pair_up even_level_def)

lemma branch_levels_leaf: "branch_levels c (x # xs) = branch_levels c (y # xs)"
proof (induction "length xs" arbitrary: x y xs rule: less_induct)
  case less
  show ?case
  proof (cases xs)
    case (Cons z zs)
    have "length (pair_up c (even_level zs)) < length xs" by (simp add: length_up Cons)
    from less [OF this] show ?thesis unfolding Cons branch_levels_two by metis
  qed simp
qed

lemma merkle_loop_climb: "merkle_loop c (x # xs) = climb c x (branch_levels c (x # xs))"
proof (induction "length xs" arbitrary: x xs rule: less_induct)
  case less
  show ?case
  proof (cases xs)
    case (Cons z zs)
    have "length (pair_up c (even_level zs)) < length xs" by (simp add: length_up Cons)
    from less [OF this] show ?thesis unfolding Cons branch_levels_two merkle_loop_two by (simp add: climb_def)
  qed (simp add: climb_def)
qed

lemma branch_levels_digests:
  assumes "crypto_ok c" "list_all (\<lambda>h. length h = 32) xs"
  shows "list_all (\<lambda>h. length h = 32) (branch_levels c (x # xs))"
  using assms(2)
proof (induction "length xs" arbitrary: x xs rule: less_induct)
  case less
  show ?case
  proof (cases xs)
    case (Cons z zs)
    have "length (pair_up c (even_level zs)) < length xs" by (simp add: length_up Cons)
    moreover have "list_all (\<lambda>h. length h = 32) (pair_up c (even_level zs))"
      using digests_pair_up [OF assms(1), of "even_level zs"] by (simp add: digests_def list_all_iff)
    ultimately show ?thesis using less.hyps less.prems unfolding Cons branch_levels_two by simp
  qed simp
qed

lemma branch_levels_depth: "length xs < 2 ^ k \<Longrightarrow> length (branch_levels c (x # xs)) \<le> k"
proof (induction k arbitrary: x xs)
  case (Suc k)
  show ?case
  proof (cases xs)
    case (Cons z zs)
    then have "length (pair_up c (even_level zs)) < 2 ^ k" using Suc.prems by (simp add: length_up)
    from Suc.IH [OF this] show ?thesis unfolding Cons branch_levels_two by simp
  qed simp
qed simp

lemma branch_loop_climb: "list_all (\<lambda>h. length h = 32) branch \<Longrightarrow> branch_loop c h branch 0 = Inr (climb c h branch)"
  by (induction branch arbitrary: h) (simp_all add: climb_def)

lemma coinbase_branch_ok:
  assumes "crypto_ok c" "list_all (\<lambda>h. length h = 32) txids" "length txids < 2 ^ 30"
  shows "branch_ok (coinbase_merkle_branch c txids)"
  using branch_levels_digests [OF assms(1,2)] branch_levels_depth [OF assms(3)]
  by (simp add: branch_ok_def coinbase_merkle_branch_def MAX_MERKLE_BRANCH_DEPTH_def)

lemma coinbase_branch_climb: "merkle_loop c (cb # txids) = climb c cb (coinbase_merkle_branch c txids)"
  unfolding coinbase_merkle_branch_def merkle_loop_climb by (rule arg_cong [OF branch_levels_leaf])

text \<open>
  The branch that the pool gives to miners before any coinbase exists proves every coinbase: for each list of at most
  \<open>2^30 - 1\<close> transaction ids and each coinbase hash, folding the branch over the coinbase, as the verification of proofs does it,
  gives the Merkle root of the block.
\<close>
theorem coinbase_branch_proves:
  assumes "crypto_ok c" "list_all (\<lambda>h. length h = 32) txids" "length txids < 2 ^ 30" "length cb = 32"
  shows "check_merkle_branch c cb (coinbase_merkle_branch c txids) 0 = compute_merkle_root c cb txids"
  using coinbase_branch_ok [OF assms(1-3)] assms(4)
  by (simp add: check_merkle_branch_def branch_ok_def branch_loop_climb compute_merkle_root_def merkle_root_def coinbase_branch_climb)

section \<open>A winning share\<close>

definition coinbase_front :: "int \<Rightarrow> bytes \<Rightarrow> int \<Rightarrow> int \<Rightarrow> bytes" where
  "coinbase_front coinbase_value payout_hash data_size height =
     to_le 4 1 @ varint_bytes 1 @ NULL_HASH @ to_le 4 NULL_INDEX @ to_le 4 SEQUENCE_FINAL @ varint_bytes 1 @
     to_le 1 OUTPUT_P2PKH @ to_le 8 coinbase_value @ payout_hash @ to_le 4 0 @ varint_bytes data_size @ to_le 4 height"

lemma builder_build_iff:
  "builder_build (n1, n2) v height payout com = Inr pb \<longleftrightarrow>
     fits 4 height \<and> length payout = 20 \<and> 4 + n1 + n2 + int (length com) \<le> 100 \<and> fits 8 v \<and> fits 8 (4 + n1 + n2 + int (length com)) \<and>
     pb = \<lparr>pb_coinbase1 = hex_string (coinbase_front v payout (4 + n1 + n2 + int (length com)) height),
           pb_coinbase2 = hex_string com, pb_coinbase_value = v, pb_extranonce1_size = n1, pb_extranonce2_size = n2,
           pb_coinbase_data_size = 4 + n1 + n2 + int (length com)\<rparr>"
  by (auto simp: builder_build_def Let_def result_simps codec_simps guard_eq_Inr coinbase_front_def fits_4_iff
      tx_constants fits_def)

lemma fold_branch_hex [simp]: "fold_branch c h (map hex_string bs) = Inr (climb c h bs)"
  by (induction bs arbitrary: h) (simp_all add: climb_def bnd_def)

lemma mapR_hex [simp]: "mapR fromhex (map hex_string bs) = Inr bs"
  by (induction bs) (simp_all add: bnd_def)

text \<open>The transaction that the parts of the coinbase spell.\<close>

definition pool_coinbase :: "int \<Rightarrow> bytes \<Rightarrow> int \<Rightarrow> bytes \<Rightarrow> transaction" where
  "pool_coinbase v payout height extra =
     \<lparr>tx_version = 1, tx_inputs = [\<lparr>in_prevout = COINBASE_OUTPOINT, in_sequence = SEQUENCE_FINAL, in_witness = []\<rparr>],
      tx_outputs = [\<lparr>out_type = OUTPUT_P2PKH, out_value = v, out_payload = payout\<rparr>],
      tx_lock_time = 0, tx_coinbase_data = to_le 4 height @ extra\<rparr>"

lemma pool_coinbase_body:
  "body_bytes (pool_coinbase v payout height extra) = coinbase_front v payout (4 + int (length extra)) height @ extra"
  by (simp add: body_bytes_def pool_coinbase_def coinbase_front_def input_bytes_def output_bytes_def COINBASE_OUTPOINT_def
      varbytes_bytes_def add.commute)

lemma pool_coinbase_ok:
  assumes "fits 4 height" "length payout = 20" "length extra \<le> 96" "0 \<le> v" "v \<le> MAX_MONEY"
  shows "tx_ok (pool_coinbase v payout height extra)" "is_coinbase (pool_coinbase v payout height extra)"
    "parse_coinbase_body (body_bytes (pool_coinbase v payout height extra)) = Inr (pool_coinbase v payout height extra)"
    "int (length (tx_bytes (pool_coinbase v payout height extra))) \<le> MAX_COINBASE_DATA + 2000"
proof -
  have "build_coinbase height v payout extra 0 = Inr (pool_coinbase v payout height extra)"
    using assms by (simp add: build_coinbase_iff pool_coinbase_def fits_def)
  note built = built_coinbase [OF this]
  show "tx_ok (pool_coinbase v payout height extra)" "is_coinbase (pool_coinbase v payout height extra)" using built by simp_all
  have "varint_bytes 0 = [0]" by code_simp
  then have bytes: "tx_bytes (pool_coinbase v payout height extra) = body_bytes (pool_coinbase v payout height extra) @ [0]"
    by (simp add: tx_bytes_def pool_coinbase_def stack_bytes_def)
  then show "parse_coinbase_body (body_bytes (pool_coinbase v payout height extra)) = Inr (pool_coinbase v payout height extra)"
    using built(1) by (simp add: parse_coinbase_body_def tx_deserialize_iff)
  show "int (length (tx_bytes (pool_coinbase v payout height extra))) \<le> MAX_COINBASE_DATA + 2000"
    using assms unfolding bytes pool_coinbase_body by (simp add: coinbase_front_def tx_constants varint_bytes_def)
qed

lemma job_header_iff:
  assumes "pb_coinbase1 (aj_coinbase job) = hex_string cb1" "pb_coinbase2 (aj_coinbase job) = hex_string cb2"
    and "aj_merkle_branches job = map hex_string branch" "fromhex extranonce1 = Inr e1" "fromhex extranonce2 = Inr e2"
  shows "job_header c job extranonce1 extranonce2 ntime nonce = Inr raw \<longleftrightarrow>
    (\<exists>prev. fromhex (pt_prev_hash (aj_parent job)) = Inr prev \<and>
       (let ph = \<lparr>ph_version = pt_version (aj_parent job), ph_prev_hash = prev,
                  ph_merkle_root = climb c (hash256 c (cb1 @ e1 @ e2 @ cb2)) branch,
                  ph_timestamp = ntime, ph_bits = pt_nbits (aj_parent job), ph_nonce = nonce\<rparr>
        in wf_parent_header ph \<and> raw = parent_header_bytes ph))"
  using assms
  by (auto simp: job_header_def reconstruct_header_def join_parts_def bnd_def [of "mapR _ _"] result_simps codec_simps Let_def wf_parent_header_def
      parent_header_bytes_def)

lemma refresh_jobD:
  assumes "refresh_job c ask parent now nt addr jm = (Inr job, jm')" "jm_builder jm = (n1, n2)"
  obtains h com txids data_size where
    "fromhex (sc_aux_hash (aj_scarlet job)) = Inr h" "build_auxpow_commitment (rev h) 1 (sc_nonce (aj_scarlet job)) = Inr com"
    "mapR fromhex (pt_transactions (aj_parent job)) = Inr txids"
    "aj_merkle_branches job = map hex_string (coinbase_merkle_branch c (map rev txids))"
    "pb_coinbase1 (aj_coinbase job) =
       hex_string (coinbase_front (pt_coinbase_value (aj_parent job)) (jm_parent_payout_hash jm) data_size (pt_height (aj_parent job)))"
    "pb_coinbase2 (aj_coinbase job) = hex_string com" "data_size = 4 + n1 + n2 + int (length com)" "data_size \<le> 100"
    "fits 4 (pt_height (aj_parent job))" "length (jm_parent_payout_hash jm) = 20" "fits 8 (pt_coinbase_value (aj_parent job))"
    "jm' = jm\<lparr>jm_job_counter := Suc (jm_job_counter jm), jm_current := Some job\<rparr>"
  using assms unfolding refresh_job_def
  by (fastforce simp: result_simps guard_eq_Inr builder_build_iff Let_def split: sum.splits prod.splits)

lemma process_shareD:
  assumes "process_share c job e1 e2 ntime nonce jm = (Inr r, jm')" "sr_meets_sct_target r"
  obtains raw where "job_header c job e1 e2 ntime nonce = Inr raw" "from_le (hash256 c raw) \<le> sc_target (aj_scarlet job)"
  using assms by (auto simp: process_share_def refused_share_def Let_def split: if_splits sum.splits)

text \<open>
  C14. A winning share becomes a proof the node accepts. Take a job that the pool made, and a share of it that the pool
  finds to meet the ScarletCoin target, with extranonces of the sizes the job gives. Then the pool assembles a proof; the node
  reads from its serialisation that same proof; and the proof is valid for the block the job commits to, at the job's target
  and chain id, unless the extranonces and the height happen to spell a second commitment in front of the pool's own.
\<close>
theorem pool_proof_accepted:
  assumes "crypto_ok c" "refresh_job c ask parent now nt addr jm0 = (Inr job, jm1)"
    and "mapR fromhex (pt_transactions (aj_parent job)) = Inr txids" "list_all (\<lambda>h. length h = 32) txids" "length txids < 2 ^ 30"
    and "pt_coinbase_value (aj_parent job) \<le> MAX_MONEY" "sc_chain_id (aj_scarlet job) \<noteq> 0"
    and "fromhex extranonce1 = Inr e1" "fromhex extranonce2 = Inr e2"
    and "jm_builder jm0 = (int (length e1), int (length e2))"
    and "process_share c job extranonce1 extranonce2 ntime nonce jm = (Inr r, jm2)" "sr_meets_sct_target r"
  shows "\<exists>a h. assemble_proof c job extranonce1 extranonce2 ntime nonce = Inr (Some a) \<and>
    auxpow_serialize a = Inr (auxpow_bytes a) \<and> auxpow_deserialize (auxpow_bytes a) = Inr a \<and>
    fromhex (sc_aux_hash (aj_scarlet job)) = Inr h \<and>
    (if length (all_commitments (tx_coinbase_data (ap_coinbase_tx a))) = 1
     then validate_auxpow c a (rev h) (sc_target (aj_scarlet job)) (sc_chain_id (aj_scarlet job)) = Inr ()
     else 1 < length (all_commitments (tx_coinbase_data (ap_coinbase_tx a))))"
proof -
  obtain h com ids data_size where job: "fromhex (sc_aux_hash (aj_scarlet job)) = Inr h"
      "build_auxpow_commitment (rev h) 1 (sc_nonce (aj_scarlet job)) = Inr com" "mapR fromhex (pt_transactions (aj_parent job)) = Inr ids"
      "aj_merkle_branches job = map hex_string (coinbase_merkle_branch c (map rev ids))"
    and cb: "pb_coinbase1 (aj_coinbase job) =
       hex_string (coinbase_front (pt_coinbase_value (aj_parent job)) (jm_parent_payout_hash jm0) data_size (pt_height (aj_parent job)))"
      "pb_coinbase2 (aj_coinbase job) = hex_string com"
    and size: "data_size = 4 + int (length e1) + int (length e2) + int (length com)" "data_size \<le> 100"
    and fits: "fits 4 (pt_height (aj_parent job))" "length (jm_parent_payout_hash jm0) = 20" "fits 8 (pt_coinbase_value (aj_parent job))"
    by (rule refresh_jobD [OF assms(2,10)]) blast
  define tx where "tx = pool_coinbase (pt_coinbase_value (aj_parent job)) (jm_parent_payout_hash jm0) (pt_height (aj_parent job)) (e1 @ e2 @ com)"
  define branch where "branch = coinbase_merkle_branch c (map rev txids)"
  have "length (e1 @ e2 @ com) \<le> 96" "0 \<le> pt_coinbase_value (aj_parent job)" using size fits(3) by (simp_all add: fits_def)
  note tx = pool_coinbase_ok [OF fits(1,2) this assms(6), folded tx_def]
  have body: "body_bytes tx = coinbase_front (pt_coinbase_value (aj_parent job)) (jm_parent_payout_hash jm0) data_size (pt_height (aj_parent job)) @ e1 @ e2 @ com"
    by (simp add: tx_def pool_coinbase_body size(1) add.assoc)
  have ids: "ids = txids" "length (map rev txids) < 2 ^ 30" "list_all (\<lambda>h. length h = 32) (map rev txids)"
    using job(3) assms(3-5) by (simp_all add: list_all_iff)
  have br: "branch_ok branch" unfolding branch_def by (rule coinbase_branch_ok [OF assms(1) ids(3,2)])
  obtain raw where raw: "job_header c job extranonce1 extranonce2 ntime nonce = Inr raw"
      "from_le (hash256 c raw) \<le> sc_target (aj_scarlet job)"
    by (rule process_shareD [OF assms(11,12)])
  define ph where "ph prev = \<lparr>ph_version = pt_version (aj_parent job), ph_prev_hash = prev,
      ph_merkle_root = climb c (txid c tx) branch, ph_timestamp = ntime, ph_bits = pt_nbits (aj_parent job), ph_nonce = nonce\<rparr>" for prev
  have "txid c tx = hash256 c (body_bytes tx)" using tx(1) by (simp add: txid_def)
  then obtain prev where ph: "wf_parent_header (ph prev)" "raw = parent_header_bytes (ph prev)"
    using raw(1) job_header_iff [OF cb job(4) assms(8,9)] by (auto simp: Let_def ph_def branch_def ids(1) body)
  define a where "a = \<lparr>ap_coinbase_tx = tx, ap_coinbase_merkle_branch = branch, ap_coinbase_index = 0,
      ap_aux_merkle_branch = [], ap_aux_chain_index = 0, ap_parent_header = ph prev\<rparr>"
  have "assemble_proof c job extranonce1 extranonce2 ntime nonce = Inr (Some a)"
    using raw(1) tx(3) ph by (simp add: assemble_proof_def bnd_eq_Inr join_parts_def cb job(4) assms(8,9) body [symmetric]
        parent_header_deserialize_iff a_def branch_def ids(1))
  moreover have ok: "auxpow_ok a"
    using br tx(1,4) ph(1) by (simp add: auxpow_ok_def a_def fits_def branch_ok_def)
  moreover obtain p where data: "all_commitments (tx_coinbase_data (ap_coinbase_tx a)) =
      p @ [\<lparr>cm_aux_root = rev h, cm_tree_size = 1, cm_nonce = sc_nonce (aj_scarlet job)\<rparr>]"
    using all_commitments_append [of "to_le 4 (pt_height (aj_parent job)) @ e1 @ e2" com] all_commitments_built [OF job(2), of "[]"]
    by (auto simp: a_def tx_def pool_coinbase_def)
  moreover have "validate_auxpow c a (rev h) (sc_target (aj_scarlet job)) (sc_chain_id (aj_scarlet job)) = Inr ()" if "p = []"
  proof -
    have "length h = 32" using job(2) by (auto simp: build_auxpow_commitment_def split: if_splits)
    moreover have "length (txid c tx) = 32" using length_hash256 [OF assms(1)] by (simp add: txid_def)
    moreover have "hash256 c (parent_header_bytes (ph prev)) = parent_hash c a"
      using ph(1) by (simp add: parent_hash_def parent_header_hash_def a_def written_def parent_header_serialize_iff [THEN iffD2])
    moreover have "height_loop 1 = 0" by (simp add: height_loop.simps)
    ultimately show ?thesis
      unfolding validate_auxpow_iff using data that assms(7) br tx(2) raw(2) ph(2)
      by (simp add: a_def check_merkle_branch_def branch_ok_def branch_loop_climb aux_tree_height_def get_expected_index_def
          Let_def coinbase_hash_def ph_def)
  qed
  ultimately show ?thesis
    using job(1) auxpow_ok_serialize [OF ok] auxpow_deserialize_iff [of "auxpow_bytes a" a]
    by (intro exI [of _ a] exI [of _ h]) simp
qed

section \<open>Witnesses\<close>

definition demo_scarlet :: scarlet_template where
  "demo_scarlet = \<lparr>sc_aux_hash = hex_string (replicate 32 9), sc_target = 2 ^ 256, sc_chain_id = 1, sc_nonce = 77, sc_height = 5\<rparr>"

definition demo_parent_template :: parent_template where
  "demo_parent_template = \<lparr>pt_version = 1, pt_prev_hash = hex_string (replicate 32 3), pt_nbits = 0x207FFFFF, pt_height = 800000,
     pt_coinbase_value = 5000000000, pt_transactions = map hex_string [replicate 32 4, replicate 32 5], pt_target = 0\<rparr>"

definition demo_manager :: job_manager where
  "demo_manager = \<lparr>jm_payout_address = ''S'', jm_chain_id = 1, jm_builder = mk_builder 4 4,
     jm_parent_payout_hash = DEFAULT_PARENT_PAYOUT_HASH, jm_fixed_share_target = None, jm_current = None, jm_job_counter = 0,
     jm_shares_accepted = 0, jm_shares_rejected = 0, jm_sct_blocks_found = 0, jm_sct_blocks_accepted = 0, jm_sct_blocks_rejected = 0\<rparr>"

definition demo_refresh :: "active_job result \<times> job_manager" where
  "demo_refresh = refresh_job demo_crypto (\<lambda>_. Inr demo_scarlet) (Inr demo_parent_template) 0 1700000000 None demo_manager"

definition demo_win :: "(active_job \<times> share_result \<times> nat) option" where
  "demo_win = (case demo_refresh of (Inl _, _) \<Rightarrow> None
     | (Inr job, jm) \<Rightarrow> (case process_share demo_crypto job ''00000001'' ''0000000a'' 1700000001 6 jm of (Inl _, _) \<Rightarrow> None
         | (Inr r, _) \<Rightarrow> (case assemble_proof demo_crypto job ''00000001'' ''0000000a'' 1700000001 6 of
             Inr (Some a) \<Rightarrow> Some (job, r, length (all_commitments (tx_coinbase_data (ap_coinbase_tx a)))) | _ \<Rightarrow> None)))"

lemma demo_win_eval:
  "map_option (\<lambda>(job, r, n). (mapR fromhex (pt_transactions (aj_parent job)), pt_coinbase_value (aj_parent job),
     sc_target (aj_scarlet job), sc_chain_id (aj_scarlet job), sc_aux_hash (aj_scarlet job), sr_meets_sct_target r, n)) demo_win =
   Some (Inr [replicate 32 4, replicate 32 5], 5000000000, 2 ^ 256, 1, hex_string (replicate 32 9), True, 1)"
  by code_simp

lemma demo_extranonces: "fromhex ''00000001'' = Inr [0, 0, 0, 1]" "fromhex ''0000000a'' = Inr [0, 0, 0, 10]" "mk_builder 4 4 = (4, 4)"
  by code_simp+

theorem pool_proof_accepted_witness:
  "\<exists>job jm r jm' a. demo_refresh = (Inr job, jm) \<and>
     process_share demo_crypto job ''00000001'' ''0000000a'' 1700000001 6 jm = (Inr r, jm') \<and> sr_meets_sct_target r \<and>
     assemble_proof demo_crypto job ''00000001'' ''0000000a'' 1700000001 6 = Inr (Some a) \<and>
     validate_auxpow demo_crypto a (replicate 32 9) (2 ^ 256) 1 = Inr ()"
proof -
  obtain job r n where win: "demo_win = Some (job, r, n)" and facts: "mapR fromhex (pt_transactions (aj_parent job)) = Inr [replicate 32 4, replicate 32 5]"
      "pt_coinbase_value (aj_parent job) = 5000000000" "sc_target (aj_scarlet job) = 2 ^ 256" "sc_chain_id (aj_scarlet job) = 1"
      "sc_aux_hash (aj_scarlet job) = hex_string (replicate 32 9)" "sr_meets_sct_target r" "n = 1"
    using demo_win_eval by (cases demo_win) auto
  obtain jm jm' a where run: "demo_refresh = (Inr job, jm)"
      "process_share demo_crypto job ''00000001'' ''0000000a'' 1700000001 6 jm = (Inr r, jm')"
      "assemble_proof demo_crypto job ''00000001'' ''0000000a'' 1700000001 6 = Inr (Some a)"
      "length (all_commitments (tx_coinbase_data (ap_coinbase_tx a))) = 1"
    using win facts(7) unfolding demo_win_def by (auto split: prod.splits sum.splits option.splits)
  have "jm_builder demo_manager = (int (length [0, 0, 0, 1 :: 8 word]), int (length [0, 0, 0, 10 :: 8 word]))"
    by (simp add: demo_manager_def demo_extranonces)
  note proof' = pool_proof_accepted [OF demo_crypto_ok run(1) [unfolded demo_refresh_def] facts(1) _ _ _ _ demo_extranonces(1,2) this run(2) facts(6)]
  have "validate_auxpow demo_crypto a (replicate 32 9) (2 ^ 256) 1 = Inr ()"
    using proof' run(3,4) facts(2-5) by (simp add: MAX_MONEY_def)
  then show ?thesis using run facts(6) by blast
qed

theorem coinbase_branch_proves_witness:
  "check_merkle_branch demo_crypto (replicate 32 1) (coinbase_merkle_branch demo_crypto [replicate 32 2, replicate 32 3]) 0 =
     compute_merkle_root demo_crypto (replicate 32 1) [replicate 32 2, replicate 32 3]"
  by (rule coinbase_branch_proves) simp_all

end
