(* ===== verification/Solver.thy ===== *)
theory Solver
  imports Block
begin

text \<open>
  \<^verbatim>\<open>miner/solver.py\<close>: the search for a nonce. The scan runs in Python or, when a compiler was found, in the C function of
  \<^verbatim>\<open>miner/_scan_nonces.c\<close>, whose integers are 32-bit words. The compression function that file contains is taken for the
  SHA-256 of the record \<open>c\<close>. Times are left out of the results.
\<close>

section \<open>Scanning\<close>

definition NONCE_LIMIT :: int where "NONCE_LIMIT = 2 ^ 32"

text \<open>The header without its nonce, and the test of one nonce.\<close>

definition solves :: "crypto \<Rightarrow> bytes \<Rightarrow> int \<Rightarrow> int \<Rightarrow> bool" where
  "solves c stem target nonce \<longleftrightarrow> from_le (hash256 c (stem @ to_le 4 nonce)) \<le> target"

fun scan_loop :: "crypto \<Rightarrow> bytes \<Rightarrow> int \<Rightarrow> nat \<Rightarrow> int \<Rightarrow> int option" where
  "scan_loop c stem target 0 nonce = None"
| "scan_loop c stem target (Suc n) nonce =
     (if solves c stem target nonce then Some nonce else scan_loop c stem target n (nonce + 1))"

text \<open>The loop of the C function over \<open>i\<close>, with \<open>n\<close> rounds to go.\<close>

fun native_loop :: "crypto \<Rightarrow> bytes \<Rightarrow> int \<Rightarrow> 32 word \<Rightarrow> nat \<Rightarrow> 32 word \<Rightarrow> int" where
  "native_loop c stem target start 0 i = -1"
| "native_loop c stem target start (Suc n) i =
     (if solves c stem target (uint (start + i)) then uint (start + i)
      else native_loop c stem target start n (i + 1))"

definition native_scan :: "crypto \<Rightarrow> bytes \<Rightarrow> int \<Rightarrow> 32 word \<Rightarrow> 32 word \<Rightarrow> int" where
  "native_scan c header target start count = native_loop c (take 76 header) target start (unat count) 0"

text \<open>The call through ctypes: the target becomes 32 bytes, the two numbers are cut to 32 bits.\<close>

definition native_call :: "crypto \<Rightarrow> bytes \<Rightarrow> int \<Rightarrow> int \<Rightarrow> int \<Rightarrow> int result" where
  "native_call c header target start count =
     (if \<not> fits 32 target then Inl OverflowError
      else Inr (native_scan c header target (word_of_int start) (word_of_int count)))"

definition scan_nonces :: "crypto \<Rightarrow> bool \<Rightarrow> bytes \<Rightarrow> int \<Rightarrow> int \<Rightarrow> int \<Rightarrow> (int option \<times> int) result" where
  "scan_nonces c native header target start count =
     (if length header \<noteq> BLOCK_HEADER_SIZE then Inl (ValueError ''header must be 80 bytes'')
      else if start < 0 \<or> count < 0 then Inl (ValueError ''nonce range must not be negative'')
      else if native then
        bnd (native_call c header target start count) (\<lambda>nonce.
        Inr (if nonce \<ge> 0 then (Some nonce, nonce - start + 1) else (None, count)))
      else
        let stop = min (start + count) NONCE_LIMIT in
        Inr (case scan_loop c (take 76 header) target (nat (stop - start)) start of
               Some nonce \<Rightarrow> (Some nonce, nonce - start + 1)
             | None \<Rightarrow> (None, stop - start)))"

section \<open>Solving\<close>

text \<open>
  The loop of \<^verbatim>\<open>solve_block\<close>; the answer of the \<open>k\<close>-th call of \<^verbatim>\<open>should_stop\<close> is \<open>stop k\<close>. With a batch of zero it does not
  end.
\<close>

partial_function (option) solve_loop ::
    "crypto \<Rightarrow> bool \<Rightarrow> (nat \<Rightarrow> bool) \<Rightarrow> bytes \<Rightarrow> int \<Rightarrow> int \<Rightarrow> nat \<Rightarrow> int \<Rightarrow> int option result option" where
  "solve_loop c native stop header target batch k nonce =
     (if nonce < NONCE_LIMIT then
        if stop k then Some (Inr None)
        else
          (case scan_nonces c native header target nonce batch of
             Inl e \<Rightarrow> Some (Inl e)
           | Inr (Some found, _) \<Rightarrow> Some (Inr (Some found))
           | Inr (None, _) \<Rightarrow> solve_loop c native stop header target batch (Suc k) (nonce + batch))
      else Some (Inr None))"

definition solve_block :: "crypto \<Rightarrow> bool \<Rightarrow> (nat \<Rightarrow> bool) \<Rightarrow> block \<Rightarrow> int \<Rightarrow> int \<Rightarrow> block option result option" where
  "solve_block c native stop b start batch =
     (case bnd (bits_to_target (bh_bits (bk_header b))) (\<lambda>target.
           bnd (header_serialize (bk_header b)) (\<lambda>header. Inr (target, header))) of
        Inl e \<Rightarrow> Some (Inl e)
      | Inr (target, header) \<Rightarrow>
          map_option (\<lambda>r. bnd r (\<lambda>found.
            case found of
              None \<Rightarrow> Inr None
            | Some nonce \<Rightarrow>
                bnd (header_deserialize header) (\<lambda>h. bnd (with_nonce nonce h) (\<lambda>h. Inr (Some (with_header h b))))))
            (solve_loop c native stop header target batch 0 start))"

section \<open>What a scan finds\<close>

definition first_solution :: "crypto \<Rightarrow> bytes \<Rightarrow> int \<Rightarrow> int \<Rightarrow> int \<Rightarrow> int \<Rightarrow> bool" where
  "first_solution c stem target start stop nonce \<longleftrightarrow> start \<le> nonce \<and> nonce < stop \<and> solves c stem target nonce \<and>
     (\<forall>j \<in> {start ..< nonce}. \<not> solves c stem target j)"

lemma scan_loop_first:
  "scan_loop c stem target n start = Some nonce \<longleftrightarrow> first_solution c stem target start (start + int n) nonce"
  "scan_loop c stem target n start = None \<longleftrightarrow> (\<forall>j \<in> {start ..< start + int n}. \<not> solves c stem target j)"
proof (induction n arbitrary: start)
  case (Suc n)
  {
    case 1
    show ?case
    proof (cases "solves c stem target start")
      case True
      then show ?thesis by (force simp: first_solution_def)
    next
      case False
      have "first_solution c stem target start (start + int (Suc n)) nonce = first_solution c stem target (start + 1) (start + 1 + int n) nonce"
      proof (cases "start < nonce")
        case True
        then have "{start ..< nonce} = insert start {start + 1 ..< nonce}" by auto
        then show ?thesis using False True by (simp add: first_solution_def) (auto simp: algebra_simps)
      next
        case ge: False
        then show ?thesis using False by (cases "nonce = start") (auto simp: first_solution_def)
      qed
      then show ?thesis using False Suc(1) by simp
    qed
  next
    case 2
    have "{start ..< start + int (Suc n)} = insert start {start + 1 ..< start + 1 + int n}" by auto
    then show ?case by (simp only: scan_loop.simps) (simp add: Suc(2))
  }
qed (auto simp: first_solution_def)

lemma native_loop_agrees:
  assumes "0 \<le> start" "start + int m + int n \<le> 2 ^ 32"
  shows "native_loop c stem target (word_of_int start) n (word_of_int (int m)) =
    (case scan_loop c stem target n (start + int m) of None \<Rightarrow> -1 | Some nonce \<Rightarrow> nonce)"
  using assms(2)
proof (induction n arbitrary: m)
  case (Suc n)
  have "(word_of_int start + word_of_int (int m) :: 32 word) = word_of_int (start + int m)" by (simp only: of_int_add)
  then have "uint (word_of_int start + word_of_int (int m) :: 32 word) = start + int m"
    using Suc.prems assms(1) by (simp only: unsigned_of_int) (simp add: take_bit_int_eq_self)
  moreover have "(word_of_int (int m) :: 32 word) + 1 = word_of_int (int (Suc m))" by simp
  ultimately show ?case using Suc.IH [of "Suc m"] Suc.prems by (simp add: ac_simps)
qed simp

lemma native_scan_eq:
  assumes "0 \<le> start" "0 \<le> count" "start + count \<le> NONCE_LIMIT" "count < 2 ^ 32" "fits 32 target"
  shows "scan_nonces c True header target start count = scan_nonces c False header target start count"
proof -
  have "unat (word_of_int count :: 32 word) = nat count"
    using assms(2,4) by (simp add: unsigned_of_int take_bit_int_eq_self unat_eq_nat_uint)
  moreover have "native_loop c (take 76 header) target (word_of_int start) (nat count) (word_of_int (int 0)) =
      (case scan_loop c (take 76 header) target (nat count) (start + int 0) of None \<Rightarrow> -1 | Some nonce \<Rightarrow> nonce)"
    by (rule native_loop_agrees) (use assms in \<open>simp_all add: NONCE_LIMIT_def\<close>)
  moreover have "0 \<le> nonce" if "scan_loop c (take 76 header) target (nat count) start = Some nonce" for nonce
    using that assms(1) by (simp add: scan_loop_first first_solution_def)
  ultimately show ?thesis
    using assms by (auto simp: scan_nonces_def native_call_def native_scan_def Let_def bnd_def min_def NONCE_LIMIT_def split: option.split)
qed

text \<open>A scan that may use either scanner, on a range that fits.\<close>

lemma scan_noncesD:
  assumes "0 \<le> start" "0 \<le> count" "fits 32 target" "length header = 80"
    and "native \<Longrightarrow> start + count \<le> NONCE_LIMIT \<and> count < 2 ^ 32"
  obtains n k where "scan_nonces c native header target start count = Inr (n, k)"
    "case n of None \<Rightarrow> \<forall>j \<in> {start ..< min (start + count) NONCE_LIMIT}. \<not> solves c (take 76 header) target j
       | Some nonce \<Rightarrow> first_solution c (take 76 header) target start (min (start + count) NONCE_LIMIT) nonce"
proof -
  have eq: "scan_nonces c native header target start count = scan_nonces c False header target start count"
    using native_scan_eq [of start count target c header] assms by (cases native) auto
  define stop where "stop = min (start + count) NONCE_LIMIT"
  define r where "r = scan_loop c (take 76 header) target (nat (stop - start)) start"
  have range: "start + int (nat (stop - start)) = max start stop" by (simp add: max_def)
  have "scan_nonces c native header target start count =
      Inr (r, case r of None \<Rightarrow> stop - start | Some nonce \<Rightarrow> nonce - start + 1)"
    unfolding eq using assms(1,2,4)
    by (simp add: scan_nonces_def Let_def BLOCK_HEADER_SIZE_def r_def stop_def split: option.split)
  moreover have "case r of None \<Rightarrow> \<forall>j \<in> {start ..< stop}. \<not> solves c (take 76 header) target j
       | Some nonce \<Rightarrow> first_solution c (take 76 header) target start stop nonce"
    using scan_loop_first [of c "take 76 header" target "nat (stop - start)" start]
    unfolding range r_def [symmetric] by (auto simp: first_solution_def split: option.split)
  ultimately show thesis using that unfolding stop_def by blast
qed

text \<open>
  The two scanners agree. On a header and a target of the admissible sizes, and a range of nonces that fits the field, the
  C loop on 32-bit words and the Python loop find the same nonce, the first one that solves, or both find none, and they
  report the same number of hashes.
\<close>
theorem native_scan_agrees:
  assumes "0 \<le> start" "0 \<le> count" "start + count \<le> NONCE_LIMIT" "count < 2 ^ 32" "fits 32 target"
  shows "scan_nonces c True header target start count = scan_nonces c False header target start count"
  using assms by (rule native_scan_eq)

section \<open>What solving finds\<close>

lemma solve_loop_result:
  assumes "0 \<le> nonce" "1 \<le> batch" "fits 32 target" "length header = 80"
    and "native \<Longrightarrow> batch < 2 ^ 32 \<and> batch dvd NONCE_LIMIT - nonce"
  shows "\<exists>r. solve_loop c native stop header target batch k nonce = Some (Inr r) \<and>
    (case r of None \<Rightarrow> (\<exists>k. stop k) \<or> (\<forall>j \<in> {nonce ..< NONCE_LIMIT}. \<not> solves c (take 76 header) target j)
     | Some found \<Rightarrow> first_solution c (take 76 header) target nonce NONCE_LIMIT found)"
  using assms(1,5)
proof (induction "nat (NONCE_LIMIT - nonce)" arbitrary: nonce k rule: less_induct)
  case less
  show ?case
  proof (cases "nonce < NONCE_LIMIT \<and> \<not> stop k")
    case False
    then show ?thesis by (subst solve_loop.simps) auto
  next
    case True
    have fits: "native \<Longrightarrow> nonce + batch \<le> NONCE_LIMIT \<and> batch < 2 ^ 32"
      using less.prems True zdvd_imp_le [of batch "NONCE_LIMIT - nonce"] by auto
    have batch: "0 \<le> batch" using assms(2) by simp
    obtain n m where scan: "scan_nonces c native header target nonce batch = Inr (n, m)"
      "case n of None \<Rightarrow> \<forall>j \<in> {nonce ..< min (nonce + batch) NONCE_LIMIT}. \<not> solves c (take 76 header) target j
       | Some f \<Rightarrow> first_solution c (take 76 header) target nonce (min (nonce + batch) NONCE_LIMIT) f"
      by (rule scan_noncesD [OF less.prems(1) batch assms(3,4) fits])
    show ?thesis
    proof (cases n)
      case (Some f)
      then show ?thesis using True scan by (subst solve_loop.simps) (auto simp: first_solution_def)
    next
      case None
      have "nat (NONCE_LIMIT - (nonce + batch)) < nat (NONCE_LIMIT - nonce)" using True assms(2) by simp
      moreover have "native \<Longrightarrow> batch < 2 ^ 32 \<and> batch dvd NONCE_LIMIT - (nonce + batch)"
        using less.prems(2) by (metis diff_diff_eq dvd_diff dvd_refl)
      ultimately obtain r where r: "solve_loop c native stop header target batch (Suc k) (nonce + batch) = Some (Inr r)"
          "case r of None \<Rightarrow> (\<exists>k. stop k) \<or> (\<forall>j \<in> {nonce + batch ..< NONCE_LIMIT}. \<not> solves c (take 76 header) target j)
           | Some found \<Rightarrow> first_solution c (take 76 header) target (nonce + batch) NONCE_LIMIT found"
        using less.hyps [of "nonce + batch" "Suc k"] less.prems(1) assms(2) by auto
      have "solve_loop c native stop header target batch k nonce = Some (Inr r)"
        using True scan(1) None r(1) by (subst solve_loop.simps) simp
      moreover have "\<not> solves c (take 76 header) target j" if "nonce \<le> j" "j < nonce + batch" "j < NONCE_LIMIT" for j
        using that scan(2) None by simp
      ultimately show ?thesis using r(2) assms(2)
        by (cases r) (fastforce simp: first_solution_def not_less)+
    qed
  qed
qed

lemma header_deserialize_bytes: "wf_block_header h \<Longrightarrow> header_deserialize (header_bytes h) = Inr h"
  using bhdr.dec_enc [of h "[]"] by (simp add: header_deserialize_def length_header_bytes BLOCK_HEADER_SIZE_def)

lemma header_stem:
  assumes "wf_block_header h"
  shows "solves c (take 76 (header_bytes h)) target j \<longleftrightarrow> from_le (hash256 c (header_bytes (h\<lparr>bh_nonce := j\<rparr>))) \<le> target"
proof -
  have "take 76 (header_bytes h) @ to_le 4 j = header_bytes (h\<lparr>bh_nonce := j\<rparr>)"
    using assms by (simp add: header_bytes_def wf_block_header_def)
  then show ?thesis by (simp add: solves_def)
qed

text \<open>
  C15. Mining finds what there is to find. Let a block with a well-formed header and a decodable target be searched from a
  nonce on, in batches of at least one nonce (a power of two of them, say, if the C scanner is in use). The search ends. If
  it gives a block, then that is the block with another nonce, its header meets the target and passes the proof-of-work check
  of every chain whose limit allows the target, and no nonce before it does. If it gives none, it was told to stop, or
  no nonce from the start on meets the target.
\<close>
theorem solve_block_finds:
  assumes "crypto_ok c" "block_ok b" "bits_to_target (bh_bits (bk_header b)) = Inr target" "0 \<le> start" "1 \<le> batch"
    and "native \<Longrightarrow> batch < 2 ^ 32 \<and> batch dvd NONCE_LIMIT - start"
  shows "\<exists>r. solve_block c native stop b start batch = Some (Inr r) \<and>
    (case r of
       None \<Rightarrow> (\<exists>k. stop k) \<or>
         (\<forall>j \<in> {start ..< NONCE_LIMIT}. target < from_le (header_hash c ((bk_header b)\<lparr>bh_nonce := j\<rparr>)))
     | Some b' \<Rightarrow> (\<exists>nonce \<in> {start ..< NONCE_LIMIT}. b' = with_header ((bk_header b)\<lparr>bh_nonce := nonce\<rparr>) b \<and>
         from_le (block_hash c b') \<le> target \<and>
         (\<forall>j \<in> {start ..< nonce}. target < from_le (header_hash c ((bk_header b)\<lparr>bh_nonce := j\<rparr>))) \<and>
         (\<forall>limit \<ge> target. target = 0 \<or> header_check_proof_of_work c limit (bk_header b') = Inr True)))"
proof -
  let ?h = "bk_header b"
  have wf: "wf_block_header ?h" using assms(2) by (simp add: block_ok_def)
  have wf_nonce: "wf_block_header (?h\<lparr>bh_nonce := j\<rparr>)" if "j \<in> {start ..< NONCE_LIMIT}" for j
    using wf that assms(4) by (simp add: wf_block_header_def fits_def NONCE_LIMIT_def)
  have hash: "header_hash c (?h\<lparr>bh_nonce := j\<rparr>) = hash256 c (header_bytes (?h\<lparr>bh_nonce := j\<rparr>))" if "j \<in> {start ..< NONCE_LIMIT}" for j
    using wf_nonce [OF that] by (simp add: header_hash_def)
  have target: "fits 32 target" "0 \<le> target" using bits_to_target_bounds [OF assms(3)] by (simp_all add: fits_def)
  obtain r where r: "solve_loop c native stop (header_bytes ?h) target batch 0 start = Some (Inr r)"
      "case r of None \<Rightarrow> (\<exists>k. stop k) \<or> (\<forall>j \<in> {start ..< NONCE_LIMIT}. \<not> solves c (take 76 (header_bytes ?h)) target j)
       | Some found \<Rightarrow> first_solution c (take 76 (header_bytes ?h)) target start NONCE_LIMIT found"
    using solve_loop_result [where c = c and stop = stop and k = 0, OF assms(4,5) target(1) length_header_bytes [OF wf] assms(6)] by blast
  have unsolved: "\<not> solves c (take 76 (header_bytes ?h)) target j \<longleftrightarrow> target < from_le (header_hash c (?h\<lparr>bh_nonce := j\<rparr>))"
    if "j \<in> {start ..< NONCE_LIMIT}" for j
    using header_stem [OF wf] hash [OF that] by (simp add: not_le)
  have solve: "solve_block c native stop b start batch = Some (case r of None \<Rightarrow> Inr None
      | Some nonce \<Rightarrow> bnd (with_nonce nonce ?h) (\<lambda>h. Inr (Some (with_header h b))))"
  proof -
    have "header_serialize ?h = Inr (header_bytes ?h)" using wf by (simp add: header_serialize_iff)
    then have "solve_block c native stop b start batch = map_option (\<lambda>r. bnd r (\<lambda>found.
        case found of None \<Rightarrow> Inr None | Some nonce \<Rightarrow> bnd (with_nonce nonce ?h) (\<lambda>h. Inr (Some (with_header h b))))) (Some (Inr r))"
      unfolding solve_block_def assms(3) by (simp add: bnd_def r(1) header_deserialize_bytes [OF wf] cong: option.case_cong)
    then show ?thesis by (simp add: bnd_def)
  qed
  show ?thesis
  proof (cases r)
    case None
    then show ?thesis using r(2) unsolved by (auto simp: solve)
  next
    case (Some nonce)
    then have first: "nonce \<in> {start ..< NONCE_LIMIT}" "solves c (take 76 (header_bytes ?h)) target nonce"
        "\<forall>j \<in> {start ..< nonce}. \<not> solves c (take 76 (header_bytes ?h)) target j"
      using r(2) by (auto simp: first_solution_def)
    have meets: "from_le (header_hash c (?h\<lparr>bh_nonce := nonce\<rparr>)) \<le> target"
      using unsolved [OF first(1)] first(2) by simp
    have "header_check_proof_of_work c limit (?h\<lparr>bh_nonce := nonce\<rparr>) = Inr True" if "target \<le> limit" "target \<noteq> 0" for limit
      using that target(2) assms(3) meets length_hash256 [OF assms(1)]
      by (simp add: header_check_proof_of_work_def check_proof_of_work_iff header_hash_def)
    moreover have "with_nonce nonce ?h = Inr (?h\<lparr>bh_nonce := nonce\<rparr>)"
      using wf_nonce [OF first(1)] by (simp add: with_nonce_def mk_block_header_iff)
    moreover have "target < from_le (header_hash c (?h\<lparr>bh_nonce := j\<rparr>))" if "j \<in> {start ..< nonce}" for j
      using unsolved [of j] first that by auto
    ultimately show ?thesis
      using first(1) meets Some by (auto simp: solve bnd_def with_header_def block_hash_def intro!: bexI [of _ nonce])
  qed
qed

section \<open>Witnesses\<close>

theorem native_scan_agrees_witness:
  "scan_nonces demo_crypto True (replicate 80 0) (2 ^ 255) 5 7 = scan_nonces demo_crypto False (replicate 80 0) (2 ^ 255) 5 7"
  by (rule native_scan_agrees) (simp_all add: NONCE_LIMIT_def fits_def)

text \<open>The block of \<open>demo_block\<close>, searched by the C scanner in batches of four.\<close>

theorem solve_block_finds_witness:
  "\<exists>b. solve_block demo_crypto True (\<lambda>_. False) demo_block 0 4 = Some (Inr (Some b)) \<and>
     header_check_proof_of_work demo_crypto (2 ^ 224) (bk_header b) = Inr True"
proof -
  have t: "bits_to_target (bh_bits (bk_header demo_block)) = Inr (0xffff * 2 ^ 208)"
    using demo_target by (simp add: demo_block_def)
  have "True \<Longrightarrow> (4 :: int) < 2 ^ 32 \<and> 4 dvd NONCE_LIMIT - 0" by (simp add: NONCE_LIMIT_def)
  from solve_block_finds [where native = True and stop = "\<lambda>_. False", OF demo_crypto_ok demo_block_ok t order_refl _ this]
  obtain r where r: "solve_block demo_crypto True (\<lambda>_. False) demo_block 0 4 = Some (Inr r)"
      "r = None \<Longrightarrow> (0xffff * 2 ^ 208 :: int) < from_le (header_hash demo_crypto ((bk_header demo_block)\<lparr>bh_nonce := 0\<rparr>))"
      "\<And>b. r = Some b \<Longrightarrow> header_check_proof_of_work demo_crypto (2 ^ 224) (bk_header b) = Inr True"
    by (fastforce simp: NONCE_LIMIT_def split: option.splits)
  moreover have "from_le (header_hash demo_crypto ((bk_header demo_block)\<lparr>bh_nonce := 0\<rparr>)) < 16777213"
    unfolding header_hash_def by (rule from_le_demo_hash)
  ultimately show ?thesis by (cases r) auto
qed

end
